(* ===== verification/Prelude.thy ===== *)
theory Prelude
  imports Main "HOL-Library.Word" "HOL-Library.AList" "HOL-Library.Multiset"
    "HOL-Library.List_Lexorder" "HOL-Library.Signed_Division"
begin

text \<open>
  The shared vocabulary of the development: Go's machine integers as words, byte slices,
  errors as values, Go maps as association lists with distinct keys, and the generic lemmas
  the component theories use.

  \<^item> \<open>int64\<close>, \<open>int32\<close>, \<open>int16\<close> and \<open>uint8\<close> are words of that width. Arithmetic wraps, as in Go;
    a signed comparison of the source is written on \<open>sint\<close>, an unsigned one on \<open>uint\<close>/\<open>unat\<close>.
  \<^item> A Go \<open>error\<close> is a value of \<open>err\<close>: \<open>Errorf\<close> with the head of the message the source
    formats, one constructor per sentinel error, and \<open>Panic\<close> for a run-time panic.
  \<^item> A fallible pure function returns \<open>err + 'a\<close>; a procedure that changes state returns
    \<open>err option \<times> 's\<close>, because Go keeps the changes made before an error.
  \<^item> A Go map is an association list whose keys are distinct. Go iterates over a map in an
    unspecified order, so a result is a function of the map only when it does not change under
    permutations of the list; the components prove this where the source relies on it.
\<close>

named_theorems codec_simps \<open>round trips of the byte encodings\<close>
named_theorems gomap_simps \<open>lookup, update and delete of Go maps\<close>
named_theorems supply_simps \<open>how the operations move the sums of balances\<close>

type_synonym byte = "8 word"
type_synonym bytes = "byte list"
type_synonym int64 = "64 word"
type_synonym int32 = "32 word"
type_synonym int16 = "16 word"
type_synonym uint8 = "8 word"

datatype err =
    Errorf string
  | Panic string
  | ErrEscrowAlreadyMatured
  | ErrDeployFromRestrictedAccount
  | ErrDexLimitExceeded

type_synonym 'a res = "err + 'a"
type_synonym 's cmd = "'s \<Rightarrow> err option \<times> 's"

definition bindR :: "'a res \<Rightarrow> ('a \<Rightarrow> 'b res) \<Rightarrow> 'b res" where
  "bindR r f = (case r of Inl e \<Rightarrow> Inl e | Inr a \<Rightarrow> f a)"

lemma bindR_simps [simp]:
  "bindR (Inl e) f = Inl e"
  "bindR (Inr a) f = f a"
  by (simp_all add: bindR_def)

lemma bindR_eq_Inr: "bindR r f = Inr b \<longleftrightarrow> (\<exists>a. r = Inr a \<and> f a = Inr b)"
  by (cases r) auto

lemma bindR_eq_Inl: "bindR r f = Inl e \<longleftrightarrow> r = Inl e \<or> (\<exists>a. r = Inr a \<and> f a = Inl e)"
  by (cases r) auto

text \<open>Sequencing of two procedures: the second runs only when the first returned no error.\<close>

definition then_ok :: "'s cmd \<Rightarrow> 's cmd \<Rightarrow> 's cmd" where
  "then_ok c d s = (case c s of (Some e, s') \<Rightarrow> (Some e, s') | (None, s') \<Rightarrow> d s')"

lemma then_ok_None:
  "then_ok c d s = (None, t) \<longleftrightarrow> (\<exists>s'. c s = (None, s') \<and> d s' = (None, t))"
  by (auto simp: then_ok_def split: prod.splits option.splits)

subsection \<open>Go maps\<close>

type_synonym ('k, 'v) gomap = "('k \<times> 'v) list"

abbreviation wf_map :: "('k, 'v) gomap \<Rightarrow> bool" where
  "wf_map m \<equiv> distinct (map fst m)"

abbreviation mput :: "'k \<Rightarrow> 'v \<Rightarrow> ('k, 'v) gomap \<Rightarrow> ('k, 'v) gomap" where
  "mput \<equiv> AList.update"

abbreviation mdel :: "'k \<Rightarrow> ('k, 'v) gomap \<Rightarrow> ('k, 'v) gomap" where
  "mdel \<equiv> AList.delete"

text \<open>Reading a missing key of a Go map gives the zero value of the element type.\<close>

definition mget :: "'v \<Rightarrow> ('k, 'v) gomap \<Rightarrow> 'k \<Rightarrow> 'v" where
  "mget z m k = (case map_of m k of None \<Rightarrow> z | Some v \<Rightarrow> v)"

lemma map_of_mput [simp, gomap_simps]: "map_of (mput k v m) = (map_of m)(k \<mapsto> v)"
  by (rule update_conv')

lemma map_of_mdel [gomap_simps]: "map_of (mdel k m) = (map_of m)(k := None)"
  by (rule delete_conv')

lemma mget_mput [simp]: "mget z (mput k v m) k' = (if k' = k then v else mget z m k')"
  by (simp add: mget_def)

lemma wf_mput [simp]: "wf_map m \<Longrightarrow> wf_map (mput k v m)"
  by (rule distinct_update)

lemma wf_mdel [simp]: "wf_map m \<Longrightarrow> wf_map (mdel k m)"
  by (rule distinct_delete)

lemma wf_map_filter: "wf_map m \<Longrightarrow> wf_map (filter P m)"
  by (induction m) auto

lemma set_mput: "wf_map m \<Longrightarrow> set (mput k v m) = {kv \<in> set m. fst kv \<noteq> k} \<union> {(k, v)}"
  by (induction m) (auto simp: image_iff)

lemma set_mputD: "kv \<in> set (mput k v m) \<Longrightarrow> kv = (k, v) \<or> kv \<in> set m"
  by (induction m) (auto split: if_splits)

text \<open>Two association lists with distinct keys stand for the same Go map when they agree as
  maps; then each is a permutation of the other.\<close>

lemma wf_map_mset_eq:
  assumes "wf_map m" "wf_map m'" "map_of m = map_of m'"
  shows "mset m = mset m'"
proof -
  have "distinct m" "distinct m'"
    using assms by (auto simp: distinct_map)
  moreover have "set m = set m'"
    unfolding set_map_of_compr [OF assms(1)] set_map_of_compr [OF assms(2)] assms(3) ..
  ultimately show ?thesis
    by (simp add: set_eq_iff_mset_eq_distinct)
qed

subsection \<open>Sums over Go maps\<close>

definition msum :: "('v \<Rightarrow> 'a::ab_group_add) \<Rightarrow> ('k, 'v) gomap \<Rightarrow> 'a" where
  "msum f m = sum_list (map (f \<circ> snd) m)"

lemma msum_Nil [simp]: "msum f [] = 0"
  by (simp add: msum_def)

lemma msum_Cons [simp]: "msum f (kv # m) = f (snd kv) + msum f m"
  by (simp add: msum_def)

lemma msum_mput [supply_simps]:
  assumes "wf_map m" and "f z = 0"
  shows "msum f (mput k v m) = msum f m - f (mget z m k) + f v"
  using assms(1)
proof (induction m)
  case Nil
  then show ?case by (simp add: mget_def assms(2))
next
  case (Cons kv m)
  have "map_of m k = None" if "fst kv = k"
    using Cons.prems that by (auto simp: map_of_eq_None_iff)
  then show ?case
    using Cons by (cases kv) (auto simp: mget_def algebra_simps)
qed

lemma msum_perm: "mset m = mset m' \<Longrightarrow> msum f m = msum f m'"
  unfolding msum_def by (metis mset_map sum_mset_sum_list)

subsection \<open>Little- and big-endian encodings\<close>

text \<open>\<open>encoding/binary\<close>'s \<open>PutUint\<close>: \<open>put_le n w\<close> are the \<open>n\<close> low bytes of \<open>w\<close>, least
  significant first; \<open>get_le\<close> reads them back.\<close>

fun put_le :: "nat \<Rightarrow> 'a::len word \<Rightarrow> bytes" where
  "put_le 0 w = []"
| "put_le (Suc n) w = ucast w # put_le n (drop_bit 8 w)"

fun get_le :: "bytes \<Rightarrow> 'a::len word" where
  "get_le [] = 0"
| "get_le (b # bs) = or (ucast b) (push_bit 8 (get_le bs))"

lemma length_put_le [simp]: "length (put_le n w) = n"
  by (induction n arbitrary: w) auto

lemma put_le_eq_Nil [simp]: "put_le n w = [] \<longleftrightarrow> n = 0"
  by (metis length_0_conv length_put_le)

lemma get_le_put_le: "get_le (put_le n w) = take_bit (8 * n) (w :: 'a::len word)"
proof (induction n arbitrary: w)
  case 0
  then show ?case by simp
next
  case (Suc n)
  show ?case
  proof (rule bit_word_eqI)
    fix i assume "i < LENGTH('a)"
    then show "bit (get_le (put_le (Suc n) w) :: 'a word) i = bit (take_bit (8 * Suc n) w) i"
      by (cases "i < 8") (simp_all add: Suc bit_simps, arith?)
  qed
qed

text \<open>The big-endian variants are the same bytes in the opposite order.\<close>

definition put_be :: "nat \<Rightarrow> 'a::len word \<Rightarrow> bytes" where
  "put_be n w = rev (put_le n w)"

definition get_be :: "bytes \<Rightarrow> 'a::len word" where
  "get_be bs = get_le (rev bs)"

lemma length_put_be [simp]: "length (put_be n w) = n"
  by (simp add: put_be_def)

lemma get_be_put_be: "get_be (put_be n w) = take_bit (8 * n) (w :: 'a::len word)"
  by (simp add: put_be_def get_be_def get_le_put_le)

lemma get_le_put_le_id [simp, codec_simps]:
  "LENGTH('a) \<le> 8 * n \<Longrightarrow> get_le (put_le n w) = (w :: 'a::len word)"
  by (simp add: get_le_put_le take_bit_word_eq_self)

lemma get_be_put_be_id [simp, codec_simps]:
  "LENGTH('a) \<le> 8 * n \<Longrightarrow> get_be (put_be n w) = (w :: 'a::len word)"
  by (simp add: get_be_put_be take_bit_word_eq_self)

subsection \<open>Bounds-checked slices\<close>

text \<open>\<open>bs[i:j]\<close>, \<open>bs[n:]\<close> and \<open>bs[i]\<close> with the panic of the source when a bound is outside the
  slice.\<close>

definition sliceR :: "nat \<Rightarrow> nat \<Rightarrow> 'a list \<Rightarrow> 'a list res" where
  "sliceR i j bs = (if i \<le> j \<and> j \<le> length bs then Inr (take (j - i) (drop i bs))
     else Inl (Panic ''slice bounds out of range''))"

definition tailR :: "nat \<Rightarrow> 'a list \<Rightarrow> 'a list res" where
  "tailR n bs = (if n \<le> length bs then Inr (drop n bs) else Inl (Panic ''slice bounds out of range''))"

definition indexR :: "'a list \<Rightarrow> nat \<Rightarrow> 'a res" where
  "indexR bs i = (if i < length bs then Inr (bs ! i) else Inl (Panic ''index out of range''))"

lemma sliceR_ok [simp]: "i \<le> j \<Longrightarrow> j \<le> length bs \<Longrightarrow> sliceR i j bs = Inr (take (j - i) (drop i bs))"
  by (simp add: sliceR_def)

lemma tailR_ok [simp]: "n \<le> length bs \<Longrightarrow> tailR n bs = Inr (drop n bs)"
  by (simp add: tailR_def)

lemma indexR_ok [simp]: "i < length bs \<Longrightarrow> indexR bs i = Inr (bs ! i)"
  by (simp add: indexR_def)

text \<open>The loop that reads \<open>n\<close> items of \<open>w\<close> bytes each and returns them with the bytes left.\<close>

fun readN :: "nat \<Rightarrow> nat \<Rightarrow> 'a list \<Rightarrow> ('a list list \<times> 'a list) res" where
  "readN w 0 d = Inr ([], d)"
| "readN w (Suc n) d =
    bindR (sliceR 0 w d) (\<lambda>x. bindR (tailR w d) (\<lambda>d'.
    bindR (readN w n d') (\<lambda>(xs, r). Inr (x # xs, r))))"

lemma readN_concat [simp]:
  "\<forall>x \<in> set xs. length x = w \<Longrightarrow> n = length xs \<Longrightarrow> readN w n (concat xs @ r) = Inr (xs, r)"
  by (induction xs arbitrary: n) simp_all

lemma readN_total: "n * w \<le> length d \<Longrightarrow>
  \<exists>xs. readN w n d = Inr (xs, drop (n * w) d) \<and> length xs = n \<and> (\<forall>x \<in> set xs. length x = w)"
proof (induction n arbitrary: d)
  case (Suc n)
  then have "n * w \<le> length (drop w d)"
    by simp
  from Suc.IH [OF this] obtain xs where "readN w n (drop w d) = Inr (xs, drop (n * w) (drop w d))"
      "length xs = n" "\<forall>x \<in> set xs. length x = w"
    by blast
  with Suc.prems show ?case
    by (auto simp: add.commute)
qed simp

subsection \<open>Counts and sorted keys\<close>

lemma sint_of_nat_id [simp]:
  "n < 2 ^ (LENGTH('a) - 1) \<Longrightarrow> sint (word_of_nat n :: 'a::len word) = int n"
  by (simp add: signed_of_nat signed_take_bit_int_eq_self order.trans [of _ 0])

lemma sint_of_nat_id64: "n < 9223372036854775808 \<Longrightarrow> sint (word_of_nat n :: int64) = int n"
  by simp

lemma mput_append: "k \<notin> fst ` set m \<Longrightarrow> mput k v m = m @ [(k, v)]"
  by (induction m) auto

text \<open>The pairs of a map in the order of their keys, as the code writes them after sorting the
  keys of the map.\<close>

lemma sorted_pairs_mset:
  assumes "wf_map m"
  shows "mset (map (\<lambda>k. (k, the (map_of m k))) (sort_key f (map fst m))) = mset m"
proof -
  have "map (\<lambda>k. (k, the (map_of m k))) (map fst m) = m"
    unfolding map_map using assms by (intro map_idI) auto
  then show ?thesis
    by (metis mset_map mset_sort)
qed

lemma map_of_perm:
  assumes "wf_map m" "mset m = mset m'"
  shows "map_of m' = map_of m"
proof -
  have "wf_map m'"
    using assms by (metis distinct_count_atmost_1 mset_map mset_eq_imp_distinct_iff)
  then show ?thesis
    using assms by (metis map_of_inject_set mset_eq_setD)
qed

lemma sorted_pairs_map_of:
  assumes "wf_map m"
  shows "map_of (map (\<lambda>k. (k, the (map_of m k))) (sort_key f (map fst m))) = map_of m"
  using map_of_perm [OF assms] sorted_pairs_mset [OF assms] by metis

subsection \<open>Absence of panics\<close>

definition no_panic :: "'a res \<Rightarrow> bool" where
  "no_panic r \<longleftrightarrow> (\<forall>m. r \<noteq> Inl (Panic m))"

lemma no_panic_simps [simp]: "no_panic (Inr a)" "no_panic (Inl (Errorf s))"
  by (simp_all add: no_panic_def)

lemma no_panic_bindR:
  "no_panic r \<Longrightarrow> (\<And>a. r = Inr a \<Longrightarrow> no_panic (f a)) \<Longrightarrow> no_panic (bindR r f)"
  by (cases r) (auto simp: no_panic_def)

lemma no_panic_sliceR: "i \<le> j \<Longrightarrow> j \<le> length bs \<Longrightarrow> no_panic (sliceR i j bs)"
  by simp

lemma no_panic_tailR: "n \<le> length bs \<Longrightarrow> no_panic (tailR n bs)"
  by simp

lemma tailR_Inr: "tailR n bs = Inr d \<Longrightarrow> length d = length bs - n"
  by (auto simp: tailR_def split: if_splits)

lemma sliceR_Inr: "sliceR i j bs = Inr d \<Longrightarrow> length d = j - i"
  by (auto simp: sliceR_def split: if_splits)

lemma no_panic_readN: "n * w \<le> length d \<Longrightarrow> no_panic (readN w n d)"
  using readN_total [of n w d] by auto

subsection \<open>Signed arithmetic without overflow\<close>

lemma sint_inject: "sint (a :: 'a::len word) = sint b \<longleftrightarrow> a = b"
  by (auto intro: signed_word_eqI)

lemma sint_range64: "- (2 ^ 63) \<le> sint (a :: int64)" "sint (a :: int64) < 2 ^ 63"
  using sint_ge [of a] sint_lt [of a] by simp_all

lemma sint_add64:
  "- (2 ^ 63) \<le> sint a + sint b \<Longrightarrow> sint a + sint b < 2 ^ 63 \<Longrightarrow> sint (a + b :: int64) = sint a + sint b"
  by (simp add: sint_word_ariths signed_take_bit_int_eq_self)

lemma sint_diff64:
  "- (2 ^ 63) \<le> sint a - sint b \<Longrightarrow> sint a - sint b < 2 ^ 63 \<Longrightarrow> sint (a - b :: int64) = sint a - sint b"
  by (simp add: sint_word_ariths signed_take_bit_int_eq_self)

lemma sint_mult64:
  "- (2 ^ 63) \<le> sint a * sint b \<Longrightarrow> sint a * sint b < 2 ^ 63 \<Longrightarrow> sint (a * b :: int64) = sint a * sint b"
  by (simp add: sint_word_ariths signed_take_bit_int_eq_self)

subsection \<open>Sums over an array\<close>

lemma sum_list_upt_fun_upd:
  fixes f :: "'b \<Rightarrow> 'a::ab_group_add"
  assumes "d < n"
  shows "sum_list (map (\<lambda>i. f ((s(d := v)) i)) [0..<n])
    = sum_list (map (\<lambda>i. f (s i)) [0..<n]) - f (s d) + f v"
proof -
  have "sum (\<lambda>i. f ((s(d := v)) i)) {0..<n} = f v + sum (\<lambda>i. f (s i)) ({0..<n} - {d})"
    using assms by (subst sum.remove [of _ d]) auto
  moreover have "sum (\<lambda>i. f (s i)) {0..<n} = f (s d) + sum (\<lambda>i. f (s i)) ({0..<n} - {d})"
    using assms by (subst sum.remove [of _ d]) auto
  ultimately show ?thesis
    by (simp add: interv_sum_list_conv_sum_set_nat)
qed

text \<open>Go's division truncates towards zero; dividing the least number by -1 wraps.\<close>

definition go_div :: "'a::len word \<Rightarrow> 'a word \<Rightarrow> 'a word" where
  "go_div a b = word_of_int (sint a sdiv sint b)"

definition go_mod :: "'a::len word \<Rightarrow> 'a word \<Rightarrow> 'a word" where
  "go_mod a b = word_of_int (sint a smod sint b)"

end
