(* ===== verification/Common.thy ===== *)
theory Common
  imports Prelude
begin

text \<open>
  The package \<open>common\<close>: addresses, hashes, keys and signatures as byte values
  (\<open>common/types.go\<close>, \<open>common/typeAddress.go\<close>), the integer and length-prefixed codecs
  (\<open>common/types.go\<close>, \<open>common/helper.go\<close>), the two signature-scheme slots
  (\<open>EncryptionConfig\<close>), the parameters of \<open>common/const.go\<close>, the node's view of the network
  height (\<open>common/variables.go\<close>) and the hash preimages of key recovery
  (\<open>common/recovery.go\<close>).

  BLAKE2b is an argument \<open>H160\<close>/\<open>H256\<close> of the definitions that hash. The consensus parameters
  are the values of \<open>common/const.go\<close>, which the shipped \<open>genesis.json\<close> repeats.
\<close>

subsection \<open>Parameters\<close>

abbreviation (input) AddressLength :: nat where "AddressLength \<equiv> 20"
abbreviation (input) HashLength :: nat where "HashLength \<equiv> 32"
abbreviation (input) MaxTotalSupply :: int64 where "MaxTotalSupply \<equiv> 230000000000000000"
abbreviation (input) MinNumberOfBlocksInStake :: int64 where "MinNumberOfBlocksInStake \<equiv> 36"
abbreviation (input) MaxBlockForwardInTime :: int64 where "MaxBlockForwardInTime \<equiv> 15"
abbreviation (input) MaxGasUsage :: int64 where "MaxGasUsage \<equiv> 13700000"
abbreviation (input) MaxGasPrice :: int64 where "MaxGasPrice \<equiv> 100000"
abbreviation (input) MaxTransactionsPerBlock :: int16 where "MaxTransactionsPerBlock \<equiv> 5000"
abbreviation (input) MaxGasUsagePerBlock :: int64 where "MaxGasUsagePerBlock \<equiv> 150000000"
abbreviation (input) MaxTransactionInPool :: nat where "MaxTransactionInPool \<equiv> 50000"
abbreviation (input) MaxNumberOfTxBans :: nat where "MaxNumberOfTxBans \<equiv> 50"
abbreviation (input) NumberWhenWillBan :: nat where "NumberWhenWillBan \<equiv> 100"
abbreviation (input) MinStakingForNode :: int64 where "MinStakingForNode \<equiv> 100000000000000"
abbreviation (input) MinStakingUser :: int64 where "MinStakingUser \<equiv> 100000000000"
abbreviation (input) OraclesHeightDistance :: int64 where "OraclesHeightDistance \<equiv> 6"
abbreviation (input) VotingHeightDistance :: int64 where "VotingHeightDistance \<equiv> 60"
abbreviation (input) MaxTransactionDelay :: int64 where "MaxTransactionDelay \<equiv> 60480"
abbreviation (input) MaxTransactionAgeBlocks :: int64 where "MaxTransactionAgeBlocks \<equiv> 8640"
abbreviation (input) RandaoCommitExpiry :: int64 where "RandaoCommitExpiry \<equiv> 8640"
abbreviation (input) DexTokenCallGas :: int64 where "DexTokenCallGas \<equiv> 210000"
abbreviation (input) EVMGasEstimateHeadroom :: int64 where "EVMGasEstimateHeadroom \<equiv> 10"
abbreviation (input) MaxTransactionInMultiSigPool :: int64 where "MaxTransactionInMultiSigPool \<equiv> 60480"
abbreviation (input) SyncedTolerance :: int64 where "SyncedTolerance \<equiv> 4"
abbreviation (input) MaxKeysPerIdentity :: nat where "MaxKeysPerIdentity \<equiv> 32"
abbreviation (input) SnapshotRetentionBlocks :: int64 where "SnapshotRetentionBlocks \<equiv> 4320"
abbreviation (input) SnapshotCheckpointInterval :: int64 where "SnapshotCheckpointInterval \<equiv> 8640"
abbreviation (input) StakingDetailsRetentionBlocks :: int64 where "StakingDetailsRetentionBlocks \<equiv> 8640"
abbreviation (input) RecoveryCommitMaturityBlocks :: int64 where "RecoveryCommitMaturityBlocks \<equiv> 60480"
abbreviation (input) RecoveryBindDelayBlocks :: int64 where "RecoveryBindDelayBlocks \<equiv> 360"
abbreviation (input) RecoveryBindExpiryBlocks :: int64 where "RecoveryBindExpiryBlocks \<equiv> 120960"
abbreviation (input) RecoverySecretLength :: nat where "RecoverySecretLength \<equiv> 32"

text \<open>The two-byte prefixes that partition the key space of the database, in the order
  \<open>common/const.go\<close> declares them.\<close>

definition db_prefixes :: "string list" where
  "db_prefixes =
    [''BI'', ''MS'', ''HB'', ''W0'', ''PK'', ''PM'', ''CX'', ''MK'', ''RK'', ''BK'', ''BH'', ''RH'',
     ''MM'', ''NN'', ''RR'', ''TT'', ''IX'', ''PJ'', ''PR'', ''D0'', ''E0'', ''S0'', ''AC'', ''SA'',
     ''O0'', ''Z0'', ''C0'', ''EV'', ''TD'', ''DA'', ''SC'', ''BT'', ''EP'', ''MP'', ''EJ'', ''HS'',
     ''HR'']"

subsection \<open>Integer codecs\<close>

definition GetByteInt64 :: "int64 \<Rightarrow> bytes" where "GetByteInt64 u = put_le 8 u"
definition GetByteInt32 :: "int32 \<Rightarrow> bytes" where "GetByteInt32 u = put_le 4 u"
definition GetByteInt16 :: "int16 \<Rightarrow> bytes" where "GetByteInt16 u = put_le 2 u"

text \<open>\<open>binary.LittleEndian.Uint64\<close> and its siblings read the first bytes of the slice and
  panic when it is too short.\<close>

definition GetInt64FromByte :: "bytes \<Rightarrow> int64 res" where
  "GetInt64FromByte bs =
    (if length bs < 8 then Inl (Panic ''index out of range'') else Inr (get_le (take 8 bs)))"

definition GetInt32FromByte :: "bytes \<Rightarrow> int32 res" where
  "GetInt32FromByte bs =
    (if length bs < 4 then Inl (Panic ''index out of range'') else Inr (get_le (take 4 bs)))"

definition GetInt16FromByte :: "bytes \<Rightarrow> int16 res" where
  "GetInt16FromByte bs =
    (if length bs < 2 then Inl (Panic ''index out of range'') else Inr (get_le (take 2 bs)))"

definition BoolToByte :: "bool \<Rightarrow> byte" where
  "BoolToByte b = (if b then 1 else 0)"

subsection \<open>Length-prefixed byte strings\<close>

definition BytesToLenAndBytes :: "bytes \<Rightarrow> bytes" where
  "BytesToLenAndBytes b = put_be 4 (word_of_nat (length b) :: int32) @ b"

definition BytesWithLenToBytes :: "bytes \<Rightarrow> (bytes \<times> bytes) res" where
  "BytesWithLenToBytes b =
    (if length b < 4 then Inl (Errorf ''input byte slice is too short'')
     else let lb = unat (get_be (take 4 b) :: int32) in
       if int lb > int (length b) - 4 then Inl (Errorf ''length value in byte slice is incorrect'')
       else Inr (take lb (drop 4 b), drop (4 + lb) b))"

subsection \<open>Addresses\<close>

record Address =
  addr_ByteValue :: bytes
  addr_Primary :: bool

definition zero_Address :: Address where
  "zero_Address = \<lparr>addr_ByteValue = replicate AddressLength 0, addr_Primary = False\<rparr>"

definition wf_Address :: "Address \<Rightarrow> bool" where
  "wf_Address a \<longleftrightarrow> length (addr_ByteValue a) = AddressLength"

definition Address_Init :: "Address \<Rightarrow> bytes \<Rightarrow> Address res" where
  "Address_Init a b =
    (if length b \<noteq> AddressLength \<and> length b \<noteq> AddressLength + 1
     then Inl (Errorf ''error Address initialization with wrong length'')
     else if length b = AddressLength + 1
     then Inr \<lparr>addr_ByteValue = drop 1 b, addr_Primary = (b ! 0 = 0)\<rparr>
     else Inr \<lparr>addr_ByteValue = b, addr_Primary = True\<rparr>)"

definition BytesToAddress :: "bytes \<Rightarrow> Address res" where
  "BytesToAddress b = Address_Init zero_Address b"

definition Address_GetBytesWithPrimary :: "Address \<Rightarrow> bytes" where
  "Address_GetBytesWithPrimary a = (if addr_Primary a then 0 else 1) # addr_ByteValue a"

definition EmptyAddress :: Address where
  "EmptyAddress = (case Address_Init zero_Address (replicate (AddressLength + 1) 0) of
      Inl _ \<Rightarrow> zero_Address | Inr a \<Rightarrow> a)"

definition PubKeyToAddress :: "(bytes \<Rightarrow> bytes) \<Rightarrow> bytes \<Rightarrow> bool \<Rightarrow> Address res" where
  "PubKeyToAddress H160 pb primary = BytesToAddress ((if primary then 0 else 1) # H160 pb)"

definition LeftPadBytes :: "bytes \<Rightarrow> nat \<Rightarrow> bytes" where
  "LeftPadBytes sl l =
    (if l \<le> length sl then sl else replicate (l - length sl) 0 @ sl)"

definition RightPadBytes :: "bytes \<Rightarrow> nat \<Rightarrow> bytes" where
  "RightPadBytes sl l =
    (if l \<le> length sl then sl else sl @ replicate (l - length sl) 0)"

fun TrimLeftZeroes :: "bytes \<Rightarrow> bytes" where
  "TrimLeftZeroes [] = []"
| "TrimLeftZeroes (b # s) = (if b \<noteq> 0 then b # s else TrimLeftZeroes s)"

definition TrimRightZeroes :: "bytes \<Rightarrow> bytes" where
  "TrimRightZeroes s = rev (TrimLeftZeroes (rev s))"

definition Address_SetBytes :: "Address \<Rightarrow> bytes \<Rightarrow> Address" where
  "Address_SetBytes a b =
    (let b = (if length b > AddressLength then drop (length b - AddressLength) b else b);
         b = (if length b < AddressLength then LeftPadBytes b AddressLength else b)
     in case Address_Init a b of Inl _ \<Rightarrow> a | Inr a' \<Rightarrow> a')"

definition BytesToVMAddress :: "bytes \<Rightarrow> Address" where
  "BytesToVMAddress b = Address_SetBytes zero_Address b"

text \<open>Delegated accounts are the addresses whose first two bytes hold a number in big-endian
  order; \<open>int16(id)\<close> reads them as a signed number.\<close>

definition GetDelegatedAccountAddress :: "int16 \<Rightarrow> Address res" where
  "GetDelegatedAccountAddress n =
    (case Address_Init zero_Address (put_be 2 n @ replicate (AddressLength - 2) 0) of
       Inl _ \<Rightarrow> Inl (Panic ''GetDelegatedAccountAddress'') | Inr a \<Rightarrow> Inr a)"

definition GetIDFromDelegatedAccountAddress :: "Address \<Rightarrow> int16" where
  "GetIDFromDelegatedAccountAddress a = get_be (take 2 (addr_ByteValue a))"

definition NumericalDelegatedAccountAddress :: "Address \<Rightarrow> int16" where
  "NumericalDelegatedAccountAddress daddr =
    (let n = GetIDFromDelegatedAccountAddress daddr
     in if 0 < sint n \<and> sint n < 256 then n else 0)"

subsection \<open>Signature schemes, keys and signatures\<close>

record EncryptionConfig =
  pubKeyLength :: int32
  privateKeyLength :: int32
  signatureLength :: int32
  sigName :: string
  isPaused :: int32
  pubKeyLength2 :: int32
  privateKeyLength2 :: int32
  signatureLength2 :: int32
  sigName2 :: string
  isPaused2 :: int32

text \<open>The two package variables \<open>encryptionConfigInstance\<close> and \<open>encryptionConfigInstanceOld\<close>.\<close>

record EncryptionState =
  enc_cur :: EncryptionConfig
  enc_old :: EncryptionConfig

definition boolToInt32 :: "bool \<Rightarrow> int32" where
  "boolToInt32 b = (if b then 1 else 0)"

definition EncryptionConfig_SetEncryption ::
  "EncryptionConfig \<Rightarrow> string \<Rightarrow> int \<Rightarrow> int \<Rightarrow> int \<Rightarrow> bool \<Rightarrow> bool \<Rightarrow> EncryptionConfig" where
  "EncryptionConfig_SetEncryption ec name pkl skl sl paused primary =
    (if primary then
       ec\<lparr>sigName := name, pubKeyLength := word_of_int pkl, privateKeyLength := word_of_int skl,
          signatureLength := word_of_int sl, isPaused := (if paused then 1 else 0)\<rparr>
     else
       ec\<lparr>sigName2 := name, pubKeyLength2 := word_of_int pkl, privateKeyLength2 := word_of_int skl,
          signatureLength2 := word_of_int sl, isPaused2 := (if paused then 1 else 0)\<rparr>)"

definition SetEncryption ::
  "EncryptionState \<Rightarrow> string \<Rightarrow> int \<Rightarrow> int \<Rightarrow> int \<Rightarrow> bool \<Rightarrow> bool \<Rightarrow> EncryptionState" where
  "SetEncryption st name pkl skl sl paused primary =
    (let enc = enc_cur st;
         old = EncryptionConfig_SetEncryption (enc_old st) (sigName enc) (sint (pubKeyLength enc))
                 (sint (privateKeyLength enc)) (sint (signatureLength enc)) (isPaused enc = 1) True;
         old = EncryptionConfig_SetEncryption old (sigName2 enc) (sint (pubKeyLength2 enc))
                 (sint (privateKeyLength2 enc)) (sint (signatureLength2 enc)) (isPaused2 enc = 1) False
     in \<lparr>enc_cur = EncryptionConfig_SetEncryption enc name pkl skl sl paused primary,
         enc_old = old\<rparr>)"

definition SetIsPaused :: "EncryptionState \<Rightarrow> bool \<Rightarrow> bool \<Rightarrow> EncryptionState" where
  "SetIsPaused st paused primary =
    (if primary then st\<lparr>enc_cur := (enc_cur st)\<lparr>isPaused := (if paused then 1 else 0)\<rparr>\<rparr>
     else st\<lparr>enc_cur := (enc_cur st)\<lparr>isPaused2 := (if paused then 1 else 0)\<rparr>\<rparr>)"

definition IsPaused :: "EncryptionState \<Rightarrow> bool" where
  "IsPaused st \<longleftrightarrow> isPaused (enc_cur st) = 1"

definition IsPaused2 :: "EncryptionState \<Rightarrow> bool" where
  "IsPaused2 st \<longleftrightarrow> \<not> IsPaused st"

definition PubKeyLength :: "EncryptionState \<Rightarrow> bool \<Rightarrow> int" where
  "PubKeyLength st withPrev =
    (if \<not> withPrev \<or> sint (pubKeyLength (enc_cur st)) < sint (pubKeyLength (enc_old st))
     then sint (pubKeyLength (enc_cur st)) else sint (pubKeyLength (enc_old st)))"

definition PubKeyLength2 :: "EncryptionState \<Rightarrow> bool \<Rightarrow> int" where
  "PubKeyLength2 st withPrev =
    (if \<not> withPrev \<or> sint (pubKeyLength2 (enc_cur st)) < sint (pubKeyLength2 (enc_old st))
     then sint (pubKeyLength2 (enc_cur st)) else sint (pubKeyLength2 (enc_old st)))"

definition SignatureLength :: "EncryptionState \<Rightarrow> bool \<Rightarrow> int" where
  "SignatureLength st withPrev =
    (if \<not> withPrev \<or> sint (signatureLength (enc_cur st)) < sint (signatureLength (enc_old st))
     then sint (signatureLength (enc_cur st)) else sint (signatureLength (enc_old st)))"

definition SignatureLength2 :: "EncryptionState \<Rightarrow> bool \<Rightarrow> int" where
  "SignatureLength2 st withPrev =
    (if \<not> withPrev \<or> sint (signatureLength2 (enc_cur st)) < sint (signatureLength2 (enc_old st))
     then sint (signatureLength2 (enc_cur st)) else sint (signatureLength2 (enc_old st)))"

definition IsValidPubKeyLength :: "EncryptionState \<Rightarrow> int \<Rightarrow> bool \<Rightarrow> bool" where
  "IsValidPubKeyLength st n primary =
    (if n \<le> 0 then False
     else if primary then n = PubKeyLength st False \<or> n = PubKeyLength st True
     else n = PubKeyLength2 st False \<or> n = PubKeyLength2 st True)"

text \<open>\<open>rand.Intn(2) == 0\<close> is the argument \<open>coin\<close>.\<close>

definition GetNodeSignPrimary :: "EncryptionState \<Rightarrow> bool \<Rightarrow> int64 \<Rightarrow> bool" where
  "GetNodeSignPrimary st coin height =
    (if height = 0 then True
     else if IsPaused st = False \<and> IsPaused2 st = False then (if coin then True else False)
     else if IsPaused st = False then True
     else if IsPaused2 st = False then False
     else True)"

record PubKey =
  pk_ByteValue :: bytes
  pk_Address :: Address
  pk_MainAddress :: Address
  pk_Primary :: bool

definition zero_PubKey :: PubKey where
  "zero_PubKey = \<lparr>pk_ByteValue = [], pk_Address = zero_Address, pk_MainAddress = zero_Address,
     pk_Primary = False\<rparr>"

definition PubKey_Init ::
  "EncryptionState \<Rightarrow> (bytes \<Rightarrow> bytes) \<Rightarrow> bytes \<Rightarrow> Address \<Rightarrow> PubKey res" where
  "PubKey_Init st H160 b mainAddress =
    (if length b \<le> AddressLength then Inl (Errorf ''public key is too short'')
     else let primary = (int (length b) = PubKeyLength st False)
          in case PubKeyToAddress H160 b primary of
               Inl e \<Rightarrow> Inl e
             | Inr addr \<Rightarrow> Inr \<lparr>pk_ByteValue = b, pk_Address = addr, pk_MainAddress = mainAddress,
                              pk_Primary = primary\<rparr>)"

record Signature =
  sig_ByteValue :: bytes
  sig_Address :: Address
  sig_Primary :: bool

definition zero_Signature :: Signature where
  "zero_Signature = \<lparr>sig_ByteValue = [], sig_Address = zero_Address, sig_Primary = False\<rparr>"

definition Signature_Init :: "bytes \<Rightarrow> Address \<Rightarrow> Signature res" where
  "Signature_Init b address =
    (if length b = 0 then Inl (Errorf ''error Signature initialization with wrong length'')
     else if length b > 65536 then Inl (Errorf ''error Signature initialization with wrong length'')
     else Inr \<lparr>sig_ByteValue = b, sig_Address = address, sig_Primary = (b ! 0 = 0)\<rparr>)"

text \<open>\<open>copy\<close> into a 32-byte array: the bytes past the end are dropped, a short slice leaves the
  rest of the array as it was.\<close>

definition Hash_Set :: "bytes \<Rightarrow> bytes \<Rightarrow> bytes" where
  "Hash_Set h b = take HashLength b @ drop (length b) h"

definition EmptyHash :: bytes where
  "EmptyHash = replicate HashLength 0"

definition GetHashFromBytes :: "bytes \<Rightarrow> bytes" where
  "GetHashFromBytes b = Hash_Set EmptyHash b"

definition HexPrefix :: "string \<Rightarrow> int \<Rightarrow> string" where
  "HexPrefix s n = (if n < 0 \<or> int (length s) \<le> n then s else take (nat n) s @ ''...'')"

subsection \<open>Voided transactions\<close>

definition VoidedRecord :: "int64 \<Rightarrow> byte \<Rightarrow> bytes" where
  "VoidedRecord height reason = GetByteInt64 height @ [reason]"

definition VoidedReason :: "bytes \<Rightarrow> string" where
  "VoidedReason r =
    (if r = [] then '''' else if last r = 0 then ''cancelled''
     else if last r = 1 then ''expired'' else '''')"

subsection \<open>The network height\<close>

text \<open>The height variables of \<open>common/variables.go\<close>; \<open>hs_heightMaxAt\<close> is None while the peers'
  height was never set, times are in seconds.\<close>

record HeightState =
  hs_height :: int64
  hs_heightMax :: int64
  hs_heightMaxAt :: "int option"
  hs_syncTarget :: int64
  hs_productionTarget :: int64
  hs_CurrentHeightOfNetwork :: int64

definition GetHeightMax :: "HeightState \<Rightarrow> int \<Rightarrow> int64" where
  "GetHeightMax s now =
    (case hs_heightMaxAt s of None \<Rightarrow> 0
     | Some t \<Rightarrow> if now - t > 180 then 0 else hs_heightMax s)"

definition SetHeightMax :: "HeightState \<Rightarrow> int \<Rightarrow> int64 \<Rightarrow> HeightState" where
  "SetHeightMax s now hmax = s\<lparr>hs_heightMax := hmax, hs_heightMaxAt := Some now\<rparr>"

definition GetSyncTarget :: "HeightState \<Rightarrow> int64" where
  "GetSyncTarget s =
    (if sint (hs_CurrentHeightOfNetwork s) > sint (hs_height s)
     then hs_CurrentHeightOfNetwork s else hs_syncTarget s)"

definition IsBehindNetwork :: "HeightState \<Rightarrow> bool" where
  "IsBehindNetwork s =
    (let target = (if sint (hs_CurrentHeightOfNetwork s) > sint (hs_height s)
                   then hs_CurrentHeightOfNetwork s else hs_productionTarget s)
     in sint (target - hs_height s) > sint SyncedTolerance)"

subsection \<open>Hash preimages of key recovery\<close>

definition string_bytes :: "string \<Rightarrow> bytes" where
  "string_bytes s = map (\<lambda>c. word_of_nat (of_char c)) s"

definition recoveryAddress :: "char \<Rightarrow> Address" where
  "recoveryAddress kind =
    \<lparr>addr_ByteValue = replicate (AddressLength - 2) 255 @ string_bytes [CHR ''R'', kind],
     addr_Primary = True\<rparr>"

definition IsRecoveryAddress :: "Address \<Rightarrow> bool" where
  "IsRecoveryAddress a \<longleftrightarrow>
     addr_ByteValue a = addr_ByteValue (recoveryAddress CHR ''B'') \<or>
     addr_ByteValue a = addr_ByteValue (recoveryAddress CHR ''R'')"

definition recovery_preimage :: "string \<Rightarrow> bytes list \<Rightarrow> bytes" where
  "recovery_preimage domain parts =
     BytesToLenAndBytes (string_bytes domain) @ concat (map BytesToLenAndBytes parts)"

text \<open>\<open>recoveryHash\<close> hashes that preimage with the 20- or the 32-byte variant of BLAKE2b.\<close>

definition RecoveryCommitment :: "(bytes \<Rightarrow> bytes) \<Rightarrow> bytes \<Rightarrow> Address res" where
  "RecoveryCommitment H160 secret =
    (if length secret \<noteq> RecoverySecretLength then Inl (Errorf ''recovery secret must be 32 bytes'')
     else Inr \<lparr>addr_ByteValue = H160 (recovery_preimage ''qwid-recovery-commit'' [secret]),
               addr_Primary = True\<rparr>)"

definition RecoveryTag :: "(bytes \<Rightarrow> bytes) \<Rightarrow> bytes \<Rightarrow> bytes" where
  "RecoveryTag H256 secret = H256 (recovery_preimage ''qwid-recovery-tag'' [secret])"

definition RecoveryPayload ::
  "(bytes \<Rightarrow> bytes) \<Rightarrow> Address \<Rightarrow> Address \<Rightarrow> Address \<Rightarrow> bytes \<Rightarrow> bytes" where
  "RecoveryPayload H256 ident newKey nxt secret =
     H256 (recovery_preimage ''qwid-recovery-payload''
             [addr_ByteValue ident, addr_ByteValue newKey, addr_ByteValue nxt, secret])"

definition RecoveryBindKey :: "(bytes \<Rightarrow> bytes) \<Rightarrow> Address \<Rightarrow> bytes \<Rightarrow> bytes" where
  "RecoveryBindKey H256 ident tag =
     H256 (recovery_preimage ''qwid-recovery-bind-key'' [addr_ByteValue ident, tag])"

definition AddressOpenMessage ::
  "(bytes \<Rightarrow> bytes) \<Rightarrow> int16 \<Rightarrow> Address \<Rightarrow> Address \<Rightarrow> Address \<Rightarrow> Address \<Rightarrow> bytes" where
  "AddressOpenMessage H256 chainID ident newKey nxt spare =
     H256 (recovery_preimage ''qwid-address-open''
             [addr_ByteValue ident, addr_ByteValue newKey, addr_ByteValue nxt, addr_ByteValue spare,
              GetByteInt64 (scast chainID)])"

definition AddressOpenPayload ::
  "(bytes \<Rightarrow> bytes) \<Rightarrow> Address \<Rightarrow> Address \<Rightarrow> Address \<Rightarrow> Address \<Rightarrow> bytes \<Rightarrow> bytes" where
  "AddressOpenPayload H256 ident newKey nxt spare oldPub =
     H256 (recovery_preimage ''qwid-address-open-payload''
             [addr_ByteValue ident, addr_ByteValue newKey, addr_ByteValue nxt, addr_ByteValue spare,
              oldPub])"

subsection \<open>Lemmas on the codecs\<close>

lemma length_GetByteInt [simp]:
  "length (GetByteInt64 u) = 8" "length (GetByteInt32 v) = 4" "length (GetByteInt16 w) = 2"
  by (simp_all add: GetByteInt64_def GetByteInt32_def GetByteInt16_def)

lemma GetInt64FromByte_GetByteInt64 [simp, codec_simps]:
  "GetInt64FromByte (GetByteInt64 u @ rest) = Inr u"
  by (simp add: GetInt64FromByte_def GetByteInt64_def)

lemma GetInt32FromByte_GetByteInt32 [simp, codec_simps]:
  "GetInt32FromByte (GetByteInt32 u @ rest) = Inr u"
  by (simp add: GetInt32FromByte_def GetByteInt32_def)

lemma GetInt16FromByte_GetByteInt16 [simp, codec_simps]:
  "GetInt16FromByte (GetByteInt16 u @ rest) = Inr u"
  by (simp add: GetInt16FromByte_def GetByteInt16_def)

lemmas GetInt64FromByte_exact [simp, codec_simps] =
  GetInt64FromByte_GetByteInt64 [where rest = "[]", simplified]
lemmas GetInt32FromByte_exact [simp, codec_simps] =
  GetInt32FromByte_GetByteInt32 [where rest = "[]", simplified]
lemmas GetInt16FromByte_exact [simp, codec_simps] =
  GetInt16FromByte_GetByteInt16 [where rest = "[]", simplified]

lemma GetByteInt64_inject [simp]: "GetByteInt64 u = GetByteInt64 v \<longleftrightarrow> u = v"
  by (metis GetInt64FromByte_exact sum.inject(2))

lemma GetIntFromByte_no_panic:
  "8 \<le> length bs \<Longrightarrow> \<exists>u. GetInt64FromByte bs = Inr u"
  "4 \<le> length bs \<Longrightarrow> \<exists>v. GetInt32FromByte bs = Inr v"
  "2 \<le> length bs \<Longrightarrow> \<exists>w. GetInt16FromByte bs = Inr w"
  by (simp_all add: GetInt64FromByte_def GetInt32FromByte_def GetInt16FromByte_def)

lemma length_BytesToLenAndBytes [simp]: "length (BytesToLenAndBytes b) = 4 + length b"
  by (simp add: BytesToLenAndBytes_def)

lemma BytesToLenAndBytes_not_Nil [simp]: "BytesToLenAndBytes b \<noteq> []"
  by (simp add: BytesToLenAndBytes_def put_be_def)

lemma BytesWithLen_round_trip [simp, codec_simps]:
  assumes "length b < 2 ^ 32"
  shows "BytesWithLenToBytes (BytesToLenAndBytes b @ rest) = Inr (b, rest)"
proof -
  have "unat (word_of_nat (length b) :: int32) = length b"
    using assms by (simp add: unsigned_of_nat take_bit_nat_eq_self)
  then show ?thesis
    by (simp add: BytesWithLenToBytes_def BytesToLenAndBytes_def Let_def)
qed

text \<open>What a successful read of a length-prefixed string returns is a split of the bytes after
  the prefix, so a decoder that loops on the rest makes progress.\<close>

lemma BytesWithLenToBytes_split:
  assumes "BytesWithLenToBytes b = Inr (x, rest)"
  shows "drop 4 b = x @ rest" and "length rest + 4 \<le> length b"
proof -
  from assms have len: "\<not> length b < 4"
    and x: "x = take (unat (get_be (take 4 b) :: int32)) (drop 4 b)"
    and r: "rest = drop (4 + unat (get_be (take 4 b) :: int32)) b"
    by (auto simp: BytesWithLenToBytes_def Let_def split: if_splits)
  show "drop 4 b = x @ rest"
    unfolding x r add.commute [of 4] drop_drop [symmetric] by (simp del: drop_drop)
  show "length rest + 4 \<le> length b"
    using len unfolding r by simp
qed

lemma BytesWithLenToBytes_no_panic: "BytesWithLenToBytes b \<noteq> Inl (Panic m)"
  by (simp add: BytesWithLenToBytes_def Let_def)

lemma string_bytes_inject [simp]: "string_bytes s = string_bytes t \<longleftrightarrow> s = t"
proof -
  have "of_char c = (of_char d :: nat)"
    if "word_of_nat (of_char c) = (word_of_nat (of_char d) :: byte)" for c d :: char
    using that by (simp add: word_of_nat_eq_iff take_bit_eq_mod of_char_mod_256)
  then have "inj (\<lambda>c. word_of_nat (of_char c) :: byte)"
    by (auto simp: inj_def)
  then show ?thesis
    by (simp add: string_bytes_def inj_map_eq_map)
qed

lemma concat_BytesToLenAndBytes_inject:
  assumes "\<forall>p \<in> set ps. length p < 2 ^ 32" "\<forall>q \<in> set qs. length q < 2 ^ 32"
    and "concat (map BytesToLenAndBytes ps) = concat (map BytesToLenAndBytes qs)"
  shows "ps = qs"
  using assms
proof (induction ps arbitrary: qs)
  case Nil
  then show ?case
    by (cases qs) simp_all
next
  case (Cons p ps)
  from Cons.prems(3) obtain q qs' where qs: "qs = q # qs'"
    by (cases qs) simp_all
  have "BytesWithLenToBytes (concat (map BytesToLenAndBytes (p # ps))) = Inr (p, concat (map BytesToLenAndBytes ps))"
    using Cons.prems(1) by simp
  moreover have "BytesWithLenToBytes (concat (map BytesToLenAndBytes qs)) = Inr (q, concat (map BytesToLenAndBytes qs'))"
    using Cons.prems(2) qs by simp
  ultimately have "p = q" and "concat (map BytesToLenAndBytes ps) = concat (map BytesToLenAndBytes qs')"
    using Cons.prems(3) by simp_all
  then show ?case
    using Cons.IH [of qs'] Cons.prems(1,2) by (simp add: qs)
qed

subsection \<open>Properties\<close>

lemma Address_round_trip [simp, codec_simps]:
  assumes "wf_Address a"
  shows "BytesToAddress (Address_GetBytesWithPrimary a) = Inr a"
  using assms
  by (cases a) (simp add: BytesToAddress_def Address_Init_def Address_GetBytesWithPrimary_def wf_Address_def)

lemma Address_Init_wf: "Address_Init a b = Inr a' \<Longrightarrow> wf_Address a'"
  by (auto simp: Address_Init_def wf_Address_def split: if_splits)

lemma BytesToVMAddress_wf: "wf_Address (BytesToVMAddress b)"
  by (auto simp: BytesToVMAddress_def Address_SetBytes_def Let_def Address_Init_def LeftPadBytes_def
      wf_Address_def)

lemma GetDelegatedAccountAddress_id:
  "\<exists>a. GetDelegatedAccountAddress n = Inr a \<and> wf_Address a \<and> GetIDFromDelegatedAccountAddress a = n"
  by (simp add: GetDelegatedAccountAddress_def Address_Init_def GetIDFromDelegatedAccountAddress_def
      wf_Address_def)

lemma IsValidPubKeyLength_min:
  "IsValidPubKeyLength st n primary \<longleftrightarrow>
     0 < n \<and>
     (let cur = sint ((if primary then pubKeyLength else pubKeyLength2) (enc_cur st));
          old = sint ((if primary then pubKeyLength else pubKeyLength2) (enc_old st))
      in n = cur \<or> n = min cur old)"
  by (auto simp: IsValidPubKeyLength_def PubKeyLength_def PubKeyLength2_def Let_def min_def)

text \<open>Key recovery hashes length-prefixed parts under a domain string, so that no two different
  calls share a preimage: a commitment is never a tag, a payload or a bind key, and the parts of
  two payloads cannot be shifted against each other.\<close>

theorem recovery_preimage_inject:
  assumes "\<forall>p \<in> set ps. length p < 2 ^ 32" "\<forall>q \<in> set qs. length q < 2 ^ 32"
    and "length d < 2 ^ 32" "length e < 2 ^ 32"
  shows "recovery_preimage d ps = recovery_preimage e qs \<longleftrightarrow> d = e \<and> ps = qs"
proof
  assume eq: "recovery_preimage d ps = recovery_preimage e qs"
  have len: "length (string_bytes d) < 2 ^ 32" "length (string_bytes e) < 2 ^ 32"
    using assms(3,4) by (simp_all add: string_bytes_def)
  have "string_bytes d # ps = string_bytes e # qs"
    by (rule concat_BytesToLenAndBytes_inject)
      (use assms(1,2) len eq in \<open>auto simp: recovery_preimage_def\<close>)
  then show "d = e \<and> ps = qs" by simp
qed simp

theorem recovery_preimage_inject_witness:
  "recovery_preimage ''qwid-recovery-commit'' [replicate 32 1] \<noteq> recovery_preimage ''qwid-recovery-tag'' [replicate 32 1] \<and>
   recovery_preimage ''d'' [[1, 2], [3]] \<noteq> recovery_preimage ''d'' [[1], [2, 3]]"
  using recovery_preimage_inject [of "[replicate 32 1]" "[replicate 32 1]" "''qwid-recovery-commit''" "''qwid-recovery-tag''"]
    recovery_preimage_inject [of "[[1, 2], [3]]" "[[1], [2, 3]]" "''d''" "''d''"]
  by simp

text \<open>The length of a superseded public key is accepted only when it is shorter than the current one:
  \<open>PubKeyLength(true)\<close> is the smaller of the two lengths, not the superseded one.\<close>

lemma longer_superseded_length_rejected:
  assumes "sint (pubKeyLength (enc_cur st)) < sint (pubKeyLength (enc_old st))"
  shows "\<not> IsValidPubKeyLength st (sint (pubKeyLength (enc_old st))) True"
  using assms by (simp add: IsValidPubKeyLength_min)

text \<open>The two slots are never both unpaused: the state of the second is derived from the first.\<close>

lemma one_slot_unpaused: "IsPaused st \<noteq> IsPaused2 st"
  by (simp add: IsPaused2_def)

end
