(* ===== verification/Account.thy ===== *)
theory Account
  imports Common
begin

text \<open>
  The package \<open>account\<close>, first part: the account of an address (\<open>account/baseAccount.go\<close>), the
  set of all accounts (\<open>account/accountsStates.go\<close>), the transaction-history index
  (\<open>account/txHistory.go\<close>), the recovery commitments and binds (\<open>account/recovery.go\<close>) and the
  snapshot codecs. The package variable \<open>Accounts\<close> is a value of the record \<open>AccountsType\<close>; an
  operation that changes it returns the new value.
\<close>

subsection \<open>Accounts\<close>

record Account =
  acc_Balance :: int64
  acc_Address :: bytes
  acc_TransactionDelay :: int64
  acc_MultiSignNumber :: uint8
  acc_MultiSignAddresses :: "bytes list"
  acc_TransactionsSender :: "bytes list"
  acc_TransactionsRecipient :: "bytes list"
  acc_SentCount :: int64
  acc_ReceivedCount :: int64
  acc_RecoveryCommit :: bytes
  acc_RecoveryPendingCommit :: bytes
  acc_RecoveryPendingHeight :: int64
  acc_SpareCommit :: bytes
  acc_SparePendingCommit :: bytes

abbreviation (input) zeroCommit :: bytes where "zeroCommit \<equiv> replicate AddressLength 0"

definition zero_Account :: Account where
  "zero_Account = \<lparr>acc_Balance = 0, acc_Address = replicate AddressLength 0, acc_TransactionDelay = 0,
     acc_MultiSignNumber = 0, acc_MultiSignAddresses = [], acc_TransactionsSender = [],
     acc_TransactionsRecipient = [], acc_SentCount = 0, acc_ReceivedCount = 0,
     acc_RecoveryCommit = zeroCommit, acc_RecoveryPendingCommit = zeroCommit,
     acc_RecoveryPendingHeight = 0, acc_SpareCommit = zeroCommit,
     acc_SparePendingCommit = zeroCommit\<rparr>"

record RecoveryBind =
  rb_Identity :: bytes
  rb_Payload :: bytes
  rb_Height :: int64

record AccountsType =
  AllAccounts :: "(bytes, Account) gomap"
  RecoveryBinds :: "(bytes, RecoveryBind) gomap"
  at_Height :: int64

definition GetAccountByAddressBytes :: "AccountsType \<Rightarrow> bytes \<Rightarrow> Account option" where
  "GetAccountByAddressBytes at address = map_of (AllAccounts at) (take AddressLength address)"

definition put_account :: "bytes \<Rightarrow> Account \<Rightarrow> AccountsType \<Rightarrow> AccountsType" where
  "put_account address acc at = at\<lparr>AllAccounts := mput address acc (AllAccounts at)\<rparr>"

definition CanBeModifiedAccount :: "AccountsType \<Rightarrow> bytes \<Rightarrow> bool" where
  "CanBeModifiedAccount at address =
    (case GetAccountByAddressBytes at address of
       Some acc \<Rightarrow> acc_MultiSignNumber acc = 0 \<and> acc_TransactionDelay acc = 0
     | None \<Rightarrow> False)"

definition ModifyAccountToEscrow :: "Account \<Rightarrow> int64 \<Rightarrow> AccountsType cmd" where
  "ModifyAccountToEscrow a transactionDelay at =
    (if sint (acc_TransactionDelay a) > 0
     then (Some (Errorf ''account is already escrow and cannot be modified''), at)
     else if unat (acc_MultiSignNumber a) > 0
     then (Some (Errorf ''account is multisign and cannot be converted to escrow''), at)
     else if transactionDelay = 0
     then (Some (Errorf ''transaction delay in escrow must be larger than 0''), at)
     else if sint transactionDelay > sint MaxTransactionDelay
     then (Some (Errorf ''transaction delay in escrow must be less than maximum''), at)
     else (None, put_account (acc_Address a) (a\<lparr>acc_TransactionDelay := transactionDelay\<rparr>) at))"

definition ModifyAccountToMultiSign :: "Account \<Rightarrow> uint8 \<Rightarrow> Address list \<Rightarrow> AccountsType cmd" where
  "ModifyAccountToMultiSign a numApprovals addresses at =
    (if unat (acc_MultiSignNumber a) > 0
     then (Some (Errorf ''account is already multisign and cannot be modified''), at)
     else if sint (acc_TransactionDelay a) > 0
     then (Some (Errorf ''account is escrow and cannot be converted to multisign''), at)
     else if unat numApprovals = 0
     then (Some (Errorf ''MultiSign must have at least 1 Approval account''), at)
     else if unat numApprovals > length addresses
     then (Some (Errorf ''number of MultiSign approval addresses must be larger than number of Approvals''), at)
     else (None, put_account (acc_Address a)
            (a\<lparr>acc_MultiSignNumber := numApprovals,
               acc_MultiSignAddresses := map addr_ByteValue addresses\<rparr>) at))"

definition SetAccountByAddressBytes :: "AccountsType \<Rightarrow> bytes \<Rightarrow> Account \<times> AccountsType" where
  "SetAccountByAddressBytes at address =
    (case GetAccountByAddressBytes at address of
       Some account \<Rightarrow>
         (if acc_Address account \<noteq> address
          then account\<lparr>acc_Address := take AddressLength address
                         @ drop (length address) (acc_Address account)\<rparr>
          else account, at)
     | None \<Rightarrow>
         let addrb = take AddressLength address; account = zero_Account\<lparr>acc_Address := addrb\<rparr>
         in (account, put_account addrb account at))"

text \<open>\<open>SetBalance\<close> and \<open>GetBalance\<close> read a missing account as the zero account.\<close>

definition SetBalance :: "bytes \<Rightarrow> int64 \<Rightarrow> AccountsType \<Rightarrow> AccountsType" where
  "SetBalance address balance at =
     put_account address
       ((mget zero_Account (AllAccounts at) address)\<lparr>acc_Balance := balance, acc_Address := address\<rparr>) at"

definition GetBalance :: "AccountsType \<Rightarrow> bytes \<Rightarrow> int64" where
  "GetBalance at address = acc_Balance (mget zero_Account (AllAccounts at) address)"

definition IntDelegatedAccountFromAddress :: "Address \<Rightarrow> int res" where
  "IntDelegatedAccountFromAddress a =
    (let n = get_be (take 2 (addr_ByteValue a)) :: int16 in
     if unat n < 1 then Inl (Errorf ''this is not correct delegated account'')
     else if \<exists>b \<in> set (drop 2 (addr_ByteValue a)). b \<noteq> 0
     then Inl (Errorf ''this is not correct delegated account'')
     else bindR (GetDelegatedAccountAddress n) (\<lambda>da.
       if addr_ByteValue da = addr_ByteValue a then Inr (int (unat n))
       else Inl (Errorf ''wrongly formated delegated account'')))"

subsection \<open>The transaction-history index\<close>

text \<open>The database as far as the history index uses it: the bytes stored under a key, and whether
  a write succeeds.\<close>

type_synonym DB = "(bytes, bytes) gomap"

text \<open>\<open>LoadAllKeys\<close>: the stored keys that begin with the prefix.\<close>

definition LoadAllKeys :: "bytes \<Rightarrow> DB \<Rightarrow> bytes list" where
  "LoadAllKeys prefix db = filter (\<lambda>k. take (length prefix) k = prefix) (map fst db)"

abbreviation (input) TxHistorySentDBPrefix :: bytes where "TxHistorySentDBPrefix \<equiv> string_bytes ''HS''"
abbreviation (input) TxHistoryReceivedDBPrefix :: bytes where "TxHistoryReceivedDBPrefix \<equiv> string_bytes ''HR''"

definition txHistoryKey :: "bytes \<Rightarrow> bytes \<Rightarrow> int64 \<Rightarrow> bytes" where
  "txHistoryKey prefix address seq = prefix @ address @ GetByteInt64 seq"

definition appendTxHistory ::
  "bool \<Rightarrow> bytes \<Rightarrow> bytes \<Rightarrow> int64 \<Rightarrow> bytes \<Rightarrow> DB \<Rightarrow> err option \<times> DB" where
  "appendTxHistory ok prefix address seq hash db =
    (if ok then (None, mput (txHistoryKey prefix address seq) hash db)
     else (Some (Errorf ''failed to put key-value pair''), db))"

definition AddTransactionsSender ::
  "bool \<Rightarrow> bytes \<Rightarrow> bytes \<Rightarrow> AccountsType \<times> DB \<Rightarrow> AccountsType \<times> DB" where
  "AddTransactionsSender ok address hashTxn = (\<lambda>(at, db).
    let acc = (case map_of (AllAccounts at) address of
                 Some acc \<Rightarrow> acc | None \<Rightarrow> zero_Account\<lparr>acc_Address := address\<rparr>)
    in case appendTxHistory ok TxHistorySentDBPrefix address (acc_SentCount acc) hashTxn db of
         (Some _, db') \<Rightarrow> (put_account address acc at, db')
       | (None, db') \<Rightarrow>
           (put_account address (acc\<lparr>acc_SentCount := acc_SentCount acc + 1\<rparr>) at, db'))"

definition AddTransactionsRecipient ::
  "bool \<Rightarrow> bytes \<Rightarrow> bytes \<Rightarrow> AccountsType \<times> DB \<Rightarrow> AccountsType \<times> DB" where
  "AddTransactionsRecipient ok address hashTxn = (\<lambda>(at, db).
    let acc = (case map_of (AllAccounts at) address of
                 Some acc \<Rightarrow> acc | None \<Rightarrow> zero_Account\<lparr>acc_Address := address\<rparr>)
    in case appendTxHistory ok TxHistoryReceivedDBPrefix address (acc_ReceivedCount acc) hashTxn db of
         (Some _, db') \<Rightarrow> (put_account address acc at, db')
       | (None, db') \<Rightarrow>
           (put_account address (acc\<lparr>acc_ReceivedCount := acc_ReceivedCount acc + 1\<rparr>) at, db'))"

definition readTxHistory :: "DB \<Rightarrow> bytes \<Rightarrow> bytes \<Rightarrow> int \<Rightarrow> int \<Rightarrow> bytes list res" where
  "readTxHistory db prefix address lo hi =
    (let lo = (if lo < 0 then 0 else lo) in
     if hi - lo < 0 then Inl (Panic ''makeslice: cap out of range'')
     else Inr (concat (map (\<lambda>seq.
         case map_of db (txHistoryKey prefix address (word_of_int seq)) of
           Some b \<Rightarrow> if length b = HashLength then [b] else [] | None \<Rightarrow> [])
       [lo..hi - 1])))"

definition GetTxHistorySent :: "AccountsType \<Rightarrow> DB \<Rightarrow> bytes \<Rightarrow> int64 \<Rightarrow> bytes list res" where
  "GetTxHistorySent at db address lastN =
    (case GetAccountByAddressBytes at address of None \<Rightarrow> Inr []
     | Some acc \<Rightarrow>
        let lo = (if sint lastN > 0 \<and> sint (acc_SentCount acc) > sint lastN
                     then acc_SentCount acc - lastN else 0)
        in readTxHistory db TxHistorySentDBPrefix address (sint lo) (sint (acc_SentCount acc)))"

definition GetTxHistoryReceived :: "AccountsType \<Rightarrow> DB \<Rightarrow> bytes \<Rightarrow> int64 \<Rightarrow> bytes list res" where
  "GetTxHistoryReceived at db address lastN =
    (case GetAccountByAddressBytes at address of None \<Rightarrow> Inr []
     | Some acc \<Rightarrow>
        let lo = (if sint lastN > 0 \<and> sint (acc_ReceivedCount acc) > sint lastN
                     then acc_ReceivedCount acc - lastN else 0)
        in readTxHistory db TxHistoryReceivedDBPrefix address (sint lo) (sint (acc_ReceivedCount acc)))"

subsection \<open>Recovery commitments and binds\<close>

definition matured :: "int64 \<Rightarrow> int64 \<Rightarrow> bool" where
  "matured pendingHeight height \<longleftrightarrow> sint height \<ge> sint (pendingHeight + RecoveryCommitMaturityBlocks)"

definition EffectiveRecoveryCommit :: "Account \<Rightarrow> int64 \<Rightarrow> bytes" where
  "EffectiveRecoveryCommit a height =
    (if acc_RecoveryPendingCommit a \<noteq> zeroCommit \<and> matured (acc_RecoveryPendingHeight a) height
     then acc_RecoveryPendingCommit a else acc_RecoveryCommit a)"

definition EffectiveSpareCommit :: "Account \<Rightarrow> int64 \<Rightarrow> bytes" where
  "EffectiveSpareCommit a height =
    (if acc_SparePendingCommit a \<noteq> zeroCommit \<and> matured (acc_RecoveryPendingHeight a) height
     then acc_SparePendingCommit a else acc_SpareCommit a)"

definition HasCommitments :: "Account \<Rightarrow> bool" where
  "HasCommitments a \<longleftrightarrow>
     acc_RecoveryCommit a \<noteq> zeroCommit \<or> acc_RecoveryPendingCommit a \<noteq> zeroCommit \<or>
     acc_SpareCommit a \<noteq> zeroCommit \<or> acc_SparePendingCommit a \<noteq> zeroCommit"

definition promoteMatured :: "Account \<Rightarrow> int64 \<Rightarrow> Account" where
  "promoteMatured a height =
    (if \<not> matured (acc_RecoveryPendingHeight a) height then a
     else a\<lparr>acc_RecoveryCommit := (if acc_RecoveryPendingCommit a \<noteq> zeroCommit
                                    then acc_RecoveryPendingCommit a else acc_RecoveryCommit a),
            acc_SpareCommit := (if acc_SparePendingCommit a \<noteq> zeroCommit
                                 then acc_SparePendingCommit a else acc_SpareCommit a),
            acc_RecoveryPendingCommit := zeroCommit, acc_SparePendingCommit := zeroCommit,
            acc_RecoveryPendingHeight := 0\<rparr>)"

definition SetCommitments :: "Account \<Rightarrow> bytes \<Rightarrow> bytes \<Rightarrow> int64 \<Rightarrow> Account" where
  "SetCommitments a spare c height =
    (if \<not> HasCommitments a then a\<lparr>acc_SpareCommit := spare, acc_RecoveryCommit := c\<rparr>
     else (promoteMatured a height)\<lparr>acc_SparePendingCommit := spare,
            acc_RecoveryPendingCommit := c, acc_RecoveryPendingHeight := height\<rparr>)"

definition ConsumeRecoveryCommit :: "Account \<Rightarrow> bytes \<Rightarrow> Account" where
  "ConsumeRecoveryCommit a nxt =
    (let a = a\<lparr>acc_RecoveryCommit := nxt, acc_RecoveryPendingCommit := zeroCommit\<rparr>
     in if acc_SparePendingCommit a = zeroCommit then a\<lparr>acc_RecoveryPendingHeight := 0\<rparr> else a)"

definition SetAccountCommitments :: "bytes \<Rightarrow> bytes \<Rightarrow> bytes \<Rightarrow> int64 \<Rightarrow> AccountsType cmd" where
  "SetAccountCommitments addr spare c height at =
    (case map_of (AllAccounts at) addr of
       None \<Rightarrow> (Some (Errorf ''no account to set commitments on''), at)
     | Some acc \<Rightarrow> (None, put_account addr (SetCommitments acc spare c height) at))"

definition ConsumeAccountRecoveryCommit :: "bytes \<Rightarrow> bytes \<Rightarrow> AccountsType cmd" where
  "ConsumeAccountRecoveryCommit addr nxt at =
    (case map_of (AllAccounts at) addr of
       None \<Rightarrow> (Some (Errorf ''no account to consume a recovery commitment of''), at)
     | Some acc \<Rightarrow> (None, put_account addr (ConsumeRecoveryCommit acc nxt) at))"

text \<open>One iteration of \<open>VoidPendingRecoveryCommits\<close>: the account it writes back and whether it
  counts as dropped. The loop writes each key once, so it maps over the accounts.\<close>

definition voidPending :: "int64 \<Rightarrow> Account \<Rightarrow> Account \<times> bool" where
  "voidPending height acc =
    (if acc_RecoveryPendingCommit acc = zeroCommit \<and> acc_SparePendingCommit acc = zeroCommit
     then (acc, False)
     else let acc = promoteMatured acc height in
       if acc_RecoveryPendingCommit acc \<noteq> zeroCommit \<or> acc_SparePendingCommit acc \<noteq> zeroCommit
       then (acc\<lparr>acc_RecoveryPendingCommit := zeroCommit, acc_SparePendingCommit := zeroCommit,
                  acc_RecoveryPendingHeight := 0\<rparr>, True)
       else (acc, False))"

definition VoidPendingRecoveryCommits :: "int64 \<Rightarrow> AccountsType \<Rightarrow> nat \<times> AccountsType" where
  "VoidPendingRecoveryCommits height at =
    (length (filter (snd \<circ> voidPending height \<circ> snd) (AllAccounts at)),
     at\<lparr>AllAccounts := map (\<lambda>(k, acc). (k, fst (voidPending height acc))) (AllAccounts at)\<rparr>)"

definition sortedBindKeys :: "(bytes, RecoveryBind) gomap \<Rightarrow> bytes list" where
  "sortedBindKeys m = sort (map fst m)"

definition AddRecoveryBind :: "bytes \<Rightarrow> RecoveryBind \<Rightarrow> AccountsType \<Rightarrow> bool \<times> AccountsType" where
  "AddRecoveryBind key b at =
    (case map_of (RecoveryBinds at) key of
       Some _ \<Rightarrow> (False, at)
     | None \<Rightarrow> (True, at\<lparr>RecoveryBinds := mput key b (RecoveryBinds at)\<rparr>))"

definition GetRecoveryBind :: "AccountsType \<Rightarrow> bytes \<Rightarrow> RecoveryBind option" where
  "GetRecoveryBind at key = map_of (RecoveryBinds at) key"

definition DeleteRecoveryBind :: "bytes \<Rightarrow> AccountsType \<Rightarrow> AccountsType" where
  "DeleteRecoveryBind key at = at\<lparr>RecoveryBinds := mdel key (RecoveryBinds at)\<rparr>"

definition bind_expired :: "int64 \<Rightarrow> RecoveryBind \<Rightarrow> bool" where
  "bind_expired height b \<longleftrightarrow> sint height > sint (rb_Height b + RecoveryBindExpiryBlocks)"

definition PruneRecoveryBinds :: "int64 \<Rightarrow> AccountsType \<Rightarrow> nat \<times> AccountsType" where
  "PruneRecoveryBinds height at =
    (length (filter (bind_expired height \<circ> snd) (RecoveryBinds at)),
     at\<lparr>RecoveryBinds := filter (\<lambda>kb. \<not> bind_expired height (snd kb)) (RecoveryBinds at)\<rparr>)"

subsection \<open>Snapshot codecs\<close>

definition safeMapHint :: "int64 \<Rightarrow> int" where
  "safeMapHint n = (if sint n \<le> 0 then 0 else if sint n > 65536 then 65536 else sint n)"

definition Account_Marshal :: "Account \<Rightarrow> bytes" where
  "Account_Marshal a =
     GetByteInt64 (acc_Balance a) @ acc_Address a @ GetByteInt64 (acc_TransactionDelay a)
     @ [acc_MultiSignNumber a, word_of_nat (length (acc_MultiSignAddresses a))]
     @ concat (acc_MultiSignAddresses a)
     @ GetByteInt64 (word_of_nat (length (acc_TransactionsSender a)))
     @ concat (acc_TransactionsSender a)
     @ GetByteInt64 (word_of_nat (length (acc_TransactionsRecipient a)))
     @ concat (acc_TransactionsRecipient a)
     @ GetByteInt64 (acc_SentCount a) @ GetByteInt64 (acc_ReceivedCount a)
     @ acc_RecoveryCommit a @ acc_RecoveryPendingCommit a
     @ GetByteInt64 (acc_RecoveryPendingHeight a)
     @ acc_SpareCommit a @ acc_SparePendingCommit a"

definition int64At :: "nat \<Rightarrow> bytes \<Rightarrow> int64 res" where
  "int64At i d = bindR (sliceR i (i + 8) d) GetInt64FromByte"

text \<open>A count followed by that many hashes, as the two history lists are stored.\<close>

definition readHashList :: "string \<Rightarrow> bytes \<Rightarrow> (bytes list \<times> bytes) res" where
  "readHashList what d =
    bindR (int64At 0 d) (\<lambda>n. bindR (tailR 8 d) (\<lambda>d.
    if sint n < 0 \<or> sint n > int (length d) div 32 then Inl (Errorf what)
    else readN HashLength (nat (sint n)) d))"

definition Unmarshal_multisign :: "Account \<Rightarrow> uint8 \<Rightarrow> bytes \<Rightarrow> (Account \<times> bytes) res" where
  "Unmarshal_multisign a msa d =
    (if unat msa > 0 then
       if length d < unat msa * 20 then Inl (Errorf ''not enough data for multisign addresses'')
       else bindR (readN AddressLength (unat msa) d) (\<lambda>(xs, d). Inr (a\<lparr>acc_MultiSignAddresses := xs\<rparr>, d))
     else Inr (a, d))"

definition Unmarshal_history :: "Account \<Rightarrow> bytes \<Rightarrow> (Account \<times> bytes) res" where
  "Unmarshal_history a d =
    (if length d \<ge> 16 then
       bindR (readHashList ''invalid sender transaction count'' d) (\<lambda>(ss, d).
       if length d < 8 then Inl (Errorf ''not enough data for recipient transaction count'')
       else bindR (readHashList ''invalid recipient transaction count'' d) (\<lambda>(rs, d).
         Inr (a\<lparr>acc_TransactionsSender := ss, acc_TransactionsRecipient := rs\<rparr>, d)))
     else Inr (a, d))"

definition Unmarshal_counters :: "Account \<Rightarrow> bytes \<Rightarrow> (Account \<times> bytes) res" where
  "Unmarshal_counters a d =
    (if length d \<ge> 16 then
       bindR (int64At 0 d) (\<lambda>s. bindR (int64At 8 d) (\<lambda>r. bindR (tailR 16 d) (\<lambda>d.
         Inr (a\<lparr>acc_SentCount := s, acc_ReceivedCount := r\<rparr>, d))))
     else Inr (a\<lparr>acc_SentCount := word_of_nat (length (acc_TransactionsSender a)),
                 acc_ReceivedCount := word_of_nat (length (acc_TransactionsRecipient a))\<rparr>, d))"

definition Unmarshal_recovery :: "Account \<Rightarrow> bytes \<Rightarrow> (Account \<times> bytes) res" where
  "Unmarshal_recovery a d =
    (if length d \<ge> 2 * AddressLength + 8 then
       bindR (sliceR 0 20 d) (\<lambda>c. bindR (sliceR 20 40 d) (\<lambda>p.
       bindR (int64At 40 d) (\<lambda>h. bindR (tailR 48 d) (\<lambda>d.
         Inr (a\<lparr>acc_RecoveryCommit := c, acc_RecoveryPendingCommit := p,
                acc_RecoveryPendingHeight := h\<rparr>, d)))))
     else Inr (a, d))"

definition Unmarshal_spare :: "Account \<Rightarrow> bytes \<Rightarrow> Account res" where
  "Unmarshal_spare a d =
    (if length d \<ge> 2 * AddressLength then
       bindR (sliceR 0 20 d) (\<lambda>c. bindR (sliceR 20 40 d) (\<lambda>p.
         Inr (a\<lparr>acc_SpareCommit := c, acc_SparePendingCommit := p\<rparr>)))
     else Inr a)"

definition Account_Unmarshal :: "Account \<Rightarrow> bytes \<Rightarrow> Account res" where
  "Account_Unmarshal a data =
    (if length data < 38 then Inl (Errorf ''wrong number of bytes in unmarshal account'')
     else
       bindR (int64At 0 data) (\<lambda>bal. bindR (sliceR 8 28 data) (\<lambda>addr.
       bindR (int64At 28 data) (\<lambda>delay. bindR (indexR data 36) (\<lambda>msn.
       bindR (indexR data 37) (\<lambda>msa. bindR (tailR 38 data) (\<lambda>d.
       bindR (Unmarshal_multisign (a\<lparr>acc_Balance := bal, acc_Address := addr,
               acc_TransactionDelay := delay, acc_MultiSignNumber := msn\<rparr>) msa d) (\<lambda>(a, d).
       bindR (Unmarshal_history a d) (\<lambda>(a, d).
       bindR (Unmarshal_counters a d) (\<lambda>(a, d).
       bindR (Unmarshal_recovery a d) (\<lambda>(a, d). Unmarshal_spare a d)))))))))))"

definition marshal_bind :: "bytes \<times> RecoveryBind \<Rightarrow> bytes" where
  "marshal_bind = (\<lambda>(k, b). k @ rb_Identity b @ rb_Payload b @ GetByteInt64 (rb_Height b))"

lemma marshal_bind_pair:
  "marshal_bind (k, b) = k @ rb_Identity b @ rb_Payload b @ GetByteInt64 (rb_Height b)"
  by (simp add: marshal_bind_def)

text \<open>\<open>Marshal\<close> writes the accounts in the order the map is iterated in and the binds in the order
  of their keys.\<close>

definition sorted_binds :: "(bytes, RecoveryBind) gomap \<Rightarrow> (bytes \<times> RecoveryBind) list" where
  "sorted_binds m = map (\<lambda>k. (k, the (map_of m k))) (sortedBindKeys m)"

definition AccountsType_Marshal :: "AccountsType \<Rightarrow> bytes" where
  "AccountsType_Marshal at =
     GetByteInt64 (word_of_nat (length (AllAccounts at)))
     @ concat (map (\<lambda>(address, acc). address @ BytesToLenAndBytes (Account_Marshal acc)) (AllAccounts at))
     @ GetByteInt64 (word_of_nat (length (sortedBindKeys (RecoveryBinds at))))
     @ concat (map marshal_bind (sorted_binds (RecoveryBinds at)))
     @ GetByteInt64 (at_Height at)"

fun readAccounts :: "nat \<Rightarrow> (bytes, Account) gomap \<Rightarrow> bytes \<Rightarrow> ((bytes, Account) gomap \<times> bytes) res" where
  "readAccounts 0 m d = Inr (m, d)"
| "readAccounts (Suc n) m d =
    (if length d < AddressLength then Inl (Errorf ''not enough data for account address'')
     else bindR (sliceR 0 20 d) (\<lambda>address. bindR (tailR 20 d) (\<lambda>d.
       bindR (BytesWithLenToBytes d) (\<lambda>(bs, leftBs).
       bindR (Account_Unmarshal zero_Account bs) (\<lambda>acc.
         readAccounts n (mput address acc m) leftBs)))))"

abbreviation (input) bind_entry :: nat where "bind_entry \<equiv> 92"

fun readBinds :: "nat \<Rightarrow> (bytes, RecoveryBind) gomap \<Rightarrow> bytes
    \<Rightarrow> ((bytes, RecoveryBind) gomap \<times> bytes) res" where
  "readBinds 0 m d = Inr (m, d)"
| "readBinds (Suc n) m d =
    bindR (sliceR 0 32 d) (\<lambda>k. bindR (sliceR 32 52 d) (\<lambda>i. bindR (sliceR 52 84 d) (\<lambda>p.
    bindR (int64At 84 d) (\<lambda>h. bindR (tailR bind_entry d) (\<lambda>d.
      readBinds n (mput k \<lparr>rb_Identity = i, rb_Payload = p, rb_Height = h\<rparr> m) d)))))"

definition AccountsType_Unmarshal :: "AccountsType \<Rightarrow> bytes \<Rightarrow> AccountsType res" where
  "AccountsType_Unmarshal at data =
    (if length data < 16 then Inl (Errorf ''not enough data to unmarshal accounts'')
     else bindR (int64At 0 data) (\<lambda>n.
       if sint n < 0 \<or> sint n > int (length data - 8) div int AddressLength
       then Inl (Errorf ''invalid account count'')
       else bindR (tailR 8 data) (\<lambda>d.
         bindR (readAccounts (nat (sint n)) [] d) (\<lambda>(accs, d).
         bindR (if length d > 8 then
                  if length d < 16 then Inl (Errorf ''error with unmarshal recovery binds'')
                  else bindR (int64At 0 d) (\<lambda>n. bindR (tailR 8 d) (\<lambda>d.
                    if sint n < 0 \<or> sint n > (int (length d) - 8) div int bind_entry
                    then Inl (Errorf ''invalid recovery bind count'')
                    else readBinds (nat (sint n)) [] d))
                else Inr ([], d)) (\<lambda>(binds, d).
         if length d \<noteq> 8 then Inl (Errorf ''error with unmarshal account'')
         else bindR (GetInt64FromByte d) (\<lambda>h.
           Inr \<lparr>AllAccounts = accs, RecoveryBinds = binds, at_Height = h\<rparr>))))))"

subsection \<open>Round trips of the codecs\<close>

definition wf_Account :: "Account \<Rightarrow> bool" where
  "wf_Account a \<longleftrightarrow>
     length (acc_Address a) = AddressLength \<and>
     length (acc_MultiSignAddresses a) < 256 \<and>
     (\<forall>x \<in> set (acc_MultiSignAddresses a). length x = AddressLength) \<and>
     length (acc_TransactionsSender a) < 2 ^ 63 \<and>
     (\<forall>x \<in> set (acc_TransactionsSender a). length x = HashLength) \<and>
     length (acc_TransactionsRecipient a) < 2 ^ 63 \<and>
     (\<forall>x \<in> set (acc_TransactionsRecipient a). length x = HashLength) \<and>
     length (acc_RecoveryCommit a) = AddressLength \<and>
     length (acc_RecoveryPendingCommit a) = AddressLength \<and>
     length (acc_SpareCommit a) = AddressLength \<and>
     length (acc_SparePendingCommit a) = AddressLength"

lemma int64At_app [simp, codec_simps]:
  "length xs = i \<Longrightarrow> int64At i (xs @ GetByteInt64 u @ r) = Inr u"
  by (simp add: int64At_def)

lemma int64At_0 [simp, codec_simps]: "int64At 0 (GetByteInt64 u @ r) = Inr u"
  by (simp add: int64At_def)

lemma int64At_total: "i + 8 \<le> length d \<Longrightarrow> \<exists>u. int64At i d = Inr u"
  by (simp add: int64At_def GetInt64FromByte_def)

lemma length_concat_const: "\<forall>x \<in> set xs. length x = w \<Longrightarrow> length (concat xs) = length xs * w"
  by (induction xs) auto

lemma readHashList_ok [simp, codec_simps]:
  assumes "\<forall>x \<in> set xs. length x = HashLength" "length xs < 2 ^ 63"
  shows "readHashList what (GetByteInt64 (word_of_nat (length xs)) @ concat xs @ r) = Inr (xs, r)"
proof -
  have "length (concat xs) = length xs * 32"
    using assms(1) by (rule length_concat_const)
  then show ?thesis
    using assms by (simp add: readHashList_def not_less)
qed

lemma Unmarshal_multisign_ok:
  assumes "\<forall>x \<in> set xs. length x = AddressLength" "length xs < 256" "acc_MultiSignAddresses a = []"
  shows "Unmarshal_multisign a (word_of_nat (length xs)) (concat xs @ r)
    = Inr (a\<lparr>acc_MultiSignAddresses := xs\<rparr>, r)"
proof -
  have "unat (word_of_nat (length xs) :: uint8) = length xs"
    using assms(2) by (simp add: unsigned_of_nat take_bit_nat_eq_self)
  then show ?thesis
    using assms length_concat_const [OF assms(1)] by (simp add: Unmarshal_multisign_def)
qed

lemma Unmarshal_history_ok:
  assumes "\<forall>x \<in> set ss. length x = HashLength" "length ss < 2 ^ 63"
    "\<forall>x \<in> set rs. length x = HashLength" "length rs < 2 ^ 63"
  shows "Unmarshal_history a (GetByteInt64 (word_of_nat (length ss)) @ concat ss
      @ GetByteInt64 (word_of_nat (length rs)) @ concat rs @ r)
    = Inr (a\<lparr>acc_TransactionsSender := ss, acc_TransactionsRecipient := rs\<rparr>, r)"
  using assms by (simp add: Unmarshal_history_def)

lemma Unmarshal_counters_ok:
  "Unmarshal_counters a (GetByteInt64 s @ GetByteInt64 r @ d)
    = Inr (a\<lparr>acc_SentCount := s, acc_ReceivedCount := r\<rparr>, d)"
  by (simp add: Unmarshal_counters_def)

lemma Unmarshal_recovery_ok:
  "length c = 20 \<Longrightarrow> length p = 20 \<Longrightarrow> Unmarshal_recovery a (c @ p @ GetByteInt64 h @ d)
    = Inr (a\<lparr>acc_RecoveryCommit := c, acc_RecoveryPendingCommit := p,
             acc_RecoveryPendingHeight := h\<rparr>, d)"
  using int64At_app [of "c @ p" 40 h d] by (simp add: Unmarshal_recovery_def)

lemma Unmarshal_spare_ok:
  "length c = 20 \<Longrightarrow> length p = 20 \<Longrightarrow> Unmarshal_spare a (c @ p)
    = Inr (a\<lparr>acc_SpareCommit := c, acc_SparePendingCommit := p\<rparr>)"
  by (simp add: Unmarshal_spare_def)

lemma Account_Unmarshal_Marshal [codec_simps]:
  assumes "wf_Account a"
  shows "Account_Unmarshal zero_Account (Account_Marshal a) = Inr a"
proof -
  let ?tail = "concat (acc_MultiSignAddresses a)
     @ GetByteInt64 (word_of_nat (length (acc_TransactionsSender a))) @ concat (acc_TransactionsSender a)
     @ GetByteInt64 (word_of_nat (length (acc_TransactionsRecipient a))) @ concat (acc_TransactionsRecipient a)
     @ GetByteInt64 (acc_SentCount a) @ GetByteInt64 (acc_ReceivedCount a)
     @ acc_RecoveryCommit a @ acc_RecoveryPendingCommit a @ GetByteInt64 (acc_RecoveryPendingHeight a)
     @ acc_SpareCommit a @ acc_SparePendingCommit a"
  define m where "m = Account_Marshal a"
  have wf: "length (acc_Address a) = 20"
    using assms by (simp add: wf_Account_def)
  have m: "m = GetByteInt64 (acc_Balance a) @ acc_Address a @ GetByteInt64 (acc_TransactionDelay a)
     @ [acc_MultiSignNumber a, word_of_nat (length (acc_MultiSignAddresses a))] @ ?tail"
    by (simp add: m_def Account_Marshal_def)
  have "\<not> length m < 38" "int64At 0 m = Inr (acc_Balance a)" "sliceR 8 28 m = Inr (acc_Address a)"
    "int64At 28 m = Inr (acc_TransactionDelay a)" "indexR m 36 = Inr (acc_MultiSignNumber a)"
    "indexR m 37 = Inr (word_of_nat (length (acc_MultiSignAddresses a)))" "tailR 38 m = Inr ?tail"
    using wf int64At_app [of "GetByteInt64 (acc_Balance a) @ acc_Address a" 28 "acc_TransactionDelay a"]
    by (simp_all add: m nth_append)
  then show ?thesis
    using assms unfolding Account_Unmarshal_def m_def [symmetric]
    by (simp add: wf_Account_def Unmarshal_multisign_ok zero_Account_def Unmarshal_history_ok
        Unmarshal_counters_ok Unmarshal_recovery_ok Unmarshal_spare_ok)
qed

subsection \<open>The decoders never panic\<close>

lemma no_panic_int64At: "i + 8 \<le> length d \<Longrightarrow> no_panic (int64At i d)"
  using int64At_total [of i d] by auto

lemma no_panic_GetInt64FromByte: "8 \<le> length d \<Longrightarrow> no_panic (GetInt64FromByte d)"
  by (simp add: GetInt64FromByte_def)

lemma no_panic_readHashList: "8 \<le> length d \<Longrightarrow> no_panic (readHashList (what :: string) d)"
  unfolding readHashList_def
  by (intro no_panic_bindR)
    (auto simp: no_panic_int64At dest!: tailR_Inr intro!: no_panic_readN)

lemma no_panic_Unmarshal_parts:
  "no_panic (Unmarshal_multisign a msa d)" "no_panic (Unmarshal_history a d)"
  "no_panic (Unmarshal_counters a d)" "no_panic (Unmarshal_recovery a d)" "no_panic (Unmarshal_spare a d)"
  unfolding Unmarshal_multisign_def Unmarshal_history_def Unmarshal_counters_def
    Unmarshal_recovery_def Unmarshal_spare_def
  by (auto intro!: no_panic_bindR no_panic_readN no_panic_readHashList no_panic_int64At
      split: prod.splits)

lemma no_panic_Account_Unmarshal: "no_panic (Account_Unmarshal a d)"
  unfolding Account_Unmarshal_def
  by (auto intro!: no_panic_bindR no_panic_Unmarshal_parts no_panic_int64At split: prod.splits)

lemma no_panic_readAccounts: "no_panic (readAccounts n m d)"
  by (induction n m d rule: readAccounts.induct)
    (auto intro!: no_panic_bindR no_panic_Account_Unmarshal
      simp: no_panic_def [of "BytesWithLenToBytes _"] BytesWithLenToBytes_no_panic)

lemma no_panic_readBinds: "n * bind_entry \<le> length d \<Longrightarrow> no_panic (readBinds n m d)"
  by (induction n m d rule: readBinds.induct)
    (auto intro!: no_panic_bindR no_panic_int64At dest!: tailR_Inr)

lemma no_panic_AccountsType_Unmarshal: "no_panic (AccountsType_Unmarshal at d)"
proof -
  have binds: "no_panic (if length d > 8 then
                  if length d < 16 then Inl (Errorf ''error with unmarshal recovery binds'')
                  else bindR (int64At 0 d) (\<lambda>n. bindR (tailR 8 d) (\<lambda>d.
                    if sint n < 0 \<or> sint n > (int (length d) - 8) div int bind_entry
                    then Inl (Errorf ''invalid recovery bind count'')
                    else readBinds (nat (sint n)) [] d))
                else Inr ([], d))" for d
    by (auto intro!: no_panic_bindR no_panic_int64At no_panic_readBinds)
  show ?thesis
    unfolding AccountsType_Unmarshal_def
    by (auto intro!: no_panic_bindR no_panic_int64At no_panic_readAccounts binds
        no_panic_GetInt64FromByte split: prod.splits)
qed

subsection \<open>Round trip of the whole set of accounts\<close>

definition wf_bind :: "bytes \<times> RecoveryBind \<Rightarrow> bool" where
  "wf_bind = (\<lambda>(k, b). length k = 32 \<and> length (rb_Identity b) = AddressLength \<and> length (rb_Payload b) = 32)"

definition wf_AccountsType :: "AccountsType \<Rightarrow> bool" where
  "wf_AccountsType at \<longleftrightarrow>
     wf_map (AllAccounts at) \<and> wf_map (RecoveryBinds at) \<and>
     length (AllAccounts at) < 2 ^ 63 \<and> length (RecoveryBinds at) < 2 ^ 63 \<and>
     (\<forall>(k, acc) \<in> set (AllAccounts at).
        length k = AddressLength \<and> wf_Account acc \<and> length (Account_Marshal acc) < 2 ^ 32) \<and>
     (\<forall>kb \<in> set (RecoveryBinds at). wf_bind kb)"

lemma readAccounts_ok:
  assumes "wf_map (m @ xs)" "n = length xs"
    "\<forall>(k, acc) \<in> set xs. length k = AddressLength \<and> wf_Account acc \<and> length (Account_Marshal acc) < 2 ^ 32"
  shows "readAccounts n m (concat (map (\<lambda>(address, acc). address @ BytesToLenAndBytes (Account_Marshal acc)) xs) @ r)
    = Inr (m @ xs, r)"
  using assms
proof (induction xs arbitrary: m n)
  case Nil
  then show ?case by simp
next
  case (Cons kv xs)
  obtain k acc where kv: "kv = (k, acc)" by (cases kv)
  have "mput k acc m = m @ [(k, acc)]"
    by (rule mput_append) (use Cons.prems(1) kv in auto)
  moreover have "readAccounts (length xs) ((m @ [(k, acc)]))
     (concat (map (\<lambda>(address, acc). address @ BytesToLenAndBytes (Account_Marshal acc)) xs) @ r)
     = Inr ((m @ [(k, acc)]) @ xs, r)"
    by (rule Cons.IH) (use Cons.prems kv in auto)
  ultimately show ?case
    using Cons.prems kv by (simp add: Account_Unmarshal_Marshal)
qed

lemma readBinds_ok:
  assumes "wf_map (m @ xs)" "n = length xs" "\<forall>kb \<in> set xs. wf_bind kb"
  shows "readBinds n m (concat (map marshal_bind xs) @ r) = Inr (m @ xs, r)"
  using assms
proof (induction xs arbitrary: m n)
  case Nil
  then show ?case by simp
next
  case (Cons kv xs)
  obtain k b where kv: "kv = (k, b)" by (cases kv)
  have len: "length k = 32" "length (rb_Identity b) = 20" "length (rb_Payload b) = 32"
    using Cons.prems(3) kv by (simp_all add: wf_bind_def)
  define d where "d = concat (map marshal_bind xs) @ r"
  have at: "int64At 84 (k @ rb_Identity b @ rb_Payload b @ GetByteInt64 (rb_Height b) @ d) = Inr (rb_Height b)"
    using int64At_app [of "k @ rb_Identity b @ rb_Payload b" 84 "rb_Height b" d] len by simp
  have "mput k \<lparr>rb_Identity = rb_Identity b, rb_Payload = rb_Payload b, rb_Height = rb_Height b\<rparr> m
      = m @ [(k, b)]"
    by (subst mput_append) (use Cons.prems(1) kv in auto)
  moreover have "readBinds (length xs) (m @ [(k, b)]) d = Inr ((m @ [(k, b)]) @ xs, r)"
    unfolding d_def by (rule Cons.IH) (use Cons.prems kv in auto)
  ultimately show ?case
    using Cons.prems kv len at by (simp add: marshal_bind_pair d_def [symmetric])
qed

lemma length_marshal_accounts:
  "\<forall>(k, acc) \<in> set xs. length k = AddressLength \<Longrightarrow>
   20 * length xs \<le> length (concat (map (\<lambda>(address, acc). address @ BytesToLenAndBytes (Account_Marshal acc)) xs))"
  by (induction xs) auto

lemma length_marshal_binds:
  "\<forall>kb \<in> set xs. wf_bind kb \<Longrightarrow> length (concat (map marshal_bind xs)) = bind_entry * length xs"
  by (induction xs) (auto simp: marshal_bind_def wf_bind_def)

lemma sorted_binds_facts:
  assumes "wf_map m"
  shows "wf_map (sorted_binds m)" "set (sorted_binds m) = set m"
    "length (sorted_binds m) = length m" "map_of (sorted_binds m) = map_of m"
proof -
  have ms: "mset (sorted_binds m) = mset m"
    using sorted_pairs_mset [OF assms, of "\<lambda>x. x"] by (simp add: sorted_binds_def sortedBindKeys_def)
  show "wf_map (sorted_binds m)"
    using assms by (simp add: sorted_binds_def sortedBindKeys_def comp_def)
  show "set (sorted_binds m) = set m" "length (sorted_binds m) = length m"
    using ms by (auto dest: mset_eq_setD mset_eq_length)
  show "map_of (sorted_binds m) = map_of m"
    using map_of_perm [OF assms] ms by metis
qed

lemma AccountsType_Unmarshal_parts:
  assumes "20 * n \<le> length A" "n < 2 ^ 63" "readAccounts n [] (A @ d) = Inr (accs, d)"
    and d: "d = GetByteInt64 (word_of_nat k) @ B @ GetByteInt64 h" "k < 2 ^ 63" "length B = bind_entry * k"
    and rB: "readBinds k [] (B @ GetByteInt64 h) = Inr (bs, GetByteInt64 h)"
  shows "AccountsType_Unmarshal z (GetByteInt64 (word_of_nat n) @ A @ d)
    = Inr \<lparr>AllAccounts = accs, RecoveryBinds = bs, at_Height = h\<rparr>"
proof -
  have "int n \<le> (int (length A) + int (length d)) div 20"
    using assms(1) by linarith
  moreover have "int k \<le> (int (length B) + 8 - 8) div 92"
    using d(3) by simp
  ultimately show ?thesis
    using assms(2,3) d(2,3) rB unfolding AccountsType_Unmarshal_def
    by (simp add: not_less) (simp add: d(1))
qed

lemma AccountsType_Unmarshal_Marshal [codec_simps]:
  assumes "wf_AccountsType at"
  shows "AccountsType_Unmarshal z (AccountsType_Marshal at)
    = Inr (at\<lparr>RecoveryBinds := sorted_binds (RecoveryBinds at)\<rparr>)"
proof -
  let ?A = "concat (map (\<lambda>(address, acc). address @ BytesToLenAndBytes (Account_Marshal acc)) (AllAccounts at))"
  let ?S = "sorted_binds (RecoveryBinds at)"
  let ?B = "concat (map marshal_bind ?S)"
  let ?n = "length (RecoveryBinds at)"
  let ?d = "GetByteInt64 (word_of_nat ?n) @ ?B @ GetByteInt64 (at_Height at)"
  have wf: "wf_map (AllAccounts at)" "wf_map (RecoveryBinds at)"
      "length (AllAccounts at) < 2 ^ 63" "?n < 2 ^ 63"
      "\<forall>kb \<in> set (RecoveryBinds at). wf_bind kb"
    and accs: "\<forall>(k, acc) \<in> set (AllAccounts at).
        length k = AddressLength \<and> wf_Account acc \<and> length (Account_Marshal acc) < 2 ^ 32"
    using assms by (simp_all add: wf_AccountsType_def)
  note S = sorted_binds_facts [OF wf(2)]
  have m: "AccountsType_Marshal at = GetByteInt64 (word_of_nat (length (AllAccounts at))) @ ?A @ ?d"
    using wf(2) by (simp add: AccountsType_Marshal_def sortedBindKeys_def)
  have A: "20 * length (AllAccounts at) \<le> length ?A"
    by (rule length_marshal_accounts) (use accs in auto)
  have B: "length ?B = bind_entry * ?n"
    using length_marshal_binds [of ?S] wf(5) S by simp
  have rA: "readAccounts (length (AllAccounts at)) [] (?A @ ?d) = Inr (AllAccounts at, ?d)"
    using readAccounts_ok [of "[]" "AllAccounts at" "length (AllAccounts at)" ?d] wf(1) accs by simp
  have rB: "readBinds ?n [] (?B @ GetByteInt64 (at_Height at)) = Inr (?S, GetByteInt64 (at_Height at))"
    using readBinds_ok [of "[]" ?S ?n "GetByteInt64 (at_Height at)"] wf(5) S by simp
  show ?thesis
    unfolding m AccountsType_Unmarshal_parts [OF A wf(3) rA refl wf(4) B rB] by simp
qed

subsection \<open>Recovery commitments mature or are voided\<close>

lemma promoteMatured_active:
  "EffectiveRecoveryCommit a h =
     acc_RecoveryCommit (promoteMatured a h)"
  "EffectiveSpareCommit a h = acc_SpareCommit (promoteMatured a h)"
  by (simp_all add: promoteMatured_def EffectiveRecoveryCommit_def EffectiveSpareCommit_def)

lemma not_matured_in_window:
  assumes "sint h' < sint h + 60480" "sint h + 60480 < 2 ^ 63"
  shows "\<not> matured h h'"
proof -
  have "sint (h + 60480) = sint h + sint (60480 :: int64)"
    by (rule sint_add64) (use assms sint_range64 [of h] in simp_all)
  then show ?thesis
    using assms(1) by (simp add: matured_def)
qed

lemma SetCommitments_stable:
  assumes "HasCommitments a" "sint h' < sint h + 60480" "sint h + 60480 < 2 ^ 63"
  shows "EffectiveRecoveryCommit (SetCommitments a spare c h) h' = EffectiveRecoveryCommit a h"
    and "EffectiveSpareCommit (SetCommitments a spare c h) h' = EffectiveSpareCommit a h"
  using assms(1) not_matured_in_window [OF assms(2,3)]
  by (simp_all add: promoteMatured_active(1,2) [of a h] SetCommitments_def
      EffectiveRecoveryCommit_def [of "_\<lparr>acc_RecoveryPendingHeight := h\<rparr>"]
      EffectiveSpareCommit_def [of "_\<lparr>acc_RecoveryPendingHeight := h\<rparr>"])

lemma voidPending_effective:
  "EffectiveRecoveryCommit (fst (voidPending h a)) h' = EffectiveRecoveryCommit a h"
  "EffectiveSpareCommit (fst (voidPending h a)) h' = EffectiveSpareCommit a h"
  by (auto simp: voidPending_def Let_def promoteMatured_def EffectiveRecoveryCommit_def
      EffectiveSpareCommit_def)

lemma map_of_map_snd: "map_of (map (\<lambda>(k, v). (k, f v)) m) k = map_option f (map_of m k)"
  by (induction m) auto

lemma VoidPendingRecoveryCommits_get:
  "map_of (AllAccounts (snd (VoidPendingRecoveryCommits h at))) k =
     map_option (fst \<circ> voidPending h) (map_of (AllAccounts at) k)"
  by (simp add: VoidPendingRecoveryCommits_def map_of_map_snd [of "fst \<circ> voidPending h", simplified comp_def]
      comp_def)

text \<open>Binds: the first bind of a key stays until it is deleted or expires.\<close>

lemma AddRecoveryBind_first_wins:
  "map_of (RecoveryBinds at) key = Some b \<Longrightarrow>
   map_of (RecoveryBinds (snd (AddRecoveryBind key' b' at))) key = Some b"
  by (auto simp: AddRecoveryBind_def split: option.splits)

lemma map_of_filter_snd:
  "wf_map m \<Longrightarrow> map_of (filter (\<lambda>kb. P (snd kb)) m) k =
     (case map_of m k of None \<Rightarrow> None | Some v \<Rightarrow> if P v then Some v else None)"
  by (induction m) (auto split: option.splits simp: map_of_eq_None_iff)

lemma PruneRecoveryBinds_get:
  assumes "wf_map (RecoveryBinds at)"
  shows "map_of (RecoveryBinds (snd (PruneRecoveryBinds h at))) key =
    (case map_of (RecoveryBinds at) key of None \<Rightarrow> None
     | Some b \<Rightarrow> if bind_expired h b then None else Some b)"
  using map_of_filter_snd [OF assms, of "\<lambda>b. \<not> bind_expired h b"]
  by (simp add: PruneRecoveryBinds_def split: option.splits)

subsection \<open>Balances\<close>

text \<open>The sum of all liquid balances and how the writes move it.\<close>

definition total_balance :: "AccountsType \<Rightarrow> int64" where
  "total_balance at = msum acc_Balance (AllAccounts at)"

lemma zero_Account_balance [simp]: "acc_Balance zero_Account = 0"
  by (simp add: zero_Account_def)

lemma total_balance_put [supply_simps]:
  "wf_map (AllAccounts at) \<Longrightarrow>
   total_balance (put_account k acc at) = total_balance at - GetBalance at k + acc_Balance acc"
  by (simp add: total_balance_def put_account_def GetBalance_def msum_mput [where z = zero_Account])

lemma AllAccounts_put [simp]: "AllAccounts (put_account k acc at) = mput k acc (AllAccounts at)"
  by (simp add: put_account_def)

lemma GetBalance_put [simp]:
  "GetBalance (put_account k acc at) k' = (if k' = k then acc_Balance acc else GetBalance at k')"
  by (simp add: GetBalance_def)


subsection \<open>Properties of the accounts\<close>

text \<open>C26: The snapshot of the accounts can be read back: \<open>Unmarshal\<close> of what \<open>Marshal\<close> wrote returns
  the same accounts in the same order, the same height and the same recovery binds.\<close>

theorem accounts_snapshot_round_trip:
  assumes "wf_AccountsType at"
  shows "\<exists>at'. AccountsType_Unmarshal z (AccountsType_Marshal at) = Inr at' \<and>
    AllAccounts at' = AllAccounts at \<and> at_Height at' = at_Height at \<and>
    map_of (RecoveryBinds at') = map_of (RecoveryBinds at)"
  using AccountsType_Unmarshal_Marshal [OF assms] sorted_binds_facts(4) [of "RecoveryBinds at"] assms
  by (simp add: wf_AccountsType_def)

theorem accounts_snapshot_round_trip_witness:
  "\<exists>at'. AccountsType_Unmarshal \<lparr>AllAccounts = [], RecoveryBinds = [], at_Height = 0\<rparr> (AccountsType_Marshal
     \<lparr>AllAccounts = [(replicate 20 1, zero_Account\<lparr>acc_Address := replicate 20 1, acc_Balance := 5\<rparr>)],
      RecoveryBinds = [(replicate 32 2, \<lparr>rb_Identity = replicate 20 1, rb_Payload = replicate 32 3, rb_Height = 9\<rparr>),
                       (replicate 32 1, \<lparr>rb_Identity = replicate 20 1, rb_Payload = replicate 32 4, rb_Height = 8\<rparr>)],
      at_Height = 7\<rparr>) = Inr at' \<and>
    AllAccounts at' = [(replicate 20 1, zero_Account\<lparr>acc_Address := replicate 20 1, acc_Balance := 5\<rparr>)] \<and> at_Height at' = 7 \<and>
    map_of (RecoveryBinds at') (replicate 32 1) = Some \<lparr>rb_Identity = replicate 20 1, rb_Payload = replicate 32 4, rb_Height = 8\<rparr>"
proof -
  define at where "at =
     \<lparr>AllAccounts = [(replicate 20 1, zero_Account\<lparr>acc_Address := replicate 20 1, acc_Balance := 5\<rparr>)],
      RecoveryBinds = [(replicate 32 2, \<lparr>rb_Identity = replicate 20 1, rb_Payload = replicate 32 3, rb_Height = 9\<rparr>),
                       (replicate 32 1, \<lparr>rb_Identity = replicate 20 1, rb_Payload = replicate 32 4, rb_Height = 8\<rparr>)],
      at_Height = 7\<rparr>"
  have "wf_AccountsType at"
    by (simp add: at_def wf_AccountsType_def wf_Account_def wf_bind_def zero_Account_def Account_Marshal_def)
  from accounts_snapshot_round_trip [OF this, of "\<lparr>AllAccounts = [], RecoveryBinds = [], at_Height = 0\<rparr>"]
  obtain at' where at': "AccountsType_Unmarshal \<lparr>AllAccounts = [], RecoveryBinds = [], at_Height = 0\<rparr> (AccountsType_Marshal at) = Inr at'"
    "AllAccounts at' = AllAccounts at" "at_Height at' = at_Height at" "map_of (RecoveryBinds at') = map_of (RecoveryBinds at)"
    by blast
  have "map_of (RecoveryBinds at) (replicate 32 1) = Some \<lparr>rb_Identity = replicate 20 1, rb_Payload = replicate 32 4, rb_Height = 8\<rparr>"
    unfolding at_def by code_simp
  then show ?thesis
    unfolding at_def [symmetric] using at' by (intro exI [of _ at']) (simp add: at_def)
qed

text \<open>C27: A thief who holds a signing key cannot shorten the notice of a change of commitments: after
  \<open>SetCommitments\<close> on an account that has commitments, the effective recovery and spare commitments
  stay what they were for the next 60480 blocks, and a scheme pause that voids the pending ones
  leaves them in force.\<close>

theorem commitments_stable_until_maturity:
  assumes "HasCommitments a" "sint h' < sint h + sint RecoveryCommitMaturityBlocks" "sint h + sint RecoveryCommitMaturityBlocks < 2 ^ 63"
  shows "EffectiveRecoveryCommit (SetCommitments a spare c h) h' = EffectiveRecoveryCommit a h \<and>
    EffectiveSpareCommit (SetCommitments a spare c h) h' = EffectiveSpareCommit a h \<and>
    EffectiveRecoveryCommit (fst (voidPending h' (SetCommitments a spare c h))) h'' = EffectiveRecoveryCommit a h \<and>
    EffectiveSpareCommit (fst (voidPending h' (SetCommitments a spare c h))) h'' = EffectiveSpareCommit a h"
  using SetCommitments_stable [of a h' h spare c] assms by (simp add: voidPending_effective)

theorem commitments_stable_until_maturity_witness:
  "let a = zero_Account\<lparr>acc_RecoveryCommit := replicate 20 1, acc_SpareCommit := replicate 20 2\<rparr> in
   HasCommitments a \<and>
   EffectiveRecoveryCommit (SetCommitments a (replicate 20 4) (replicate 20 3) 1000) 61000 = replicate 20 1 \<and>
   EffectiveSpareCommit (fst (voidPending 61000 (SetCommitments a (replicate 20 4) (replicate 20 3) 1000))) 99999 = replicate 20 2"
proof -
  let ?a = "zero_Account\<lparr>acc_RecoveryCommit := replicate 20 1, acc_SpareCommit := replicate 20 2\<rparr>"
  have h: "HasCommitments ?a" by code_simp
  have e: "EffectiveRecoveryCommit ?a 1000 = replicate 20 1" "EffectiveSpareCommit ?a 1000 = replicate 20 2"
    by code_simp+
  show ?thesis
    using commitments_stable_until_maturity [OF h, of 61000 1000 "replicate 20 4" "replicate 20 3" 99999] h e
    by (simp add: Let_def)
qed

text \<open>A recovery bind is settled by the first transaction that makes it: adding another one under
  the same key changes nothing, and pruning removes exactly the binds that are past their expiry.\<close>

theorem recovery_bind_first_wins:
  assumes "wf_map (RecoveryBinds at)" "map_of (RecoveryBinds at) key = Some b"
  shows "GetRecoveryBind (snd (AddRecoveryBind key' b' at)) key = Some b \<and>
    GetRecoveryBind (snd (PruneRecoveryBinds h at)) key = (if bind_expired h b then None else Some b)"
  using AddRecoveryBind_first_wins [OF assms(2)] PruneRecoveryBinds_get [OF assms(1)] assms(2)
  by (simp add: GetRecoveryBind_def)

theorem recovery_bind_first_wins_witness:
  "let b = \<lparr>rb_Identity = replicate 20 1, rb_Payload = replicate 32 3, rb_Height = 9\<rparr>;
       at = \<lparr>AllAccounts = [], RecoveryBinds = [(replicate 32 7, b)], at_Height = 9\<rparr>
   in GetRecoveryBind (snd (AddRecoveryBind (replicate 32 7) (b\<lparr>rb_Height := 1\<rparr>) at)) (replicate 32 7) = Some b \<and>
      GetRecoveryBind (snd (PruneRecoveryBinds 120969 at)) (replicate 32 7) = Some b \<and>
      GetRecoveryBind (snd (PruneRecoveryBinds 120970 at)) (replicate 32 7) = None"
proof -
  let ?b = "\<lparr>rb_Identity = replicate 20 1, rb_Payload = replicate 32 3, rb_Height = 9\<rparr>"
  let ?at = "\<lparr>AllAccounts = [], RecoveryBinds = [(replicate 32 7, ?b)], at_Height = 9\<rparr>"
  have e: "\<not> bind_expired 120969 ?b" "bind_expired 120970 ?b"
    by code_simp+
  show ?thesis
    using recovery_bind_first_wins [of ?at "replicate 32 7" ?b "replicate 32 7" "?b\<lparr>rb_Height := 1\<rparr>" 120969]
      recovery_bind_first_wins [of ?at "replicate 32 7" ?b "replicate 32 7" "?b\<lparr>rb_Height := 1\<rparr>" 120970] e
    by (simp add: Let_def)
qed

end
