(* ===== verification/Transaction.thy ===== *)
theory Transaction
  imports Account
begin

text \<open>
  Transactions (\<open>transactionsDefinition/tx.go\<close>, \<open>baseTransaction.go\<close>, \<open>transaction.go\<close>,
  \<open>dexOrder.go\<close>): their data and parameters, the wire codec, the fee, the hash preimage and the
  payloads of cancellations and DEX orders. BLAKE2b and the active signature-scheme lengths are
  arguments (\<open>H160\<close>, \<open>H256\<close>, \<open>enc\<close>).
\<close>

subsection \<open>Data\<close>

record TxData =
  Recipient :: Address
  Amount :: int64
  OptData :: bytes
  Pubkey :: PubKey
  td_LockedAmount :: int64
  td_ReleasePerBlock :: int64
  DelegatedAccountForLocking :: Address
  EscrowTransactionsDelay :: int64
  td_MultiSignNumber :: uint8
  td_MultiSignAddresses :: "bytes list"

record TxParam =
  ChainID :: int16
  Sender :: Address
  SendingTime :: int64
  Nonce :: int64
  MultiSignTx :: bytes

record Transaction =
  tx_TxData :: TxData
  tx_TxParam :: TxParam
  tx_Hash :: bytes
  tx_Signature :: Signature
  tx_Height :: int64
  GasPrice :: int64
  GasUsage :: int64
  OutputLogs :: bytes
  ContractAddress :: Address

definition zero_TxData :: TxData where
  "zero_TxData = \<lparr>Recipient = zero_Address, Amount = 0, OptData = [], Pubkey = zero_PubKey,
     td_LockedAmount = 0, td_ReleasePerBlock = 0, DelegatedAccountForLocking = zero_Address,
     EscrowTransactionsDelay = 0, td_MultiSignNumber = 0, td_MultiSignAddresses = []\<rparr>"

subsection \<open>Parameters\<close>

definition TxParam_GetBytes :: "TxParam \<Rightarrow> bytes" where
  "TxParam_GetBytes tp =
     GetByteInt16 (ChainID tp) @ Address_GetBytesWithPrimary (Sender tp)
     @ GetByteInt64 (SendingTime tp) @ GetByteInt64 (Nonce tp) @ BytesToLenAndBytes (MultiSignTx tp)"

definition TxParam_GetFromBytes :: "bytes \<Rightarrow> (TxParam \<times> bytes) res" where
  "TxParam_GetFromBytes b =
    (if length b < 40 then Inl (Errorf ''not enough bytes in TxParam unmarshaling'')
     else
       bindR (bindR (sliceR 0 2 b) GetInt16FromByte) (\<lambda>chain.
       bindR (bindR (sliceR 2 23 b) BytesToAddress) (\<lambda>sender.
       bindR (int64At 23 b) (\<lambda>time. bindR (int64At 31 b) (\<lambda>nonce.
       bindR (tailR 39 b) (\<lambda>r.
       case BytesWithLenToBytes r of
         Inl _ \<Rightarrow> Inl (Errorf ''not enough bytes in TxParam unmarshaling (multisig hash tx)'')
       | Inr (vb, left) \<Rightarrow>
           let tp = \<lparr>ChainID = chain, Sender = sender, SendingTime = time, Nonce = nonce,
                     MultiSignTx = replicate HashLength 0\<rparr>
           in if vb = replicate HashLength 0 then Inr (tp, left)
              else Inr (tp\<lparr>MultiSignTx := Hash_Set (MultiSignTx tp) vb\<rparr>, left)))))))"

subsection \<open>Transaction data\<close>

definition TxData_body :: "TxData \<Rightarrow> bytes" where
  "TxData_body md =
     BytesToLenAndBytes (OptData md)
     @ BytesToLenAndBytes (Address_GetBytesWithPrimary (pk_MainAddress (Pubkey md)))
     @ BytesToLenAndBytes (pk_ByteValue (Pubkey md))
     @ BytesToLenAndBytes (GetByteInt64 (td_LockedAmount md))
     @ BytesToLenAndBytes (GetByteInt64 (td_ReleasePerBlock md))
     @ BytesToLenAndBytes (addr_ByteValue (DelegatedAccountForLocking md))
     @ BytesToLenAndBytes (GetByteInt64 (EscrowTransactionsDelay md))
     @ BytesToLenAndBytes [td_MultiSignNumber md]
     @ concat (map BytesToLenAndBytes (td_MultiSignAddresses md))"

definition TxData_GetBytes :: "TxData \<Rightarrow> bytes" where
  "TxData_GetBytes md =
    (let b = Address_GetBytesWithPrimary (Recipient md) @ GetByteInt64 (Amount md);
         bl = TxData_body md
     in if bl \<noteq> replicate (length bl) 0 then b @ BytesToLenAndBytes bl else b)"

text \<open>The loop over the signer entries: every entry is a length-prefixed address, read until the
  sub-buffer is empty; \<open>n\<close> counts the addresses read so far.\<close>

function readSigners :: "nat \<Rightarrow> bytes \<Rightarrow> bytes list res" where
  "readSigners n left =
    (if left = [] then Inr []
     else case BytesWithLenToBytes left of
         Inl e \<Rightarrow> Inl e
       | Inr (d, left') \<Rightarrow>
           if length d \<noteq> AddressLength then Inl (Errorf ''multisign signer address must be 20 bytes'')
           else if n \<ge> 255 then Inl (Errorf ''too many multisign signer addresses'')
           else bindR (readSigners (n + 1) left') (\<lambda>addrs. Inr (d # addrs)))"
  by pat_completeness auto
termination
  by (relation "measure (\<lambda>(n, left). length left)") (auto dest: BytesWithLenToBytes_split(2))

declare readSigners.simps [simp del]

abbreviation (input) txDataHeaderBytes :: nat where "txDataHeaderBytes \<equiv> 29"

text \<open>A length-prefixed field of at least \<open>n\<close> bytes, of which the first 8 are an integer.\<close>

definition readInt64Field :: "string \<Rightarrow> bytes \<Rightarrow> (int64 \<times> bytes) res" where
  "readInt64Field what left =
    bindR (BytesWithLenToBytes left) (\<lambda>(f, left).
    if length f < 8 then Inl (Errorf what) else bindR (GetInt64FromByte f) (\<lambda>u. Inr (u, left)))"

text \<open>The main-address field: an unset or all-zero address is tolerated.\<close>

definition readMainAddress :: "bytes \<Rightarrow> Address res" where
  "readMainAddress ma =
    (let body = (if length ma > 0 then drop 1 ma else ma) in
     case Address_Init zero_Address ma of
       Inr a \<Rightarrow> Inr a
     | Inl e \<Rightarrow> if body \<noteq> replicate (length body) 0 then Inl e else Inr zero_Address)"

definition readSignerList :: "uint8 \<Rightarrow> bytes \<Rightarrow> bytes list res" where
  "readSignerList msn left =
    (if length left > 0 then
       bindR (readSigners 0 left) (\<lambda>addrs.
         if unat msn > length addrs then Inl (Errorf ''multisign threshold exceeds the signer addresses'')
         else Inr addrs)
     else Inr [])"

definition TxData_GetFromBody ::
  "EncryptionState \<Rightarrow> (bytes \<Rightarrow> bytes) \<Rightarrow> TxData \<Rightarrow> bytes \<Rightarrow> TxData res" where
  "TxData_GetFromBody enc H160 md bl =
    bindR (BytesWithLenToBytes bl) (\<lambda>(opt, left).
    bindR (BytesWithLenToBytes left) (\<lambda>(ma, left).
    bindR (readMainAddress ma) (\<lambda>mainAddress.
    bindR (BytesWithLenToBytes left) (\<lambda>(pk, left).
    bindR (case PubKey_Init enc H160 pk mainAddress of
             Inr key \<Rightarrow> Inr key
           | Inl e \<Rightarrow> if length pk > 0 then Inl e else Inr zero_PubKey) (\<lambda>key.
    bindR (readInt64Field ''not enough bytes for locked amount in TxData'' left) (\<lambda>(la, left).
    bindR (readInt64Field ''not enough bytes for release per block in TxData'' left) (\<lambda>(rpb, left).
    bindR (BytesWithLenToBytes left) (\<lambda>(dal, left).
    bindR (BytesToAddress dal) (\<lambda>da.
    bindR (readInt64Field ''not enough bytes for escrow delay in TxData'' left) (\<lambda>(etd, left).
    bindR (BytesWithLenToBytes left) (\<lambda>(msn, left).
    if length msn < 1 then Inl (Errorf ''missing multisign number in TxData'')
    else bindR (indexR msn 0) (\<lambda>n.
      bindR (readSignerList n left) (\<lambda>addrs.
        Inr (md\<lparr>OptData := opt, Pubkey := key, td_LockedAmount := la, td_ReleasePerBlock := rpb,
          DelegatedAccountForLocking := da, EscrowTransactionsDelay := etd, td_MultiSignNumber := n,
          td_MultiSignAddresses := addrs\<rparr>))))))))))))))"

definition TxData_GetFromBytes ::
  "EncryptionState \<Rightarrow> (bytes \<Rightarrow> bytes) \<Rightarrow> bytes \<Rightarrow> (TxData \<times> bytes) res" where
  "TxData_GetFromBytes enc H160 data =
    (if length data < txDataHeaderBytes then Inl (Errorf ''not enough bytes in TxData unmarshaling'')
     else
       bindR (bindR (sliceR 0 21 data) BytesToAddress) (\<lambda>address.
       bindR (int64At 21 data) (\<lambda>amount.
       bindR (tailR 29 data) (\<lambda>r.
       bindR (BytesWithLenToBytes r) (\<lambda>(bl, leftBl).
         let md = zero_TxData\<lparr>Recipient := address, Amount := amount\<rparr> in
         if bl = replicate (length bl) 0 then Inr (md, leftBl)
         else bindR (TxData_GetFromBody enc H160 md bl) (\<lambda>md. Inr (md, leftBl)))))))"

subsection \<open>Transactions\<close>

definition isDexOperation :: "Address \<Rightarrow> bool" where
  "isDexOperation recipient =
    (case IntDelegatedAccountFromAddress recipient of Inl _ \<Rightarrow> False | Inr n \<Rightarrow> n > 512)"

definition MinGasUsage :: "Transaction \<Rightarrow> int64" where
  "MinGasUsage mt =
    (let gas = word_of_nat (length (OptData (tx_TxData mt))) * 100;
         gas = gas + word_of_nat (length (pk_ByteValue (Pubkey (tx_TxData mt)))) * 100;
         gas = gas + 30000
     in if isDexOperation (Recipient (tx_TxData mt)) then gas + DexTokenCallGas else gas)"

definition runsEVM :: "Transaction \<Rightarrow> bool" where
  "runsEVM mt =
    (if length (OptData (tx_TxData mt)) = 0 then False
     else case IntDelegatedAccountFromAddress (Recipient (tx_TxData mt)) of Inl _ \<Rightarrow> True | Inr _ \<Rightarrow> False)"

definition GasUsageEstimate :: "Transaction \<Rightarrow> int64" where
  "GasUsageEstimate mt =
    (let gas = MinGasUsage mt in
     if runsEVM mt then
       if sint gas > sint (go_div MaxGasUsage EVMGasEstimateHeadroom) then MaxGasUsage
       else gas * EVMGasEstimateHeadroom
     else gas)"

definition CalcFee :: "Transaction \<Rightarrow> int64 res" where
  "CalcFee mt =
    (if sint (GasPrice mt) < 0 \<or> sint (GasUsage mt) < 0
     then Inl (Errorf ''negative gas price or usage'')
     else
       let fee = GasPrice mt * GasUsage mt in
       if GasPrice mt \<noteq> 0 \<and> go_div fee (GasPrice mt) \<noteq> GasUsage mt then Inl (Errorf ''fee overflow'')
       else Inr fee)"

definition GetBytesWithoutSignature :: "Transaction \<Rightarrow> bool \<Rightarrow> bytes" where
  "GetBytesWithoutSignature tx withHash =
     TxParam_GetBytes (tx_TxParam tx) @ TxData_GetBytes (tx_TxData tx)
     @ GetByteInt64 (tx_Height tx) @ GetByteInt64 (GasPrice tx) @ GetByteInt64 (GasUsage tx)
     @ (if withHash then tx_Hash tx else [])"

definition hashPreimage :: "Transaction \<Rightarrow> bytes" where
  "hashPreimage mt =
     GetBytesWithoutSignature mt False
     @ (if isDexOperation (Recipient (tx_TxData mt)) then addr_ByteValue (ContractAddress mt) else [])"

definition CalcHashAndSet :: "(bytes \<Rightarrow> bytes) \<Rightarrow> Transaction \<Rightarrow> Transaction" where
  "CalcHashAndSet H256 mt = mt\<lparr>tx_Hash := GetHashFromBytes (H256 (hashPreimage mt))\<rparr>"

definition HashMatchesBody :: "(bytes \<Rightarrow> bytes) \<Rightarrow> Transaction \<Rightarrow> bool" where
  "HashMatchesBody H256 mt \<longleftrightarrow> GetHashFromBytes (H256 (hashPreimage mt)) = tx_Hash mt"

definition Transaction_GetBytes :: "Transaction \<Rightarrow> bytes" where
  "Transaction_GetBytes mt =
     GetBytesWithoutSignature mt True @ BytesToLenAndBytes (sig_ByteValue (tx_Signature mt))
     @ addr_ByteValue (ContractAddress mt) @ BytesToLenAndBytes (OutputLogs mt)"

abbreviation (input) txFixedFieldsBytes :: nat where "txFixedFieldsBytes \<equiv> 56"
abbreviation (input) minTransactionBytes :: nat where "minTransactionBytes \<equiv> 160"

definition Transaction_GetFromBytes ::
  "EncryptionState \<Rightarrow> (bytes \<Rightarrow> bytes) \<Rightarrow> bytes \<Rightarrow> (Transaction \<times> bytes) res" where
  "Transaction_GetFromBytes enc H160 b =
    (if length b < minTransactionBytes then Inl (Errorf ''Not enough bytes for transaction unmarshal'')
     else
       bindR (TxParam_GetFromBytes b) (\<lambda>(tp, b).
       bindR (TxData_GetFromBytes enc H160 b) (\<lambda>(adata, b).
       if length b < txFixedFieldsBytes then Inl (Errorf ''not enough bytes for transaction fixed fields'')
       else
         bindR (int64At 0 b) (\<lambda>h. bindR (int64At 8 b) (\<lambda>gp. bindR (int64At 16 b) (\<lambda>gu.
         bindR (sliceR 24 56 b) (\<lambda>hash. bindR (tailR 56 b) (\<lambda>r.
         bindR (BytesWithLenToBytes r) (\<lambda>(vb, leftb).
         bindR (Signature_Init vb (Sender tp)) (\<lambda>signature.
         if length leftb < AddressLength then Inl (Errorf ''not enough bytes for contract address'')
         else
           bindR (bindR (sliceR 0 20 leftb) (Address_Init zero_Address)) (\<lambda>contract.
           bindR (tailR 20 leftb) (\<lambda>r.
           bindR (BytesWithLenToBytes r) (\<lambda>(logs, leftb2).
             Inr (\<lparr>tx_TxData = adata, tx_TxParam = tp, tx_Hash = GetHashFromBytes hash,
                   tx_Signature = signature, tx_Height = h, GasPrice = gp, GasUsage = gu,
                   OutputLogs = logs, ContractAddress = contract\<rparr>, leftb2))))))))))))))"

subsection \<open>Payloads of cancellations and DEX orders\<close>

definition cancelTransactionPrefix :: bytes where
  "cancelTransactionPrefix = string_bytes ''QWID_CANCEL_V1''"

definition CancellationOptData :: "bytes \<Rightarrow> bytes" where
  "CancellationOptData target = cancelTransactionPrefix @ target"

definition CancellationTarget :: "Transaction \<Rightarrow> bytes option" where
  "CancellationTarget tx =
    (let data = OptData (tx_TxData tx) in
     if length data \<noteq> length cancelTransactionPrefix + HashLength \<or>
        take (length cancelTransactionPrefix) data \<noteq> cancelTransactionPrefix
     then None
     else Some (GetHashFromBytes (drop (length cancelTransactionPrefix) data)))"

definition DexOrderOptData :: "int64 \<Rightarrow> int64 \<Rightarrow> bytes" where
  "DexOrderOptData amountToken coinLimit =
     GetByteInt64 amountToken @ (if sint coinLimit > 0 then GetByteInt64 coinLimit else [])"

definition ParseDexOptData :: "bytes \<Rightarrow> int \<Rightarrow> (int64 \<times> int64) res" where
  "ParseDexOptData optData opn =
    (if length optData = 8 then bindR (int64At 0 optData) (\<lambda>amountToken. Inr (amountToken, 0))
     else if length optData = 16 then
       bindR (int64At 8 optData) (\<lambda>coinLimit.
       if sint coinLimit < 0 then Inl (Errorf ''DEX price limit must not be negative'')
       else if sint coinLimit > 0 \<and> opn \<noteq> 3 \<and> opn \<noteq> 4
       then Inl (Errorf ''a DEX price limit applies to buy and sell orders only'')
       else bindR (int64At 0 optData) (\<lambda>amountToken. Inr (amountToken, coinLimit)))
     else Inl (Errorf ''DEX transaction opt data must be 8 bytes (token amount) or 16 (with a coin limit)''))"

text \<open>No amount, no data and no settings: the only possible effect is the registration of the
  key the transaction carries.\<close>

definition pureShape :: "Transaction \<Rightarrow> bool" where
  "pureShape tx \<longleftrightarrow>
    (let d = tx_TxData tx in
     Amount d = 0 \<and> length (OptData d) = 0 \<and> td_LockedAmount d = 0 \<and> EscrowTransactionsDelay d = 0 \<and>
     td_MultiSignNumber d = 0 \<and> length (td_MultiSignAddresses d) = 0 \<and>
     MultiSignTx (tx_TxParam tx) = replicate HashLength 0)"

definition isPureRegistration :: "Transaction \<Rightarrow> bool" where
  "isPureRegistration tx \<longleftrightarrow> pureShape tx \<and>
     addr_ByteValue (Recipient (tx_TxData tx)) = addr_ByteValue (Sender (tx_TxParam tx))"

subsection \<open>The fee\<close>

lemma sdiv_pos: "0 \<le> a \<Longrightarrow> 0 < b \<Longrightarrow> a sdiv b = a div (b :: int)"
  by (simp add: signed_divide_int_def sgn_if)

lemma sdiv_neg: "a < 0 \<Longrightarrow> 0 < b \<Longrightarrow> a sdiv b \<le> (0 :: int)"
  by (simp add: signed_divide_int_def sgn_if pos_imp_zdiv_nonneg_iff)

lemma sint_mult64_nonneg:
  assumes "0 \<le> sint a" "0 \<le> sint b" "sint a * sint b < 2 ^ 63"
  shows "sint (a * b :: int64) = sint a * sint b"
proof -
  have "0 \<le> sint a * sint b"
    using assms(1,2) by simp
  then show ?thesis
    using assms(3) by (intro sint_mult64) simp_all
qed

lemma div_le_self: "0 \<le> a \<Longrightarrow> 0 < b \<Longrightarrow> a div b \<le> (a :: int)"
  using zdiv_mono2 [of a 1 b] by simp

lemma go_div_back:
  fixes f p u :: int64
  assumes "0 < sint p" "0 \<le> sint u" "go_div f p = u"
  shows "sint p * sint u \<le> max 0 (sint f)"
proof (cases "0 \<le> sint f")
  case True
  then have "0 \<le> sint f div sint p" "sint f div sint p \<le> sint f"
    using assms(1) div_le_self by (simp_all add: pos_imp_zdiv_nonneg_iff)
  then have "sint u = sint f div sint p"
    using assms(1,3) True sint_range64 [of f] sdiv_pos [OF True assms(1)]
    by (auto simp: go_div_def signed_of_int signed_take_bit_int_eq_self)
  moreover have "sint p * (sint f div sint p) \<le> sint f"
    using assms(1) by (simp add: minus_mod_eq_mult_div [symmetric])
  ultimately show ?thesis
    using True by simp
next
  case False
  define q where "q = sint f sdiv sint p"
  have "q = - (- sint f div sint p)"
    using False assms(1) by (simp add: q_def signed_divide_int_def sgn_if)
  moreover have "0 \<le> - sint f div sint p" "- sint f div sint p \<le> - sint f"
    using False assms(1) div_le_self [of "- sint f" "sint p"] by (simp_all add: pos_imp_zdiv_nonneg_iff)
  ultimately have "q \<le> 0" "- (2 ^ 63) \<le> q"
    using sint_range64 [of f] by linarith+
  then have "sint u = q"
    using assms(3) by (auto simp: go_div_def q_def [symmetric] signed_of_int signed_take_bit_int_eq_self)
  with \<open>q \<le> 0\<close> assms(2) have "sint u = 0"
    by simp
  then show ?thesis
    by simp
qed

text \<open>The check by division is exact: a fee is returned just when the product fits, and then it is
  the product.\<close>

lemma CalcFee_exact:
  "CalcFee tx = Inr fee \<longleftrightarrow>
     0 \<le> sint (GasPrice tx) \<and> 0 \<le> sint (GasUsage tx) \<and>
     sint (GasPrice tx) * sint (GasUsage tx) < 2 ^ 63 \<and> sint fee = sint (GasPrice tx) * sint (GasUsage tx)"
  (is "?L \<longleftrightarrow> ?R")
proof
  let ?p = "GasPrice tx" and ?u = "GasUsage tx"
  assume L: ?L
  then have nn: "0 \<le> sint ?p" "0 \<le> sint ?u" and f: "fee = ?p * ?u"
      and g: "?p \<noteq> 0 \<Longrightarrow> go_div fee ?p = ?u"
    by (auto simp: CalcFee_def Let_def split: if_splits)
  have "sint ?p * sint ?u < 2 ^ 63"
  proof (cases "?p = 0")
    case False
    then have "0 < sint ?p"
      using nn(1) sint_inject [of ?p 0] by simp
    then show ?thesis
      using go_div_back [OF _ nn(2) g [OF False]] sint_range64 [of fee] by linarith
  qed simp
  then show ?R
    using nn sint_mult64_nonneg [of ?p ?u] by (simp add: f)
next
  let ?p = "GasPrice tx" and ?u = "GasUsage tx"
  assume R: ?R
  then have f: "fee = ?p * ?u"
    using sint_mult64_nonneg [of ?p ?u] sint_inject [of fee "?p * ?u"] by simp
  have "go_div fee ?p = ?u" if "?p \<noteq> 0"
  proof -
    have "0 < sint ?p"
      using that R sint_inject [of ?p 0] by simp
    then have "sint fee sdiv sint ?p = sint ?u"
      using R sdiv_pos [of "sint fee" "sint ?p"] by simp
    then show ?thesis
      by (simp add: go_div_def)
  qed
  then show ?L
    using R f by (auto simp: CalcFee_def Let_def)
qed

subsection \<open>Round trips\<close>

definition wf_TxParam :: "TxParam \<Rightarrow> bool" where
  "wf_TxParam tp \<longleftrightarrow> wf_Address (Sender tp) \<and> length (MultiSignTx tp) = HashLength"

lemma Hash_Set_full [simp]: "length h = HashLength \<Longrightarrow> length b = HashLength \<Longrightarrow> Hash_Set h b = b"
  by (simp add: Hash_Set_def)

lemma TxParam_round_trip [codec_simps]:
  assumes "wf_TxParam tp"
  shows "TxParam_GetFromBytes (TxParam_GetBytes tp @ rest) = Inr (tp, rest)"
proof -
  let ?s = "Address_GetBytesWithPrimary (Sender tp)"
  define b where "b = TxParam_GetBytes tp @ rest"
  have wf: "wf_Address (Sender tp)" "length (MultiSignTx tp) = 32" "length ?s = 21"
    using assms by (simp_all add: wf_TxParam_def Address_GetBytesWithPrimary_def wf_Address_def)
  have b: "b = GetByteInt16 (ChainID tp) @ ?s @ GetByteInt64 (SendingTime tp) @ GetByteInt64 (Nonce tp)
      @ BytesToLenAndBytes (MultiSignTx tp) @ rest"
    by (simp add: b_def TxParam_GetBytes_def)
  have "\<not> length b < 40" "sliceR 0 2 b = Inr (GetByteInt16 (ChainID tp))" "sliceR 2 23 b = Inr ?s"
      "tailR 39 b = Inr (BytesToLenAndBytes (MultiSignTx tp) @ rest)"
      "int64At 23 b = Inr (SendingTime tp)" "int64At 31 b = Inr (Nonce tp)"
    using wf int64At_app [of "GetByteInt16 (ChainID tp) @ ?s" 23 "SendingTime tp"]
      int64At_app [of "GetByteInt16 (ChainID tp) @ ?s @ GetByteInt64 (SendingTime tp)" 31 "Nonce tp"]
    by (simp_all add: b)
  then show ?thesis
    using wf unfolding TxParam_GetFromBytes_def b_def [symmetric]
    by (cases tp) (auto simp: Let_def)
qed

lemma readSigners_ok:
  "\<forall>x \<in> set xs. length x = AddressLength \<Longrightarrow> n + length xs \<le> 255 \<Longrightarrow>
   readSigners n (concat (map BytesToLenAndBytes xs)) = Inr xs"
  by (induction xs arbitrary: n) (simp_all add: readSigners.simps)

lemma readSignerList_ok:
  assumes "\<forall>x \<in> set xs. length x = AddressLength" "length xs \<le> 255" "xs \<noteq> [] \<longrightarrow> unat n \<le> length xs"
  shows "readSignerList n (concat (map BytesToLenAndBytes xs)) = Inr xs"
  using assms readSigners_ok [of xs 0] by (cases xs) (simp_all add: readSignerList_def)

lemma readInt64Field_ok [simp]:
  "readInt64Field what (BytesToLenAndBytes (GetByteInt64 u) @ r) = Inr (u, r)"
  by (simp add: readInt64Field_def)

text \<open>The key a transaction carries is absent or is what \<open>PubKey.Init\<close> makes of its bytes.\<close>

definition wf_TxData :: "EncryptionState \<Rightarrow> (bytes \<Rightarrow> bytes) \<Rightarrow> TxData \<Rightarrow> bool" where
  "wf_TxData enc H160 md \<longleftrightarrow>
     wf_Address (Recipient md) \<and> length (OptData md) < 2 ^ 32 \<and>
     wf_Address (pk_MainAddress (Pubkey md)) \<and> length (pk_ByteValue (Pubkey md)) < 2 ^ 32 \<and>
     (if pk_ByteValue (Pubkey md) = [] then Pubkey md = zero_PubKey
      else PubKey_Init enc H160 (pk_ByteValue (Pubkey md)) (pk_MainAddress (Pubkey md)) = Inr (Pubkey md)) \<and>
     wf_Address (DelegatedAccountForLocking md) \<and> addr_Primary (DelegatedAccountForLocking md) \<and>
     length (td_MultiSignAddresses md) \<le> 255 \<and>
     (\<forall>x \<in> set (td_MultiSignAddresses md). length x = AddressLength) \<and>
     (td_MultiSignAddresses md \<noteq> [] \<longrightarrow> unat (td_MultiSignNumber md) \<le> length (td_MultiSignAddresses md)) \<and>
     length (TxData_body md) < 2 ^ 32"

lemma length_AddressWithPrimary: "wf_Address a \<Longrightarrow> length (Address_GetBytesWithPrimary a) = 21"
  by (simp add: Address_GetBytesWithPrimary_def wf_Address_def)

lemma readMainAddress_ok: "wf_Address a \<Longrightarrow> readMainAddress (Address_GetBytesWithPrimary a) = Inr a"
  using Address_round_trip [of a] by (simp add: readMainAddress_def BytesToAddress_def)

lemma BytesToAddress_plain:
  "wf_Address a \<Longrightarrow> addr_Primary a \<Longrightarrow> BytesToAddress (addr_ByteValue a) = Inr a"
  by (cases a) (simp add: BytesToAddress_def Address_Init_def wf_Address_def)

lemma TxData_GetFromBody_ok:
  assumes "wf_TxData enc H160 md"
  shows "TxData_GetFromBody enc H160 (zero_TxData\<lparr>Recipient := Recipient md, Amount := Amount md\<rparr>) (TxData_body md) = Inr md"
proof -
  have key: "(case PubKey_Init enc H160 (pk_ByteValue (Pubkey md)) (pk_MainAddress (Pubkey md)) of
             Inr key \<Rightarrow> Inr key
           | Inl e \<Rightarrow> if length (pk_ByteValue (Pubkey md)) > 0 then Inl e else Inr zero_PubKey) = Inr (Pubkey md)"
    using assms by (auto simp: wf_TxData_def PubKey_Init_def split: if_splits)
  have s: "readSignerList (td_MultiSignNumber md) (concat (map BytesToLenAndBytes (td_MultiSignAddresses md)))
      = Inr (td_MultiSignAddresses md)"
    by (rule readSignerList_ok) (use assms in \<open>auto simp: wf_TxData_def\<close>)
  show ?thesis
    using assms key s
    by (simp add: TxData_GetFromBody_def TxData_body_def wf_TxData_def length_AddressWithPrimary
        readMainAddress_ok BytesToAddress_plain zero_TxData_def wf_Address_def)
qed

lemma put_be_21: "put_be 4 (21 :: int32) = [0, 0, 0, 21]"
  by code_simp

lemma TxData_body_not_zero:
  assumes "wf_Address (pk_MainAddress (Pubkey md))"
  shows "TxData_body md \<noteq> replicate n 0"
proof
  have "(21 :: byte) \<in> set (BytesToLenAndBytes (Address_GetBytesWithPrimary (pk_MainAddress (Pubkey md))))"
    using length_AddressWithPrimary [OF assms] by (simp add: BytesToLenAndBytes_def put_be_21)
  then have "(21 :: byte) \<in> set (TxData_body md)"
    by (simp add: TxData_body_def)
  moreover assume "TxData_body md = replicate n 0"
  ultimately show False
    by (auto simp: set_replicate_conv_if split: if_splits)
qed

lemma TxData_round_trip [codec_simps]:
  assumes "wf_TxData enc H160 md"
  shows "TxData_GetFromBytes enc H160 (TxData_GetBytes md @ rest) = Inr (md, rest)"
proof -
  let ?r = "Address_GetBytesWithPrimary (Recipient md)"
  have wf: "wf_Address (Recipient md)" "wf_Address (pk_MainAddress (Pubkey md))" "length (TxData_body md) < 2 ^ 32"
    using assms by (simp_all add: wf_TxData_def)
  define b where "b = TxData_GetBytes md @ rest"
  have b: "b = ?r @ GetByteInt64 (Amount md) @ BytesToLenAndBytes (TxData_body md) @ rest"
    using TxData_body_not_zero [OF wf(2)] by (simp add: b_def TxData_GetBytes_def Let_def)
  have "\<not> length b < 29" "sliceR 0 21 b = Inr ?r" "int64At 21 b = Inr (Amount md)"
      "tailR 29 b = Inr (BytesToLenAndBytes (TxData_body md) @ rest)"
    using length_AddressWithPrimary [OF wf(1)] by (simp_all add: b)
  then show ?thesis
    using wf TxData_body_not_zero [OF wf(2)] TxData_GetFromBody_ok [OF assms]
    unfolding TxData_GetFromBytes_def b_def [symmetric] by (simp add: Let_def)
qed

definition wf_Transaction :: "EncryptionState \<Rightarrow> (bytes \<Rightarrow> bytes) \<Rightarrow> Transaction \<Rightarrow> bool" where
  "wf_Transaction enc H160 tx \<longleftrightarrow>
     wf_TxParam (tx_TxParam tx) \<and> wf_TxData enc H160 (tx_TxData tx) \<and> length (tx_Hash tx) = HashLength \<and>
     Signature_Init (sig_ByteValue (tx_Signature tx)) (Sender (tx_TxParam tx)) = Inr (tx_Signature tx) \<and>
     wf_Address (ContractAddress tx) \<and> addr_Primary (ContractAddress tx) \<and> length (OutputLogs tx) < 2 ^ 32"

lemma length_TxParam_GetBytes: "wf_TxParam tp \<Longrightarrow> length (TxParam_GetBytes tp) = 75"
  by (simp add: TxParam_GetBytes_def wf_TxParam_def length_AddressWithPrimary)

lemma length_TxData_GetBytes: "wf_Address (Recipient md) \<Longrightarrow> 29 \<le> length (TxData_GetBytes md)"
  by (simp add: TxData_GetBytes_def Let_def length_AddressWithPrimary)

lemma Signature_Init_length: "Signature_Init b a = Inr s \<Longrightarrow> 0 < length b \<and> length b < 2 ^ 32 \<and> sig_ByteValue s = b"
  by (auto simp: Signature_Init_def split: if_splits)

lemma Transaction_round_trip [codec_simps]:
  assumes "wf_Transaction enc H160 tx"
  shows "Transaction_GetFromBytes enc H160 (Transaction_GetBytes tx @ rest) = Inr (tx, rest)"
proof -
  let ?s = "sig_ByteValue (tx_Signature tx)"
  define r where "r = GetByteInt64 (tx_Height tx) @ GetByteInt64 (GasPrice tx) @ GetByteInt64 (GasUsage tx)
    @ tx_Hash tx @ BytesToLenAndBytes ?s @ addr_ByteValue (ContractAddress tx)
    @ BytesToLenAndBytes (OutputLogs tx) @ rest"
  have wf: "wf_TxParam (tx_TxParam tx)" "wf_TxData enc H160 (tx_TxData tx)" "length (tx_Hash tx) = 32"
      "Signature_Init ?s (Sender (tx_TxParam tx)) = Inr (tx_Signature tx)" "length (OutputLogs tx) < 2 ^ 32"
      "Address_Init zero_Address (addr_ByteValue (ContractAddress tx)) = Inr (ContractAddress tx)"
      "length (addr_ByteValue (ContractAddress tx)) = 20"
    using assms BytesToAddress_plain [of "ContractAddress tx"]
    by (simp_all add: wf_Transaction_def wf_Address_def BytesToAddress_def)
  have b: "Transaction_GetBytes tx @ rest
      = TxParam_GetBytes (tx_TxParam tx) @ TxData_GetBytes (tx_TxData tx) @ r"
    by (simp add: Transaction_GetBytes_def GetBytesWithoutSignature_def r_def)
  have s: "length ?s < 2 ^ 32"
    using Signature_Init_length [OF wf(4)] by simp
  have len: "\<not> length (TxParam_GetBytes (tx_TxParam tx) @ TxData_GetBytes (tx_TxData tx) @ r) < 160"
  proof -
    have "29 \<le> length (TxData_GetBytes (tx_TxData tx))"
      using length_TxData_GetBytes wf(2) by (simp add: wf_TxData_def)
    moreover have "84 \<le> length r"
      using wf(3,7) by (simp add: r_def)
    ultimately show ?thesis
      using length_TxParam_GetBytes [OF wf(1)] by simp
  qed
  have "\<not> length r < 56" "int64At 0 r = Inr (tx_Height tx)" "int64At 8 r = Inr (GasPrice tx)"
      "int64At 16 r = Inr (GasUsage tx)" "sliceR 24 56 r = Inr (tx_Hash tx)"
      "tailR 56 r = Inr (BytesToLenAndBytes ?s @ addr_ByteValue (ContractAddress tx)
        @ BytesToLenAndBytes (OutputLogs tx) @ rest)"
    using wf(3) int64At_app [of "GetByteInt64 (tx_Height tx) @ GetByteInt64 (GasPrice tx)" 16 "GasUsage tx"]
    by (simp_all add: r_def)
  then show ?thesis
    unfolding Transaction_GetFromBytes_def b
    using len wf s by (simp add: TxParam_round_trip TxData_round_trip GetHashFromBytes_def EmptyHash_def)
qed

subsection \<open>The hash preimage determines the transaction\<close>

lemma append_eq_same_length: "length a = length c \<Longrightarrow> a @ b = c @ d \<longleftrightarrow> a = c \<and> b = d"
  by (rule append_eq_append_conv) simp

lemma hashPreimage_inject:
  assumes "wf_Transaction enc H160 tx" "wf_Transaction enc H160 tx'" "hashPreimage tx = hashPreimage tx'"
  shows "tx_TxParam tx = tx_TxParam tx'" "tx_TxData tx = tx_TxData tx'" "tx_Height tx = tx_Height tx'"
    "GasPrice tx = GasPrice tx'" "GasUsage tx = GasUsage tx'"
    "isDexOperation (Recipient (tx_TxData tx)) \<Longrightarrow> ContractAddress tx = ContractAddress tx'"
proof -
  define tail where "tail t = GetByteInt64 (tx_Height t) @ GetByteInt64 (GasPrice t) @ GetByteInt64 (GasUsage t)
    @ (if isDexOperation (Recipient (tx_TxData t)) then addr_ByteValue (ContractAddress t) else [])" for t :: Transaction
  have pre: "hashPreimage t = TxParam_GetBytes (tx_TxParam t) @ TxData_GetBytes (tx_TxData t) @ tail t" for t
    by (simp add: hashPreimage_def GetBytesWithoutSignature_def tail_def)
  have dec: "TxParam_GetFromBytes (hashPreimage t) = Inr (tx_TxParam t, TxData_GetBytes (tx_TxData t) @ tail t)"
     "TxData_GetFromBytes enc H160 (TxData_GetBytes (tx_TxData t) @ tail t) = Inr (tx_TxData t, tail t)"
     if "wf_Transaction enc H160 t" for t
    using that by (simp_all add: pre TxParam_round_trip TxData_round_trip wf_Transaction_def)
  have p: "tx_TxParam tx = tx_TxParam tx'" and
      r: "TxData_GetBytes (tx_TxData tx) @ tail tx = TxData_GetBytes (tx_TxData tx') @ tail tx'"
    using dec(1) [OF assms(1)] dec(1) [OF assms(2)] assms(3) by simp_all
  have d: "tx_TxData tx = tx_TxData tx'" and t: "tail tx = tail tx'"
    using dec(2) [OF assms(1), unfolded r] dec(2) [OF assms(2)] by simp_all
  from t show "tx_Height tx = tx_Height tx'" "GasPrice tx = GasPrice tx'" "GasUsage tx = GasUsage tx'"
    by (simp_all add: tail_def append_eq_same_length)
  show "tx_TxParam tx = tx_TxParam tx'" "tx_TxData tx = tx_TxData tx'"
    by (fact p d)+
  show "ContractAddress tx = ContractAddress tx'" if "isDexOperation (Recipient (tx_TxData tx))"
  proof (rule Address.equality)
    show "addr_ByteValue (ContractAddress tx) = addr_ByteValue (ContractAddress tx')"
      using that t d by (simp add: tail_def append_eq_same_length)
    show "addr_Primary (ContractAddress tx) = addr_Primary (ContractAddress tx')"
      using assms(1,2) by (simp add: wf_Transaction_def)
  qed simp
qed

subsection \<open>Payload round trips\<close>

lemma CancellationTarget_round_trip:
  "length target = HashLength \<Longrightarrow> OptData (tx_TxData tx) = CancellationOptData target \<Longrightarrow>
   CancellationTarget tx = Some target"
  by (simp add: CancellationTarget_def CancellationOptData_def Let_def GetHashFromBytes_def EmptyHash_def)

lemma CancellationTarget_Some:
  assumes "CancellationTarget tx = Some target"
  shows "OptData (tx_TxData tx) = CancellationOptData target" "length target = HashLength"
proof -
  let ?d = "OptData (tx_TxData tx)" and ?n = "length cancelTransactionPrefix"
  have len: "length ?d = ?n + 32" and p: "take ?n ?d = cancelTransactionPrefix"
      and t: "target = GetHashFromBytes (drop ?n ?d)"
    using assms by (auto simp: CancellationTarget_def Let_def split: if_splits)
  have t': "target = drop ?n ?d"
    using len t by (simp add: GetHashFromBytes_def EmptyHash_def Hash_Set_def)
  show "?d = CancellationOptData target"
    unfolding CancellationOptData_def t' using p by (metis append_take_drop_id)
  show "length target = HashLength"
    unfolding t' using len by simp
qed

lemma ParseDexOptData_round_trip:
  assumes "0 \<le> sint coinLimit" "0 < sint coinLimit \<longrightarrow> opn = 3 \<or> opn = 4"
  shows "ParseDexOptData (DexOrderOptData amountToken coinLimit) opn = Inr (amountToken, coinLimit)"
proof (cases "0 < sint coinLimit")
  case True
  then show ?thesis
    using assms int64At_app [of "GetByteInt64 amountToken" 8 coinLimit "[]"]
    by (auto simp: ParseDexOptData_def DexOrderOptData_def)
next
  case False
  then have "coinLimit = 0"
    using assms(1) sint_inject [of coinLimit 0] by simp
  then show ?thesis
    using int64At_0 [of amountToken "[]"] by (simp add: ParseDexOptData_def DexOrderOptData_def)
qed

subsection \<open>The decoder never panics\<close>

lemma no_panic_BytesWithLen: "no_panic (BytesWithLenToBytes b)"
  by (simp add: no_panic_def BytesWithLenToBytes_no_panic)

lemma no_panic_Address: "no_panic (Address_Init a b)" "no_panic (BytesToAddress b)"
  by (simp_all add: BytesToAddress_def Address_Init_def)

lemma no_panic_readSigners: "no_panic (readSigners n left)"
proof (induction n left rule: readSigners.induct)
  case (1 n left)
  show ?case
  proof (cases "BytesWithLenToBytes left")
    case (Inl e)
    then show ?thesis
      using no_panic_BytesWithLen [of left] by (subst readSigners.simps) (auto simp: no_panic_def)
  next
    case (Inr p)
    then show ?thesis
      using 1 by (subst readSigners.simps) (auto intro!: no_panic_bindR split: prod.splits)
  qed
qed

lemma no_panic_readSignerList: "no_panic (readSignerList n left)"
  by (auto simp: readSignerList_def intro!: no_panic_bindR no_panic_readSigners)

lemma no_panic_readInt64Field: "no_panic (readInt64Field what left)"
  by (auto simp: readInt64Field_def intro!: no_panic_bindR no_panic_BytesWithLen no_panic_GetInt64FromByte
      split: prod.splits)

lemma no_panic_keys: "no_panic (readMainAddress ma)" "no_panic (PubKey_Init enc H160 b a)" "no_panic (Signature_Init b a)"
  using no_panic_Address
  by (auto simp: readMainAddress_def Let_def PubKey_Init_def PubKeyToAddress_def Signature_Init_def
      no_panic_def split: sum.splits)

lemma no_panic_TxData_body: "no_panic (TxData_GetFromBody enc H160 md bl)"
proof -
  have "no_panic (case PubKey_Init enc H160 pk ma of Inr key \<Rightarrow> Inr key
           | Inl e \<Rightarrow> if length pk > 0 then Inl e else Inr zero_PubKey)" for pk ma
    using no_panic_keys(2) [of enc H160 pk ma] by (auto simp: no_panic_def split: sum.splits)
  then show ?thesis
    unfolding TxData_GetFromBody_def
    by (auto intro!: no_panic_bindR no_panic_BytesWithLen no_panic_keys no_panic_readInt64Field
        no_panic_Address no_panic_readSignerList split: prod.splits)
qed

lemma no_panic_TxParam: "no_panic (TxParam_GetFromBytes b)"
  unfolding TxParam_GetFromBytes_def
  by (auto intro!: no_panic_bindR no_panic_Address no_panic_int64At simp: GetInt16FromByte_def Let_def
      split: sum.splits prod.splits)

lemma no_panic_TxData: "no_panic (TxData_GetFromBytes enc H160 b)"
  unfolding TxData_GetFromBytes_def
  by (auto intro!: no_panic_bindR no_panic_Address no_panic_int64At no_panic_BytesWithLen no_panic_TxData_body
      simp: Let_def split: prod.splits)

lemma no_panic_Transaction: "no_panic (Transaction_GetFromBytes enc H160 b)"
  unfolding Transaction_GetFromBytes_def
  by (auto intro!: no_panic_bindR no_panic_Address no_panic_int64At no_panic_BytesWithLen no_panic_TxData
      no_panic_TxParam no_panic_keys split: prod.splits)


subsection \<open>Properties of transactions\<close>

text \<open>The fee check by division is exact: \<open>CalcFee\<close> returns a fee just when price and usage are not
  negative and their product fits into 63 bits, and then the fee is that product.\<close>

theorem fee_is_exact:
  "CalcFee tx = Inr fee \<longleftrightarrow>
     0 \<le> sint (GasPrice tx) \<and> 0 \<le> sint (GasUsage tx) \<and>
     sint (GasPrice tx) * sint (GasUsage tx) < 2 ^ 63 \<and> sint fee = sint (GasPrice tx) * sint (GasUsage tx)"
  by (rule CalcFee_exact)

text \<open>C29: A transaction can be read back from the wire: decoding the bytes of a well-formed transaction
  followed by anything returns the transaction and what followed.\<close>

theorem transaction_round_trip:
  assumes "wf_Transaction enc H160 tx"
  shows "Transaction_GetFromBytes enc H160 (Transaction_GetBytes tx @ rest) = Inr (tx, rest)"
  by (rule Transaction_round_trip [OF assms])

definition sample_enc :: EncryptionState where
  "sample_enc = (let c = \<lparr>pubKeyLength = 897, privateKeyLength = 1281, signatureLength = 752, sigName = ''Falcon-512'',
       isPaused = 0, pubKeyLength2 = 60000, privateKeyLength2 = 100, signatureLength2 = 200, sigName2 = ''MAYO-5'', isPaused2 = 1\<rparr>
     in \<lparr>enc_cur = c, enc_old = c\<rparr>)"

definition sample_addr :: "byte \<Rightarrow> Address" where
  "sample_addr b = \<lparr>addr_ByteValue = replicate 20 b, addr_Primary = True\<rparr>"

definition sample_tx :: Transaction where
  "sample_tx = \<lparr>tx_TxData = zero_TxData\<lparr>Recipient := sample_addr 5, Amount := 42,
       DelegatedAccountForLocking := sample_addr 0\<rparr>,
     tx_TxParam = \<lparr>ChainID = 23, Sender = sample_addr 7, SendingTime = 1, Nonce = 2, MultiSignTx = replicate 32 0\<rparr>,
     tx_Hash = replicate 32 9, tx_Signature = \<lparr>sig_ByteValue = [0, 1, 2], sig_Address = sample_addr 7, sig_Primary = True\<rparr>,
     tx_Height = 77, GasPrice = 10, GasUsage = 30000, OutputLogs = [], ContractAddress = sample_addr 0\<rparr>"

lemma sample_tx_wf: "wf_Transaction sample_enc H160 sample_tx"
  by (simp add: wf_Transaction_def sample_tx_def wf_TxParam_def wf_TxData_def sample_addr_def wf_Address_def
      zero_TxData_def zero_PubKey_def zero_Address_def TxData_body_def Address_GetBytesWithPrimary_def
      Signature_Init_def)

theorem transaction_round_trip_witness:
  "Transaction_GetFromBytes sample_enc (\<lambda>_. []) (Transaction_GetBytes sample_tx @ [1, 2, 3]) = Inr (sample_tx, [1, 2, 3])"
  by (rule transaction_round_trip [OF sample_tx_wf])

text \<open>C30: The hash of a transaction commits to everything that is executed: two well-formed transactions
  with the same preimage agree in their parameters, data, height and gas, and, when they are DEX
  operations, in the contract they address.\<close>

theorem hash_preimage_commits:
  assumes "wf_Transaction enc H160 tx" "wf_Transaction enc H160 tx'" "hashPreimage tx = hashPreimage tx'"
  shows "tx_TxParam tx = tx_TxParam tx' \<and> tx_TxData tx = tx_TxData tx' \<and> tx_Height tx = tx_Height tx' \<and>
    GasPrice tx = GasPrice tx' \<and> GasUsage tx = GasUsage tx' \<and>
    (isDexOperation (Recipient (tx_TxData tx)) \<longrightarrow> ContractAddress tx = ContractAddress tx')"
  using hashPreimage_inject [OF assms] by simp

theorem hash_preimage_commits_witness:
  "wf_Transaction sample_enc (\<lambda>_. []) sample_tx \<and> hashPreimage sample_tx \<noteq> hashPreimage (sample_tx\<lparr>GasPrice := 11\<rparr>)"
proof -
  have "wf_Transaction sample_enc (\<lambda>_. []) (sample_tx\<lparr>GasPrice := 11\<rparr>)"
    using sample_tx_wf [of "\<lambda>_. []"] by (simp add: wf_Transaction_def)
  then show ?thesis
    using hash_preimage_commits [OF sample_tx_wf, of "\<lambda>_. []" "sample_tx\<lparr>GasPrice := 11\<rparr>"] sample_tx_wf
    by (auto simp: sample_tx_def)
qed

text \<open>The payloads of the protocol's own operations can be read back: a cancellation names exactly
  the transaction it was built for, only such a payload is a cancellation, and the amount and price
  limit of a DEX order survive encoding.\<close>

theorem payload_round_trips:
  assumes "length target = HashLength" "0 \<le> sint coinLimit" "0 < sint coinLimit \<longrightarrow> opn = 3 \<or> opn = 4"
  shows "(CancellationTarget tx = Some target \<longleftrightarrow> OptData (tx_TxData tx) = CancellationOptData target) \<and>
    ParseDexOptData (DexOrderOptData amountToken coinLimit) opn = Inr (amountToken, coinLimit)"
  using CancellationTarget_round_trip [OF assms(1)] CancellationTarget_Some(1) ParseDexOptData_round_trip [OF assms(2,3)]
  by blast

theorem payload_round_trips_witness:
  "ParseDexOptData (DexOrderOptData 500 90) 3 = Inr (500, 90) \<and> CancellationTarget sample_tx \<noteq> Some (replicate 32 1)"
  using payload_round_trips [of "replicate 32 1" 90 3 sample_tx 500]
  by (auto simp: sample_tx_def zero_TxData_def CancellationOptData_def)

end
