(* ===== verification/Heap.thy ===== *)
theory Heap
  imports Prelude
begin

text \<open>
  The binary heap of Go's \<open>container/heap\<close> over the queues of \<open>transactionsPool/basePool.go\<close>. A
  queue is the slice of items together with the \<open>index\<close> field of every item, which \<open>Swap\<close>, \<open>Push\<close>
  and \<open>Pop\<close> keep at the item's position. The order is an argument, as \<open>Less\<close> is in the source; the
  locale states what it has to satisfy and carries the lemmas, and both queues of the pool
  interpret it.
\<close>

record 'a queue =
  arr :: "'a list"
  idx :: "'a \<Rightarrow> int"

definition Swap :: "'a queue \<Rightarrow> nat \<Rightarrow> nat \<Rightarrow> 'a queue" where
  "Swap q i j =
    (let xs = arr q; xs' = xs[i := xs ! j, j := xs ! i]
     in \<lparr>arr = xs', idx = (idx q)(xs' ! i := int i, xs' ! j := int j)\<rparr>)"

definition queue_Push :: "'a \<Rightarrow> 'a queue \<Rightarrow> 'a queue" where
  "queue_Push x q = \<lparr>arr = arr q @ [x], idx = (idx q)(x := int (length (arr q)))\<rparr>"

definition queue_Pop :: "'a queue \<Rightarrow> 'a queue" where
  "queue_Pop q = \<lparr>arr = butlast (arr q), idx = (idx q)(last (arr q) := -1)\<rparr>"

text \<open>\<open>(j - 1) / 2\<close>, which is 0 for 0 because Go's division truncates towards zero.\<close>

definition parent :: "nat \<Rightarrow> nat" where
  "parent j = (j - 1) div 2"

lemma parent_less: "0 < j \<Longrightarrow> parent j < j" and parent_le: "parent j \<le> j" and parent_0 [simp]: "parent 0 = 0"
  by (auto simp: parent_def)

text \<open>\<open>up\<close> and \<open>down\<close> of \<open>container/heap\<close>; \<open>down\<close> also returns whether the item moved.\<close>

function up :: "('a \<Rightarrow> 'a \<Rightarrow> bool) \<Rightarrow> 'a queue \<Rightarrow> nat \<Rightarrow> 'a queue" where
  "up lt q j =
    (let i = parent j in
     if i = j \<or> \<not> lt (arr q ! j) (arr q ! i) then q else up lt (Swap q i j) i)"
  by pat_completeness auto
termination
  by (relation "measure (\<lambda>(lt, q, j). j)") (auto simp: parent_def)

definition smaller_child :: "('a \<Rightarrow> 'a \<Rightarrow> bool) \<Rightarrow> 'a list \<Rightarrow> nat \<Rightarrow> nat \<Rightarrow> nat" where
  "smaller_child lt xs i n =
    (let j1 = 2 * i + 1; j2 = j1 + 1 in if j2 < n \<and> lt (xs ! j2) (xs ! j1) then j2 else j1)"

function down_loop :: "('a \<Rightarrow> 'a \<Rightarrow> bool) \<Rightarrow> 'a queue \<Rightarrow> nat \<Rightarrow> nat \<Rightarrow> 'a queue \<times> nat" where
  "down_loop lt q i n =
    (if 2 * i + 1 \<ge> n then (q, i)
     else
       let j = smaller_child lt (arr q) i n in
       if \<not> lt (arr q ! j) (arr q ! i) then (q, i) else down_loop lt (Swap q i j) j n)"
  by pat_completeness auto
termination
  by (relation "measure (\<lambda>(lt, q, i, n). n - i)") (auto simp: smaller_child_def Let_def split: if_splits)

declare up.simps [simp del] down_loop.simps [simp del]

definition down :: "('a \<Rightarrow> 'a \<Rightarrow> bool) \<Rightarrow> 'a queue \<Rightarrow> nat \<Rightarrow> nat \<Rightarrow> 'a queue \<times> bool" where
  "down lt q i0 n = (let (q', i) = down_loop lt q i0 n in (q', i > i0))"

definition heap_Push :: "('a \<Rightarrow> 'a \<Rightarrow> bool) \<Rightarrow> 'a \<Rightarrow> 'a queue \<Rightarrow> 'a queue" where
  "heap_Push lt x q = (let q = queue_Push x q in up lt q (length (arr q) - 1))"

definition heap_Remove :: "('a \<Rightarrow> 'a \<Rightarrow> bool) \<Rightarrow> nat \<Rightarrow> 'a queue \<Rightarrow> 'a queue" where
  "heap_Remove lt i q =
    (let n = length (arr q) - 1;
         q = (if n \<noteq> i then
                let q = Swap q i n; (q', moved) = down lt q i n
                in if \<not> moved then up lt q' i else q'
              else q)
     in queue_Pop q)"

text \<open>The use the pool makes of the positions: an item is removed from the place its \<open>index\<close> names, when it
  is there.\<close>

definition remove_item :: "('a \<Rightarrow> 'a \<Rightarrow> bool) \<Rightarrow> 'a \<Rightarrow> 'a queue \<Rightarrow> 'a queue" where
  "remove_item lt item q =
    (let i = idx q item in
     if i \<ge> 0 \<and> i < int (length (arr q)) \<and> arr q ! nat i = item then heap_Remove lt (nat i) q else q)"

subsection \<open>Content and positions\<close>

text \<open>Every item is in the queue once and its \<open>index\<close> is its position.\<close>

definition positions_ok :: "'a queue \<Rightarrow> bool" where
  "positions_ok q \<longleftrightarrow> distinct (arr q) \<and> (\<forall>i < length (arr q). idx q (arr q ! i) = int i)"

lemma length_Swap [simp]: "length (arr (Swap q i j)) = length (arr q)"
  by (simp add: Swap_def Let_def)

lemma arr_Swap: "arr (Swap q i j) = (arr q)[i := arr q ! j, j := arr q ! i]"
  by (simp add: Swap_def Let_def)

lemma nth_Swap:
  "i < length (arr q) \<Longrightarrow> j < length (arr q) \<Longrightarrow> k < length (arr q) \<Longrightarrow>
   arr (Swap q i j) ! k = (if k = j then arr q ! i else if k = i then arr q ! j else arr q ! k)"
  by (simp add: arr_Swap nth_list_update)

lemma mset_Swap: "i < length (arr q) \<Longrightarrow> j < length (arr q) \<Longrightarrow> mset (arr (Swap q i j)) = mset (arr q)"
  by (simp add: arr_Swap mset_swap)

lemma positions_Swap:
  assumes "positions_ok q" "i < length (arr q)" "j < length (arr q)"
  shows "positions_ok (Swap q i j)"
proof -
  let ?q = "Swap q i j"
  have d: "distinct (arr ?q)"
    using assms mset_Swap [OF assms(2,3)] by (metis mset_eq_imp_distinct_iff positions_ok_def)
  have "idx ?q (arr ?q ! k) = int k" if k: "k < length (arr q)" for k
  proof -
    have upd: "idx ?q = (idx q)(arr ?q ! i := int i, arr ?q ! j := int j)"
      by (simp add: Swap_def Let_def)
    have ne: "arr ?q ! k = arr ?q ! j \<longleftrightarrow> k = j" "arr ?q ! k = arr ?q ! i \<longleftrightarrow> k = i"
      using d k assms(2,3) by (simp_all add: nth_eq_iff_index_eq)
    show ?thesis
    proof (cases "k = i \<or> k = j")
      case True
      then show ?thesis
        using ne by (auto simp: upd)
    next
      case False
      then have "arr ?q ! k = arr q ! k"
        using nth_Swap [OF assms(2,3) k] by simp
      then show ?thesis
        unfolding upd using False ne assms(1) k by (simp add: positions_ok_def)
    qed
  qed
  with d show ?thesis
    by (simp add: positions_ok_def)
qed

text \<open>The loops only permute the items and keep the positions; \<open>down\<close> leaves everything from \<open>n\<close> on.\<close>

lemma up_content:
  assumes "j < length (arr q)"
  shows "mset (arr (up lt q j)) = mset (arr q) \<and> (positions_ok q \<longrightarrow> positions_ok (up lt q j)) \<and>
    (\<forall>k. j < k \<and> k < length (arr q) \<longrightarrow> arr (up lt q j) ! k = arr q ! k)"
  using assms
proof (induction lt q j rule: up.induct)
  case (1 lt q j)
  let ?i = "parent j"
  have i: "?i < length (arr q)"
    using 1(2) parent_le [of j] by linarith
  show ?case
  proof (cases "?i = j \<or> \<not> lt (arr q ! j) (arr q ! ?i)")
    case True
    then show ?thesis
      by (auto simp: up.simps [of lt q j] Let_def)
  next
    case False
    then have eq: "up lt q j = up lt (Swap q ?i j) ?i" and lt: "?i < j"
      using parent_le [of j] by (auto simp: up.simps [of lt q j] Let_def)
    show ?thesis
      unfolding eq using 1(1) [OF refl False] i lt mset_Swap [OF i 1(2)] positions_Swap [OF _ i 1(2)] nth_Swap [OF i 1(2)]
      by auto
  qed
qed

lemma smaller_child_bounds:
  "2 * i + 1 < n \<Longrightarrow> i < smaller_child lt xs i n \<and> smaller_child lt xs i n < n"
  "parent (smaller_child lt xs i n) = i"
  by (auto simp: smaller_child_def Let_def parent_def)

lemma down_content:
  assumes "i < n" "n \<le> length (arr q)"
  shows "mset (arr (fst (down_loop lt q i n))) = mset (arr q) \<and>
    (positions_ok q \<longrightarrow> positions_ok (fst (down_loop lt q i n))) \<and>
    (\<forall>k. n \<le> k \<and> k < length (arr q) \<longrightarrow> arr (fst (down_loop lt q i n)) ! k = arr q ! k)"
  using assms
proof (induction lt q i n rule: down_loop.induct)
  case (1 lt q i n)
  let ?j = "smaller_child lt (arr q) i n"
  show ?case
  proof (cases "2 * i + 1 \<ge> n \<or> \<not> lt (arr q ! ?j) (arr q ! i)")
    case True
    then show ?thesis
      by (auto simp: down_loop.simps [of lt q i n] Let_def)
  next
    case False
    then have j: "i < ?j" "?j < n"
      using smaller_child_bounds(1) [of i n lt "arr q"] by auto
    have eq: "down_loop lt q i n = down_loop lt (Swap q i ?j) ?j n"
      using False by (subst down_loop.simps) (simp add: Let_def)
    show ?thesis
      unfolding eq
      using 1(1) [OF _ refl] False j 1(2,3) mset_Swap [of i q ?j] positions_Swap [of q i ?j] nth_Swap [of i q ?j]
      by auto
  qed
qed

subsection \<open>The heap order\<close>

definition heap_at :: "('a \<Rightarrow> 'a \<Rightarrow> bool) \<Rightarrow> 'a list \<Rightarrow> nat \<Rightarrow> bool" where
  "heap_at lt xs k \<longleftrightarrow> \<not> lt (xs ! k) (xs ! (parent k))"

definition heap_ok :: "('a \<Rightarrow> 'a \<Rightarrow> bool) \<Rightarrow> 'a list \<Rightarrow> nat \<Rightarrow> bool" where
  "heap_ok lt xs n \<longleftrightarrow> (\<forall>k. 0 < k \<and> k < n \<longrightarrow> heap_at lt xs k)"

text \<open>A heap with a foreign item at \<open>i\<close>: everything that does not involve \<open>i\<close> is in order, and the
  children of \<open>i\<close> are in order with the parent of \<open>i\<close>.\<close>

definition hole_at :: "('a \<Rightarrow> 'a \<Rightarrow> bool) \<Rightarrow> 'a list \<Rightarrow> nat \<Rightarrow> nat \<Rightarrow> bool" where
  "hole_at lt xs n i \<longleftrightarrow>
     (\<forall>k. 0 < k \<and> k < n \<and> k \<noteq> i \<and> parent k \<noteq> i \<longrightarrow> heap_at lt xs k) \<and>
     (\<forall>c. 0 < i \<and> 0 < c \<and> c < n \<and> parent c = i \<longrightarrow> \<not> lt (xs ! c) (xs ! (parent i)))"

definition children_ok :: "('a \<Rightarrow> 'a \<Rightarrow> bool) \<Rightarrow> 'a list \<Rightarrow> nat \<Rightarrow> nat \<Rightarrow> bool" where
  "children_ok lt xs n i \<longleftrightarrow> (\<forall>c. 0 < c \<and> c < n \<and> parent c = i \<longrightarrow> heap_at lt xs c)"

lemma hole_complete:
  "hole_at lt xs n i \<Longrightarrow> children_ok lt xs n i \<Longrightarrow> i = 0 \<or> heap_at lt xs i \<Longrightarrow> heap_ok lt xs n"
  unfolding heap_ok_def hole_at_def children_ok_def by (metis less_irrefl)

locale heap_order =
  fixes lt :: "'a \<Rightarrow> 'a \<Rightarrow> bool"
  assumes lt_asym: "lt a b \<Longrightarrow> \<not> lt b a"
    and not_lt_trans: "\<not> lt a b \<Longrightarrow> \<not> lt b c \<Longrightarrow> \<not> lt a c"
begin

text \<open>One step of \<open>up\<close>: exchanging \<open>j\<close> with its parent moves the foreign item to the parent.\<close>

lemma up_step:
  assumes hole: "hole_at lt xs n j" "children_ok lt xs n j" and "0 < j" "j < n"
    and y: "\<And>k. k < n \<Longrightarrow> ys ! k = (if k = j then xs ! parent j else if k = parent j then xs ! j else xs ! k)"
    and lt: "lt (xs ! j) (xs ! parent j)"
  shows "hole_at lt ys n (parent j)" "children_ok lt ys n (parent j)"
proof -
  define i where "i = parent j"
  have ij: "i < j" "i < n"
    using assms(3,4) parent_less [of j] by (auto simp: i_def)
  note y = y [folded i_def] and lt = lt [folded i_def]
  have old: "0 < k \<Longrightarrow> k < n \<Longrightarrow> k \<noteq> j \<Longrightarrow> \<not> lt (xs ! k) (xs ! parent k)" for k
    using hole by (auto simp: hole_at_def children_ok_def heap_at_def)
  have kids: "0 < c \<Longrightarrow> c < n \<Longrightarrow> parent c = j \<Longrightarrow> \<not> lt (xs ! c) (xs ! i)" for c
    using hole(1) assms(3) by (auto simp: hole_at_def i_def)
  have par: "k < n \<Longrightarrow> parent k < n" for k
    using parent_le [of k] by simp
  have top: "0 < i \<Longrightarrow> \<not> lt (xs ! i) (xs ! parent i)"
    using old [of i] ij by simp
  have sib: "\<not> lt (xs ! c) (xs ! i)" if "0 < c" "c < n" "parent c = i" "c \<noteq> j" for c
    using old [of c] that by simp
  show "hole_at lt ys n (parent j)"
    unfolding hole_at_def i_def [symmetric]
  proof (intro conjI allI impI)
    fix k assume k: "0 < k \<and> k < n \<and> k \<noteq> i \<and> parent k \<noteq> i"
    then have "k \<noteq> j"
      by (auto simp: i_def)
    then show "heap_at lt ys k"
      using k old [of k] kids [of k] par [of k] by (auto simp: heap_at_def y)
  next
    fix c assume c: "0 < i \<and> 0 < c \<and> c < n \<and> parent c = i"
    have ne: "parent i \<noteq> j" "parent i \<noteq> i" "parent i < n" "c \<noteq> i"
      using c ij parent_less [of i] parent_less [of c] by auto
    have "\<not> lt (xs ! c) (xs ! parent i)" if "c \<noteq> j"
      using not_lt_trans [OF sib top] c that by blast
    then show "\<not> lt (ys ! c) (ys ! parent i)"
      using c ne top by (simp add: y)
  qed
  show "children_ok lt ys n (parent j)"
    unfolding children_ok_def i_def [symmetric]
  proof (intro allI impI)
    fix c assume c: "0 < c \<and> c < n \<and> parent c = i"
    have "\<not> lt (xs ! c) (xs ! j)" if "c \<noteq> j"
      using not_lt_trans [OF sib lt_asym [OF lt]] c that by blast
    moreover have "c \<noteq> i"
      using c parent_less [of c] by auto
    ultimately show "heap_at lt ys c"
      using c lt_asym [OF lt] ij by (auto simp: heap_at_def y)
  qed
qed

lemma up_heap:
  assumes "hole_at lt (arr q) n j" "children_ok lt (arr q) n j" "j < n" "n \<le> length (arr q)"
  shows "heap_ok lt (arr (up lt q j)) n"
  using assms
proof (induction j arbitrary: q rule: less_induct)
  case (less j)
  define i xs where "i = parent j" and "xs = arr q"
  note hole = less.prems(1,2) [folded xs_def]
  show ?case
  proof (cases "i = j \<or> \<not> lt (xs ! j) (xs ! i)")
    case True
    then have "j = 0 \<or> heap_at lt xs j"
      using parent_less [of j] by (auto simp: heap_at_def i_def)
    then show ?thesis
      using hole_complete [OF hole] True by (subst up.simps) (simp add: Let_def xs_def i_def)
  next
    case False
    then have j0: "0 < j" and lt: "lt (xs ! j) (xs ! i)"
      by (cases "j = 0"; simp add: i_def)+
    then have ij: "i < j" "j < length xs" "i < length xs" "i < n"
      using less.prems(3,4) parent_less [of j] by (auto simp: i_def xs_def)
    define ys where "ys = arr (Swap q i j)"
    have y: "k < n \<Longrightarrow> ys ! k = (if k = j then xs ! i else if k = i then xs ! j else xs ! k)" for k
      using nth_Swap [of i q j k] ij less.prems(4) by (simp add: ys_def xs_def)
    note new = less.IH [OF ij(1), of "Swap q i j", folded ys_def]
    have "hole_at lt ys n i" "children_ok lt ys n i"
      using up_step [OF hole j0 less.prems(3) y [unfolded i_def]] lt by (simp_all add: i_def)
    then have "heap_ok lt (arr (up lt (Swap q i j) i)) n"
      using new ij(4) less.prems(4) by (simp add: ys_def)
    then show ?thesis
      using False by (subst up.simps) (simp add: Let_def xs_def i_def)
  qed
qed

text \<open>One step of \<open>down\<close>: exchanging \<open>i\<close> with its smaller child \<open>j\<close> moves the foreign item to \<open>j\<close>,
  where it is in order with its parent.\<close>

lemma down_step:
  assumes hole: "hole_at lt xs n i" and ij: "parent j = i" "i < j" "j < n"
    and small: "\<And>c. 0 < c \<Longrightarrow> c < n \<Longrightarrow> parent c = i \<Longrightarrow> \<not> lt (xs ! c) (xs ! j)"
    and y: "\<And>k. k < n \<Longrightarrow> ys ! k = (if k = j then xs ! i else if k = i then xs ! j else xs ! k)"
    and lt: "lt (xs ! j) (xs ! i)"
  shows "hole_at lt ys n j" "heap_at lt ys j"
proof -
  show "heap_at lt ys j"
    using lt_asym [OF lt] ij by (simp add: heap_at_def y)
  have old: "0 < k \<Longrightarrow> k < n \<Longrightarrow> k \<noteq> i \<Longrightarrow> parent k \<noteq> i \<Longrightarrow> \<not> lt (xs ! k) (xs ! parent k)" for k
    using hole by (auto simp: hole_at_def heap_at_def)
  have par: "k < n \<Longrightarrow> parent k < n" for k
    using parent_le [of k] by simp
  have top: "0 < i \<Longrightarrow> \<not> lt (xs ! j) (xs ! parent i)"
    using hole ij by (auto simp: hole_at_def)
  show "hole_at lt ys n j"
    unfolding hole_at_def
  proof (intro conjI allI impI)
    fix k assume k: "0 < k \<and> k < n \<and> k \<noteq> j \<and> parent k \<noteq> j"
    show "heap_at lt ys k"
    proof (cases "k = i")
      case True
      then show ?thesis
        using k ij top par [of i] parent_less [of i] by (auto simp: heap_at_def y)
    next
      case False
      then show ?thesis
        using k old [of k] small [of k] par [of k] ij by (auto simp: heap_at_def y)
    qed
  next
    fix c assume c: "0 < j \<and> 0 < c \<and> c < n \<and> parent c = j"
    then have "j < c" "c \<noteq> i"
      using parent_less [of c] ij by auto
    then show "\<not> lt (ys ! c) (ys ! parent j)"
      using c old [of c] ij by (auto simp: y)
  qed
qed

lemma smaller_child_small:
  assumes "2 * i + 1 < n" "0 < c" "c < n" "parent c = i"
  shows "\<not> lt (xs ! c) (xs ! smaller_child lt xs i n)"
proof -
  have "c = 2 * i + 1 \<or> c = 2 * i + 2"
    using assms(2,4) by (auto simp: parent_def)
  then show ?thesis
    using assms(3) lt_asym by (auto simp: smaller_child_def Let_def)
qed

text \<open>The loop ends with a heap when the foreign item is in order with its parent at the start or moved;
  otherwise it stays where it is and its children are in order.\<close>

lemma down_heap:
  assumes "hole_at lt (arr q) n i" "i < n" "n \<le> length (arr q)"
    and "down_loop lt q i n = (q', i')"
  shows "(i' = i \<longrightarrow> q' = q \<and> children_ok lt (arr q) n i) \<and> i \<le> i' \<and>
    (i = 0 \<or> heap_at lt (arr q) i \<or> i < i' \<longrightarrow> heap_ok lt (arr q') n)"
  using assms
proof (induction "n - i" arbitrary: q i rule: less_induct)
  case less
  define xs j where "xs = arr q" and "j = smaller_child lt (arr q) i n"
  note hole = less.prems(1) [folded xs_def]
  show ?case
  proof (cases "2 * i + 1 \<ge> n \<or> \<not> lt (xs ! j) (xs ! i)")
    case True
    then have q': "q' = q" "i' = i"
      using less.prems(4) by (auto simp: down_loop.simps [of lt q i n] Let_def xs_def j_def split: if_splits)
    have "children_ok lt xs n i"
      unfolding children_ok_def heap_at_def
    proof (intro allI impI)
      fix c assume c: "0 < c \<and> c < n \<and> parent c = i"
      then have "2 * i + 1 < n"
        by (auto simp: parent_def)
      then show "\<not> lt (xs ! c) (xs ! parent c)"
        using True c not_lt_trans [OF smaller_child_small, of i n c xs "xs ! i"] by (auto simp: j_def xs_def)
    qed
    then show ?thesis
      using q' hole_complete [OF hole] by (auto simp: xs_def)
  next
    case False
    then have j: "i < j" "j < n" "parent j = i" and lt: "lt (xs ! j) (xs ! i)"
      using smaller_child_bounds(1) [of i n lt xs] smaller_child_bounds(2) [of lt xs i n] by (auto simp: j_def xs_def)
    have eq: "down_loop lt (Swap q i j) j n = (q', i')"
      using less.prems(4) False by (subst (asm) down_loop.simps) (simp add: Let_def xs_def j_def)
    have y: "k < n \<Longrightarrow> arr (Swap q i j) ! k = (if k = j then xs ! i else if k = i then xs ! j else xs ! k)" for k
      using nth_Swap [of i q j k] j less.prems(2,3) by (simp add: xs_def)
    have small: "0 < c \<Longrightarrow> c < n \<Longrightarrow> parent c = i \<Longrightarrow> \<not> lt (xs ! c) (xs ! j)" for c
      using smaller_child_small [of i n c xs] False by (simp add: j_def xs_def)
    note step = down_step [OF hole j(3,1,2) small y lt]
    have "n - j < n - i"
      using j by simp
    moreover have "n \<le> length (arr (Swap q i j))"
      using less.prems(3) by simp
    ultimately have "j \<le> i' \<and> heap_ok lt (arr q') n"
      using less.hyps [OF _ step(1) j(2) _ eq] step(2) by blast
    then show ?thesis
      using j(1) by simp
  qed
qed

definition queue_ok :: "'a queue \<Rightarrow> bool" where
  "queue_ok q \<longleftrightarrow> positions_ok q \<and> heap_ok lt (arr q) (length (arr q))"

lemma queue_ok_empty: "queue_ok \<lparr>arr = [], idx = f\<rparr>"
  by (simp add: queue_ok_def positions_ok_def heap_ok_def)

lemma queue_ok_distinct: "queue_ok q \<Longrightarrow> distinct (arr q)"
  by (simp add: queue_ok_def positions_ok_def)

lemma root_least:
  assumes "queue_ok q" "x \<in> set (arr q)"
  shows "\<not> lt x (arr q ! 0)"
proof -
  have heap: "heap_ok lt (arr q) (length (arr q))"
    using assms(1) by (simp add: queue_ok_def)
  have "k < length (arr q) \<Longrightarrow> \<not> lt (arr q ! k) (arr q ! 0)" for k
  proof (induction k rule: less_induct)
    case (less k)
    show ?case
    proof (cases "k = 0")
      case True
      then show ?thesis using lt_asym by blast
    next
      case False
      then show ?thesis
        using less parent_less [of k] heap not_lt_trans [of "arr q ! k" "arr q ! parent k" "arr q ! 0"]
        by (simp add: heap_ok_def heap_at_def)
    qed
  qed
  then show ?thesis
    using assms(2) by (auto simp: in_set_conv_nth)
qed

lemma positions_Push:
  assumes "positions_ok q" "x \<notin> set (arr q)"
  shows "positions_ok (queue_Push x q)"
  using assms by (auto simp: positions_ok_def queue_Push_def nth_append less_Suc_eq)

lemma Push_ok:
  assumes "queue_ok q" "x \<notin> set (arr q)"
  shows "queue_ok (heap_Push lt x q)" "mset (arr (heap_Push lt x q)) = add_mset x (mset (arr q))"
proof -
  define q1 n where "q1 = queue_Push x q" and "n = length (arr q)"
  have q1: "arr q1 = arr q @ [x]" "length (arr q1) = Suc n" "positions_ok q1"
    using positions_Push assms by (auto simp: q1_def queue_Push_def n_def queue_ok_def)
  have old: "heap_at lt (arr q1) k" if "0 < k" "k < n" for k
    using assms(1) that parent_le [of k] by (simp add: queue_ok_def heap_ok_def heap_at_def q1(1) n_def nth_append)
  have leaf: "\<not> (0 < c \<and> c < Suc n \<and> parent c = n)" for c
    using parent_less [of c] by auto
  have "hole_at lt (arr q1) (Suc n) n"
    unfolding hole_at_def using old leaf by (metis less_antisym)
  moreover have "children_ok lt (arr q1) (Suc n) n"
    unfolding children_ok_def using leaf by blast
  ultimately have heap: "heap_ok lt (arr (up lt q1 n)) (Suc n)"
    by (rule up_heap) (simp_all add: q1(2))
  have up: "mset (arr (up lt q1 n)) = mset (arr q1)" "positions_ok (up lt q1 n)"
    using up_content [of n q1 lt] q1 by simp_all
  then have "length (arr (up lt q1 n)) = Suc n"
    using q1(2) by (metis size_mset)
  then show "queue_ok (heap_Push lt x q)"
    using heap up(2) q1(2) by (simp add: queue_ok_def heap_Push_def flip: q1_def)
  show "mset (arr (heap_Push lt x q)) = add_mset x (mset (arr q))"
    using up(1) q1 by (simp add: heap_Push_def flip: q1_def)
qed

text \<open>Taking the last item into position \<open>i\<close> leaves a heap with a foreign item.\<close>

lemma hole_after_swap:
  assumes heap: "heap_ok lt xs (Suc n)" and i: "i < n"
    and y: "\<And>k. k < n \<Longrightarrow> ys ! k = (if k = i then xs ! n else xs ! k)"
  shows "hole_at lt ys n i"
  unfolding hole_at_def
proof (intro conjI allI impI)
  have old: "0 < k \<Longrightarrow> k < n \<Longrightarrow> \<not> lt (xs ! k) (xs ! parent k)" for k
    using heap by (simp add: heap_ok_def heap_at_def)
  have par: "k < n \<Longrightarrow> parent k < n" for k
    using parent_le [of k] by simp
  fix k assume "0 < k \<and> k < n \<and> k \<noteq> i \<and> parent k \<noteq> i"
  then show "heap_at lt ys k"
    using old [of k] par [of k] by (simp add: heap_at_def y)
next
  have old: "0 < k \<Longrightarrow> k < n \<Longrightarrow> \<not> lt (xs ! k) (xs ! parent k)" for k
    using heap by (simp add: heap_ok_def heap_at_def)
  fix c assume c: "0 < i \<and> 0 < c \<and> c < n \<and> parent c = i"
  have "\<not> lt (xs ! c) (xs ! parent i)"
    using not_lt_trans [OF old [of c], of "xs ! parent i"] old [of i] c i by simp
  moreover have "c \<noteq> i" "parent i < n" "parent i \<noteq> i"
    using c parent_less [of c] parent_less [of i] i by auto
  ultimately show "\<not> lt (ys ! c) (ys ! parent i)"
    using c by (simp add: y)
qed

lemma repair_hole:
  assumes hole: "hole_at lt (arr q) n i" and i: "i < n" "length (arr q) = Suc n" "positions_ok q"
  defines "q2 \<equiv> (let (q', moved) = down lt q i n in if \<not> moved then up lt q' i else q')"
  shows "heap_ok lt (arr q2) n" "mset (arr q2) = mset (arr q)" "positions_ok q2" "arr q2 ! n = arr q ! n"
proof -
  obtain q' i' where d: "down_loop lt q i n = (q', i')"
    by fastforce
  have q': "mset (arr q') = mset (arr q)" "positions_ok q'" "arr q' ! n = arr q ! n"
    using down_content [of i n q lt] i d by simp_all
  have len: "length (arr q') = Suc n"
    using q'(1) i(2) by (metis size_mset)
  note dh = down_heap [OF hole i(1) _ d]
  have "heap_ok lt (arr q2) n \<and> mset (arr q2) = mset (arr q) \<and> positions_ok q2 \<and> arr q2 ! n = arr q ! n"
  proof (cases "i < i'")
    case True
    then have "q2 = q'"
      by (simp add: q2_def down_def d)
    then show ?thesis
      using True dh i(2) q' by simp
  next
    case False
    then have e: "q' = q" "children_ok lt (arr q) n i"
      using dh i(2) by auto
    then have "q2 = up lt q i"
      using False by (simp add: q2_def down_def d)
    then show ?thesis
      using up_heap [OF hole e(2) i(1)] up_content [of i q lt] i by simp
  qed
  then show "heap_ok lt (arr q2) n" "mset (arr q2) = mset (arr q)" "positions_ok q2" "arr q2 ! n = arr q ! n"
    by simp_all
qed

lemma Pop_ok:
  assumes "heap_ok lt (arr q) n" "length (arr q) = Suc n" "positions_ok q"
  shows "queue_ok (queue_Pop q)" "mset (arr (queue_Pop q)) = mset (arr q) - {#arr q ! n#}"
proof -
  obtain xs x where q: "arr q = xs @ [x]" "length xs = n"
    using assms(2) by (metis length_Suc_conv_rev)
  have pop: "queue_Pop q = \<lparr>arr = xs, idx = (idx q)(x := -1)\<rparr>"
    by (simp add: queue_Pop_def q)
  have nth: "k < n \<Longrightarrow> arr q ! k = xs ! k" for k
    using q by (simp add: nth_append)
  have x: "distinct xs" "x \<notin> set xs"
    using assms(3) q(1) by (simp_all add: positions_ok_def)
  have "idx (queue_Pop q) (xs ! k) = int k" if "k < n" for k
  proof -
    have "xs ! k \<noteq> x"
      using x(2) that q(2) nth_mem by blast
    moreover have "idx q (arr q ! k) = int k"
      using assms(2,3) that by (simp add: positions_ok_def)
    ultimately show ?thesis
      using nth [OF that] by (simp add: pop)
  qed
  then have pos: "positions_ok (queue_Pop q)"
    using x(1) q(2) by (simp add: positions_ok_def pop)
  have "heap_at lt xs k" if "0 < k" "k < n" for k
  proof -
    have "\<not> lt (arr q ! k) (arr q ! parent k)"
      using assms(1) that by (simp add: heap_ok_def heap_at_def)
    moreover have "parent k < n"
      using that parent_le [of k] by simp
    ultimately show ?thesis
      using nth that by (simp add: heap_at_def)
  qed
  then show "queue_ok (queue_Pop q)"
    using pos q(2) by (simp add: queue_ok_def heap_ok_def pop)
  show "mset (arr (queue_Pop q)) = mset (arr q) - {#arr q ! n#}"
    using q by (simp add: pop nth_append)
qed

lemma Remove_ok:
  assumes "queue_ok q" "i < length (arr q)"
  shows "queue_ok (heap_Remove lt i q)" "mset (arr (heap_Remove lt i q)) = mset (arr q) - {#arr q ! i#}"
proof -
  define n where "n = length (arr q) - 1"
  have n: "length (arr q) = Suc n" "i \<le> n" and ok: "positions_ok q" "heap_ok lt (arr q) (Suc n)"
    using assms by (cases "arr q"; simp add: n_def queue_ok_def)+
  have len: "length (arr q) - 1 = n"
    by (simp add: n_def)
  have "queue_ok (heap_Remove lt i q) \<and> mset (arr (heap_Remove lt i q)) = mset (arr q) - {#arr q ! i#}"
  proof (cases "n = i")
    case True
    then have "heap_Remove lt i q = queue_Pop q"
      unfolding heap_Remove_def len by (simp add: Let_def)
    then show ?thesis
      using Pop_ok [of q n] ok n True by (simp add: heap_ok_def)
  next
    case False
    then have i: "i < n"
      using n(2) by simp
    define q1 q2 where "q1 = Swap q i n" and "q2 = (let (q', moved) = down lt q1 i n in if \<not> moved then up lt q' i else q')"
    have q1: "mset (arr q1) = mset (arr q)" "positions_ok q1" "length (arr q1) = Suc n" "arr q1 ! n = arr q ! i"
      using mset_Swap [of i q n] positions_Swap [OF ok(1), of i n] nth_Swap [of i q n n] n i by (simp_all add: q1_def)
    have "hole_at lt (arr q1) n i"
      using nth_Swap [of i q n] n(1) i by (intro hole_after_swap [OF ok(2) i]) (simp add: q1_def)
    note q2 = repair_hole [OF this i q1(3,2), folded q2_def]
    have "length (arr q2) = Suc n"
      using q2(2) q1(3) by (metis size_mset)
    moreover have "heap_Remove lt i q = queue_Pop q2"
      using False unfolding heap_Remove_def len q2_def q1_def by (simp add: Let_def)
    ultimately show ?thesis
      using Pop_ok [OF q2(1) _ q2(3)] q2(2,4) q1(1,4) by simp
  qed
  then show "queue_ok (heap_Remove lt i q)" "mset (arr (heap_Remove lt i q)) = mset (arr q) - {#arr q ! i#}"
    by simp_all
qed

lemma Push_set:
  assumes "queue_ok q" "x \<notin> set (arr q)"
  shows "set (arr (heap_Push lt x q)) = insert x (set (arr q))" "length (arr (heap_Push lt x q)) = Suc (length (arr q))"
proof -
  have ms: "mset (arr (heap_Push lt x q)) = mset (x # arr q)"
    using Push_ok(2) [OF assms] by simp
  show "set (arr (heap_Push lt x q)) = insert x (set (arr q))" "length (arr (heap_Push lt x q)) = Suc (length (arr q))"
    using mset_eq_setD [OF ms] mset_eq_length [OF ms] by simp_all
qed

lemma remove_item_ok:
  assumes "queue_ok q" "item \<in> set (arr q)"
  shows "queue_ok (remove_item lt item q)" "set (arr (remove_item lt item q)) = set (arr q) - {item}"
    "Suc (length (arr (remove_item lt item q))) = length (arr q)"
proof -
  obtain i where i: "i < length (arr q)" "arr q ! i = item"
    using assms(2) by (auto simp: in_set_conv_nth)
  then have "idx q item = int i"
    using assms(1) by (auto simp: queue_ok_def positions_ok_def)
  then have eq: "remove_item lt item q = heap_Remove lt i q"
    using i by (simp add: remove_item_def)
  note r = Remove_ok [OF assms(1) i(1)]
  show ok: "queue_ok (remove_item lt item q)"
    using r(1) by (simp add: eq)
  have ms: "mset (arr (remove_item lt item q)) = mset (remove1 item (arr q))"
    using r(2) i(2) by (simp add: eq)
  show "set (arr (remove_item lt item q)) = set (arr q) - {item}"
    using mset_eq_setD [OF ms] queue_ok_distinct [OF assms(1)] by (simp add: set_remove1_eq)
  show "Suc (length (arr (remove_item lt item q))) = length (arr q)"
    using mset_eq_length [OF ms] assms(2) i(1) by (simp add: length_remove1)
qed

end

end
