(* ===== verification/TxPool.thy ===== *)
theory TxPool
  imports Transaction Heap "HOL-Library.Product_Lexorder"
begin

text \<open>
  The transaction pools (\<open>transactionsPool/poolTx.go\<close>, \<open>basePool.go\<close>) and admission to the main
  pool (\<open>services/transactionServices/onmessage.go\<close>). A pool keeps its transactions in a map, in a
  heap ordered by falling priority and in a second heap ordered by rising priority that finds the
  entry to evict; it counts bans and the balance each sender has committed. The three pools differ
  in what the priority is: the gas price, the height plus the escrow delay, or the first bytes of
  the hash that groups a multi-signature transaction. Locks are not modelled: every method holds
  the pool's lock for its whole body.
\<close>

subsection \<open>State\<close>

record Item =
  it_Transaction :: Transaction
  it_value :: bytes
  it_priority :: int64

definition NewItem :: "Transaction \<Rightarrow> int64 \<Rightarrow> Item" where
  "NewItem tx pr = \<lparr>it_Transaction = tx, it_value = tx_Hash tx, it_priority = pr\<rparr>"

definition pq_Less :: "Item \<Rightarrow> Item \<Rightarrow> bool" where
  "pq_Less a b \<longleftrightarrow> sint (it_priority a) > sint (it_priority b)"

definition min_Less :: "Item \<Rightarrow> Item \<Rightarrow> bool" where
  "min_Less a b \<longleftrightarrow> sint (it_priority a) < sint (it_priority b)"

record TransactionPool =
  transactions :: "(bytes, Transaction) gomap"
  items :: "(bytes, Item) gomap"
  bannedTransactions :: "(bytes, nat) gomap"
  priorityQueue :: "Item queue"
  minQueue :: "Item queue"
  maxTransactions :: nat
  typePool :: uint8
  pendingBySender :: "(bytes, int64) gomap"

definition NewTransactionPool :: "nat \<Rightarrow> uint8 \<Rightarrow> TransactionPool" where
  "NewTransactionPool n t = \<lparr>transactions = [], items = [], bannedTransactions = [],
     priorityQueue = \<lparr>arr = [], idx = (\<lambda>_. 0)\<rparr>, minQueue = \<lparr>arr = [], idx = (\<lambda>_. 0)\<rparr>,
     maxTransactions = n, typePool = t, pendingBySender = []\<rparr>"

subsection \<open>Committed balance\<close>

definition GetSenderAddress :: "Transaction \<Rightarrow> Address" where
  "GetSenderAddress tx = Sender (tx_TxParam tx)"

definition txSpend :: "Transaction \<Rightarrow> int64" where
  "txSpend tx = (case CalcFee tx of Inl _ \<Rightarrow> 0 | Inr fee \<Rightarrow> fee + Amount (tx_TxData tx))"

definition addPendingLocked :: "Transaction \<Rightarrow> TransactionPool \<Rightarrow> TransactionPool" where
  "addPendingLocked tx tp =
    (let sk = addr_ByteValue (GetSenderAddress tx); m = pendingBySender tp
     in tp\<lparr>pendingBySender := mput sk (mget 0 m sk + txSpend tx) m\<rparr>)"

definition subPendingLocked :: "Transaction \<Rightarrow> TransactionPool \<Rightarrow> TransactionPool" where
  "subPendingLocked tx tp =
    (let k = addr_ByteValue (GetSenderAddress tx); m = pendingBySender tp;
         m = mput k (mget 0 m k - txSpend tx) m;
         m = (if sint (mget 0 m k) \<le> 0 then mdel k m else m)
     in tp\<lparr>pendingBySender := m\<rparr>)"

definition PendingSpend :: "TransactionPool \<Rightarrow> bytes \<Rightarrow> int64" where
  "PendingSpend tp sender = mget 0 (pendingBySender tp) sender"

subsection \<open>Bans\<close>

definition BanTransactionByHash :: "bytes \<Rightarrow> TransactionPool \<Rightarrow> TransactionPool" where
  "BanTransactionByHash hash tp =
    (let h = GetHashFromBytes hash; n = mget 0 (bannedTransactions tp) h + 1
     in tp\<lparr>bannedTransactions := mput h (if n > NumberWhenWillBan then NumberWhenWillBan else n) (bannedTransactions tp)\<rparr>)"

definition BlockTransactionByHash :: "bytes \<Rightarrow> TransactionPool \<Rightarrow> TransactionPool" where
  "BlockTransactionByHash hash tp =
     tp\<lparr>bannedTransactions := mput (GetHashFromBytes hash) NumberWhenWillBan (bannedTransactions tp)\<rparr>"

subsection \<open>Adding and removing\<close>

definition removeItemLocked :: "Item \<Rightarrow> TransactionPool \<Rightarrow> TransactionPool" where
  "removeItemLocked item tp =
     tp\<lparr>priorityQueue := remove_item pq_Less item (priorityQueue tp),
        minQueue := remove_item min_Less item (minQueue tp)\<rparr>"

text \<open>\<open>GetInt64FromByte\<close> of a \<open>Hash\<close>, which has 32 bytes.\<close>

definition int64_of_hash :: "bytes \<Rightarrow> int64" where
  "int64_of_hash h = get_le (take 8 h)"

definition item_priority :: "TransactionPool \<Rightarrow> Transaction \<Rightarrow> bytes \<Rightarrow> int64 option" where
  "item_priority tp tx hash2check =
    (if typePool tp = 0 then Some (GasPrice tx)
     else if typePool tp = 1 then Some (tx_Height tx + EscrowTransactionsDelay (tx_TxData tx))
     else if typePool tp = 2 then Some (int64_of_hash hash2check)
     else None)"

text \<open>The part of \<open>AddTransaction\<close> after the new item is in the heaps and the map: eviction of the
  cheapest entry of the main pool, refusal of the new one in the two others.\<close>

definition enforce_limit :: "Item \<Rightarrow> TransactionPool \<Rightarrow> bool \<times> TransactionPool" where
  "enforce_limit item tp =
    (if length (arr (priorityQueue tp)) > maxTransactions tp then
       if typePool tp \<noteq> 0 then
         let tp = subPendingLocked (it_Transaction item) tp;
             tp = removeItemLocked item tp;
             tp = tp\<lparr>transactions := mdel (it_value item) (transactions tp), items := mdel (it_value item) (items tp)\<rparr>
         in (False, tp)
       else
         let removed = arr (minQueue tp) ! 0;
             tp = removeItemLocked removed tp;
             tp = (case map_of (transactions tp) (it_value removed) of
                     Some evTx \<Rightarrow> subPendingLocked evTx tp | None \<Rightarrow> tp);
             tp = tp\<lparr>transactions := mdel (it_value removed) (transactions tp), items := mdel (it_value removed) (items tp)\<rparr>
         in (True, tp)
     else (True, tp))"

definition push_item :: "Item \<Rightarrow> TransactionPool \<Rightarrow> TransactionPool" where
  "push_item item tp =
     tp\<lparr>priorityQueue := heap_Push pq_Less item (priorityQueue tp),
        minQueue := heap_Push min_Less item (minQueue tp),
        items := mput (it_value item) item (items tp)\<rparr>"

definition AddTransaction :: "Transaction \<Rightarrow> bytes \<Rightarrow> TransactionPool \<Rightarrow> bool \<times> TransactionPool" where
  "AddTransaction tx hash2check tp =
    (let hash = tx_Hash tx in
     if (case map_of (bannedTransactions tp) hash of None \<Rightarrow> False | Some numBans \<Rightarrow> numBans > MaxNumberOfTxBans)
     then (False, BanTransactionByHash hash tp)
     else case map_of (transactions tp) hash of
         Some _ \<Rightarrow> (True, tp)
       | None \<Rightarrow>
           let tp = tp\<lparr>transactions := mput hash tx (transactions tp)\<rparr>;
               tp = addPendingLocked tx tp
           in case item_priority tp tx hash2check of
                None \<Rightarrow> (False, tp)
              | Some pr \<Rightarrow> enforce_limit (NewItem tx pr) (push_item (NewItem tx pr) tp))"

definition Clear :: "TransactionPool \<Rightarrow> nat \<times> TransactionPool" where
  "Clear tp =
    (length (transactions tp),
     tp\<lparr>transactions := [], items := [], priorityQueue := \<lparr>arr = [], idx = (\<lambda>_. 0)\<rparr>,
        minQueue := \<lparr>arr = [], idx = (\<lambda>_. 0)\<rparr>, pendingBySender := []\<rparr>)"

definition RemoveTransactionByHash :: "bytes \<Rightarrow> TransactionPool \<Rightarrow> TransactionPool" where
  "RemoveTransactionByHash hash tp =
    (let h = GetHashFromBytes hash in
     case map_of (items tp) h of
       None \<Rightarrow> tp
     | Some item \<Rightarrow>
         let tp = removeItemLocked item tp;
             tp = (case map_of (transactions tp) h of Some tx \<Rightarrow> subPendingLocked tx tp | None \<Rightarrow> tp)
         in tp\<lparr>transactions := mdel h (transactions tp), items := mdel h (items tp)\<rparr>)"

definition PopTransactionByHash :: "bytes \<Rightarrow> TransactionPool \<Rightarrow> Transaction option \<times> TransactionPool" where
  "PopTransactionByHash hash tp =
    (let h = GetHashFromBytes hash in
     case map_of (items tp) h of
       None \<Rightarrow> (None, tp)
     | Some item \<Rightarrow>
         let tx = map_of (transactions tp) h; tp = removeItemLocked item tp
         in (tx, tp\<lparr>transactions := mdel h (transactions tp), items := mdel h (items tp)\<rparr>))"

subsection \<open>Reading\<close>

definition HasTransaction :: "TransactionPool \<Rightarrow> bytes \<Rightarrow> bool" where
  "HasTransaction tp hash \<longleftrightarrow> map_of (transactions tp) (GetHashFromBytes hash) \<noteq> None"

definition TransactionExists :: "TransactionPool \<Rightarrow> bytes \<Rightarrow> bool" where
  "TransactionExists tp hash \<longleftrightarrow> map_of (transactions tp) (GetHashFromBytes hash) \<noteq> None"

definition GetTransactionByHash :: "TransactionPool \<Rightarrow> bytes \<Rightarrow> Transaction option" where
  "GetTransactionByHash tp hash = map_of (transactions tp) (GetHashFromBytes hash)"

definition NumberOfTransactions :: "TransactionPool \<Rightarrow> nat" where
  "NumberOfTransactions tp = length (transactions tp)"

text \<open>The order of the main pool's candidates: highest priority first, ties by hash.\<close>

definition peek_key :: "Item \<Rightarrow> int \<times> bytes" where
  "peek_key it = (- sint (it_priority it), it_value it)"

text \<open>Reading a missing key of the map of transactions gives the zero transaction.\<close>

definition zero_Transaction :: Transaction where
  "zero_Transaction = \<lparr>tx_TxData = zero_TxData,
     tx_TxParam = \<lparr>ChainID = 0, Sender = zero_Address, SendingTime = 0, Nonce = 0, MultiSignTx = replicate HashLength 0\<rparr>,
     tx_Hash = replicate HashLength 0, tx_Signature = zero_Signature, tx_Height = 0, GasPrice = 0, GasUsage = 0,
     OutputLogs = [], ContractAddress = zero_Address\<rparr>"

definition due :: "TransactionPool \<Rightarrow> int64 \<Rightarrow> Item \<Rightarrow> bool" where
  "due tp heightOrHash it \<longleftrightarrow>
    (if typePool tp = 0 then True
     else if typePool tp = 1 then sint heightOrHash \<ge> sint (it_priority it)
     else if typePool tp = 2 then heightOrHash = it_priority it
     else False)"

definition PeekTransactions :: "TransactionPool \<Rightarrow> nat \<Rightarrow> int64 \<Rightarrow> Transaction list" where
  "PeekTransactions tp n heightOrHash =
    (let n = (if n > length (transactions tp) then length (transactions tp) else n) in
     if typePool tp = 0 then
       concat (map (\<lambda>it. case map_of (transactions tp) (it_value it) of Some tx \<Rightarrow> [tx] | None \<Rightarrow> [])
         (take n (sort_key peek_key (arr (priorityQueue tp)))))
     else
       map (\<lambda>it. mget zero_Transaction (transactions tp) (tx_Hash (it_Transaction it)))
         (filter (due tp heightOrHash) (take n (arr (priorityQueue tp)))))"

definition PeekEntries :: "TransactionPool \<Rightarrow> nat \<Rightarrow> (Transaction \<times> int64) list" where
  "PeekEntries tp n =
    concat (map (\<lambda>it. case map_of (transactions tp) (tx_Hash (it_Transaction it)) of
                        Some tx \<Rightarrow> [(tx, it_priority it)] | None \<Rightarrow> [])
      (take n (arr (priorityQueue tp))))"

subsection \<open>The pool invariant\<close>

interpretation maxheap: heap_order pq_Less
  by unfold_locales (auto simp: pq_Less_def)

interpretation minheap: heap_order min_Less
  by unfold_locales (auto simp: min_Less_def)

text \<open>The two heaps and the two maps hold the same entries, every item under its own hash.\<close>

definition pool_core :: "TransactionPool \<Rightarrow> bool" where
  "pool_core tp \<longleftrightarrow>
     maxheap.queue_ok (priorityQueue tp) \<and> minheap.queue_ok (minQueue tp) \<and>
     wf_map (transactions tp) \<and> wf_map (items tp) \<and>
     set (arr (priorityQueue tp)) = snd ` set (items tp) \<and> set (arr (minQueue tp)) = snd ` set (items tp) \<and>
     (\<forall>h it. map_of (items tp) h = Some it \<longrightarrow> it_value it = h \<and> tx_Hash (it_Transaction it) = h) \<and>
     map_of (transactions tp) = map_option it_Transaction \<circ> map_of (items tp) \<and>
     (typePool tp = 0 \<or> typePool tp = 1 \<or> typePool tp = 2)"

definition wf_pool :: "TransactionPool \<Rightarrow> bool" where
  "wf_pool tp \<longleftrightarrow> pool_core tp \<and> length (transactions tp) \<le> maxTransactions tp"

lemma pool_coreD:
  assumes "pool_core tp"
  shows "maxheap.queue_ok (priorityQueue tp)" "minheap.queue_ok (minQueue tp)"
    "wf_map (transactions tp)" "wf_map (items tp)"
    "set (arr (priorityQueue tp)) = snd ` set (items tp)" "set (arr (minQueue tp)) = snd ` set (items tp)"
    "map_of (items tp) h = Some it \<Longrightarrow> it_value it = h" "map_of (items tp) h = Some it \<Longrightarrow> tx_Hash (it_Transaction it) = h"
    "map_of (transactions tp) h = map_option it_Transaction (map_of (items tp) h)"
    "typePool tp = 0 \<or> typePool tp = 1 \<or> typePool tp = 2"
  using assms by (auto simp: pool_core_def)

lemma pool_item_mem:
  assumes "pool_core tp"
  shows "it \<in> snd ` set (items tp) \<longleftrightarrow> map_of (items tp) (it_value it) = Some it"
proof
  assume "it \<in> snd ` set (items tp)"
  then obtain h where "map_of (items tp) h = Some it"
    using pool_coreD(4) [OF assms] by (auto simp: map_of_eq_Some_iff)
  then show "map_of (items tp) (it_value it) = Some it"
    using pool_coreD(7) [OF assms] by metis
next
  assume "map_of (items tp) (it_value it) = Some it"
  then show "it \<in> snd ` set (items tp)"
    by (force dest: map_of_SomeD)
qed

lemma wf_map_length: "wf_map m \<Longrightarrow> length m = card (dom (map_of m))"
  by (simp add: dom_map_of_conv_image_fst distinct_card flip: set_map)

lemma pool_lengths:
  assumes "pool_core tp"
  shows "length (arr (priorityQueue tp)) = length (transactions tp)" "length (items tp) = length (transactions tp)"
proof -
  have "dom (map_of (transactions tp)) = dom (map_of (items tp))"
    using pool_coreD(9) [OF assms] by (auto simp: dom_def)
  then show len: "length (items tp) = length (transactions tp)"
    using wf_map_length pool_coreD(3,4) [OF assms] by metis
  have "inj_on it_value (snd ` set (items tp))"
    unfolding inj_on_def by (metis option.inject pool_item_mem [OF assms])
  moreover have "it_value ` snd ` set (items tp) = fst ` set (items tp)"
    using pool_coreD(4,7) [OF assms] by (force simp: image_image intro!: image_cong)
  ultimately have "card (snd ` set (items tp)) = card (fst ` set (items tp))"
    by (metis card_image)
  moreover have "card (fst ` set (items tp)) = length (items tp)"
    using pool_coreD(4) [OF assms] by (metis distinct_card length_map set_map)
  moreover have "length (arr (priorityQueue tp)) = card (set (arr (priorityQueue tp)))"
    using maxheap.queue_ok_distinct [OF pool_coreD(1) [OF assms]] by (simp add: distinct_card)
  ultimately show "length (arr (priorityQueue tp)) = length (transactions tp)"
    using len pool_coreD(5) [OF assms] by simp
qed

text \<open>Pushing a new item and removing a present one, on the parts the invariant reads.\<close>

lemma pool_core_push:
  assumes "pool_core tp" "map_of (items tp) (it_value it) = None" "tx_Hash (it_Transaction it) = it_value it"
  shows "pool_core (push_item it tp\<lparr>transactions := mput (it_value it) (it_Transaction it) (transactions tp),
      pendingBySender := p\<rparr>)"
proof -
  have new: "it \<notin> set (arr (priorityQueue tp))" "it \<notin> set (arr (minQueue tp))"
    using pool_item_mem [OF assms(1), of it] assms(2) pool_coreD(5,6) [OF assms(1)] by auto
  have "it_value it \<notin> fst ` set (items tp)"
    using assms(2) by (simp add: map_of_eq_None_iff)
  then have s: "snd ` set (mput (it_value it) it (items tp)) = insert it (snd ` set (items tp))"
    by (simp add: mput_append)
  show ?thesis
    unfolding pool_core_def push_item_def
    using pool_coreD [OF assms(1)] maxheap.Push_ok(1) [OF _ new(1)] minheap.Push_ok(1) [OF _ new(2)]
      maxheap.Push_set(1) [OF _ new(1)] minheap.Push_set(1) [OF _ new(2)] s assms(3)
    by (auto simp: fun_eq_iff)
qed

lemma pool_core_remove:
  assumes "pool_core tp" "map_of (items tp) h = Some it"
  shows "pool_core (removeItemLocked it tp\<lparr>pendingBySender := p, transactions := mdel h (transactions tp), items := mdel h (items tp)\<rparr>)"
proof -
  have mem: "it \<in> set (arr (priorityQueue tp))" "it \<in> set (arr (minQueue tp))" and v: "it_value it = h"
    using pool_coreD(5,6,7) [OF assms(1)] assms(2) by (auto dest!: map_of_SomeD intro: image_eqI [of _ snd "(h, it)"])
  have s: "snd ` set (mdel h (items tp)) = snd ` set (items tp) - {it}"
  proof -
    have "x \<in> snd ` set (mdel h (items tp)) \<longleftrightarrow> x \<in> snd ` set (items tp) \<and> x \<noteq> it" for x
    proof
      assume "x \<in> snd ` set (mdel h (items tp))"
      then obtain k where "(k, x) \<in> set (items tp)" "k \<noteq> h"
        by (auto simp: AList.delete_eq)
      then show "x \<in> snd ` set (items tp) \<and> x \<noteq> it"
        using pool_coreD(4,7) [OF assms(1)] v by (force simp: map_of_eq_Some_iff image_iff)
    next
      assume x: "x \<in> snd ` set (items tp) \<and> x \<noteq> it"
      then have "map_of (items tp) (it_value x) = Some x" "it_value x \<noteq> h"
        using pool_item_mem [OF assms(1), of x] assms(2) by auto
      then have "(it_value x, x) \<in> set (mdel h (items tp))"
        by (auto simp: AList.delete_eq dest: map_of_SomeD)
      then show "x \<in> snd ` set (mdel h (items tp))"
        by force
    qed
    then show ?thesis by blast
  qed
  show ?thesis
    unfolding pool_core_def removeItemLocked_def
    using pool_coreD [OF assms(1)] maxheap.remove_item_ok(1,2) [OF _ mem(1)] minheap.remove_item_ok(1,2) [OF _ mem(2)] s
    by (auto simp: fun_eq_iff map_of_mdel)
qed


lemma length_mdel:
  assumes "wf_map m" "map_of m h = Some v"
  shows "Suc (length (mdel h m)) = length m"
proof -
  have fin: "finite (dom (map_of m))" and h: "h \<in> dom (map_of m)"
    using assms(2) by (auto simp: finite_dom_map_of)
  have "length (mdel h m) = card (dom (map_of m) - {h})"
    using wf_map_length [OF wf_mdel [OF assms(1)], of h] by (simp add: map_of_mdel)
  then show ?thesis
    using card_Suc_Diff1 [OF fin h] wf_map_length [OF assms(1)] by (simp only:)
qed

lemma mdel_mput: "k \<notin> fst ` set m \<Longrightarrow> mdel k (mput k v m) = m"
  by (induction m) auto

lemma pending_only [simp]:
  "transactions (subPendingLocked tx tp) = transactions tp" "items (subPendingLocked tx tp) = items tp"
  "priorityQueue (subPendingLocked tx tp) = priorityQueue tp" "minQueue (subPendingLocked tx tp) = minQueue tp"
  "maxTransactions (subPendingLocked tx tp) = maxTransactions tp" "typePool (subPendingLocked tx tp) = typePool tp"
  "bannedTransactions (subPendingLocked tx tp) = bannedTransactions tp"
  "transactions (addPendingLocked tx tp) = transactions tp" "items (addPendingLocked tx tp) = items tp"
  "priorityQueue (addPendingLocked tx tp) = priorityQueue tp" "minQueue (addPendingLocked tx tp) = minQueue tp"
  "maxTransactions (addPendingLocked tx tp) = maxTransactions tp" "typePool (addPendingLocked tx tp) = typePool tp"
  "bannedTransactions (addPendingLocked tx tp) = bannedTransactions tp"
  by (simp_all add: subPendingLocked_def addPendingLocked_def Let_def)

lemma queues_only [simp]:
  "transactions (removeItemLocked it tp) = transactions tp" "items (removeItemLocked it tp) = items tp"
  "maxTransactions (removeItemLocked it tp) = maxTransactions tp" "typePool (removeItemLocked it tp) = typePool tp"
  "bannedTransactions (removeItemLocked it tp) = bannedTransactions tp"
  "pendingBySender (removeItemLocked it tp) = pendingBySender tp"
  "transactions (push_item it tp) = transactions tp" "items (push_item it tp) = mput (it_value it) it (items tp)"
  "maxTransactions (push_item it tp) = maxTransactions tp" "typePool (push_item it tp) = typePool tp"
  "bannedTransactions (push_item it tp) = bannedTransactions tp"
  "pendingBySender (push_item it tp) = pendingBySender tp"
  by (simp_all add: removeItemLocked_def push_item_def)

text \<open>The invariant does not read the committed balances, the bans and the limit.\<close>

lemma pool_core_cong:
  assumes "priorityQueue tp' = priorityQueue tp" "minQueue tp' = minQueue tp" "transactions tp' = transactions tp"
    "items tp' = items tp" "typePool tp' = typePool tp"
  shows "pool_core tp' = pool_core tp"
  using assms by (simp add: pool_core_def)

text \<open>An entry taken out of the pool.\<close>

definition without :: "bytes \<Rightarrow> Item \<Rightarrow> TransactionPool \<Rightarrow> TransactionPool \<Rightarrow> bool" where
  "without h it tp tp' \<longleftrightarrow>
     priorityQueue tp' = remove_item pq_Less it (priorityQueue tp) \<and> minQueue tp' = remove_item min_Less it (minQueue tp) \<and>
     transactions tp' = mdel h (transactions tp) \<and> items tp' = mdel h (items tp) \<and>
     typePool tp' = typePool tp \<and> maxTransactions tp' = maxTransactions tp \<and> bannedTransactions tp' = bannedTransactions tp"

lemma without_core:
  assumes "without h it tp tp'" "pool_core tp" "map_of (items tp) h = Some it"
  shows "pool_core tp'" "Suc (length (transactions tp')) = length (transactions tp)"
proof -
  have "pool_core tp' = pool_core (removeItemLocked it tp\<lparr>pendingBySender := [], transactions := mdel h (transactions tp), items := mdel h (items tp)\<rparr>)"
    using assms(1) by (intro pool_core_cong) (simp_all add: without_def removeItemLocked_def)
  then show "pool_core tp'"
    using pool_core_remove [OF assms(2,3), of "[]"] by simp
  show "Suc (length (transactions tp')) = length (transactions tp)"
    using length_mdel [OF pool_coreD(3) [OF assms(2)], of h] assms(1,3) pool_coreD(9) [OF assms(2), of h]
    by (simp add: without_def)
qed

lemma without_wf:
  "without h it tp tp' \<Longrightarrow> wf_pool tp \<Longrightarrow> map_of (items tp) h = Some it \<Longrightarrow> wf_pool tp'"
  using without_core [of h it tp tp'] by (simp add: wf_pool_def without_def)

lemma without_over:
  "without h it tp tp' \<Longrightarrow> pool_core tp \<Longrightarrow> map_of (items tp) h = Some it \<Longrightarrow>
   length (transactions tp) \<le> Suc (maxTransactions tp) \<Longrightarrow> wf_pool tp'"
  using without_core [of h it tp tp'] by (simp add: wf_pool_def without_def)

lemma RemoveTransactionByHash_absent:
  "map_of (items tp) (GetHashFromBytes hash) = None \<Longrightarrow> RemoveTransactionByHash hash tp = tp"
  by (simp add: RemoveTransactionByHash_def)

lemma RemoveTransactionByHash_present:
  assumes "map_of (items tp) (GetHashFromBytes hash) = Some it"
  shows "without (GetHashFromBytes hash) it tp (RemoveTransactionByHash hash tp)"
  unfolding RemoveTransactionByHash_def Let_def assms option.case
  by (cases "map_of (transactions tp) (GetHashFromBytes hash)") (simp_all add: without_def removeItemLocked_def)

lemma PopTransactionByHash_present:
  assumes "map_of (items tp) (GetHashFromBytes hash) = Some it"
  shows "without (GetHashFromBytes hash) it tp (snd (PopTransactionByHash hash tp))"
  unfolding PopTransactionByHash_def Let_def assms option.case by (simp add: without_def removeItemLocked_def)

lemma RemoveTransactionByHash_wf: "wf_pool tp \<Longrightarrow> wf_pool (RemoveTransactionByHash hash tp)"
  by (cases "map_of (items tp) (GetHashFromBytes hash)")
    (auto simp: RemoveTransactionByHash_absent intro: without_wf [OF RemoveTransactionByHash_present])

lemma PopTransactionByHash_wf: "wf_pool tp \<Longrightarrow> wf_pool (snd (PopTransactionByHash hash tp))"
proof (cases "map_of (items tp) (GetHashFromBytes hash)")
  case None
  then show "wf_pool tp \<Longrightarrow> ?thesis"
    by (simp add: PopTransactionByHash_def)
next
  case (Some it)
  then show "wf_pool tp \<Longrightarrow> ?thesis"
    using without_wf [OF PopTransactionByHash_present [OF Some]] by simp
qed

lemma Ban_wf: "wf_pool (BanTransactionByHash h tp) = wf_pool tp" "wf_pool (BlockTransactionByHash h tp) = wf_pool tp"
  by (simp_all add: wf_pool_def BanTransactionByHash_def BlockTransactionByHash_def Let_def pool_core_def)

lemma Clear_wf: "wf_pool tp \<Longrightarrow> wf_pool (snd (Clear tp))"
  by (simp add: wf_pool_def pool_core_def Clear_def maxheap.queue_ok_empty minheap.queue_ok_empty)

lemma NewTransactionPool_wf: "t = 0 \<or> t = 1 \<or> t = 2 \<Longrightarrow> wf_pool (NewTransactionPool n t)"
  by (simp add: wf_pool_def pool_core_def NewTransactionPool_def maxheap.queue_ok_empty minheap.queue_ok_empty)


subsection \<open>Adding a transaction\<close>

definition banned :: "TransactionPool \<Rightarrow> bytes \<Rightarrow> bool" where
  "banned tp h \<longleftrightarrow> (case map_of (bannedTransactions tp) h of None \<Rightarrow> False | Some numBans \<Rightarrow> numBans > MaxNumberOfTxBans)"

text \<open>The pool after the new entry went in and before the limit is enforced.\<close>

definition with_new :: "Transaction \<Rightarrow> int64 \<Rightarrow> TransactionPool \<Rightarrow> TransactionPool" where
  "with_new tx pr tp = push_item (NewItem tx pr) (addPendingLocked tx (tp\<lparr>transactions := mput (tx_Hash tx) tx (transactions tp)\<rparr>))"

lemma item_priority_total:
  "typePool tp = 0 \<or> typePool tp = 1 \<or> typePool tp = 2 \<Longrightarrow> \<exists>pr. item_priority tp tx h = Some pr"
  by (auto simp: item_priority_def)

lemma item_priority_type: "typePool tp = typePool tp' \<Longrightarrow> item_priority tp tx h = item_priority tp' tx h"
  by (simp add: item_priority_def)

lemma AddTransaction_unfold:
  assumes "\<not> banned tp (tx_Hash tx)" "map_of (transactions tp) (tx_Hash tx) = None" "item_priority tp tx h = Some pr"
  shows "AddTransaction tx h tp = enforce_limit (NewItem tx pr) (with_new tx pr tp)"
proof -
  have "item_priority (addPendingLocked tx (tp\<lparr>transactions := mput (tx_Hash tx) tx (transactions tp)\<rparr>)) tx h = Some pr"
    using assms(3) by (subst item_priority_type [of _ tp]) simp_all
  then show ?thesis
    using assms(1,2) by (simp add: AddTransaction_def Let_def banned_def with_new_def)
qed

lemma with_new_core:
  assumes "pool_core tp" "map_of (transactions tp) (tx_Hash tx) = None"
  shows "pool_core (with_new tx pr tp)" "length (transactions (with_new tx pr tp)) = Suc (length (transactions tp))"
    "map_of (items (with_new tx pr tp)) (tx_Hash tx) = Some (NewItem tx pr)"
proof -
  let ?it = "NewItem tx pr"
  have v: "it_value ?it = tx_Hash tx" "it_Transaction ?it = tx"
    by (simp_all add: NewItem_def)
  have none: "map_of (items tp) (tx_Hash tx) = None"
    using assms(2) pool_coreD(9) [OF assms(1), of "tx_Hash tx"] by simp
  have "pool_core (push_item ?it tp\<lparr>transactions := mput (it_value ?it) (it_Transaction ?it) (transactions tp), pendingBySender := []\<rparr>)"
    by (rule pool_core_push [OF assms(1)]) (simp_all add: v none)
  moreover have "pool_core (with_new tx pr tp) = pool_core (push_item ?it tp\<lparr>transactions := mput (it_value ?it) (it_Transaction ?it) (transactions tp), pendingBySender := []\<rparr>)"
    by (rule pool_core_cong) (simp_all add: with_new_def push_item_def v)
  ultimately show "pool_core (with_new tx pr tp)"
    by simp
  show "length (transactions (with_new tx pr tp)) = Suc (length (transactions tp))"
    using assms(2) by (simp add: with_new_def mput_append map_of_eq_None_iff)
  show "map_of (items (with_new tx pr tp)) (tx_Hash tx) = Some ?it"
    by (simp add: with_new_def v)
qed

lemma enforce_limit_under:
  "pool_core tp \<Longrightarrow> length (transactions tp) \<le> maxTransactions tp \<Longrightarrow> enforce_limit it tp = (True, tp)"
  by (simp add: enforce_limit_def pool_lengths)

lemma enforce_limit_refuse:
  assumes "pool_core tp" "length (transactions tp) > maxTransactions tp" "typePool tp \<noteq> 0"
  shows "fst (enforce_limit it tp) = False" "without (it_value it) it tp (snd (enforce_limit it tp))"
  using assms by (simp_all add: enforce_limit_def pool_lengths Let_def without_def removeItemLocked_def)

lemma enforce_limit_evict:
  assumes "pool_core tp" "length (transactions tp) > maxTransactions tp" "typePool tp = 0"
  shows "fst (enforce_limit it tp) = True"
    "without (it_value (arr (minQueue tp) ! 0)) (arr (minQueue tp) ! 0) tp (snd (enforce_limit it tp))"
proof -
  let ?r = "arr (minQueue tp) ! 0"
  show "fst (enforce_limit it tp) = True"
    using assms by (simp add: enforce_limit_def pool_lengths Let_def)
  show "without (it_value ?r) ?r tp (snd (enforce_limit it tp))"
    using assms
    by (cases "map_of (transactions tp) (it_value ?r)")
      (simp_all add: enforce_limit_def pool_lengths Let_def without_def removeItemLocked_def)
qed

lemma minQueue_root:
  assumes "pool_core tp" "transactions tp \<noteq> []"
  shows "map_of (items tp) (it_value (arr (minQueue tp) ! 0)) = Some (arr (minQueue tp) ! 0)"
    "map_of (items tp) h = Some it \<Longrightarrow> sint (it_priority (arr (minQueue tp) ! 0)) \<le> sint (it_priority it)"
proof -
  have ne: "arr (minQueue tp) \<noteq> []"
    using pool_coreD(6) [OF assms(1)] pool_lengths(2) [OF assms(1)] assms(2) by (metis image_is_empty length_0_conv set_empty)
  then show "map_of (items tp) (it_value (arr (minQueue tp) ! 0)) = Some (arr (minQueue tp) ! 0)"
    using pool_coreD(6) [OF assms(1)] pool_item_mem [OF assms(1)] by (metis length_greater_0_conv nth_mem)
  assume "map_of (items tp) h = Some it"
  then have "it \<in> set (arr (minQueue tp))"
    using pool_coreD(6) [OF assms(1)] by (metis image_eqI map_of_SomeD snd_conv)
  from minheap.root_least [OF pool_coreD(2) [OF assms(1)] this]
  show "sint (it_priority (arr (minQueue tp) ! 0)) \<le> sint (it_priority it)"
    by (simp add: min_Less_def not_less)
qed

lemma enforce_limit_wf:
  assumes "pool_core tp" "map_of (items tp) (it_value it) = Some it" "length (transactions tp) \<le> Suc (maxTransactions tp)"
  shows "wf_pool (snd (enforce_limit it tp))"
proof (cases "length (transactions tp) \<le> maxTransactions tp")
  case True
  then show ?thesis
    using assms(1) by (simp add: enforce_limit_under wf_pool_def)
next
  case False
  show ?thesis
  proof (cases "typePool tp = 0")
    case True
    have ne: "transactions tp \<noteq> []"
      using False by auto
    show ?thesis
      by (rule without_over [OF enforce_limit_evict(2) assms(1) minQueue_root(1) [OF assms(1) ne] assms(3)])
        (use False True assms(1) in auto)
  next
    case nz: False
    show ?thesis
      by (rule without_over [OF enforce_limit_refuse(2) assms(1,2,3)]) (use False nz assms(1) in auto)
  qed
qed

lemma AddTransaction_banned:
  "banned tp (tx_Hash tx) \<Longrightarrow> AddTransaction tx h tp = (False, BanTransactionByHash (tx_Hash tx) tp)"
  by (simp add: AddTransaction_def banned_def)

lemma AddTransaction_present:
  "\<not> banned tp (tx_Hash tx) \<Longrightarrow> map_of (transactions tp) (tx_Hash tx) = Some t \<Longrightarrow> AddTransaction tx h tp = (True, tp)"
  by (simp add: AddTransaction_def banned_def Let_def)

lemma AddTransaction_wf:
  assumes "wf_pool tp"
  shows "wf_pool (snd (AddTransaction tx h tp))"
proof -
  have core: "pool_core tp" and len: "length (transactions tp) \<le> maxTransactions tp"
    using assms by (simp_all add: wf_pool_def)
  consider "banned tp (tx_Hash tx)" | t where "\<not> banned tp (tx_Hash tx)" "map_of (transactions tp) (tx_Hash tx) = Some t"
    | pr where "\<not> banned tp (tx_Hash tx)" "map_of (transactions tp) (tx_Hash tx) = None" "item_priority tp tx h = Some pr"
    using item_priority_total [OF pool_coreD(10) [OF core], of tx h] by (cases "map_of (transactions tp) (tx_Hash tx)") auto
  then show ?thesis
  proof cases
    case 1
    then show ?thesis
      using assms by (simp add: AddTransaction_banned Ban_wf)
  next
    case 2
    then show ?thesis
      using assms by (simp add: AddTransaction_present)
  next
    case 3
    note new = with_new_core [OF core 3(2), of pr]
    have "it_value (NewItem tx pr) = tx_Hash tx" "maxTransactions (with_new tx pr tp) = maxTransactions tp"
      by (simp_all add: NewItem_def with_new_def)
    then show ?thesis
      unfolding AddTransaction_unfold [OF 3]
      using enforce_limit_wf [OF new(1), of "NewItem tx pr"] new(2,3) len by simp
  qed
qed


subsection \<open>Committed balances\<close>

definition committed :: "bytes \<Rightarrow> (bytes, Transaction) gomap \<Rightarrow> int" where
  "committed k = msum (\<lambda>tx. if addr_ByteValue (GetSenderAddress tx) = k then sint (txSpend tx) else 0)"

text \<open>No pooled transaction commits a negative amount, and the counter of every sender is the sum of
  what its transactions commit.\<close>

definition pending_ok :: "TransactionPool \<Rightarrow> bool" where
  "pending_ok tp \<longleftrightarrow>
     (\<forall>h tx. map_of (transactions tp) h = Some tx \<longrightarrow> 0 \<le> sint (txSpend tx)) \<and>
     (\<forall>k. sint (PendingSpend tp k) = committed k (transactions tp))"

lemma PendingSpend_add:
  "PendingSpend (addPendingLocked tx tp) k =
     PendingSpend tp k + (if k = addr_ByteValue (GetSenderAddress tx) then txSpend tx else 0)"
  by (simp add: PendingSpend_def addPendingLocked_def Let_def)

lemma mget_mdel [simp]: "mget z (mdel k m) k' = (if k' = k then z else mget z m k')"
  by (simp add: mget_def map_of_mdel)

lemma PendingSpend_sub:
  "PendingSpend (subPendingLocked tx tp) k =
     (if k = addr_ByteValue (GetSenderAddress tx)
      then let v = PendingSpend tp k - txSpend tx in if sint v \<le> 0 then 0 else v
      else PendingSpend tp k)"
  by (auto simp: PendingSpend_def subPendingLocked_def Let_def)

lemma msum_mdel:
  fixes f :: "'v \<Rightarrow> 'a::ab_group_add"
  shows "wf_map m \<Longrightarrow> map_of m h = Some v \<Longrightarrow> msum f (mdel h m) = msum f m - f v"
proof (induction m)
  case (Cons kv m)
  show ?case
  proof (cases "fst kv = h")
    case True
    then have "mdel h m = m"
      using Cons.prems(1) by (simp add: delete_id)
    then show ?thesis
      using True Cons.prems(2) by (cases kv) (simp add: algebra_simps)
  next
    case False
    then show ?thesis
      using Cons by (cases kv) (auto simp: algebra_simps)
  qed
qed simp

lemma committed_nonneg:
  assumes "\<forall>tx \<in> snd ` set m. 0 \<le> sint (txSpend tx)"
  shows "0 \<le> committed k m"
  using assms unfolding committed_def by (induction m) (auto simp: add_nonneg_nonneg)

lemma committed_mem:
  assumes "wf_map m" "map_of m h = Some tx" "\<forall>tx \<in> snd ` set m. 0 \<le> sint (txSpend tx)"
    "addr_ByteValue (GetSenderAddress tx) = k"
  shows "sint (txSpend tx) \<le> committed k m"
proof -
  have "committed k (mdel h m) = committed k m - sint (txSpend tx)"
    using assms(4) unfolding committed_def msum_mdel [OF assms(1,2)] by simp
  moreover have "0 \<le> committed k (mdel h m)"
    by (rule committed_nonneg) (use assms(3) in \<open>auto simp: AList.delete_eq\<close>)
  ultimately show ?thesis by simp
qed

text \<open>Adding to and subtracting from the counters is exact as long as nothing overflows.\<close>

lemma pending_ok_add:
  assumes "pending_ok tp" "map_of (transactions tp) (tx_Hash tx) = None" "0 \<le> sint (txSpend tx)"
    "committed (addr_ByteValue (GetSenderAddress tx)) (transactions tp) + sint (txSpend tx) < 2 ^ 63"
  shows "pending_ok (with_new tx pr tp)"
proof -
  let ?s = "addr_ByteValue (GetSenderAddress tx)"
  have new: "tx_Hash tx \<notin> fst ` set (transactions tp)"
    using assms(2) by (simp add: map_of_eq_None_iff)
  have pend: "PendingSpend (with_new tx pr tp) k = PendingSpend tp k + (if k = ?s then txSpend tx else 0)" for k
    using PendingSpend_add [of tx "tp\<lparr>transactions := mput (tx_Hash tx) tx (transactions tp)\<rparr>" k]
    by (simp add: with_new_def PendingSpend_def)
  have comm: "committed k (transactions (with_new tx pr tp)) =
      committed k (transactions tp) + (if ?s = k then sint (txSpend tx) else 0)" for k
    using new by (simp add: with_new_def committed_def mput_append msum_def)
  have "sint (PendingSpend tp ?s + txSpend tx) = sint (PendingSpend tp ?s) + sint (txSpend tx)"
    using assms sint_range64 [of "PendingSpend tp ?s"] by (intro sint_add64) (auto simp: pending_ok_def)
  then show ?thesis
    using assms(1,3) unfolding pending_ok_def pend comm by (auto simp: with_new_def)
qed

lemma pending_ok_without:
  assumes "pending_ok tp" "pool_core tp" "without h it tp tp'" "map_of (transactions tp) h = Some tx"
    and pend: "\<And>k. PendingSpend tp' k = PendingSpend (subPendingLocked tx tp) k"
  shows "pending_ok tp'"
proof -
  let ?m = "transactions tp" and ?s = "addr_ByteValue (GetSenderAddress tx)"
  have wf: "wf_map ?m" and tr: "transactions tp' = mdel h ?m"
    using assms(2,3) by (simp_all add: pool_coreD without_def)
  have nn: "\<forall>tx \<in> snd ` set ?m. 0 \<le> sint (txSpend tx)"
    using assms(1) wf by (auto simp: pending_ok_def map_of_eq_Some_iff)
  have sum: "sint (PendingSpend tp k) = committed k ?m" for k
    using assms(1) by (simp add: pending_ok_def)
  have le: "sint (txSpend tx) \<le> committed ?s ?m" and ge: "0 \<le> sint (txSpend tx)"
    using committed_mem [OF wf assms(4) nn refl] assms(1,4) by (auto simp: pending_ok_def)
  have comm: "committed k (mdel h ?m) = committed k ?m - (if ?s = k then sint (txSpend tx) else 0)" for k
    unfolding committed_def msum_mdel [OF wf assms(4)] by simp
  have "sint (PendingSpend tp ?s - txSpend tx) = sint (PendingSpend tp ?s) - sint (txSpend tx)"
    using le ge sum [of ?s] sint_range64 [of "PendingSpend tp ?s"] by (intro sint_diff64) auto
  then have "sint (PendingSpend tp' k) = committed k (mdel h ?m)" for k
    using le sum unfolding pend comm PendingSpend_sub by (auto simp: Let_def)
  then show ?thesis
    using assms(1) unfolding pending_ok_def tr by (auto simp: map_of_mdel)
qed


lemma Remove_pending_ok:
  assumes "wf_pool tp" "pending_ok tp"
  shows "pending_ok (RemoveTransactionByHash hash tp)"
proof (cases "map_of (items tp) (GetHashFromBytes hash)")
  case None
  then show ?thesis
    using assms(2) by (simp add: RemoveTransactionByHash_absent)
next
  case (Some it)
  have core: "pool_core tp"
    using assms(1) by (simp add: wf_pool_def)
  have tx: "map_of (transactions tp) (GetHashFromBytes hash) = Some (it_Transaction it)"
    using pool_coreD(9) [OF core] Some by simp
  show ?thesis
    by (rule pending_ok_without [OF assms(2) core RemoveTransactionByHash_present [OF Some] tx])
      (use Some tx in \<open>simp add: RemoveTransactionByHash_def Let_def PendingSpend_def subPendingLocked_def\<close>)
qed

lemma enforce_limit_pending_ok:
  assumes "pool_core tp" "pending_ok tp" "map_of (items tp) (it_value it) = Some it"
  shows "pending_ok (snd (enforce_limit it tp))"
proof (cases "length (transactions tp) \<le> maxTransactions tp")
  case True
  then show ?thesis
    using assms by (simp add: enforce_limit_under)
next
  case False
  then have full: "maxTransactions tp < length (transactions tp)" "transactions tp \<noteq> []"
    by auto
  show ?thesis
  proof (cases "typePool tp = 0")
    case True
    let ?r = "arr (minQueue tp) ! 0"
    have tx: "map_of (transactions tp) (it_value ?r) = Some (it_Transaction ?r)"
      using minQueue_root(1) [OF assms(1) full(2)] pool_coreD(9) [OF assms(1)] by simp
    show ?thesis
      by (rule pending_ok_without [OF assms(2,1) enforce_limit_evict(2) [OF assms(1) full(1) True] tx])
        (use True full tx assms(1) in \<open>simp add: enforce_limit_def pool_lengths Let_def PendingSpend_def subPendingLocked_def\<close>)
  next
    case nz: False
    have tx: "map_of (transactions tp) (it_value it) = Some (it_Transaction it)"
      using pool_coreD(9) [OF assms(1)] assms(3) by simp
    show ?thesis
      by (rule pending_ok_without [OF assms(2,1) enforce_limit_refuse(2) [OF assms(1) full(1) nz] tx])
        (use nz full assms(1) in \<open>simp add: enforce_limit_def pool_lengths Let_def PendingSpend_def subPendingLocked_def\<close>)
  qed
qed

lemma Add_pending_ok:
  assumes "wf_pool tp" "pending_ok tp" "0 \<le> sint (txSpend tx)"
    "committed (addr_ByteValue (GetSenderAddress tx)) (transactions tp) + sint (txSpend tx) < 2 ^ 63"
  shows "pending_ok (snd (AddTransaction tx h tp))"
proof -
  have core: "pool_core tp"
    using assms(1) by (simp add: wf_pool_def)
  obtain pr where pr: "item_priority tp tx h = Some pr"
    using item_priority_total [OF pool_coreD(10) [OF core]] by blast
  show ?thesis
  proof (cases "banned tp (tx_Hash tx)")
    case True
    then show ?thesis
      using assms(2) by (simp add: AddTransaction_banned pending_ok_def PendingSpend_def BanTransactionByHash_def Let_def)
  next
    case nb: False
    show ?thesis
    proof (cases "map_of (transactions tp) (tx_Hash tx)")
      case None
      note new = with_new_core [OF core None, of pr]
      show ?thesis
        unfolding AddTransaction_unfold [OF nb None pr]
        by (rule enforce_limit_pending_ok [OF new(1) pending_ok_add [OF assms(2) None assms(3,4)]])
          (use new(3) in \<open>simp add: NewItem_def\<close>)
    next
      case (Some t)
      then show ?thesis
        using nb assms(2) by (simp add: AddTransaction_present)
    qed
  qed
qed


subsection \<open>What a pool keeps\<close>

lemma without_transactions: "without h it tp tp' \<Longrightarrow> map_of (transactions tp') = (map_of (transactions tp))(h := None)"
  by (simp add: without_def map_of_mdel)

lemma with_new_transactions: "map_of (transactions (with_new tx pr tp)) = (map_of (transactions tp))(tx_Hash tx \<mapsto> tx)"
  by (simp add: with_new_def)

lemma with_new_fields [simp]:
  "typePool (with_new tx pr tp) = typePool tp" "maxTransactions (with_new tx pr tp) = maxTransactions tp"
  "bannedTransactions (with_new tx pr tp) = bannedTransactions tp"
  "items (with_new tx pr tp) = mput (tx_Hash tx) (NewItem tx pr) (items tp)"
  by (simp_all add: with_new_def NewItem_def)

lemma AddTransaction_room:
  assumes "wf_pool tp" "\<not> banned tp (tx_Hash tx)" "map_of (transactions tp) (tx_Hash tx) = None"
    "length (transactions tp) < maxTransactions tp" "item_priority tp tx h = Some pr"
  shows "AddTransaction tx h tp = (True, with_new tx pr tp)"
proof -
  note new = with_new_core [OF _ assms(3), of pr]
  show ?thesis
    unfolding AddTransaction_unfold [OF assms(2,3,5)]
    using enforce_limit_under [OF new(1)] new(2) assms(1,4) by (simp add: wf_pool_def)
qed

text \<open>A full settlement pool refuses the newcomer and is left as it was.\<close>

lemma AddTransaction_refused:
  assumes "wf_pool tp" "typePool tp \<noteq> 0" "\<not> banned tp (tx_Hash tx)" "map_of (transactions tp) (tx_Hash tx) = None"
    "length (transactions tp) = maxTransactions tp"
  shows "fst (AddTransaction tx h tp) = False"
    "map_of (transactions (snd (AddTransaction tx h tp))) = map_of (transactions tp)"
proof -
  have core: "pool_core tp"
    using assms(1) by (simp add: wf_pool_def)
  obtain pr where pr: "item_priority tp tx h = Some pr"
    using item_priority_total [OF pool_coreD(10) [OF core]] by blast
  note new = with_new_core [OF core assms(4), of pr]
  have full: "length (transactions (with_new tx pr tp)) > maxTransactions (with_new tx pr tp)" "typePool (with_new tx pr tp) \<noteq> 0"
    using new(2) assms(2,5) by simp_all
  note r = enforce_limit_refuse [OF new(1) full, of "NewItem tx pr"]
  show "fst (AddTransaction tx h tp) = False"
    unfolding AddTransaction_unfold [OF assms(3,4) pr] by (rule r(1))
  have "it_value (NewItem tx pr) = tx_Hash tx"
    by (simp add: NewItem_def)
  then show "map_of (transactions (snd (AddTransaction tx h tp))) = map_of (transactions tp)"
    unfolding AddTransaction_unfold [OF assms(3,4) pr] without_transactions [OF r(2)] with_new_transactions
    using assms(4) by auto
qed

text \<open>A full main pool takes the newcomer and gives up an entry of least priority.\<close>

lemma AddTransaction_evicts:
  assumes "wf_pool tp" "typePool tp = 0" "\<not> banned tp (tx_Hash tx)" "map_of (transactions tp) (tx_Hash tx) = None"
    "length (transactions tp) = maxTransactions tp"
  defines "all \<equiv> (map_of (items tp))(tx_Hash tx \<mapsto> NewItem tx (GasPrice tx))"
  shows "fst (AddTransaction tx h tp) = True \<and>
    (\<exists>g ev. all g = Some ev \<and> (\<forall>k it. all k = Some it \<longrightarrow> sint (it_priority ev) \<le> sint (it_priority it)) \<and>
       map_of (items (snd (AddTransaction tx h tp))) = all(g := None) \<and>
       map_of (transactions (snd (AddTransaction tx h tp))) = ((map_of (transactions tp))(tx_Hash tx \<mapsto> tx))(g := None))"
proof -
  have core: "pool_core tp"
    using assms(1) by (simp add: wf_pool_def)
  define pr where "pr = GasPrice tx"
  have prio: "item_priority tp tx h = Some pr"
    using assms(2) by (simp add: item_priority_def pr_def)
  define tp1 where "tp1 = with_new tx pr tp"
  note new = with_new_core [OF core assms(4), of pr, folded tp1_def]
  have full: "length (transactions tp1) > maxTransactions tp1" "typePool tp1 = 0" "transactions tp1 \<noteq> []"
    using new(2) assms(2,5) by (auto simp: tp1_def)
  define ev where "ev = arr (minQueue tp1) ! 0"
  note r = enforce_limit_evict [OF new(1) full(1,2), of "NewItem tx pr", folded ev_def]
  note root = minQueue_root [OF new(1) full(3), folded ev_def]
  have add: "AddTransaction tx h tp = enforce_limit (NewItem tx pr) tp1"
    unfolding tp1_def by (rule AddTransaction_unfold [OF assms(3,4) prio])
  have all: "map_of (items tp1) = all"
    by (simp add: tp1_def all_def pr_def)
  have "map_of (items (snd (AddTransaction tx h tp))) = all(it_value ev := None)"
    using r(2) by (simp add: add without_def map_of_mdel all)
  moreover have "map_of (transactions (snd (AddTransaction tx h tp))) =
      ((map_of (transactions tp))(tx_Hash tx \<mapsto> tx))(it_value ev := None)"
    unfolding add without_transactions [OF r(2)] by (simp add: tp1_def with_new_transactions)
  ultimately show ?thesis
    using r(1) root all by (auto simp: add intro!: exI [of _ "it_value ev"] exI [of _ ev])
qed

text \<open>Bans are never lifted.\<close>

lemma BanTransactionByHash_banned:
  "banned (BanTransactionByHash hash tp) h \<longleftrightarrow>
     banned tp h \<or> (h = GetHashFromBytes hash \<and> mget 0 (bannedTransactions tp) h \<ge> MaxNumberOfTxBans)"
  by (auto simp: banned_def BanTransactionByHash_def Let_def mget_def split: option.splits)

lemma Block_banned: "banned (BlockTransactionByHash hash tp) h \<longleftrightarrow> banned tp h \<or> h = GetHashFromBytes hash"
  by (auto simp: banned_def BlockTransactionByHash_def)

lemma banned_cong: "bannedTransactions tp' = bannedTransactions tp \<Longrightarrow> banned tp' h = banned tp h"
  by (simp add: banned_def)

lemma enforce_limit_banned: "bannedTransactions (snd (enforce_limit it tp)) = bannedTransactions tp"
  by (simp add: enforce_limit_def Let_def split: option.split)

lemma AddTransaction_bans:
  "banned tp h \<Longrightarrow> banned (snd (AddTransaction tx h2 tp)) h"
proof -
  assume b: "banned tp h"
  show ?thesis
  proof (cases "banned tp (tx_Hash tx)")
    case True
    then show ?thesis
      using b by (simp add: AddTransaction_banned BanTransactionByHash_banned)
  next
    case nb: False
    show ?thesis
    proof (cases "map_of (transactions tp) (tx_Hash tx)")
      case None
      have "bannedTransactions (snd (AddTransaction tx h2 tp)) = bannedTransactions tp"
        using nb None by (simp add: AddTransaction_def Let_def banned_def enforce_limit_banned split: option.split)
      then show ?thesis
        using b banned_cong by metis
    next
      case (Some t)
      then show ?thesis
        using nb b by (simp add: AddTransaction_present)
    qed
  qed
qed

lemma Remove_bans: "bannedTransactions (RemoveTransactionByHash hash tp) = bannedTransactions tp"
  by (simp add: RemoveTransactionByHash_def Let_def split: option.split)

lemma Pop_bans: "bannedTransactions (snd (PopTransactionByHash hash tp)) = bannedTransactions tp"
  by (simp add: PopTransactionByHash_def Let_def split: option.split)


subsection \<open>Best-paying first\<close>

lemma sort_key_unique:
  assumes "distinct xs" "distinct ys" "set xs = set ys" "inj_on f (set xs)"
  shows "sort_key f xs = sort_key f ys"
proof -
  have inj: "inj_on f (set ys)"
    using assms(3,4) by simp
  have "map f (sort_key f xs) = map f (sort_key f ys)"
  proof (rule sorted_distinct_set_unique)
    show "distinct (map f (sort_key f xs))" "distinct (map f (sort_key f ys))"
      using assms(1,2,4) inj by (simp_all add: distinct_map)
    show "set (map f (sort_key f xs)) = set (map f (sort_key f ys))"
      using assms(3) by simp
  qed simp_all
  moreover have "inj_on f (set (sort_key f xs) \<union> set (sort_key f ys))"
    using assms(3,4) by simp
  ultimately show ?thesis
    by (rule map_inj_on)
qed

lemma peek_key_inj:
  assumes "pool_core tp"
  shows "inj_on peek_key (set (arr (priorityQueue tp)))"
proof (rule inj_onI)
  fix x y
  assume "x \<in> set (arr (priorityQueue tp))" "y \<in> set (arr (priorityQueue tp))"
  then have m: "map_of (items tp) (it_value x) = Some x" "map_of (items tp) (it_value y) = Some y"
    unfolding pool_coreD(5) [OF assms] pool_item_mem [OF assms] .
  assume "peek_key x = peek_key y"
  then have "it_value x = it_value y"
    by (simp add: peek_key_def)
  then show "x = y"
    using m by (metis option.inject)
qed

lemma PeekTransactions_main:
  assumes "wf_pool tp" "typePool tp = 0"
  shows "PeekTransactions tp n h = map it_Transaction (take n (sort_key peek_key (arr (priorityQueue tp))))"
proof -
  have core: "pool_core tp"
    using assms(1) by (simp add: wf_pool_def)
  let ?S = "sort_key peek_key (arr (priorityQueue tp))"
  have len: "length ?S = length (transactions tp)"
    using pool_lengths(1) [OF core] by simp
  have tx: "map_of (transactions tp) (it_value it) = Some (it_Transaction it)" if "it \<in> set ?S" for it
    using that pool_coreD(9) [OF core, of "it_value it"] pool_item_mem [OF core, of it] pool_coreD(5) [OF core]
    by simp
  have "concat (map (\<lambda>it. case map_of (transactions tp) (it_value it) of Some tx \<Rightarrow> [tx] | None \<Rightarrow> []) xs) = map it_Transaction xs"
    if "set xs \<subseteq> set ?S" for xs
    using that tx by (induction xs) auto
  from this [OF set_take_subset, of n] this [OF set_take_subset, of "length (transactions tp)"]
  show ?thesis
    using assms(2) len by (auto simp: PeekTransactions_def Let_def)
qed

lemma items_set:
  assumes "pool_core tp"
  shows "set (arr (priorityQueue tp)) = ran (map_of (items tp))"
  using pool_coreD(4,5) [OF assms] by (simp add: ran_distinct)

lemma take_sorted_best:
  assumes "sorted (map f xs)" "x \<in> set (take n xs)" "y \<in> set xs - set (take n xs)"
  shows "f x \<le> f y"
proof -
  have "y \<in> set (drop n xs)"
    using assms(3) by (metis Diff_iff UnE append_take_drop_id set_append)
  moreover have "sorted (map f (take n xs @ drop n xs))"
    using assms(1) by simp
  ultimately show ?thesis
    using assms(2) unfolding map_append sorted_append by auto
qed

lemma enforce_limit_max: "maxTransactions (snd (enforce_limit it tp)) = maxTransactions tp"
  by (cases "map_of (transactions tp) (it_value (arr (minQueue tp) ! 0))") (simp_all add: enforce_limit_def Let_def)

lemma AddTransaction_max: "maxTransactions (snd (AddTransaction tx h tp)) = maxTransactions tp"
proof -
  let ?tp = "addPendingLocked tx (tp\<lparr>transactions := mput (tx_Hash tx) tx (transactions tp)\<rparr>)"
  show ?thesis
    by (cases "map_of (transactions tp) (tx_Hash tx)"; cases "item_priority ?tp tx h")
      (simp_all add: AddTransaction_def Let_def enforce_limit_max BanTransactionByHash_def)
qed

lemma AddTransaction_keeps:
  assumes "wf_pool tp" "typePool tp \<noteq> 0" "map_of (transactions tp) k = Some t"
  shows "map_of (transactions (snd (AddTransaction tx h tp))) k = Some t"
proof (cases "banned tp (tx_Hash tx)")
  case True
  then show ?thesis
    using assms(3) by (simp add: AddTransaction_banned BanTransactionByHash_def Let_def)
next
  case nb: False
  have core: "pool_core tp" and len: "length (transactions tp) \<le> maxTransactions tp"
    using assms(1) by (simp_all add: wf_pool_def)
  obtain pr where pr: "item_priority tp tx h = Some pr"
    using item_priority_total [OF pool_coreD(10) [OF core]] by blast
  show ?thesis
  proof (cases "map_of (transactions tp) (tx_Hash tx)")
    case (Some t')
    then show ?thesis
      using nb assms(3) by (simp add: AddTransaction_present)
  next
    case None
    then have ne: "k \<noteq> tx_Hash tx"
      using assms(3) by auto
    show ?thesis
    proof (cases "length (transactions tp) = maxTransactions tp")
      case True
      then show ?thesis
        using AddTransaction_refused(2) [OF assms(1,2) nb None] assms(3) by simp
    next
      case False
      then show ?thesis
        using AddTransaction_room [OF assms(1) nb None _ pr] len assms(3) ne by (simp add: with_new_transactions)
    qed
  qed
qed

subsection \<open>Properties of the pools\<close>

text \<open>C31: Every operation of a pool keeps its invariant: both heaps are heaps over exactly the entries of
  the two maps, every item knows its position, and there are never more entries than the limit.\<close>

theorem pool_invariant:
  assumes "wf_pool tp"
  shows "wf_pool (snd (AddTransaction tx h2 tp)) \<and> wf_pool (RemoveTransactionByHash hash tp) \<and>
    wf_pool (snd (PopTransactionByHash hash tp)) \<and> wf_pool (BanTransactionByHash hash tp) \<and>
    wf_pool (BlockTransactionByHash hash tp) \<and> wf_pool (snd (Clear tp)) \<and>
    NumberOfTransactions (snd (AddTransaction tx h2 tp)) \<le> maxTransactions tp"
proof -
  have "maxTransactions (snd (AddTransaction tx h2 tp)) = maxTransactions tp"
    by (rule AddTransaction_max)
  then show ?thesis
    using AddTransaction_wf [OF assms, of tx h2] assms
    by (simp add: RemoveTransactionByHash_wf PopTransactionByHash_wf Ban_wf Clear_wf) (simp add: NumberOfTransactions_def wf_pool_def)
qed

theorem pool_invariant_witness:
  "wf_pool (snd (AddTransaction sample_tx (tx_Hash sample_tx) (NewTransactionPool 1 0)))"
  using pool_invariant [OF NewTransactionPool_wf [of 0 1], of sample_tx "tx_Hash sample_tx"] by simp

text \<open>C32: A full main pool never gives up a better-paying transaction for a cheaper one: the newcomer is
  admitted and exactly one entry leaves, one whose gas price is least among all entries including
  the newcomer.\<close>

theorem eviction_takes_the_cheapest:
  assumes "wf_pool tp" "typePool tp = 0" "\<not> banned tp (tx_Hash tx)" "map_of (transactions tp) (tx_Hash tx) = None"
    "NumberOfTransactions tp = maxTransactions tp"
  shows "fst (AddTransaction tx h tp) = True \<and>
    (\<exists>g ev. ((map_of (items tp))(tx_Hash tx \<mapsto> NewItem tx (GasPrice tx))) g = Some ev \<and>
       (\<forall>k it. ((map_of (items tp))(tx_Hash tx \<mapsto> NewItem tx (GasPrice tx))) k = Some it \<longrightarrow> sint (it_priority ev) \<le> sint (it_priority it)) \<and>
       map_of (transactions (snd (AddTransaction tx h tp))) = ((map_of (transactions tp))(tx_Hash tx \<mapsto> tx))(g := None))"
  using AddTransaction_evicts [OF assms(1-4), of h] assms(5) unfolding NumberOfTransactions_def by blast

lemma sample_pool:
  assumes "0 < n"
  shows "snd (AddTransaction sample_tx [] (NewTransactionPool n 0)) = with_new sample_tx 10 (NewTransactionPool n 0)"
proof -
  have "wf_pool (NewTransactionPool n 0)"
    by (rule NewTransactionPool_wf) simp
  from AddTransaction_room [OF this] show ?thesis
    using assms by (simp add: NewTransactionPool_def banned_def item_priority_def sample_tx_def)
qed

theorem eviction_takes_the_cheapest_witness:
  "let tp = snd (AddTransaction sample_tx [] (NewTransactionPool 1 0));
       other = sample_tx\<lparr>tx_Hash := replicate 32 8, GasPrice := 20\<rparr>
   in map_of (transactions (snd (AddTransaction other [] tp))) = [tx_Hash other \<mapsto> other]"
proof -
  let ?other = "sample_tx\<lparr>tx_Hash := replicate 32 8, GasPrice := 20\<rparr>"
  define tp where "tp = snd (AddTransaction sample_tx [] (NewTransactionPool 1 0))"
  have one: "tp = with_new sample_tx 10 (NewTransactionPool 1 0)"
    unfolding tp_def by (rule sample_pool) simp
  have wf: "wf_pool tp"
    unfolding tp_def by (rule AddTransaction_wf, rule NewTransactionPool_wf) simp
  have tp: "typePool tp = 0" "\<not> banned tp (tx_Hash ?other)" "map_of (transactions tp) (tx_Hash ?other) = None"
      "NumberOfTransactions tp = maxTransactions tp" "map_of (items tp) = [tx_Hash sample_tx \<mapsto> NewItem sample_tx 10]"
      "map_of (transactions tp) = [tx_Hash sample_tx \<mapsto> sample_tx]"
    by (simp_all add: one with_new_def push_item_def addPendingLocked_def Let_def NewTransactionPool_def NewItem_def banned_def
      NumberOfTransactions_def sample_tx_def)
  obtain g ev where g: "([tx_Hash sample_tx \<mapsto> NewItem sample_tx 10](tx_Hash ?other \<mapsto> NewItem ?other 20)) g = Some ev"
      "\<forall>k it. ([tx_Hash sample_tx \<mapsto> NewItem sample_tx 10](tx_Hash ?other \<mapsto> NewItem ?other 20)) k = Some it \<longrightarrow> sint (it_priority ev) \<le> sint (it_priority it)"
      "map_of (transactions (snd (AddTransaction ?other [] tp))) = ([tx_Hash sample_tx \<mapsto> sample_tx](tx_Hash ?other \<mapsto> ?other))(g := None)"
    using eviction_takes_the_cheapest [OF wf tp(1-4), of "[]"] unfolding tp(5,6) by auto
  have "g = tx_Hash sample_tx"
    using g(1) g(2) [rule_format, of "tx_Hash sample_tx" "NewItem sample_tx 10"]
    by (auto simp: NewItem_def sample_tx_def split: if_splits)
  then show ?thesis
    unfolding tp_def [symmetric] Let_def g(3) by (auto simp: sample_tx_def)
qed

text \<open>C33: The escrow and multi-signature pools never lose a pending settlement to the size limit: adding a
  transaction keeps every entry that was there, and a full pool refuses the newcomer.\<close>

theorem settlement_pool_keeps_entries:
  assumes "wf_pool tp" "typePool tp \<noteq> 0" "map_of (transactions tp) k = Some t"
  shows "map_of (transactions (snd (AddTransaction tx h tp))) k = Some t \<and>
    (NumberOfTransactions tp = maxTransactions tp \<and> map_of (transactions tp) (tx_Hash tx) = None \<longrightarrow>
       fst (AddTransaction tx h tp) = False)"
proof (intro conjI impI)
  show "fst (AddTransaction tx h tp) = False"
    if "NumberOfTransactions tp = maxTransactions tp \<and> map_of (transactions tp) (tx_Hash tx) = None"
    using that AddTransaction_refused(1) [OF assms(1,2), of tx h]
    by (cases "banned tp (tx_Hash tx)") (simp_all add: NumberOfTransactions_def AddTransaction_banned)
qed (rule AddTransaction_keeps [OF assms])

theorem settlement_pool_keeps_entries_witness:
  "let tp = snd (AddTransaction sample_tx (tx_Hash sample_tx) (NewTransactionPool 1 1));
       other = sample_tx\<lparr>tx_Hash := replicate 32 8\<rparr>
   in map_of (transactions (snd (AddTransaction other (tx_Hash other) tp))) (tx_Hash sample_tx) = Some sample_tx \<and>
      fst (AddTransaction other (tx_Hash other) tp) = False"
proof -
  let ?tp0 = "NewTransactionPool 1 1" and ?other = "sample_tx\<lparr>tx_Hash := replicate 32 8\<rparr>"
  have z: "wf_pool ?tp0" "typePool ?tp0 = 1" "maxTransactions ?tp0 = 1" "transactions ?tp0 = []" "\<not> banned ?tp0 (tx_Hash sample_tx)"
    by (simp_all add: NewTransactionPool_wf) (simp_all add: NewTransactionPool_def banned_def)
  obtain pr where pr: "item_priority ?tp0 sample_tx (tx_Hash sample_tx) = Some pr"
    using z(2) by (simp add: item_priority_def)
  have add: "AddTransaction sample_tx (tx_Hash sample_tx) ?tp0 = (True, with_new sample_tx pr ?tp0)"
    using z pr by (intro AddTransaction_room) simp_all
  define tp where "tp = with_new sample_tx pr ?tp0"
  have tp: "wf_pool tp" "typePool tp \<noteq> 0" "transactions tp = [(tx_Hash sample_tx, sample_tx)]" "maxTransactions tp = 1"
    using AddTransaction_wf [OF z(1), of sample_tx "tx_Hash sample_tx"] add z by (simp_all add: tp_def) (simp_all add: with_new_def z)
  have ne: "tx_Hash ?other \<noteq> tx_Hash sample_tx"
    by (simp add: sample_tx_def)
  show ?thesis
    using settlement_pool_keeps_entries [OF tp(1,2), of "tx_Hash sample_tx" sample_tx ?other "tx_Hash ?other"] tp(3,4) ne
    unfolding add Let_def snd_conv tp_def [symmetric] by (simp add: NumberOfTransactions_def)
qed

text \<open>A ban is final: once a hash is banned, no operation of the pool lifts the ban, and adding the
  transaction is refused and leaves the pooled transactions as they are; \<open>BlockTransactionByHash\<close> bans
  at once.\<close>

theorem bans_are_final:
  assumes "banned tp k"
  shows "banned (snd (AddTransaction tx h tp)) k \<and> banned (RemoveTransactionByHash hash tp) k \<and>
    banned (snd (PopTransactionByHash hash tp)) k \<and> banned (BanTransactionByHash hash tp) k \<and>
    banned (BlockTransactionByHash hash tp) k \<and> banned (snd (Clear tp)) k \<and>
    banned (BlockTransactionByHash hash tp) (GetHashFromBytes hash) \<and>
    (tx_Hash tx = k \<longrightarrow> fst (AddTransaction tx h tp) = False \<and> transactions (snd (AddTransaction tx h tp)) = transactions tp)"
  using assms AddTransaction_bans [OF assms] banned_cong [OF Remove_bans] banned_cong [OF Pop_bans]
  by (auto simp: BanTransactionByHash_banned Block_banned AddTransaction_banned)
    (auto simp: banned_def Clear_def BanTransactionByHash_def Let_def)

theorem bans_are_final_witness:
  "fst (AddTransaction sample_tx [] (BlockTransactionByHash (tx_Hash sample_tx) (NewTransactionPool 5 0))) = False"
proof -
  have "banned (BlockTransactionByHash (tx_Hash sample_tx) (NewTransactionPool 5 0)) (tx_Hash sample_tx)"
    by (simp add: Block_banned GetHashFromBytes_def EmptyHash_def Hash_Set_def sample_tx_def)
  from bans_are_final [OF this, of sample_tx "[]"] show ?thesis by simp
qed


text \<open>What the main pool offers for a block is canonical and best-paying first: two pools with the same
  entries offer the same list whatever the order they were added in, and no entry left out has a
  higher priority than one that is offered.\<close>

theorem peek_is_canonical:
  assumes "wf_pool tp" "wf_pool tp'" "typePool tp = 0" "typePool tp' = 0" "map_of (items tp) = map_of (items tp')"
  shows "PeekTransactions tp n h = PeekTransactions tp' n h' \<and>
    (\<exists>offered. PeekTransactions tp n h = map it_Transaction offered \<and> length offered = min n (NumberOfTransactions tp) \<and>
       (\<forall>a \<in> set offered. \<forall>b \<in> ran (map_of (items tp)) - set offered. sint (it_priority b) \<le> sint (it_priority a)))"
proof -
  have core: "pool_core tp" "pool_core tp'"
    using assms(1,2) by (simp_all add: wf_pool_def)
  let ?S = "sort_key peek_key (arr (priorityQueue tp))" and ?S' = "sort_key peek_key (arr (priorityQueue tp'))"
  have sets: "set (arr (priorityQueue tp)) = set (arr (priorityQueue tp'))"
    unfolding items_set [OF core(1)] items_set [OF core(2)] assms(5) ..
  have "?S = ?S'"
    using maxheap.queue_ok_distinct [OF pool_coreD(1) [OF core(1)]] maxheap.queue_ok_distinct [OF pool_coreD(1) [OF core(2)]]
      sets peek_key_inj [OF core(1)] by (rule sort_key_unique)
  moreover have "sint (it_priority b) \<le> sint (it_priority a)"
    if "a \<in> set (take n ?S)" "b \<in> ran (map_of (items tp)) - set (take n ?S)" for a b
  proof -
    have "peek_key a \<le> peek_key b"
      by (rule take_sorted_best [OF sorted_sort_key that(1)]) (use that(2) items_set [OF core(1)] in simp)
    then show ?thesis
      by (auto simp: peek_key_def less_eq_prod_def)
  qed
  moreover have "length (take n ?S) = min n (NumberOfTransactions tp)"
    using pool_lengths(1) [OF core(1)] by (simp add: NumberOfTransactions_def min.commute)
  ultimately show ?thesis
    using PeekTransactions_main [OF assms(1,3)] PeekTransactions_main [OF assms(2,4)] by metis
qed

theorem peek_is_canonical_witness:
  "PeekTransactions (snd (AddTransaction sample_tx [] (NewTransactionPool 5 0))) 3 0 =
   PeekTransactions (snd (AddTransaction sample_tx [] (NewTransactionPool 7 0))) 3 9"
proof -
  let ?p = "\<lambda>n. snd (AddTransaction sample_tx [] (NewTransactionPool n 0))"
  have wf: "wf_pool (?p n)" for n
    by (rule AddTransaction_wf, rule NewTransactionPool_wf) simp
  have "typePool (?p n) = 0" "map_of (items (?p n)) = [tx_Hash sample_tx \<mapsto> NewItem sample_tx 10]" if "0 < n" for n
    unfolding sample_pool [OF that] by (simp_all add: with_new_def push_item_def NewTransactionPool_def NewItem_def)
  then show ?thesis
    using peek_is_canonical [OF wf wf, of 5 7 3 0 9] by simp
qed


lemma empty_pending_ok: "pending_ok (NewTransactionPool n t)"
  by (simp add: pending_ok_def NewTransactionPool_def PendingSpend_def committed_def mget_def)

lemma sample_tx_spend: "sint (txSpend sample_tx) = 300042"
  by (simp add: txSpend_def sample_tx_def CalcFee_def Let_def go_div_def signed_divide_int_def zero_TxData_def)


text \<open>\<open>PopTransactionByHash\<close> does not give the committed amount back: after the only transaction of a
  sender is popped its counter stays where it was.\<close>

lemma pop_keeps_committed: "pendingBySender (snd (PopTransactionByHash hash tp)) = pendingBySender tp"
  by (simp add: PopTransactionByHash_def Let_def split: option.split)

end
