(* ===== verification/Pool_Store.thy ===== *)
theory Pool_Store
  imports TxPool
begin

text \<open>
  The pools together with the database: stored transactions (\<open>transactionsDefinition/transaction.go\<close>),
  the escrow and multi-signature pools and their mirrors (\<open>transactionsPool/escrowPersistence.go\<close>,
  \<open>multisigPersistence.go\<close>), the journal that lets a rewind revert what a block did to them
  (\<open>pendingJournal.go\<close>), the index of included transactions and the removal of bad ones
  (\<open>helper.go\<close>), and admission to the main pool (\<open>services/transactionServices/onmessage.go\<close>).

  The key-value store is the association list of what is stored. Where the source only logs a
  failed write the write is taken to succeed; \<open>admitToPool\<close>, which reacts to a failed write, has its
  outcome as an argument.
\<close>

subsection \<open>Stored transactions\<close>

abbreviation (input) TransactionDBPrefix :: bytes where "TransactionDBPrefix \<equiv> string_bytes ''TT''"
abbreviation (input) TransactionPoolHashesDBPrefix :: bytes where "TransactionPoolHashesDBPrefix \<equiv> string_bytes ''D0''"
abbreviation (input) BadTransactionDBPrefix :: bytes where "BadTransactionDBPrefix \<equiv> string_bytes ''BT''"
abbreviation (input) EscrowPoolDBPrefix :: bytes where "EscrowPoolDBPrefix \<equiv> string_bytes ''EP''"
abbreviation (input) MultiSignPoolDBPrefix :: bytes where "MultiSignPoolDBPrefix \<equiv> string_bytes ''MP''"
abbreviation (input) IncludedTxDBPrefix :: bytes where "IncludedTxDBPrefix \<equiv> string_bytes ''IX''"
abbreviation (input) PendingPoolJournalDBPrefix :: bytes where "PendingPoolJournalDBPrefix \<equiv> string_bytes ''EJ''"

definition StoreToDBPoolTx :: "bytes \<Rightarrow> Transaction \<Rightarrow> DB cmd" where
  "StoreToDBPoolTx prefix mt db =
    (let bt = Transaction_GetBytes mt in
     if length bt = 0 then (Some (Errorf ''transaction has no body. storing fails: StoreToDBPoolTx''), db)
     else (None, mput (prefix @ tx_Hash mt) bt db))"

definition RemoveTransactionFromDBbyHash :: "bytes \<Rightarrow> bytes \<Rightarrow> DB \<Rightarrow> DB" where
  "RemoveTransactionFromDBbyHash prefix hash db = mdel (prefix @ hash) db"

definition CheckFromDBPoolTx :: "DB \<Rightarrow> bytes \<Rightarrow> bytes \<Rightarrow> bool" where
  "CheckFromDBPoolTx db prefix hash \<longleftrightarrow> map_of db (prefix @ hash) \<noteq> None"

text \<open>The parameters of decoding and hashing: the scheme lengths and the two variants of BLAKE2b.\<close>

record Crypto =
  cr_enc :: EncryptionState
  cr_H160 :: "bytes \<Rightarrow> bytes"
  cr_H256 :: "bytes \<Rightarrow> bytes"

definition LoadFromDBPoolTx :: "Crypto \<Rightarrow> bytes \<Rightarrow> bytes \<Rightarrow> DB \<Rightarrow> Transaction res \<times> DB" where
  "LoadFromDBPoolTx cr prefix hash db =
    (let key = prefix @ hash in
     case map_of db key of
       None \<Rightarrow> (Inl (Errorf ''key not found''), db)
     | Some bt \<Rightarrow>
         if length bt = 0 then (Inl (Errorf ''in database transaction has no bytes stored''), mdel key db)
         else case Transaction_GetFromBytes (cr_enc cr) (cr_H160 cr) bt of
             Inl e \<Rightarrow> (Inl e, db)
           | Inr (at, restb) \<Rightarrow>
               if tx_Hash at \<noteq> hash \<or> \<not> HashMatchesBody (cr_H256 cr) at
               then (Inl (Errorf ''stored transaction body does not match its hash''),
                     if prefix = TransactionPoolHashesDBPrefix then mdel key db else db)
               else (Inr at, db))"

subsection \<open>The pools and their journal\<close>

record PoolState =
  PoolsTx :: TransactionPool
  PoolTxEscrow :: TransactionPool
  PoolTxMultiSign :: TransactionPool
  ps_DB :: DB
  journalHeight :: int64
  journalSeq :: int32
  journalPaused :: bool

datatype journalPool = journalEscrow | journalMultiSig
datatype journalKind = journalAdded | journalRemoved

definition pool_byte :: "journalPool \<Rightarrow> byte" where
  "pool_byte p = (case p of journalEscrow \<Rightarrow> 69 | journalMultiSig \<Rightarrow> 77)"

definition kind_byte :: "journalKind \<Rightarrow> byte" where
  "kind_byte k = (case k of journalAdded \<Rightarrow> 65 | journalRemoved \<Rightarrow> 82)"

definition pendingJournalPrefix :: "int64 \<Rightarrow> bytes" where
  "pendingJournalPrefix height = PendingPoolJournalDBPrefix @ put_be 8 height"

definition journalPendingChange :: "journalPool \<Rightarrow> journalKind \<Rightarrow> Transaction \<Rightarrow> PoolState \<Rightarrow> PoolState" where
  "journalPendingChange pool kind tx s =
    (if sint (journalHeight s) \<le> 0 \<or> journalPaused s then s
     else
       let key = pendingJournalPrefix (journalHeight s) @ put_be 4 (journalSeq s);
           v = pool_byte pool # kind_byte kind # Transaction_GetBytes tx
       in s\<lparr>journalSeq := journalSeq s + 1, ps_DB := mput key v (ps_DB s)\<rparr>)"

definition AddEscrowTransaction :: "Transaction \<Rightarrow> PoolState \<Rightarrow> bool \<times> PoolState" where
  "AddEscrowTransaction tx s =
    (let (ok, p) = AddTransaction tx (tx_Hash tx) (PoolTxEscrow s); s = s\<lparr>PoolTxEscrow := p\<rparr> in
     if ok then
       let s = journalPendingChange journalEscrow journalAdded tx s
       in (True, s\<lparr>ps_DB := snd (StoreToDBPoolTx EscrowPoolDBPrefix tx (ps_DB s))\<rparr>)
     else (False, s))"

definition RemoveEscrowTransaction :: "bytes \<Rightarrow> PoolState \<Rightarrow> PoolState" where
  "RemoveEscrowTransaction hash s =
    (let s = (case GetTransactionByHash (PoolTxEscrow s) hash of
                Some tx \<Rightarrow> journalPendingChange journalEscrow journalRemoved tx s | None \<Rightarrow> s);
         s = s\<lparr>PoolTxEscrow := RemoveTransactionByHash hash (PoolTxEscrow s)\<rparr>
     in s\<lparr>ps_DB := RemoveTransactionFromDBbyHash EscrowPoolDBPrefix hash (ps_DB s)\<rparr>)"

definition MultiSignPoolKeyFor :: "Transaction \<Rightarrow> bytes" where
  "MultiSignPoolKeyFor tx =
    (if MultiSignTx (tx_TxParam tx) = EmptyHash then tx_Hash tx else MultiSignTx (tx_TxParam tx))"

definition AddMultiSignTransaction :: "Transaction \<Rightarrow> PoolState \<Rightarrow> bool \<times> PoolState" where
  "AddMultiSignTransaction tx s =
    (let (ok, p) = AddTransaction tx (MultiSignPoolKeyFor tx) (PoolTxMultiSign s); s = s\<lparr>PoolTxMultiSign := p\<rparr> in
     if ok then
       let s = journalPendingChange journalMultiSig journalAdded tx s
       in (True, s\<lparr>ps_DB := snd (StoreToDBPoolTx MultiSignPoolDBPrefix tx (ps_DB s))\<rparr>)
     else (False, s))"

definition RemoveMultiSignTransaction :: "bytes \<Rightarrow> PoolState \<Rightarrow> PoolState" where
  "RemoveMultiSignTransaction hash s =
    (let s = (case GetTransactionByHash (PoolTxMultiSign s) hash of
                Some tx \<Rightarrow> journalPendingChange journalMultiSig journalRemoved tx s | None \<Rightarrow> s);
         s = s\<lparr>PoolTxMultiSign := RemoveTransactionByHash hash (PoolTxMultiSign s)\<rparr>
     in s\<lparr>ps_DB := RemoveTransactionFromDBbyHash MultiSignPoolDBPrefix hash (ps_DB s)\<rparr>)"

definition undoPendingChange :: "byte \<Rightarrow> byte \<Rightarrow> Transaction \<Rightarrow> PoolState \<Rightarrow> PoolState" where
  "undoPendingChange pool kind tx s =
    (if pool = pool_byte journalEscrow \<and> kind = kind_byte journalAdded then RemoveEscrowTransaction (tx_Hash tx) s
     else if pool = pool_byte journalEscrow \<and> kind = kind_byte journalRemoved then snd (AddEscrowTransaction tx s)
     else if pool = pool_byte journalMultiSig \<and> kind = kind_byte journalAdded then RemoveMultiSignTransaction (tx_Hash tx) s
     else if pool = pool_byte journalMultiSig \<and> kind = kind_byte journalRemoved then snd (AddMultiSignTransaction tx s)
     else s)"

definition undoJournalKey :: "Crypto \<Rightarrow> bytes \<Rightarrow> PoolState \<Rightarrow> PoolState" where
  "undoJournalKey cr k s =
    (let s = (case map_of (ps_DB s) k of
                Some v \<Rightarrow>
                  if length v > 2 then
                    case Transaction_GetFromBytes (cr_enc cr) (cr_H160 cr) (drop 2 v) of
                      Inr (tx, _) \<Rightarrow> undoPendingChange (v ! 0) (v ! 1) tx s
                    | Inl _ \<Rightarrow> s
                  else s
              | None \<Rightarrow> s)
     in s\<lparr>ps_DB := mdel k (ps_DB s)\<rparr>)"

definition undoJournalKeys :: "Crypto \<Rightarrow> bytes list \<Rightarrow> (int64 \<Rightarrow> bool) \<Rightarrow> PoolState \<Rightarrow> PoolState" where
  "undoJournalKeys cr ks undo s =
    (let sel = filter (\<lambda>k. length k = 2 + 8 + 4 \<and> undo (get_be (take 8 (drop 2 k)))) ks in
     if sel = [] then s
     else (fold (undoJournalKey cr) (rev (sort sel)) (s\<lparr>journalPaused := True\<rparr>))\<lparr>journalPaused := False\<rparr>)"

definition UndoPendingPoolsAbove :: "Crypto \<Rightarrow> int64 \<Rightarrow> PoolState \<Rightarrow> PoolState" where
  "UndoPendingPoolsAbove cr target s =
     undoJournalKeys cr (LoadAllKeys PendingPoolJournalDBPrefix (ps_DB s)) (\<lambda>h. sint h > sint target) s"

definition undoPendingPoolsAt :: "Crypto \<Rightarrow> int64 \<Rightarrow> PoolState \<Rightarrow> PoolState" where
  "undoPendingPoolsAt cr height s =
     undoJournalKeys cr (LoadAllKeys (pendingJournalPrefix height) (ps_DB s)) (\<lambda>_. True) s"

definition BeginPendingPoolJournal :: "Crypto \<Rightarrow> int64 \<Rightarrow> PoolState \<Rightarrow> PoolState" where
  "BeginPendingPoolJournal cr height s = (undoPendingPoolsAt cr height s)\<lparr>journalHeight := height, journalSeq := 0\<rparr>"

definition EndPendingPoolJournal :: "PoolState \<Rightarrow> PoolState" where
  "EndPendingPoolJournal s = s\<lparr>journalHeight := 0\<rparr>"

subsection \<open>Included, bad and duplicate transactions\<close>

definition MarkTxIncluded :: "bytes \<Rightarrow> int64 \<Rightarrow> PoolState \<Rightarrow> PoolState" where
  "MarkTxIncluded hash height s = s\<lparr>ps_DB := mput (IncludedTxDBPrefix @ hash) (GetByteInt64 height) (ps_DB s)\<rparr>"

definition UnmarkTxIncluded :: "bytes \<Rightarrow> PoolState \<Rightarrow> PoolState" where
  "UnmarkTxIncluded hash s = s\<lparr>ps_DB := mdel (IncludedTxDBPrefix @ hash) (ps_DB s)\<rparr>"

definition IncludedTxHeight :: "PoolState \<Rightarrow> bytes \<Rightarrow> int64 option" where
  "IncludedTxHeight s hash =
    (case map_of (ps_DB s) (IncludedTxDBPrefix @ hash) of
       None \<Rightarrow> None
     | Some b \<Rightarrow> (case GetInt64FromByte b of Inl _ \<Rightarrow> None | Inr h \<Rightarrow> Some h))"

definition BanInAllPools :: "bytes \<Rightarrow> PoolState \<Rightarrow> PoolState" where
  "BanInAllPools hash s =
     s\<lparr>PoolsTx := BanTransactionByHash hash (PoolsTx s), PoolTxEscrow := BanTransactionByHash hash (PoolTxEscrow s),
       PoolTxMultiSign := BanTransactionByHash hash (PoolTxMultiSign s)\<rparr>"

text \<open>The three removals at the head of the next two procedures.\<close>

definition RemoveFromAllPools :: "bytes \<Rightarrow> PoolState \<Rightarrow> PoolState" where
  "RemoveFromAllPools hash s =
    (let s = s\<lparr>PoolsTx := RemoveTransactionByHash hash (PoolsTx s)\<rparr>;
         s = RemoveEscrowTransaction hash s
     in s\<lparr>PoolTxMultiSign := RemoveTransactionByHash hash (PoolTxMultiSign s)\<rparr>)"

definition RemoveDuplicateTransactionByHash :: "bytes \<Rightarrow> PoolState \<Rightarrow> PoolState" where
  "RemoveDuplicateTransactionByHash hash s =
    (let s = RemoveFromAllPools hash s;
         s = s\<lparr>ps_DB := RemoveTransactionFromDBbyHash TransactionPoolHashesDBPrefix hash (ps_DB s)\<rparr>
     in BanInAllPools hash s)"

definition CheckTransactionInDBAndInMarkleTrie :: "bytes \<Rightarrow> PoolState cmd" where
  "CheckTransactionInDBAndInMarkleTrie hash s =
    (case IncludedTxHeight s hash of
       Some h \<Rightarrow> (Some (Errorf ''transaction was already included in block''), RemoveDuplicateTransactionByHash hash s)
     | None \<Rightarrow> (None, s))"

definition RemoveBadTransactionByHash :: "Crypto \<Rightarrow> bytes \<Rightarrow> PoolState \<Rightarrow> PoolState" where
  "RemoveBadTransactionByHash cr hash s =
    (let s = RemoveFromAllPools hash s;
         (r, db) = LoadFromDBPoolTx cr TransactionPoolHashesDBPrefix hash (ps_DB s);
         (r, db) = (case r of Inr tx \<Rightarrow> (Inr tx, db) | Inl _ \<Rightarrow> LoadFromDBPoolTx cr TransactionDBPrefix hash db);
         db = (case r of Inr tx \<Rightarrow> if length (Transaction_GetBytes tx) > 0 then snd (StoreToDBPoolTx BadTransactionDBPrefix tx db) else db
                       | Inl _ \<Rightarrow> db);
         db = RemoveTransactionFromDBbyHash TransactionPoolHashesDBPrefix hash db;
         s = snd (CheckTransactionInDBAndInMarkleTrie hash (s\<lparr>ps_DB := db\<rparr>))
     in BanInAllPools hash s)"

definition RemoveBlockBreakingTransactionByHash :: "Crypto \<Rightarrow> bytes \<Rightarrow> PoolState \<Rightarrow> PoolState" where
  "RemoveBlockBreakingTransactionByHash cr hash s =
    (let s = RemoveBadTransactionByHash cr hash s
     in s\<lparr>PoolsTx := BlockTransactionByHash hash (PoolsTx s), PoolTxEscrow := BlockTransactionByHash hash (PoolTxEscrow s),
          PoolTxMultiSign := BlockTransactionByHash hash (PoolTxMultiSign s)\<rparr>)"

subsection \<open>Reloading the pools at start\<close>

datatype pendingEntry = pendingEntryLoad | pendingEntryDrop | pendingEntryQuarantine

definition checkPersistedPendingTx ::
  "Crypto \<Rightarrow> (Transaction \<Rightarrow> bool) \<Rightarrow> bytes \<Rightarrow> bytes \<Rightarrow> nat \<Rightarrow> DB \<Rightarrow> (Transaction \<times> pendingEntry) \<times> DB" where
  "checkPersistedPendingTx cr verify key bt prefixLen db =
    (case Transaction_GetFromBytes (cr_enc cr) (cr_H160 cr) bt of
       Inl _ \<Rightarrow> ((zero_Transaction, pendingEntryDrop), db)
     | Inr (tx, rest) \<Rightarrow>
         if length rest \<noteq> 0 then ((tx, pendingEntryDrop), db)
         else if length key \<noteq> prefixLen + HashLength \<or> drop prefixLen key \<noteq> tx_Hash tx
         then ((tx, pendingEntryDrop), db)
         else if HashMatchesBody (cr_H256 cr) tx then
           ((tx, if \<not> verify tx then pendingEntryQuarantine else pendingEntryLoad), db)
         else
           case LoadFromDBPoolTx cr TransactionDBPrefix (drop prefixLen key) db of
             (Inl _, db) \<Rightarrow> ((tx, pendingEntryQuarantine), db)
           | (Inr orig, db) \<Rightarrow>
               if Transaction_GetBytes (tx\<lparr>tx_Height := tx_Height orig\<rparr>) \<noteq> Transaction_GetBytes orig
               then ((tx, pendingEntryQuarantine), db)
               else ((tx, if \<not> verify orig then pendingEntryQuarantine else pendingEntryLoad), db))"

text \<open>The stored entries under a prefix in the order the database iterates in, which is the order of
  the keys.\<close>

definition stored_entries :: "bytes \<Rightarrow> DB \<Rightarrow> (bytes \<times> bytes) list" where
  "stored_entries prefix db = map (\<lambda>k. (k, mget [] db k)) (sort (LoadAllKeys prefix db))"

definition LoadEscrowPoolFromDB :: "Crypto \<Rightarrow> (Transaction \<Rightarrow> bool) \<Rightarrow> PoolState \<Rightarrow> PoolState" where
  "LoadEscrowPoolFromDB cr verify s =
    foldl (\<lambda>s (key, bt).
        let ((tx, verdict), db) = checkPersistedPendingTx cr verify key bt 2 (ps_DB s); s = s\<lparr>ps_DB := db\<rparr> in
        case verdict of
          pendingEntryDrop \<Rightarrow> s\<lparr>ps_DB := mdel key (ps_DB s)\<rparr>
        | pendingEntryQuarantine \<Rightarrow> s
        | pendingEntryLoad \<Rightarrow> s\<lparr>PoolTxEscrow := snd (AddTransaction tx (tx_Hash tx) (PoolTxEscrow s))\<rparr>)
      s (stored_entries EscrowPoolDBPrefix (ps_DB s))"

definition LoadMultiSignPoolFromDB :: "Crypto \<Rightarrow> (Transaction \<Rightarrow> bool) \<Rightarrow> PoolState \<Rightarrow> PoolState" where
  "LoadMultiSignPoolFromDB cr verify s =
    foldl (\<lambda>s (key, bt).
        let ((tx, verdict), db) = checkPersistedPendingTx cr verify key bt 2 (ps_DB s); s = s\<lparr>ps_DB := db\<rparr> in
        case verdict of
          pendingEntryDrop \<Rightarrow> s\<lparr>ps_DB := mdel key (ps_DB s)\<rparr>
        | pendingEntryQuarantine \<Rightarrow> s
        | pendingEntryLoad \<Rightarrow> s\<lparr>PoolTxMultiSign := snd (AddTransaction tx (MultiSignPoolKeyFor tx) (PoolTxMultiSign s))\<rparr>)
      s (stored_entries MultiSignPoolDBPrefix (ps_DB s))"

subsection \<open>Admission to the main pool\<close>

datatype admission = admitted | alreadyKnown | refusedHeight | refusedBelowMinStaking | refusedUnpayable | refusedStore

definition admissibleTxHeight :: "int64 \<Rightarrow> int64 \<Rightarrow> bool" where
  "admissibleTxHeight height txHeight \<longleftrightarrow>
    (let nxt = height + 1 in sint txHeight \<le> sint nxt \<and> sint (nxt - txHeight) \<le> sint MaxTransactionAgeBlocks)"

definition admitToPool :: "int64 \<Rightarrow> AccountsType \<Rightarrow> bool \<Rightarrow> Transaction \<Rightarrow> PoolState \<Rightarrow> admission \<times> PoolState" where
  "admitToPool height accounts storeOk t s =
    (if \<not> admissibleTxHeight height (tx_Height t) then (refusedHeight, s)
     else if TransactionExists (PoolsTx s) (tx_Hash t) \<or> CheckFromDBPoolTx (ps_DB s) TransactionDBPrefix (tx_Hash t)
     then (alreadyKnown, s)
     else if (case IntDelegatedAccountFromAddress (Recipient (tx_TxData t)) of
                Inr n \<Rightarrow> n > 0 \<and> n < 256 \<and> sint (Amount (tx_TxData t)) > 0 \<and>
                        sint (Amount (tx_TxData t)) < sint MinStakingUser \<and> td_LockedAmount (tx_TxData t) = 0
              | Inl _ \<Rightarrow> False)
     then (refusedBelowMinStaking, s)
     else case CalcFee t of
         Inl _ \<Rightarrow> (refusedUnpayable, s)
       | Inr fee \<Rightarrow>
           let senderAddr = addr_ByteValue (GetSenderAddress t); cost = fee + Amount (tx_TxData t) in
           case GetAccountByAddressBytes accounts senderAddr of
             None \<Rightarrow> (refusedUnpayable, s)
           | Some sacc \<Rightarrow>
               if sint (PendingSpend (PoolsTx s) senderAddr + cost) > sint (acc_Balance sacc)
               then (refusedUnpayable, s)
               else
                 let (ok, p) = AddTransaction t (tx_Hash t) (PoolsTx s); s = s\<lparr>PoolsTx := p\<rparr> in
                 if \<not> ok then (alreadyKnown, s)
                 else if storeOk \<and> fst (StoreToDBPoolTx TransactionPoolHashesDBPrefix t (ps_DB s)) = None
                 then (admitted, s\<lparr>ps_DB := snd (StoreToDBPoolTx TransactionPoolHashesDBPrefix t (ps_DB s))\<rparr>)
                 else (refusedStore,
                   s\<lparr>PoolsTx := RemoveTransactionByHash (tx_Hash t) (PoolsTx s),
                     ps_DB := RemoveTransactionFromDBbyHash TransactionPoolHashesDBPrefix (tx_Hash t) (ps_DB s)\<rparr>))"

text \<open>Local cancellation (\<open>rpc/server/server.go\<close>): the request is the hash, or the owner's address and
  the hash; \<open>owner\<close> is what \<open>callerAddress\<close> returned.\<close>

definition handleCNCL :: "bytes option \<Rightarrow> bytes \<Rightarrow> PoolState \<Rightarrow> string \<times> PoolState" where
  "handleCNCL owner byt s =
    (let hash = (if length byt = AddressLength + HashLength then drop AddressLength byt else byt) in
     if length hash \<noteq> HashLength then (''hash is not 32 bytes'', s)
     else case owner of
         None \<Rightarrow> (''no wallet to cancel on behalf of'', s)
       | Some ownerBytes \<Rightarrow>
           if TransactionExists (PoolsTx s) hash then
             let (tx, p) = PopTransactionByHash hash (PoolsTx s);
                 tx = (case tx of Some tx \<Rightarrow> tx | None \<Rightarrow> zero_Transaction)
             in if addr_ByteValue (Sender (tx_TxParam tx)) \<noteq> ownerBytes
                then (''you are not the owner of transaction'', s\<lparr>PoolsTx := snd (AddTransaction tx (tx_Hash tx) p)\<rparr>)
                else (''transaction cancelled locally'', s\<lparr>PoolsTx := BanTransactionByHash hash p\<rparr>)
           else case GetTransactionByHash (PoolTxEscrow s) hash of
               Some tx \<Rightarrow>
                 (if addr_ByteValue (Sender (tx_TxParam tx)) \<noteq> ownerBytes then ''you are not the owner of transaction''
                  else ''escrow cancellation transaction required'', s)
             | None \<Rightarrow>
                 (case GetTransactionByHash (PoolTxMultiSign s) hash of
                    Some tx \<Rightarrow>
                      (if addr_ByteValue (Sender (tx_TxParam tx)) \<noteq> ownerBytes then ''you are not the owner of transaction''
                       else ''multisig transactions cannot be cancelled locally: it settles only when co-signed, otherwise it expires'', s)
                  | None \<Rightarrow> (''transaction not found in a cancellable pool'', s)))"


subsection \<open>Admission and the sender's balance\<close>

lemma committed_submap:
  assumes "wf_map m" "wf_map m'" "map_of m' \<subseteq>\<^sub>m map_of m" "\<forall>tx \<in> snd ` set m. 0 \<le> sint (txSpend tx)"
  shows "committed k m' \<le> committed k m"
proof -
  let ?f = "\<lambda>kv :: bytes \<times> Transaction. if addr_ByteValue (GetSenderAddress (snd kv)) = k then sint (txSpend (snd kv)) else 0"
  have sum: "committed k x = sum ?f (set x)" if "wf_map x" for x
    using that by (simp add: committed_def msum_def comp_def sum.distinct_set_conv_list distinct_map)
  have "set m' \<subseteq> set m"
    unfolding set_map_of_compr [OF assms(1)] set_map_of_compr [OF assms(2)] using assms(3) by (auto simp: map_le_def dom_def)
  then show ?thesis
    unfolding sum [OF assms(1)] sum [OF assms(2)] using assms(4) by (intro sum_mono2) auto
qed

lemma AddTransaction_submap:
  assumes "wf_pool tp" "map_of (transactions tp) (tx_Hash tx) = None"
  shows "map_of (transactions (snd (AddTransaction tx h tp))) \<subseteq>\<^sub>m (map_of (transactions tp))(tx_Hash tx \<mapsto> tx)"
proof (cases "banned tp (tx_Hash tx)")
  case True
  then show ?thesis
    using assms(2) by (auto simp: AddTransaction_banned BanTransactionByHash_def Let_def map_le_def)
next
  case nb: False
  have len: "length (transactions tp) \<le> maxTransactions tp"
    using assms(1) by (simp add: wf_pool_def)
  obtain pr where pr: "item_priority tp tx h = Some pr"
    using item_priority_total pool_coreD(10) assms(1) unfolding wf_pool_def by blast
  consider "length (transactions tp) < maxTransactions tp" | "length (transactions tp) = maxTransactions tp" "typePool tp \<noteq> 0"
    | "length (transactions tp) = maxTransactions tp" "typePool tp = 0"
    using len by linarith
  then show ?thesis
  proof cases
    case 1
    then show ?thesis
      using AddTransaction_room [OF assms(1) nb assms(2) _ pr] by (simp add: with_new_transactions)
  next
    case 2
    then show ?thesis
      using AddTransaction_refused(2) [OF assms(1) 2(2) nb assms(2) 2(1)] assms(2) by (auto simp: map_le_def)
  next
    case 3
    then show ?thesis
      using AddTransaction_evicts [OF assms(1) 3(2) nb assms(2) 3(1), of h] upd_None_map_le by metis
  qed
qed

text \<open>Every sender can pay for all of its pooled transactions together.\<close>

definition affordable :: "AccountsType \<Rightarrow> TransactionPool \<Rightarrow> bool" where
  "affordable accounts tp \<longleftrightarrow> (\<forall>k. committed k (transactions tp) \<le>
     (case GetAccountByAddressBytes accounts k of Some a \<Rightarrow> sint (acc_Balance a) | None \<Rightarrow> 0))"


lemma Transaction_bytes_ne: "Transaction_GetBytes tx \<noteq> []"
  by (simp add: Transaction_GetBytes_def GetBytesWithoutSignature_def TxParam_GetBytes_def)

lemma affordable_mono:
  assumes "affordable accounts tp" "wf_pool tp" "wf_pool tp'" "pending_ok tp" "map_of (transactions tp') \<subseteq>\<^sub>m map_of (transactions tp)"
  shows "affordable accounts tp'"
  unfolding affordable_def
proof
  fix k
  have wf: "wf_map (transactions tp)" "wf_map (transactions tp')"
    using assms(2,3) by (simp_all add: wf_pool_def pool_coreD)
  then have "\<forall>tx \<in> snd ` set (transactions tp). 0 \<le> sint (txSpend tx)"
    using assms(4) by (auto simp: pending_ok_def map_of_eq_Some_iff)
  from committed_submap [OF wf assms(5) this, of k] assms(1)
  show "committed k (transactions tp') \<le> (case GetAccountByAddressBytes accounts k of Some a \<Rightarrow> sint (acc_Balance a) | None \<Rightarrow> 0)"
    unfolding affordable_def by (meson order_trans)
qed

lemma Remove_submap: "map_of (transactions (RemoveTransactionByHash hash tp)) \<subseteq>\<^sub>m map_of (transactions tp)"
proof (cases "map_of (items tp) (GetHashFromBytes hash)")
  case (Some it)
  then show ?thesis
    using without_transactions [OF RemoveTransactionByHash_present [OF Some]] upd_None_map_le by metis
qed (simp add: RemoveTransactionByHash_absent)

lemma Add_affordable:
  assumes wf: "wf_pool tp" and pend: "pending_ok tp" and aff: "affordable accounts tp" and nn: "0 \<le> sint (txSpend t)"
    and none: "map_of (transactions tp) (tx_Hash t) = None"
    and acc: "GetAccountByAddressBytes accounts (addr_ByteValue (GetSenderAddress t)) = Some sacc"
    and pays: "committed (addr_ByteValue (GetSenderAddress t)) (transactions tp) + sint (txSpend t) \<le> sint (acc_Balance sacc)"
  shows "affordable accounts (snd (AddTransaction t h tp))"
  unfolding affordable_def
proof
  fix k
  let ?s = "addr_ByteValue (GetSenderAddress t)" and ?m = "mput (tx_Hash t) t (transactions tp)"
  have wfm: "wf_map (transactions tp)" "wf_map (transactions (snd (AddTransaction t h tp)))"
    using wf AddTransaction_wf [OF wf, of t h] by (simp_all add: wf_pool_def pool_coreD)
  have new: "tx_Hash t \<notin> fst ` set (transactions tp)"
    using none by (simp add: map_of_eq_None_iff)
  have "\<forall>tx \<in> snd ` set ?m. 0 \<le> sint (txSpend tx)"
    using pend nn wfm(1) by (auto simp: pending_ok_def map_of_eq_Some_iff dest!: set_mputD)
  then have "committed k (transactions (snd (AddTransaction t h tp))) \<le> committed k ?m"
    using AddTransaction_submap [OF wf none, of h] wfm by (intro committed_submap) simp_all
  also have "committed k ?m = committed k (transactions tp) + (if ?s = k then sint (txSpend t) else 0)"
    using new by (simp add: committed_def mput_append msum_def)
  also have "\<dots> \<le> (case GetAccountByAddressBytes accounts k of Some a \<Rightarrow> sint (acc_Balance a) | None \<Rightarrow> 0)"
    using aff acc pays unfolding affordable_def by (cases "?s = k") auto
  finally show "committed k (transactions (snd (AddTransaction t h tp))) \<le>
      (case GetAccountByAddressBytes accounts k of Some a \<Rightarrow> sint (acc_Balance a) | None \<Rightarrow> 0)" .
qed

lemma admit_cases:
  obtains (no) "fst (admitToPool height accounts ok t s) \<noteq> admitted" "snd (admitToPool height accounts ok t s) = s"
  | (added) fee sacc where "admissibleTxHeight height (tx_Height t)" "\<not> TransactionExists (PoolsTx s) (tx_Hash t)"
      "\<not> CheckFromDBPoolTx (ps_DB s) TransactionDBPrefix (tx_Hash t)" "CalcFee t = Inr fee"
      "GetAccountByAddressBytes accounts (addr_ByteValue (GetSenderAddress t)) = Some sacc"
      "sint (PendingSpend (PoolsTx s) (addr_ByteValue (GetSenderAddress t)) + (fee + Amount (tx_TxData t))) \<le> sint (acc_Balance sacc)"
      "PoolsTx (snd (admitToPool height accounts ok t s)) \<in>
         {snd (AddTransaction t (tx_Hash t) (PoolsTx s)), RemoveTransactionByHash (tx_Hash t) (snd (AddTransaction t (tx_Hash t) (PoolsTx s)))}"
      "fst (admitToPool height accounts ok t s) = admitted \<longrightarrow>
         PoolsTx (snd (admitToPool height accounts ok t s)) = snd (AddTransaction t (tx_Hash t) (PoolsTx s)) \<and>
         fst (AddTransaction t (tx_Hash t) (PoolsTx s)) \<and>
         map_of (ps_DB (snd (admitToPool height accounts ok t s))) (TransactionPoolHashesDBPrefix @ tx_Hash t) = Some (Transaction_GetBytes t)"
proof -
  show ?thesis
  proof (cases "CalcFee t")
    case (Inl e)
    then show ?thesis
      by (intro no) (auto simp: admitToPool_def)
  next
    case (Inr fee)
    show ?thesis
    proof (cases "GetAccountByAddressBytes accounts (addr_ByteValue (GetSenderAddress t))")
      case None
      then show ?thesis
        by (intro no) (auto simp: admitToPool_def Inr Let_def)
    next
      case (Some sacc)
      obtain b p where add: "AddTransaction t (tx_Hash t) (PoolsTx s) = (b, p)"
        by (cases "AddTransaction t (tx_Hash t) (PoolsTx s)")
      define g where "g \<longleftrightarrow> admissibleTxHeight height (tx_Height t) \<and> \<not> TransactionExists (PoolsTx s) (tx_Hash t) \<and>
        \<not> CheckFromDBPoolTx (ps_DB s) TransactionDBPrefix (tx_Hash t) \<and>
        \<not> (case IntDelegatedAccountFromAddress (Recipient (tx_TxData t)) of
                Inr n \<Rightarrow> n > 0 \<and> n < 256 \<and> sint (Amount (tx_TxData t)) > 0 \<and>
                        sint (Amount (tx_TxData t)) < sint MinStakingUser \<and> td_LockedAmount (tx_TxData t) = 0
              | Inl _ \<Rightarrow> False) \<and>
        sint (PendingSpend (PoolsTx s) (addr_ByteValue (GetSenderAddress t)) + (fee + Amount (tx_TxData t))) \<le> sint (acc_Balance sacc)"
      show ?thesis
      proof (cases g)
        case False
        then show ?thesis
          by (intro no) (auto simp: admitToPool_def Inr Some Let_def g_def)
      next
        case True
        then show ?thesis
          by (intro added [OF _ _ _ Inr Some])
            (simp_all add: admitToPool_def Inr Some Let_def g_def add StoreToDBPoolTx_def Transaction_bytes_ne)
      qed
    qed
  qed
qed


definition sample_pools :: PoolState where
  "sample_pools = \<lparr>PoolsTx = NewTransactionPool 5 0, PoolTxEscrow = NewTransactionPool 5 1, PoolTxMultiSign = NewTransactionPool 5 2,
     ps_DB = [], journalHeight = 0, journalSeq = 0, journalPaused = False\<rparr>"


lemma sample_admitted:
  assumes "GetAccountByAddressBytes accounts (replicate 20 7) = Some a" "sint (300000 + x) \<le> sint (acc_Balance a)"
  shows "fst (admitToPool 77 accounts True (sample_tx\<lparr>tx_TxData := (tx_TxData sample_tx)\<lparr>Amount := x\<rparr>\<rparr>) sample_pools) = admitted"
    (is "fst (admitToPool _ _ _ ?t _) = _")
proof -
  let ?p = "PoolsTx sample_pools"
  have p: "?p = NewTransactionPool 5 0"
    by (simp add: sample_pools_def)
  have "fst (AddTransaction ?t (tx_Hash ?t) ?p)"
    unfolding p by (subst AddTransaction_room [OF NewTransactionPool_wf])
      (simp_all add: banned_def NewTransactionPool_def item_priority_def)
  moreover have "CalcFee ?t = Inr 300000"
    by (simp add: CalcFee_def sample_tx_def Let_def go_div_def signed_divide_int_def)
  moreover have "addr_ByteValue (GetSenderAddress ?t) = replicate 20 7"
    by (simp add: GetSenderAddress_def sample_tx_def sample_addr_def)
  moreover have "admissibleTxHeight 77 (tx_Height ?t)"
    by (simp add: admissibleTxHeight_def sample_tx_def Let_def)
  moreover have "\<not> TransactionExists ?p h" "PendingSpend ?p k = 0" "ps_DB sample_pools = []" for h k
    by (simp_all add: TransactionExists_def sample_pools_def NewTransactionPool_def PendingSpend_def mget_def)
  moreover have "\<exists>e. IntDelegatedAccountFromAddress (Recipient (tx_TxData ?t)) = Inl e"
    by (auto simp: IntDelegatedAccountFromAddress_def sample_tx_def sample_addr_def Let_def)
  ultimately show ?thesis
    using assms by (auto simp: admitToPool_def CheckFromDBPoolTx_def StoreToDBPoolTx_def Transaction_bytes_ne Let_def split: prod.split)
qed


text \<open>Without the bound on the amount the check is void: a transfer of the largest amount wraps to a
  negative cost and is admitted whatever the sender owns.\<close>

lemma wrapped_cost_is_admitted:
  assumes "GetAccountByAddressBytes accounts (replicate 20 7) = Some a" "0 \<le> sint (acc_Balance a)"
  shows "fst (admitToPool 77 accounts True (sample_tx\<lparr>tx_TxData := (tx_TxData sample_tx)\<lparr>Amount := 2 ^ 63 - 1\<rparr>\<rparr>) sample_pools) = admitted"
  by (rule sample_admitted [OF assms(1)]) (use assms(2) in simp)


text \<open>A restart keeps every pending transfer. An entry the node stored is never dropped as malformed,
  whatever its height was set to, and it is loaded only if a transaction with its hash, that differs from
  it at most in the height, has the hash its body commits to and verifies.\<close>

theorem persisted_pending_checked:
  assumes "wf_Transaction (cr_enc cr) (cr_H160 cr) tx"
  shows "\<exists>verdict db'. checkPersistedPendingTx cr verify (prefix @ tx_Hash tx) (Transaction_GetBytes tx) (length prefix) db = ((tx, verdict), db') \<and>
    verdict \<noteq> pendingEntryDrop \<and>
    (verdict = pendingEntryLoad \<longrightarrow> (\<exists>orig. verify orig \<and> HashMatchesBody (cr_H256 cr) orig \<and> tx_Hash orig = tx_Hash tx \<and>
       Transaction_GetBytes (tx\<lparr>tx_Height := tx_Height orig\<rparr>) = Transaction_GetBytes orig))"
proof -
  have dec: "Transaction_GetFromBytes (cr_enc cr) (cr_H160 cr) (Transaction_GetBytes tx) = Inr (tx, [])"
    using Transaction_round_trip [OF assms, of "[]"] by simp
  have len: "length (tx_Hash tx) = 32"
    using assms by (simp add: wf_Transaction_def)
  have load: "HashMatchesBody (cr_H256 cr) orig \<and> tx_Hash orig = tx_Hash tx"
    if "LoadFromDBPoolTx cr TransactionDBPrefix (tx_Hash tx) db = (Inr orig, db')" for orig db'
    using that by (auto simp: LoadFromDBPoolTx_def Let_def split: option.splits if_splits sum.splits)
  have same: "tx\<lparr>tx_Height := tx_Height tx\<rparr> = tx"
    by simp
  show ?thesis
  proof (cases "HashMatchesBody (cr_H256 cr) tx")
    case True
    then show ?thesis
      using same by (auto simp: checkPersistedPendingTx_def dec len)
  next
    case False
    obtain r db' where r: "LoadFromDBPoolTx cr TransactionDBPrefix (tx_Hash tx) db = (r, db')"
      by (cases "LoadFromDBPoolTx cr TransactionDBPrefix (tx_Hash tx) db")
    show ?thesis
      using False load [of _ db'] by (cases r) (auto simp: checkPersistedPendingTx_def dec len r)
  qed
qed

theorem persisted_pending_checked_witness:
  "\<exists>verdict db'. checkPersistedPendingTx \<lparr>cr_enc = sample_enc, cr_H160 = (\<lambda>_. []), cr_H256 = (\<lambda>_. replicate 32 9)\<rparr> (\<lambda>_. True)
     (EscrowPoolDBPrefix @ tx_Hash sample_tx) (Transaction_GetBytes sample_tx) (length EscrowPoolDBPrefix) [] = ((sample_tx, verdict), db') \<and>
     verdict \<noteq> pendingEntryDrop"
  using persisted_pending_checked [of "\<lparr>cr_enc = sample_enc, cr_H160 = (\<lambda>_. []), cr_H256 = (\<lambda>_. replicate 32 9)\<rparr>" sample_tx "\<lambda>_. True" EscrowPoolDBPrefix "[]"]
    sample_tx_wf [of "\<lambda>_. []"] by auto

lemma remove_gone: "wf_pool tp \<Longrightarrow> \<not> TransactionExists (RemoveTransactionByHash hash tp) hash"
proof (cases "map_of (items tp) (GetHashFromBytes hash)")
  case (Some it)
  then show ?thesis
    using without_transactions [OF RemoveTransactionByHash_present [OF Some]] by (simp add: TransactionExists_def)
next
  case None
  then show "wf_pool tp \<Longrightarrow> ?thesis"
    using pool_coreD(9) [of tp "GetHashFromBytes hash"] by (simp add: RemoveTransactionByHash_absent TransactionExists_def wf_pool_def)
qed

lemma journal_keeps_pools [simp]:
  "PoolsTx (journalPendingChange p k tx s) = PoolsTx s" "PoolTxEscrow (journalPendingChange p k tx s) = PoolTxEscrow s"
  "PoolTxMultiSign (journalPendingChange p k tx s) = PoolTxMultiSign s"
  by (simp_all add: journalPendingChange_def Let_def)

lemma RemoveEscrow_pools [simp]:
  "PoolsTx (RemoveEscrowTransaction hash s) = PoolsTx s"
  "PoolTxEscrow (RemoveEscrowTransaction hash s) = RemoveTransactionByHash hash (PoolTxEscrow s)"
  "PoolTxMultiSign (RemoveEscrowTransaction hash s) = PoolTxMultiSign s"
  by (simp_all add: RemoveEscrowTransaction_def Let_def split: option.split)

lemma Ban_exists [simp]: "TransactionExists (BanTransactionByHash h tp) hash = TransactionExists tp hash"
  by (simp add: TransactionExists_def BanTransactionByHash_def Let_def)

text \<open>C36: Replay protection: a transaction recorded as included is refused with an error and taken out of
  all three pools; the record names its height and touches no other hash, and withdrawing the record, as a
  rewind does, makes the check pass again.\<close>

theorem included_is_refused:
  assumes "wf_pool (PoolsTx s)" "wf_pool (PoolTxEscrow s)" "wf_pool (PoolTxMultiSign s)"
  shows "let s1 = MarkTxIncluded hash h s; r = CheckTransactionInDBAndInMarkleTrie hash s1 in
    fst r = Some (Errorf ''transaction was already included in block'') \<and> \<not> TransactionExists (PoolsTx (snd r)) hash \<and>
    \<not> TransactionExists (PoolTxEscrow (snd r)) hash \<and> \<not> TransactionExists (PoolTxMultiSign (snd r)) hash \<and>
    (\<forall>k. IncludedTxHeight s1 k = (if k = hash then Some h else IncludedTxHeight s k)) \<and>
    CheckTransactionInDBAndInMarkleTrie hash (UnmarkTxIncluded hash s1) = (None, UnmarkTxIncluded hash s1)"
proof -
  have h: "IncludedTxHeight (MarkTxIncluded hash h s) k = (if k = hash then Some h else IncludedTxHeight s k)" for k
    by (simp add: IncludedTxHeight_def MarkTxIncluded_def GetInt64FromByte_def GetByteInt64_def)
  have u: "IncludedTxHeight (UnmarkTxIncluded hash s') hash = None" for s'
    by (simp add: IncludedTxHeight_def UnmarkTxIncluded_def map_of_mdel)
  show ?thesis
    using assms unfolding Let_def CheckTransactionInDBAndInMarkleTrie_def h u
    by (simp add: RemoveDuplicateTransactionByHash_def RemoveFromAllPools_def BanInAllPools_def remove_gone MarkTxIncluded_def h Let_def)
qed

theorem included_is_refused_witness:
  "fst (CheckTransactionInDBAndInMarkleTrie (tx_Hash sample_tx) (MarkTxIncluded (tx_Hash sample_tx) 5 sample_pools)) \<noteq> None"
proof -
  have "wf_pool (PoolsTx sample_pools)" "wf_pool (PoolTxEscrow sample_pools)" "wf_pool (PoolTxMultiSign sample_pools)"
    by (simp_all add: sample_pools_def NewTransactionPool_wf)
  from included_is_refused [OF this, of "tx_Hash sample_tx" 5] show ?thesis
    by (simp add: Let_def)
qed


text \<open>Two ways in which the counter of a sender departs from what its pooled transactions commit. A local
  cancellation takes the transaction out with \<open>PopTransactionByHash\<close> and leaves its amount counted:\<close>

lemma cancelled_amount_stays_counted:
  assumes "wf_pool (PoolsTx s)" "length hash = 32" "GetTransactionByHash (PoolsTx s) hash = Some tx"
    "addr_ByteValue (Sender (tx_TxParam tx)) = owner"
  shows "\<not> TransactionExists (PoolsTx (snd (handleCNCL (Some owner) hash s))) hash \<and>
    PendingSpend (PoolsTx (snd (handleCNCL (Some owner) hash s))) k = PendingSpend (PoolsTx s) k"
proof -
  let ?p = "PoolsTx s"
  have h: "GetHashFromBytes hash = hash"
    using assms(2) by (simp add: GetHashFromBytes_def Hash_Set_def EmptyHash_def)
  have tx: "map_of (transactions ?p) hash = Some tx"
    using assms(3) h by (simp add: GetTransactionByHash_def)
  obtain it where it: "map_of (items ?p) hash = Some it"
    using pool_coreD(9) [of ?p hash] assms(1) tx by (cases "map_of (items ?p) hash") (auto simp: wf_pool_def)
  obtain p where pop: "PopTransactionByHash hash ?p = (Some tx, p)"
    using it tx h by (simp add: PopTransactionByHash_def Let_def)
  have "handleCNCL (Some owner) hash s = (''transaction cancelled locally'', s\<lparr>PoolsTx := BanTransactionByHash hash p\<rparr>)"
    using assms(2,4) tx h by (simp add: handleCNCL_def TransactionExists_def pop)
  moreover have "without hash it ?p p"
    using PopTransactionByHash_present [of ?p hash it] it h pop by simp
  ultimately show ?thesis
    using without_transactions [of hash it ?p] h pop_keeps_committed [of hash ?p] pop
    by (simp add: TransactionExists_def PendingSpend_def BanTransactionByHash_def Let_def)
qed

text \<open>and the counter is reset to zero when it drops below, so that after a payment of \<open>x\<close> and a withdrawal
  of \<open>x\<close> of the same sender both left the pool, \<open>x\<close> stays counted:\<close>

lemma negative_spend_stays_counted:
  assumes "GetSenderAddress a = GetSenderAddress b" "txSpend b = - txSpend a" "0 < sint (txSpend a)"
    "PendingSpend tp (addr_ByteValue (GetSenderAddress a)) = 0"
  shows "PendingSpend (subPendingLocked b (subPendingLocked a (addPendingLocked b (addPendingLocked a tp)))) (addr_ByteValue (GetSenderAddress a)) = txSpend a"
proof -
  have "sint (- txSpend a) = - sint (txSpend a)"
    using sint_diff64 [of 0 "txSpend a"] assms(3) sint_range64 [of "txSpend a"] by simp
  then show ?thesis
    using assms by (simp add: PendingSpend_sub PendingSpend_add Let_def)
qed

end
