(* ===== verification/Pool_Journal.thy ===== *)
theory Pool_Journal
  imports Pool_Store
begin

text \<open>
  The contract of the pending-pool journal (\<open>transactionsPool/pendingJournal.go\<close>): a rewind puts the
  escrow and multi-signature pools back to what they were at the rewind target.

  The specification is an undo log over plain maps (locale \<open>undo_log\<close>); the pools and the database
  implement it. The step relation \<open>applying\<close> is block application as far as the two pools are
  concerned; \<open>undoable\<close> is the simulation invariant.
\<close>

subsection \<open>Undo logs\<close>

fun run_changes :: "('c \<Rightarrow> 's \<Rightarrow> 's option) \<Rightarrow> 'c list \<Rightarrow> 's \<Rightarrow> 's option" where
  "run_changes change [] s = Some s"
| "run_changes change (c # cs) s = (case change c s of None \<Rightarrow> None | Some s' \<Rightarrow> run_changes change cs s')"

lemma run_changes_append:
  "run_changes change (cs @ ds) s = (case run_changes change cs s of None \<Rightarrow> None | Some s' \<Rightarrow> run_changes change ds s')"
  by (induction cs arbitrary: s) (simp_all split: option.split)

locale undo_log =
  fixes change :: "'c \<Rightarrow> 's \<Rightarrow> 's option" and unchange :: "'c \<Rightarrow> 's \<Rightarrow> 's"
  assumes unchange_change: "change c s = Some s' \<Longrightarrow> unchange c s' = s"
begin

lemma undo_last:
  assumes "run_changes change (cs @ [c]) s = Some s'"
  shows "run_changes change cs s = Some (unchange c s')" "change c (unchange c s') = Some s'"
proof -
  from assms obtain m where m: "run_changes change cs s = Some m" "change c m = Some s'"
    by (auto simp: run_changes_append split: option.splits)
  show "run_changes change cs s = Some (unchange c s')" "change c (unchange c s') = Some s'"
    using m unchange_change [OF m(2)] by simp_all
qed

lemma undo_all: "run_changes change cs s = Some s' \<Longrightarrow> fold unchange (rev cs) s' = s"
proof (induction cs arbitrary: s' rule: rev_induct)
  case (snoc c cs)
  then show ?case
    using undo_last(1) by auto
qed simp

end

text \<open>What the two pools hold, and a journalled change of it: an entry is added that was not there, or
  one is taken out that was.\<close>

type_synonym pools_view = "journalPool \<Rightarrow> bytes \<Rightarrow> Transaction option"

fun change_view :: "journalPool \<times> journalKind \<times> Transaction \<Rightarrow> pools_view \<Rightarrow> pools_view option" where
  "change_view (p, journalAdded, tx) v =
    (if v p (tx_Hash tx) = None then Some (v(p := (v p)(tx_Hash tx \<mapsto> tx))) else None)"
| "change_view (p, journalRemoved, tx) v =
    (if v p (tx_Hash tx) = Some tx then Some (v(p := (v p)(tx_Hash tx := None))) else None)"

fun unchange_view :: "journalPool \<times> journalKind \<times> Transaction \<Rightarrow> pools_view \<Rightarrow> pools_view" where
  "unchange_view (p, journalAdded, tx) v = v(p := (v p)(tx_Hash tx := None))"
| "unchange_view (p, journalRemoved, tx) v = v(p := (v p)(tx_Hash tx \<mapsto> tx))"

interpretation pool_log: undo_log change_view unchange_view
proof
  show "change_view c v = Some v' \<Longrightarrow> unchange_view c v' = v" for c v v'
    by (cases "(c, v)" rule: change_view.cases) (auto split: if_splits simp: fun_upd_idem)
qed

subsection \<open>The order of the journal keys\<close>

definition journal_key :: "int64 \<Rightarrow> int32 \<Rightarrow> bytes" where
  "journal_key h q = pendingJournalPrefix h @ put_be 4 q"

lemma put_be_Suc: "put_be (Suc n) w = put_be n (drop_bit 8 w) @ [ucast w]"
  by (simp add: put_be_def)

lemma list_less_append: "length xs = length ys \<Longrightarrow> xs @ zs < ys @ (ws :: 'a::linorder list) \<longleftrightarrow> xs < ys \<or> xs = ys \<and> zs < ws"
  by (induction xs ys rule: list_induct2) auto

lemma put_be_mono:
  fixes a b :: "'a::len word"
  assumes "unat a < unat b" "unat b < 2 ^ (8 * n)"
  shows "put_be n a < put_be n b"
  using assms
proof (induction n arbitrary: a b)
  case (Suc n)
  have d: "unat (drop_bit 8 x) = unat x div 256" for x :: "'a word"
    unfolding unat_drop_bit_eq by (simp add: drop_bit_eq_div)
  have u: "unat (ucast x :: byte) = unat x mod 256" for x :: "'a word"
    by (simp add: unsigned_ucast_eq take_bit_eq_mod)
  have "unat b div 256 < 2 ^ (8 * n)"
    using Suc.prems(2) less_mult_imp_div_less [of "unat b" "2 ^ (8 * n)" 256] by (simp add: power_add)
  moreover have "unat a div 256 \<le> unat b div 256"
    using Suc.prems(1) by (simp add: div_le_mono)
  moreover have "unat a mod 256 < unat b mod 256" if "unat a div 256 = unat b div 256"
    using Suc.prems(1) that by (metis div_mult_mod_eq nat_add_left_cancel_less)
  moreover have "drop_bit 8 a = drop_bit 8 b" if "unat a div 256 = unat b div 256"
    using that d by (metis unsigned_word_eqI)
  ultimately show ?case
    using Suc.IH [of "drop_bit 8 a" "drop_bit 8 b"] d u
    by (cases "unat a div 256 = unat b div 256") (auto simp: put_be_Suc list_less_append word_less_nat_alt)
qed simp

lemma sint_nonneg_uint: "0 \<le> sint (h :: int64) \<Longrightarrow> uint h = sint h"
  unfolding uint_sint [of h] using sint_range64 [of h] by (intro take_bit_int_eq_self) simp_all

lemma sint_pos_unat: "0 < sint (h :: int64) \<Longrightarrow> sint h < sint (h' :: int64) \<Longrightarrow> unat h < unat h'"
  using sint_nonneg_uint [of h] sint_nonneg_uint [of h'] by (simp flip: nat_uint_eq)

lemma journal_key_less:
  assumes "0 < sint h" "sint h < sint h' \<or> h = h' \<and> unat q < unat q'"
  shows "journal_key h q < journal_key h' q'"
proof (cases "h = h'")
  case True
  moreover have "unat q' < 2 ^ (8 * 4)"
    using unsigned_less [of q'] by simp
  ultimately show ?thesis
    using assms put_be_mono [of q q' 4] by (auto simp: journal_key_def pendingJournalPrefix_def list_less_append)
next
  case False
  then have "unat h < unat h'"
    using assms by (simp add: sint_pos_unat)
  moreover have "unat h' < 2 ^ (8 * 8)"
    using unsigned_less [of h'] by simp
  ultimately show ?thesis
    using put_be_mono [of h h' 8]
    by (simp add: journal_key_def pendingJournalPrefix_def list_less_append)
qed

lemma journal_key_fields:
  "length (journal_key h q) = 14" "take 2 (journal_key h q) = PendingPoolJournalDBPrefix"
  "get_be (take 8 (drop 2 (journal_key h q))) = h" "take 10 (journal_key h q) = pendingJournalPrefix h"
  by (simp_all add: journal_key_def pendingJournalPrefix_def string_bytes_def)

subsection \<open>The pools behind one interface\<close>

definition pool_of :: "journalPool \<Rightarrow> PoolState \<Rightarrow> TransactionPool" where
  "pool_of p s = (case p of journalEscrow \<Rightarrow> PoolTxEscrow s | journalMultiSig \<Rightarrow> PoolTxMultiSign s)"

definition set_pool :: "journalPool \<Rightarrow> TransactionPool \<Rightarrow> PoolState \<Rightarrow> PoolState" where
  "set_pool p tp s = (case p of journalEscrow \<Rightarrow> s\<lparr>PoolTxEscrow := tp\<rparr> | journalMultiSig \<Rightarrow> s\<lparr>PoolTxMultiSign := tp\<rparr>)"

definition mirror :: "journalPool \<Rightarrow> bytes" where
  "mirror p = (case p of journalEscrow \<Rightarrow> EscrowPoolDBPrefix | journalMultiSig \<Rightarrow> MultiSignPoolDBPrefix)"

definition pool_key :: "journalPool \<Rightarrow> Transaction \<Rightarrow> bytes" where
  "pool_key p tx = (case p of journalEscrow \<Rightarrow> tx_Hash tx | journalMultiSig \<Rightarrow> MultiSignPoolKeyFor tx)"

definition Hold :: "journalPool \<Rightarrow> Transaction \<Rightarrow> PoolState \<Rightarrow> bool \<times> PoolState" where
  "Hold p = (case p of journalEscrow \<Rightarrow> AddEscrowTransaction | journalMultiSig \<Rightarrow> AddMultiSignTransaction)"

definition Release :: "journalPool \<Rightarrow> bytes \<Rightarrow> PoolState \<Rightarrow> PoolState" where
  "Release p = (case p of journalEscrow \<Rightarrow> RemoveEscrowTransaction | journalMultiSig \<Rightarrow> RemoveMultiSignTransaction)"

lemmas pool_case_defs = pool_of_def set_pool_def mirror_def pool_key_def Hold_def Release_def

lemma set_pool_simps [simp]:
  "pool_of p (set_pool p' tp s) = (if p = p' then tp else pool_of p s)" "ps_DB (set_pool p tp s) = ps_DB s"
  "journalHeight (set_pool p tp s) = journalHeight s" "journalSeq (set_pool p tp s) = journalSeq s"
  "journalPaused (set_pool p tp s) = journalPaused s" "pool_of p (s\<lparr>ps_DB := db\<rparr>) = pool_of p s"
  "pool_of p (s\<lparr>journalPaused := b\<rparr>) = pool_of p s" "pool_of p (s\<lparr>journalHeight := h\<rparr>) = pool_of p s"
  "pool_of p (s\<lparr>journalSeq := q\<rparr>) = pool_of p s"
  by (simp_all add: pool_of_def set_pool_def split: journalPool.split)

lemma Hold_eq:
  "Hold p tx s = (let (ok, tp) = AddTransaction tx (pool_key p tx) (pool_of p s); s = set_pool p tp s in
     if ok then let s = journalPendingChange p journalAdded tx s
       in (True, s\<lparr>ps_DB := snd (StoreToDBPoolTx (mirror p) tx (ps_DB s))\<rparr>)
     else (False, s))"
  by (cases p) (auto simp: pool_case_defs AddEscrowTransaction_def AddMultiSignTransaction_def Let_def split: prod.split)

lemma Release_eq:
  "Release p hash s =
    (let s = (case GetTransactionByHash (pool_of p s) hash of
                Some tx \<Rightarrow> journalPendingChange p journalRemoved tx s | None \<Rightarrow> s);
         s = set_pool p (RemoveTransactionByHash hash (pool_of p s)) s
     in s\<lparr>ps_DB := RemoveTransactionFromDBbyHash (mirror p) hash (ps_DB s)\<rparr>)"
  by (cases p) (auto simp: pool_case_defs RemoveEscrowTransaction_def RemoveMultiSignTransaction_def Let_def split: option.split)

lemma undoPendingChange_eq:
  "undoPendingChange (pool_byte p) (kind_byte journalAdded) tx s = Release p (tx_Hash tx) s"
  "undoPendingChange (pool_byte p) (kind_byte journalRemoved) tx s = snd (Hold p tx s)"
  by (cases p; simp add: undoPendingChange_def pool_case_defs pool_byte_def kind_byte_def)+

definition view :: "PoolState \<Rightarrow> pools_view" where
  "view s p = map_of (transactions (pool_of p s))"

text \<open>The two pools keep their invariant and the database mirrors exactly what they hold.\<close>

definition pools_ok :: "PoolState \<Rightarrow> bool" where
  "pools_ok s \<longleftrightarrow> wf_map (ps_DB s) \<and>
     (\<forall>p. wf_pool (pool_of p s) \<and> typePool (pool_of p s) \<noteq> 0) \<and>
     (\<forall>p h. map_of (ps_DB s) (mirror p @ h) = map_option Transaction_GetBytes (view s p h))"

lemma GetHashFromBytes_32 [simp]: "length h = 32 \<Longrightarrow> GetHashFromBytes h = h"
  by (simp add: GetHashFromBytes_def Hash_Set_def EmptyHash_def)

lemma mirror_inj: "mirror p @ h = mirror p' @ h' \<longleftrightarrow> p = p' \<and> h = h'"
  by (cases p; cases p') (auto simp: mirror_def string_bytes_def)

lemma mirror_not_journal: "take 2 k = PendingPoolJournalDBPrefix \<Longrightarrow> mirror p @ h \<noteq> k"
  by (cases p) (auto simp: mirror_def string_bytes_def)

lemma journal_step:
  assumes "0 < sint (journalHeight s)" "\<not> journalPaused s"
  shows "journalPendingChange p kd tx s =
    s\<lparr>journalSeq := journalSeq s + 1,
      ps_DB := mput (journal_key (journalHeight s) (journalSeq s)) (pool_byte p # kind_byte kd # Transaction_GetBytes tx) (ps_DB s)\<rparr>"
  using assms by (simp add: journalPendingChange_def journal_key_def Let_def)

lemma journal_off: "journalPaused s \<Longrightarrow> journalPendingChange p kd tx s = s"
  by (simp add: journalPendingChange_def)


lemma journal_frame [simp]:
  "pool_of p' (journalPendingChange p kd tx s) = pool_of p' s"
  "journalHeight (journalPendingChange p kd tx s) = journalHeight s"
  "journalPaused (journalPendingChange p kd tx s) = journalPaused s"
  "wf_map (ps_DB s) \<Longrightarrow> wf_map (ps_DB (journalPendingChange p kd tx s))"
  by (simp_all add: journalPendingChange_def Let_def)

lemma journal_frame_mirror [simp]:
  "map_of (ps_DB (journalPendingChange p kd tx s)) (mirror p' @ h) = map_of (ps_DB s) (mirror p' @ h)"
  using mirror_not_journal [OF journal_key_fields(2) [of "journalHeight s" "journalSeq s"], of p' h]
  by (auto simp: journalPendingChange_def Let_def journal_key_def)

lemma journal_set_pool: "journalPendingChange p kd tx (set_pool p' tp s) = set_pool p' tp (journalPendingChange p kd tx s)"
  by (simp add: journalPendingChange_def Let_def set_pool_def split: journalPool.split)

text \<open>The state after an entry of one pool changed: the view and its mirror agree on the new contents,
  and the journal is the one written for the change.\<close>

definition updated :: "journalPool \<Rightarrow> (bytes \<Rightarrow> Transaction option) \<Rightarrow> PoolState \<Rightarrow> PoolState \<Rightarrow> PoolState \<Rightarrow> bool" where
  "updated p m s j s' \<longleftrightarrow> pools_ok s' \<and> view s' = (view s)(p := m) \<and>
     (\<forall>p'. bannedTransactions (pool_of p' s') = bannedTransactions (pool_of p' s) \<and>
           maxTransactions (pool_of p' s') = maxTransactions (pool_of p' s)) \<and>
     (\<forall>k. take 2 k = PendingPoolJournalDBPrefix \<longrightarrow> map_of (ps_DB s') k = map_of (ps_DB j) k) \<and>
     journalHeight s' = journalHeight j \<and> journalSeq s' = journalSeq j \<and> journalPaused s' = journalPaused j"

lemma pools_okD:
  assumes "pools_ok s"
  shows "wf_map (ps_DB s)" "wf_pool (pool_of p s)" "typePool (pool_of p s) \<noteq> 0"
    "map_of (ps_DB s) (mirror p @ h) = map_option Transaction_GetBytes (view s p h)"
  using assms by (simp_all add: pools_ok_def)

lemma Hold_effect:
  assumes ok: "pools_ok s" and fresh: "view s p (tx_Hash tx) = None" and ban: "\<not> banned (pool_of p s) (tx_Hash tx)"
    and room: "length (transactions (pool_of p s)) < maxTransactions (pool_of p s)"
  shows "fst (Hold p tx s) \<and>
    updated p ((view s p)(tx_Hash tx \<mapsto> tx)) s (journalPendingChange p journalAdded tx s) (snd (Hold p tx s))"
proof -
  have wf: "wf_pool (pool_of p s)"
    by (rule pools_okD(2) [OF ok])
  have none: "map_of (transactions (pool_of p s)) (tx_Hash tx) = None"
    using fresh by (simp add: view_def)
  obtain pr where pr: "item_priority (pool_of p s) tx (pool_key p tx) = Some pr"
    using item_priority_total pool_coreD(10) wf unfolding wf_pool_def by blast
  define tp where "tp = with_new tx pr (pool_of p s)"
  note add = AddTransaction_room [OF wf ban none room pr, folded tp_def]
  define j where "j = journalPendingChange p journalAdded tx s"
  define s' where "s' = (set_pool p tp j)\<lparr>ps_DB := mput (mirror p @ tx_Hash tx) (Transaction_GetBytes tx) (ps_DB j)\<rparr>"
  have eq: "Hold p tx s = (True, s')"
    unfolding Hold_eq add by (simp add: s'_def j_def journal_set_pool StoreToDBPoolTx_def Transaction_bytes_ne Let_def)
  have pool: "pool_of p' s' = (if p' = p then tp else pool_of p' s)" for p'
    by (simp add: s'_def j_def)
  have view: "view s' = (view s)(p := (view s p)(tx_Hash tx \<mapsto> tx))"
    by (auto simp: fun_eq_iff view_def pool tp_def with_new_transactions)
  have "wf_pool tp"
    using AddTransaction_wf [OF wf, of tx "pool_key p tx"] unfolding add by simp
  then have "pools_ok s'"
    unfolding pools_ok_def view pool using pools_okD [OF ok]
    by (auto simp: s'_def j_def mirror_inj tp_def)
  moreover have "map_of (ps_DB s') k = map_of (ps_DB j) k" if "take 2 k = PendingPoolJournalDBPrefix" for k
    using mirror_not_journal [OF that, of p "tx_Hash tx"] by (auto simp: s'_def)
  ultimately show ?thesis
    unfolding eq updated_def using view by (auto simp: pool tp_def j_def [symmetric]) (simp_all add: s'_def)
qed

lemma Hold_accepts:
  assumes "pools_ok s" "view s p (tx_Hash tx) = None" "fst (Hold p tx s)"
  shows "\<not> banned (pool_of p s) (tx_Hash tx)" "length (transactions (pool_of p s)) < maxTransactions (pool_of p s)"
proof -
  let ?r = "AddTransaction tx (pool_key p tx) (pool_of p s)"
  have acc: "fst ?r"
    using assms(3) unfolding Hold_eq by (cases ?r) (auto simp: Let_def split: if_splits)
  then show nb: "\<not> banned (pool_of p s) (tx_Hash tx)"
    using AddTransaction_banned [of "pool_of p s" tx] by auto
  have "length (transactions (pool_of p s)) \<le> maxTransactions (pool_of p s)"
    using pools_okD(2) [OF assms(1)] by (simp add: wf_pool_def)
  moreover have "length (transactions (pool_of p s)) \<noteq> maxTransactions (pool_of p s)"
    using AddTransaction_refused(1) [OF pools_okD(2,3) [OF assms(1)] nb] assms(2) acc by (auto simp: view_def)
  ultimately show "length (transactions (pool_of p s)) < maxTransactions (pool_of p s)"
    by simp
qed

lemma Release_effect:
  assumes ok: "pools_ok s" and here: "view s p (tx_Hash tx) = Some tx" and len: "length (tx_Hash tx) = 32"
  shows "updated p ((view s p)(tx_Hash tx := None)) s (journalPendingChange p journalRemoved tx s) (Release p (tx_Hash tx) s)"
proof -
  have wf: "wf_pool (pool_of p s)"
    by (rule pools_okD(2) [OF ok])
  have get: "GetTransactionByHash (pool_of p s) (tx_Hash tx) = Some tx"
    using here len by (simp add: GetTransactionByHash_def view_def)
  obtain it where it: "map_of (items (pool_of p s)) (tx_Hash tx) = Some it"
    using pool_coreD(9) [of "pool_of p s" "tx_Hash tx"] wf here by (auto simp: wf_pool_def view_def)
  define tp where "tp = RemoveTransactionByHash (tx_Hash tx) (pool_of p s)"
  have w: "without (tx_Hash tx) it (pool_of p s) tp"
    using RemoveTransactionByHash_present [of "pool_of p s" "tx_Hash tx" it] it len by (simp add: tp_def)
  define j where "j = journalPendingChange p journalRemoved tx s"
  define s' where "s' = (set_pool p tp j)\<lparr>ps_DB := mdel (mirror p @ tx_Hash tx) (ps_DB j)\<rparr>"
  have eq: "Release p (tx_Hash tx) s = s'"
    unfolding Release_eq get by (simp add: s'_def j_def tp_def RemoveTransactionFromDBbyHash_def Let_def)
  have pool: "pool_of p' s' = (if p' = p then tp else pool_of p' s)" for p'
    by (simp add: s'_def j_def)
  have view: "view s' = (view s)(p := (view s p)(tx_Hash tx := None))"
    by (auto simp: fun_eq_iff view_def pool without_transactions [OF w])
  have "pools_ok s'"
    unfolding pools_ok_def view pool using pools_okD [OF ok] without_wf [OF w wf it] w
    by (auto simp: s'_def j_def mirror_inj map_of_mdel without_def)
  moreover have "map_of (ps_DB s') k = map_of (ps_DB j) k" if "take 2 k = PendingPoolJournalDBPrefix" for k
    using mirror_not_journal [OF that, of p "tx_Hash tx"] by (auto simp: s'_def map_of_mdel)
  ultimately show ?thesis
    unfolding eq updated_def using view w by (auto simp: pool without_def j_def [symmetric]) (simp_all add: s'_def)
qed


subsection \<open>Undoing one entry\<close>

abbreviation encode_change :: "journalPool \<times> journalKind \<times> Transaction \<Rightarrow> bytes" where
  "encode_change c \<equiv> pool_byte (fst c) # kind_byte (fst (snd c)) # Transaction_GetBytes (snd (snd c))"

text \<open>A change that a rewind can undo: its transaction can be read back, and a removed one may be added
  again.\<close>

definition reversible :: "Crypto \<Rightarrow> PoolState \<Rightarrow> journalPool \<times> journalKind \<times> Transaction \<Rightarrow> bool" where
  "reversible cr s c \<longleftrightarrow> wf_Transaction (cr_enc cr) (cr_H160 cr) (snd (snd c)) \<and>
     (fst (snd c) = journalRemoved \<longrightarrow> \<not> banned (pool_of (fst c) s) (tx_Hash (snd (snd c))))"

definition fits :: "PoolState \<Rightarrow> pools_view \<Rightarrow> bool" where
  "fits s v \<longleftrightarrow> (\<forall>p. finite (dom (v p)) \<and> card (dom (v p)) \<le> maxTransactions (pool_of p s))"

lemma pools_ok_length: "pools_ok s \<Longrightarrow> length (transactions (pool_of p s)) = card (dom (view s p))"
  using pools_okD(2) [of s p] wf_map_length pool_coreD(3) by (auto simp: view_def wf_pool_def)

lemma pools_ok_fits: "pools_ok s \<Longrightarrow> fits s (view s)"
  using pools_okD(2) [of s] pools_ok_length [of s]
  by (simp add: fits_def wf_pool_def) (simp add: view_def finite_dom_map_of)

text \<open>The frame of an undone change.\<close>

definition undone :: "bytes \<Rightarrow> pools_view \<Rightarrow> PoolState \<Rightarrow> PoolState \<Rightarrow> bool" where
  "undone k v s s' \<longleftrightarrow> pools_ok s' \<and> view s' = v \<and>
     (\<forall>p. bannedTransactions (pool_of p s') = bannedTransactions (pool_of p s) \<and>
          maxTransactions (pool_of p s') = maxTransactions (pool_of p s)) \<and>
     (\<forall>k'. take 2 k' = PendingPoolJournalDBPrefix \<longrightarrow> map_of (ps_DB s') k' = (if k' = k then None else map_of (ps_DB s) k')) \<and>
     journalHeight s' = journalHeight s \<and> journalSeq s' = journalSeq s \<and> journalPaused s' = journalPaused s"

lemma undone_delete:
  assumes "updated p m s s t" "take 2 k = PendingPoolJournalDBPrefix"
  shows "undone k ((view s)(p := m)) s (t\<lparr>ps_DB := mdel k (ps_DB t)\<rparr>)"
proof -
  have v: "view (t\<lparr>ps_DB := db\<rparr>) = view t" for db
    by (simp add: fun_eq_iff view_def)
  have "pools_ok (t\<lparr>ps_DB := mdel k (ps_DB t)\<rparr>)"
    using assms(1) mirror_not_journal [OF assms(2)] unfolding updated_def pools_ok_def v by (simp add: map_of_mdel)
  then show ?thesis
    using assms(1) by (simp add: undone_def updated_def v map_of_mdel)
qed

lemma undo_change:
  assumes ok: "pools_ok s" and paused: "journalPaused s" and rev: "reversible cr s c"
    and ch: "change_view c v = Some (view s)" and fit: "fits s v"
    and key: "map_of (ps_DB s) k = Some (encode_change c)" "take 2 k = PendingPoolJournalDBPrefix"
  shows "undone k v s (undoJournalKey cr k s)"
proof -
  obtain p kd tx where c: "c = (p, kd, tx)"
    by (cases c)
  have wf: "wf_Transaction (cr_enc cr) (cr_H160 cr) tx"
    using rev by (simp add: reversible_def c)
  then have len: "length (tx_Hash tx) = 32"
    by (simp add: wf_Transaction_def)
  have dec: "Transaction_GetFromBytes (cr_enc cr) (cr_H160 cr) (Transaction_GetBytes tx) = Inr (tx, [])"
    using Transaction_round_trip [OF wf, of "[]"] by simp
  have key_eq: "undoJournalKey cr k s = (undoPendingChange (pool_byte p) (kind_byte kd) tx s)\<lparr>ps_DB := mdel k (ps_DB (undoPendingChange (pool_byte p) (kind_byte kd) tx s))\<rparr>"
    using key(1) by (simp add: undoJournalKey_def c dec Let_def Transaction_bytes_ne)
  show ?thesis
  proof (cases kd)
    case journalAdded
    with ch c have v: "v p (tx_Hash tx) = None" "view s = v(p := (v p)(tx_Hash tx \<mapsto> tx))"
      by (auto split: if_splits)
    have "view s p (tx_Hash tx) = Some tx"
      using v by simp
    note rel = Release_effect [OF ok this len, unfolded journal_off [OF paused]]
    have "undone k ((view s)(p := (view s p)(tx_Hash tx := None))) s (undoJournalKey cr k s)"
      unfolding key_eq journalAdded undoPendingChange_eq by (rule undone_delete [OF rel key(2)])
    moreover have "(view s)(p := (view s p)(tx_Hash tx := None)) = v"
      using v by (auto simp: fun_eq_iff)
    ultimately show ?thesis by simp
  next
    case journalRemoved
    with ch c have v: "v p (tx_Hash tx) = Some tx" "view s = v(p := (v p)(tx_Hash tx := None))"
      by (auto split: if_splits)
    have nb: "\<not> banned (pool_of p s) (tx_Hash tx)"
      using rev c journalRemoved by (simp add: reversible_def)
    have "card (dom (view s p)) < card (dom (v p))"
      using v fit by (auto simp: fits_def intro!: psubset_card_mono)
    then have "length (transactions (pool_of p s)) < maxTransactions (pool_of p s)"
      using fit by (simp add: fits_def pools_ok_length [OF ok]) (meson order_less_le_trans)
    moreover have "view s p (tx_Hash tx) = None"
      using v by simp
    ultimately have hold: "updated p ((view s p)(tx_Hash tx \<mapsto> tx)) s s (snd (Hold p tx s))"
      using Hold_effect [OF ok _ nb, unfolded journal_off [OF paused]] by blast
    have "undone k ((view s)(p := (view s p)(tx_Hash tx \<mapsto> tx))) s (undoJournalKey cr k s)"
      unfolding key_eq journalRemoved undoPendingChange_eq by (rule undone_delete [OF hold key(2)])
    moreover have "(view s)(p := (view s p)(tx_Hash tx \<mapsto> tx)) = v"
      using v by (auto simp: fun_eq_iff)
    ultimately show ?thesis by simp
  qed
qed


subsection \<open>Undoing a log\<close>

text \<open>The journal of a state holds a log that leads from the view \<open>a\<close> to its own.\<close>

definition logged :: "Crypto \<Rightarrow> pools_view \<Rightarrow> (bytes \<times> journalPool \<times> journalKind \<times> Transaction) list \<Rightarrow> PoolState \<Rightarrow> bool" where
  "logged cr a log s \<longleftrightarrow>
     (\<forall>(k, c) \<in> set log. take 2 k = PendingPoolJournalDBPrefix \<and> map_of (ps_DB s) k = Some (encode_change c) \<and> reversible cr s c) \<and>
     sorted_wrt (<) (map fst log) \<and> run_changes change_view (map snd log) a = Some (view s) \<and>
     (\<forall>n v. run_changes change_view (take n (map snd log)) a = Some v \<longrightarrow> fits s v)"

lemma reversible_cong:
  "bannedTransactions (pool_of (fst c) s') = bannedTransactions (pool_of (fst c) s) \<Longrightarrow> reversible cr s' c = reversible cr s c"
  by (simp add: reversible_def banned_def)

lemma undo_fold:
  assumes "pools_ok s" "journalPaused s" "logged cr a log s"
  shows "pools_ok (fold (undoJournalKey cr) (rev (map fst log)) s) \<and> view (fold (undoJournalKey cr) (rev (map fst log)) s) = a \<and>
    (\<forall>k. take 2 k = PendingPoolJournalDBPrefix \<longrightarrow>
       map_of (ps_DB (fold (undoJournalKey cr) (rev (map fst log)) s)) k = (if k \<in> fst ` set log then None else map_of (ps_DB s) k))"
  using assms
proof (induction log arbitrary: s rule: rev_induct)
  case Nil
  then show ?case by (simp add: logged_def)
next
  case (snoc e log)
  obtain k c where e: "e = (k, c)"
    by (cases e)
  note log = snoc.prems(3) [unfolded logged_def e]
  define v where "v = unchange_view c (view s)"
  have run: "run_changes change_view (map snd log) a = Some v" "change_view c v = Some (view s)"
    using pool_log.undo_last [of "map snd log" c a "view s"] log by (simp_all add: v_def)
  have fit: "fits s v"
    using log run(1) by (auto dest!: spec [of _ "length log"])
  have und: "undone k v s (undoJournalKey cr k s)"
    by (rule undo_change [OF snoc.prems(1,2) _ run(2) fit]) (use log in auto)
  have ne: "k' \<noteq> k" if "k' \<in> fst ` set log" for k'
    using log that by (auto simp: sorted_wrt_append)
  have "logged cr a log (undoJournalKey cr k s)"
    unfolding logged_def
  proof (intro conjI ballI allI impI)
    fix x
    assume x: "x \<in> set log"
    with ne have "fst x \<noteq> k" by auto
    with x log und show "case x of (k', c) \<Rightarrow> take 2 k' = PendingPoolJournalDBPrefix \<and>
        map_of (ps_DB (undoJournalKey cr k s)) k' = Some (encode_change c) \<and> reversible cr (undoJournalKey cr k s) c"
      by (auto simp: undone_def split: prod.splits intro: reversible_cong [THEN iffD2])
  next
    fix n v'
    assume "run_changes change_view (take n (map snd log)) a = Some v'"
    moreover have "take (min n (length log)) (map snd (log @ [(k, c)])) = take n (map snd log)"
      by (cases "n \<le> length log") simp_all
    ultimately have "run_changes change_view (take (min n (length log)) (map snd (log @ [(k, c)]))) a = Some v'"
      by simp
    with log have "fits s v'" by blast
    with und show "fits (undoJournalKey cr k s) v'"
      by (simp add: fits_def undone_def)
  qed (use log run und in \<open>auto simp: undone_def sorted_wrt_append\<close>)
  from snoc.IH [OF _ _ this] und snoc.prems(2) show ?case
    by (auto simp: e undone_def)
qed

text \<open>The part of the journal above a height.\<close>

definition keys_above :: "int64 \<Rightarrow> PoolState \<Rightarrow> bytes set" where
  "keys_above target s = {k. map_of (ps_DB s) k \<noteq> None \<and> (\<exists>h q. k = journal_key h q \<and> sint h > sint target)}"

text \<open>All keys of the journal have the form the journal writes.\<close>

definition journal_form :: "PoolState \<Rightarrow> bool" where
  "journal_form s \<longleftrightarrow> (\<forall>k. map_of (ps_DB s) k \<noteq> None \<and> take 2 k = PendingPoolJournalDBPrefix \<longrightarrow> (\<exists>h q. k = journal_key h q \<and> 0 < sint h))"

definition undoable :: "Crypto \<Rightarrow> int64 \<Rightarrow> pools_view \<Rightarrow> PoolState \<Rightarrow> bool" where
  "undoable cr target a s \<longleftrightarrow> (\<exists>log. logged cr a log s \<and> fst ` set log = keys_above target s)"

lemma selected_keys:
  assumes "wf_map (ps_DB s)" "journal_form s" "sorted ks" "distinct ks" "set ks = keys_above target s"
  shows "sort (filter (\<lambda>k. length k = 2 + 8 + 4 \<and> sint (get_be (take 8 (drop 2 k)) :: int64) > sint target)
    (LoadAllKeys PendingPoolJournalDBPrefix (ps_DB s))) = ks" (is "sort ?sel = ks")
proof -
  have two: "length PendingPoolJournalDBPrefix = 2"
    by (simp add: string_bytes_def)
  have "k \<in> set ?sel \<longleftrightarrow> k \<in> keys_above target s" for k
  proof
    assume k: "k \<in> set ?sel"
    then have "map_of (ps_DB s) k \<noteq> None" "take 2 k = PendingPoolJournalDBPrefix"
      unfolding map_of_eq_None_iff by (auto simp: LoadAllKeys_def two)
    with assms(2) obtain h q where "k = journal_key h q"
      unfolding journal_form_def by blast
    with k \<open>map_of (ps_DB s) k \<noteq> None\<close> show "k \<in> keys_above target s"
      by (auto simp: keys_above_def journal_key_fields)
  next
    assume "k \<in> keys_above target s"
    then obtain h q where "k = journal_key h q" "sint h > sint target" "k \<in> fst ` set (ps_DB s)"
      by (force simp: keys_above_def map_of_eq_None_iff)
    then show "k \<in> set ?sel"
      by (auto simp: LoadAllKeys_def two journal_key_fields)
  qed
  then have "set ?sel = set ks"
    using assms(5) by blast
  moreover have "distinct ?sel"
    using assms(1) by (simp add: LoadAllKeys_def)
  ultimately show ?thesis
    using assms(3,4) by (intro sorted_distinct_set_unique) (simp_all del: set_filter)
qed

lemma undo_above:
  assumes "pools_ok s" "journal_form s" "undoable cr target a s" "\<not> journalPaused s"
  shows "pools_ok (UndoPendingPoolsAbove cr target s) \<and> view (UndoPendingPoolsAbove cr target s) = a \<and>
    keys_above target (UndoPendingPoolsAbove cr target s) = {}"
proof -
  from assms(3) obtain log where log: "logged cr a log s" "fst ` set log = keys_above target s"
    unfolding undoable_def by blast
  have ks: "sorted (map fst log)" "distinct (map fst log)"
    using log(1) by (simp_all add: logged_def strict_sorted_iff)
  define sel where "sel = filter (\<lambda>k. length k = 2 + 8 + 4 \<and> sint (get_be (take 8 (drop 2 k)) :: int64) > sint target)
    (LoadAllKeys PendingPoolJournalDBPrefix (ps_DB s))"
  have sel: "sort sel = map fst log"
    unfolding sel_def using selected_keys [OF pools_okD(1) [OF assms(1)] assms(2) ks] log(2) by simp
  define t where "t = fold (undoJournalKey cr) (rev (map fst log)) (s\<lparr>journalPaused := True\<rparr>)"
  have "UndoPendingPoolsAbove cr target s = (if sel = [] then s else (fold (undoJournalKey cr) (rev (sort sel)) (s\<lparr>journalPaused := True\<rparr>))\<lparr>journalPaused := False\<rparr>)"
    by (simp add: UndoPendingPoolsAbove_def undoJournalKeys_def sel_def Let_def)
  moreover have "t\<lparr>journalPaused := False\<rparr> = s" if "sel = []"
    using that sel assms(4) by (simp add: t_def)
  ultimately have eq: "UndoPendingPoolsAbove cr target s = t\<lparr>journalPaused := False\<rparr>"
    by (simp add: sel t_def)
  have pv: "view (x\<lparr>journalPaused := b\<rparr>) = view x" "pools_ok (x\<lparr>journalPaused := b\<rparr>) = pools_ok x" for x b
    by (simp_all add: fun_eq_iff view_def pools_ok_def)
  have "logged cr a log (s\<lparr>journalPaused := True\<rparr>)"
    using log(1) by (simp add: logged_def pv reversible_def fits_def)
  from undo_fold [OF _ _ this] assms(1) have t: "pools_ok t" "view t = a"
      "\<And>k. take 2 k = PendingPoolJournalDBPrefix \<Longrightarrow> map_of (ps_DB t) k = (if k \<in> keys_above target s then None else map_of (ps_DB s) k)"
    by (simp_all add: t_def pv log(2))
  have "map_of (ps_DB t) (journal_key h q) = None" if "sint h > sint target" for h q
  proof (rule ccontr)
    assume "map_of (ps_DB t) (journal_key h q) \<noteq> None"
    with t(3) [OF journal_key_fields(2), of h q] have "journal_key h q \<notin> keys_above target s" "map_of (ps_DB s) (journal_key h q) \<noteq> None"
      by metis+
    with that show False
      unfolding keys_above_def by blast
  qed
  then have "keys_above target t = {}"
    by (fastforce simp: keys_above_def)
  then show ?thesis
    using t(1,2) unfolding eq pv by (simp add: keys_above_def)
qed


subsection \<open>Applying blocks\<close>

text \<open>What block application above \<open>target\<close> does to the two pools: journalling starts for a block
  above every journalled one, a transfer is held, one that is held and not banned is released (settled,
  cancelled or moved), and journalling stops.\<close>

inductive applying :: "Crypto \<Rightarrow> int64 \<Rightarrow> PoolState \<Rightarrow> PoolState \<Rightarrow> bool" for cr target where
  begin_block: "applying cr target s (BeginPendingPoolJournal cr h s)"
    if "sint target < sint h" "0 < sint h" "\<forall>h' q. map_of (ps_DB s) (journal_key h' q) \<noteq> None \<longrightarrow> sint h' < sint h"
| end_block: "applying cr target s (EndPendingPoolJournal s)"
| hold: "applying cr target s (snd (Hold p tx s))"
    if "sint target < sint (journalHeight s)" "0 < sint (journalHeight s)" "unat (journalSeq s) + 1 < 2 ^ 32"
      "wf_Transaction (cr_enc cr) (cr_H160 cr) tx" "view s p (tx_Hash tx) = None" "fst (Hold p tx s)"
| release: "applying cr target s (Release p (tx_Hash tx) s)"
    if "sint target < sint (journalHeight s)" "0 < sint (journalHeight s)" "unat (journalSeq s) + 1 < 2 ^ 32"
      "wf_Transaction (cr_enc cr) (cr_H160 cr) tx" "view s p (tx_Hash tx) = Some tx" "\<not> banned (pool_of p s) (tx_Hash tx)"

text \<open>The next key comes after every key of the journal.\<close>

definition next_key_last :: "PoolState \<Rightarrow> bool" where
  "next_key_last s \<longleftrightarrow> (0 < sint (journalHeight s) \<longrightarrow>
     (\<forall>h q. map_of (ps_DB s) (journal_key h q) \<noteq> None \<longrightarrow>
        sint h < sint (journalHeight s) \<or> h = journalHeight s \<and> unat q < unat (journalSeq s)))"

definition journal_inv :: "Crypto \<Rightarrow> int64 \<Rightarrow> pools_view \<Rightarrow> PoolState \<Rightarrow> bool" where
  "journal_inv cr target a s \<longleftrightarrow>
     pools_ok s \<and> journal_form s \<and> next_key_last s \<and> \<not> journalPaused s \<and> undoable cr target a s"

lemma journal_frames:
  "pools_ok (s\<lparr>journalHeight := h\<rparr>) = pools_ok s" "pools_ok (s\<lparr>journalSeq := q\<rparr>) = pools_ok s"
  "journal_form (s\<lparr>journalHeight := h\<rparr>) = journal_form s" "journal_form (s\<lparr>journalSeq := q\<rparr>) = journal_form s"
  "undoable cr target a (s\<lparr>journalHeight := h\<rparr>) = undoable cr target a s"
  "undoable cr target a (s\<lparr>journalSeq := q\<rparr>) = undoable cr target a s"
proof -
  have "view (s\<lparr>journalHeight := h\<rparr>) = view s" "view (s\<lparr>journalSeq := q\<rparr>) = view s"
    by (simp_all add: fun_eq_iff view_def)
  then show "pools_ok (s\<lparr>journalHeight := h\<rparr>) = pools_ok s" "pools_ok (s\<lparr>journalSeq := q\<rparr>) = pools_ok s"
    "journal_form (s\<lparr>journalHeight := h\<rparr>) = journal_form s" "journal_form (s\<lparr>journalSeq := q\<rparr>) = journal_form s"
    "undoable cr target a (s\<lparr>journalHeight := h\<rparr>) = undoable cr target a s"
    "undoable cr target a (s\<lparr>journalSeq := q\<rparr>) = undoable cr target a s"
    by (simp_all add: pools_ok_def journal_form_def undoable_def logged_def reversible_def fits_def keys_above_def)
qed

lemma journal_key_inject: "journal_key h q = journal_key h' q' \<longleftrightarrow> h = h' \<and> q = q'"
proof
  assume eq: "journal_key h q = journal_key h' q'"
  moreover have "get_be (drop 10 (journal_key x y)) = y" for x y
    by (simp add: journal_key_def pendingJournalPrefix_def string_bytes_def)
  ultimately have "q = q'" by metis
  with eq show "h = h' \<and> q = q'"
    using journal_key_fields(3) by metis
qed simp

text \<open>A change is journalled under a key that comes after all others.\<close>

lemma undoable_change:
  assumes inv: "journal_inv cr target a s" and h: "sint target < sint (journalHeight s)" "0 < sint (journalHeight s)"
    and rev: "reversible cr s (p, kd, tx)" and ch: "change_view (p, kd, tx) (view s) = Some ((view s)(p := m))"
    and upd: "updated p m s t s'"
    and j: "\<And>k. take 2 k = PendingPoolJournalDBPrefix \<Longrightarrow>
      map_of (ps_DB s') k = ((map_of (ps_DB s))(journal_key (journalHeight s) (journalSeq s) \<mapsto> encode_change (p, kd, tx))) k"
    and above: "keys_above target s' = insert (journal_key (journalHeight s) (journalSeq s)) (keys_above target s)"
  shows "undoable cr target a s'"
proof -
  let ?k = "journal_key (journalHeight s) (journalSeq s)" and ?c = "(p, kd, tx)"
  from inv obtain log where log: "logged cr a log s" "fst ` set log = keys_above target s"
    unfolding journal_inv_def undoable_def by blast
  have less: "k < ?k" if k: "k \<in> fst ` set log" for k
  proof -
    have "map_of (ps_DB s) k \<noteq> None" "take 2 k = PendingPoolJournalDBPrefix"
      using k log(1) by (auto simp: logged_def)
    moreover from this inv obtain h' q' where "k = journal_key h' q'" "0 < sint h'"
      unfolding journal_inv_def journal_form_def by blast
    ultimately show ?thesis
      using inv h(2) journal_key_less [of h' "journalHeight s" q' "journalSeq s"]
      by (auto simp: journal_inv_def next_key_last_def)
  qed
  have run: "run_changes change_view (map snd (log @ [(?k, ?c)])) a = Some (view s')"
    using log(1) ch upd by (simp add: logged_def run_changes_append updated_def)
  have fits: "fits s' v = fits s v" and rv: "reversible cr s' c = reversible cr s c" for v c
    using upd by (simp_all add: fits_def reversible_def banned_def updated_def)
  have ok: "pools_ok s'"
    using upd by (simp add: updated_def)
  have "logged cr a (log @ [(?k, ?c)]) s'"
    unfolding logged_def
  proof (intro conjI ballI allI impI)
    fix x
    assume "x \<in> set (log @ [(?k, ?c)])"
    then consider "x = (?k, ?c)" | "x \<in> set log" "fst x < ?k"
      using less by auto
    then show "case x of (k, c) \<Rightarrow> take 2 k = PendingPoolJournalDBPrefix \<and>
        map_of (ps_DB s') k = Some (encode_change c) \<and> reversible cr s' c"
      using log(1) j rev by cases (auto simp: logged_def rv journal_key_fields)
  next
    fix n v
    assume n: "run_changes change_view (take n (map snd (log @ [(?k, ?c)]))) a = Some v"
    show "fits s' v"
    proof (cases "n \<le> length log")
      case True
      with n log(1) show ?thesis
        by (auto simp: logged_def fits)
    next
      case False
      with n run pools_ok_fits [OF ok] show ?thesis by simp
    qed
  qed (use log(1) less run in \<open>auto simp: logged_def sorted_wrt_append\<close>)
  then show ?thesis
    unfolding undoable_def above using log(2) by (intro exI [of _ "log @ [(?k, ?c)]"]) auto
qed

lemma journal_inv_change:
  assumes inv: "journal_inv cr target a s" and h: "sint target < sint (journalHeight s)" "0 < sint (journalHeight s)"
    and q: "unat (journalSeq s) + 1 < 2 ^ 32" and rev: "reversible cr s (p, kd, tx)"
    and ch: "change_view (p, kd, tx) (view s) = Some ((view s)(p := m))"
    and upd: "updated p m s (journalPendingChange p kd tx s) s'"
  shows "journal_inv cr target a s'"
proof -
  let ?k = "journal_key (journalHeight s) (journalSeq s)"
  have inv': "pools_ok s" "journal_form s" "next_key_last s" "\<not> journalPaused s" "undoable cr target a s"
    using inv by (simp_all add: journal_inv_def)
  have j: "map_of (ps_DB s') k = ((map_of (ps_DB s))(?k \<mapsto> encode_change (p, kd, tx))) k" if "take 2 k = PendingPoolJournalDBPrefix" for k
    using upd that journal_step [OF h(2) inv'(4)] by (simp add: updated_def)
  have st: "journalHeight s' = journalHeight s" "unat (journalSeq s') = unat (journalSeq s) + 1" "\<not> journalPaused s'"
    using upd q journal_step [OF h(2) inv'(4)] inv'(4) by (simp_all add: updated_def unat_word_ariths)
  have last: "next_key_last s'"
    unfolding next_key_last_def st(1,2)
  proof (intro impI allI)
    fix h' q'
    assume "map_of (ps_DB s') (journal_key h' q') \<noteq> None"
    then consider "h' = journalHeight s" "q' = journalSeq s" | "map_of (ps_DB s) (journal_key h' q') \<noteq> None"
      unfolding j [OF journal_key_fields(2)] by (auto simp: journal_key_inject split: if_splits)
    then show "sint h' < sint (journalHeight s) \<or> h' = journalHeight s \<and> unat q' < unat (journalSeq s) + 1"
      using inv'(3) h(2) unfolding next_key_last_def by cases (simp, fastforce)
  qed
  have form: "journal_form s'"
    unfolding journal_form_def
  proof (intro allI impI)
    fix k
    assume k: "map_of (ps_DB s') k \<noteq> None \<and> take 2 k = PendingPoolJournalDBPrefix"
    then show "\<exists>h q. k = journal_key h q \<and> 0 < sint h"
      using j [of k] inv'(2) h(2) by (cases "k = ?k") (auto simp: journal_form_def)
  qed
  have above: "keys_above target s' = insert ?k (keys_above target s)"
    using j [OF journal_key_fields(2)] h(1) by (auto simp: keys_above_def split: if_splits)
  show ?thesis
    using undoable_change [OF inv h rev ch upd j above] upd form last st(3) by (simp add: journal_inv_def updated_def)
qed

lemma applying_inv: "applying cr target s s' \<Longrightarrow> journal_inv cr target a s \<Longrightarrow> journal_inv cr target a s'"
proof (induction rule: applying.induct)
  case (begin_block h s)
  have "k \<notin> fst ` set (ps_DB s)" if k: "take 10 k = pendingJournalPrefix h" for k
  proof
    assume "k \<in> fst ` set (ps_DB s)"
    then have db: "map_of (ps_DB s) k \<noteq> None"
      by (simp add: map_of_eq_None_iff)
    have "take 2 k = take 2 (take 10 k)" by (simp add: min_def)
    then have "take 2 k = PendingPoolJournalDBPrefix"
      unfolding k by (simp add: pendingJournalPrefix_def string_bytes_def)
    with db begin_block.prems obtain h' q where "k = journal_key h' q"
      unfolding journal_inv_def journal_form_def by blast
    with k db begin_block.hyps(3) show False
      using journal_key_fields(3,4) [of h' q] journal_key_fields(3,4) [of h q] by (metis journal_key_def less_irrefl append_same_eq)
  qed
  moreover have "length (pendingJournalPrefix h) = 10"
    by (simp add: pendingJournalPrefix_def string_bytes_def)
  ultimately have "LoadAllKeys (pendingJournalPrefix h) (ps_DB s) = []"
    by (auto simp: LoadAllKeys_def filter_empty_conv)
  then have "BeginPendingPoolJournal cr h s = s\<lparr>journalHeight := h, journalSeq := 0\<rparr>"
    by (simp add: BeginPendingPoolJournal_def undoPendingPoolsAt_def undoJournalKeys_def)
  then show ?case
    using begin_block by (simp add: journal_inv_def journal_frames next_key_last_def)
next
  case (end_block s)
  then show ?case
    by (simp add: EndPendingPoolJournal_def journal_inv_def journal_frames next_key_last_def)
next
  case (hold s p tx)
  have ok: "pools_ok s"
    using hold.prems by (simp add: journal_inv_def)
  note acc = Hold_accepts [OF ok hold.hyps(5,6)]
  show ?case
    by (rule journal_inv_change [OF hold.prems hold.hyps(1-3) _ _ conjunct2 [OF Hold_effect [OF ok hold.hyps(5) acc]]])
      (use hold.hyps in \<open>simp_all add: reversible_def\<close>)
next
  case (release s tx p)
  have ok: "pools_ok s"
    using release.prems by (simp add: journal_inv_def)
  have len: "length (tx_Hash tx) = 32"
    using release.hyps(4) by (simp add: wf_Transaction_def)
  show ?case
    by (rule journal_inv_change [OF release.prems release.hyps(1-3) _ _ Release_effect [OF ok release.hyps(5) len]])
      (use release.hyps in \<open>simp_all add: reversible_def\<close>)
qed

lemma rewind:
  assumes "(applying cr target)\<^sup>*\<^sup>* s s'" "pools_ok s" "journal_form s" "next_key_last s" "\<not> journalPaused s" "keys_above target s = {}"
  shows "view (UndoPendingPoolsAbove cr target s') = view s \<and> pools_ok (UndoPendingPoolsAbove cr target s')"
proof -
  have "logged cr (view s) [] s"
    using pools_ok_fits [OF assms(2)] by (simp add: logged_def)
  then have "journal_inv cr target (view s) s"
    using assms(2-) by (auto simp: journal_inv_def undoable_def intro: exI [of _ "[]"])
  with assms(1) have "journal_inv cr target (view s) s'"
    by (induction rule: rtranclp_induct) (auto intro: applying_inv)
  then show ?thesis
    using undo_above [of s' cr target "view s"] by (simp add: journal_inv_def)
qed


text \<open>C15: A rewind puts the escrow and multi-signature pools back. Whatever blocks above the target are
  applied, each journalled under its height, undoing the journal above the target leaves in both pools
  exactly the transactions they held before, and leaves the database mirroring them.\<close>

theorem rewind_restores_pools:
  assumes "(applying cr target)\<^sup>*\<^sup>* s s'" "pools_ok s" "journal_form s" "next_key_last s" "\<not> journalPaused s"
    "keys_above target s = {}"
  shows "let u = UndoPendingPoolsAbove cr target s' in
    map_of (transactions (PoolTxEscrow u)) = map_of (transactions (PoolTxEscrow s)) \<and>
    map_of (transactions (PoolTxMultiSign u)) = map_of (transactions (PoolTxMultiSign s)) \<and> pools_ok u"
proof -
  have "map_of (transactions (PoolTxEscrow t)) = view t journalEscrow" "map_of (transactions (PoolTxMultiSign t)) = view t journalMultiSig" for t
    by (simp_all add: view_def pool_of_def)
  then show ?thesis
    using rewind [OF assms] by (simp add: Let_def)
qed

lemma sample_pools_ok: "pools_ok (sample_pools\<lparr>journalHeight := h, journalSeq := q\<rparr>)"
  by (simp add: pools_ok_def sample_pools_def view_def pool_of_def NewTransactionPool_wf split: journalPool.split)
    (simp add: NewTransactionPool_def)

theorem rewind_restores_pools_witness:
  "let cr = \<lparr>cr_enc = sample_enc, cr_H160 = (\<lambda>_. []), cr_H256 = (\<lambda>_. [])\<rparr>;
       s = EndPendingPoolJournal (snd (AddEscrowTransaction sample_tx (BeginPendingPoolJournal cr 5 sample_pools)))
   in map_of (transactions (PoolTxEscrow s)) (tx_Hash sample_tx) = Some sample_tx \<and>
      transactions (PoolTxEscrow (UndoPendingPoolsAbove cr 4 s)) = []"
proof -
  let ?cr = "\<lparr>cr_enc = sample_enc, cr_H160 = (\<lambda>_. []), cr_H256 = (\<lambda>_. [])\<rparr>"
  let ?b = "sample_pools\<lparr>journalHeight := 5, journalSeq := 0\<rparr>"
  have b: "BeginPendingPoolJournal ?cr 5 sample_pools = ?b"
    by (simp add: BeginPendingPoolJournal_def undoPendingPoolsAt_def undoJournalKeys_def LoadAllKeys_def sample_pools_def)
  have e: "AddEscrowTransaction = Hold journalEscrow"
    by (simp add: Hold_def)
  have fresh: "view ?b journalEscrow (tx_Hash sample_tx) = None" "\<not> banned (pool_of journalEscrow ?b) (tx_Hash sample_tx)"
      "length (transactions (pool_of journalEscrow ?b)) < maxTransactions (pool_of journalEscrow ?b)"
    by (simp_all add: view_def pool_of_def sample_pools_def NewTransactionPool_def banned_def)
  note hold = Hold_effect [OF sample_pools_ok fresh]
  define s where "s = EndPendingPoolJournal (snd (Hold journalEscrow sample_tx ?b))"
  have "applying ?cr 4 sample_pools ?b"
    using begin_block [of 4 5 sample_pools ?cr] unfolding b by (simp add: sample_pools_def)
  moreover have "applying ?cr 4 ?b (snd (Hold journalEscrow sample_tx ?b))"
    using hold fresh(1) sample_tx_wf [of "\<lambda>_. []"] by (intro applying.hold) (simp_all add: sample_pools_def)
  moreover have "applying ?cr 4 (snd (Hold journalEscrow sample_tx ?b)) s"
    unfolding s_def by (rule end_block)
  ultimately have "(applying ?cr 4)\<^sup>*\<^sup>* sample_pools s"
    by (meson r_into_rtranclp rtranclp.rtrancl_into_rtrancl)
  moreover have "pools_ok sample_pools"
    using sample_pools_ok [of 0 0] by (simp add: sample_pools_def)
  moreover have "journal_form sample_pools" "next_key_last sample_pools" "\<not> journalPaused sample_pools" "keys_above 4 sample_pools = {}"
    by (simp_all add: journal_form_def next_key_last_def keys_above_def sample_pools_def)
  ultimately have "map_of (transactions (PoolTxEscrow (UndoPendingPoolsAbove ?cr 4 s))) = map_of (transactions (PoolTxEscrow sample_pools))"
    using rewind_restores_pools [of ?cr 4 sample_pools s] by (simp add: Let_def)
  then have "transactions (PoolTxEscrow (UndoPendingPoolsAbove ?cr 4 s)) = []"
    by (cases "transactions (PoolTxEscrow (UndoPendingPoolsAbove ?cr 4 s))")
      (auto simp: sample_pools_def NewTransactionPool_def fun_eq_iff split: if_splits)
  moreover have "map_of (transactions (PoolTxEscrow s)) = view (snd (Hold journalEscrow sample_tx ?b)) journalEscrow"
    by (simp add: s_def EndPendingPoolJournal_def view_def pool_of_def)
  ultimately show ?thesis
    unfolding Let_def b e s_def [symmetric] using hold by (simp add: updated_def)
qed

end
