(* ===== verification/Heights.thy ===== *)
theory Heights
  imports Account
begin

text \<open>
  Which heights are stored: the search for the last contiguous height (\<open>database/helperDB.go\<close>), the
  record of the highest snapshot (\<open>account/heightMeta.go\<close>), snapshot retention
  (\<open>account/snapshotRetention.go\<close>), and storing and loading the accounts snapshot
  (\<open>account/accountsStates.go\<close>).

  Both loops of the search run until they find a height that is not stored, so they are partial
  functions: \<open>None\<close> is a search that never returns. A lookup is \<open>Inl\<close> when the database fails.
\<close>

subsection \<open>The last contiguous height\<close>

partial_function (option) probe_loop :: "(int64 \<Rightarrow> bool res) \<Rightarrow> int64 \<Rightarrow> int64 \<Rightarrow> (err option \<times> int64 \<times> int64) option" where
  "probe_loop exists lo hi =
    (case exists hi of
       Inl e \<Rightarrow> Some (Some e, lo, hi)
     | Inr ok \<Rightarrow> if \<not> ok then Some (None, lo, hi) else probe_loop exists hi (hi * 2))"

partial_function (option) boundary_loop :: "(int64 \<Rightarrow> bool res) \<Rightarrow> int64 \<Rightarrow> int64 \<Rightarrow> (err option \<times> int64) option" where
  "boundary_loop exists lo hi =
    (if sint (hi - lo) > 1 then
       let mid = lo + go_div (hi - lo) 2 in
       case exists mid of
         Inl e \<Rightarrow> Some (Some e, lo)
       | Inr ok \<Rightarrow> if ok then boundary_loop exists mid hi else boundary_loop exists lo mid
     else Some (None, lo))"

definition LastContiguousHeight :: "(int64 \<Rightarrow> bool res) \<Rightarrow> (err option \<times> int64) option" where
  "LastContiguousHeight exists =
    (case exists 0 of
       Inl e \<Rightarrow> Some (Some e, -1)
     | Inr ok \<Rightarrow>
         if \<not> ok then Some (None, -1)
         else case probe_loop exists 0 1 of
             None \<Rightarrow> None
           | Some (Some e, lo, hi) \<Rightarrow> Some (Some e, lo)
           | Some (None, lo, hi) \<Rightarrow> boundary_loop exists lo hi)"

text \<open>The lookups of a database that stores the heights below \<open>n\<close> and may fail on any of them.\<close>

definition stores_below :: "int \<Rightarrow> (int64 \<Rightarrow> bool res) \<Rightarrow> bool" where
  "stores_below n exists \<longleftrightarrow> (\<forall>h. exists h = Inr (0 \<le> sint h \<and> sint h < n) \<or> (\<exists>e. exists h = Inl e))"

lemma sint_word_of_int64: "- (2 ^ 63) \<le> k \<Longrightarrow> k < 2 ^ 63 \<Longrightarrow> sint (word_of_int k :: int64) = k"
  by (simp add: signed_of_int signed_take_bit_int_eq_self)

lemma stores_belowE:
  assumes "stores_below n exists"
  obtains e where "exists h = Inl e" | "exists h = Inr True" "0 \<le> sint h" "sint h < n" | "exists h = Inr False" "\<not> (0 \<le> sint h \<and> sint h < n)"
  using assms unfolding stores_below_def by (metis (full_types))

lemma probe_loop_returns:
  assumes "stores_below n exists" "n \<le> 2 ^ 62" "0 \<le> sint lo" "sint lo < n" "sint lo < sint hi" "sint hi \<le> 2 * sint lo \<or> sint hi = 1"
  shows "\<exists>e lo' hi'. probe_loop exists lo hi = Some (e, lo', hi') \<and> 0 \<le> sint lo' \<and> sint lo' < n \<and> sint lo' < sint hi' \<and>
    sint hi' \<le> 2 ^ 62 + 2 ^ 62 - 1 \<and> (e = None \<longrightarrow> n \<le> sint hi') \<and> (\<forall>x. e = Some x \<longrightarrow> (\<exists>h. exists h = Inl x))"
  using assms
proof (induction "nat (n - sint hi)" arbitrary: lo hi rule: less_induct)
  case less
  from less.prems(1) show ?case
  proof (cases rule: stores_belowE [where h = hi])
    case (1 e)
    then show ?thesis
      using less.prems by (subst probe_loop.simps) auto
  next
    case 2
    have two: "sint (hi * 2) = 2 * sint hi"
      using sint_mult64 [of hi 2] 2 less.prems(2) by simp
    have "\<exists>e lo' hi'. probe_loop exists hi (hi * 2) = Some (e, lo', hi') \<and> 0 \<le> sint lo' \<and> sint lo' < n \<and> sint lo' < sint hi' \<and>
        sint hi' \<le> 2 ^ 62 + 2 ^ 62 - 1 \<and> (e = None \<longrightarrow> n \<le> sint hi') \<and> (\<forall>x. e = Some x \<longrightarrow> (\<exists>h. exists h = Inl x))"
      using less.prems 2 two by (intro less.hyps) simp_all
    then show ?thesis
      by (subst probe_loop.simps) (simp add: 2)
  next
    case 3
    then show ?thesis
      using less.prems by (subst probe_loop.simps) auto
  qed
qed

lemma boundary_loop_returns:
  assumes "stores_below n exists" "0 \<le> sint lo" "sint lo < n" "n \<le> sint hi" "sint lo < sint hi"
  shows "\<exists>e lo'. boundary_loop exists lo hi = Some (e, lo') \<and> 0 \<le> sint lo' \<and> sint lo' < n \<and> (e = None \<longrightarrow> sint lo' = n - 1) \<and> (\<forall>x. e = Some x \<longrightarrow> (\<exists>h. exists h = Inl x))"
  using assms
proof (induction "nat (sint hi - sint lo)" arbitrary: lo hi rule: less_induct)
  case less
  let ?mid = "lo + go_div (hi - lo) 2"
  have d: "sint (hi - lo) = sint hi - sint lo"
    using less.prems sint_range64 [of hi] by (intro sint_diff64) auto
  have half: "sint (go_div (hi - lo) 2) = (sint hi - sint lo) div 2"
    unfolding go_div_def d using less.prems sint_range64 [of hi] by (subst sint_word_of_int64) (auto simp: signed_divide_int_def)
  have mid: "sint ?mid = sint lo + (sint hi - sint lo) div 2"
    unfolding half [symmetric] using less.prems half sint_range64 [of hi] by (intro sint_add64) auto
  show ?case
  proof (cases "sint hi - sint lo > 1")
    case False
    then show ?thesis
      using less.prems d by (subst boundary_loop.simps) auto
  next
    case True
    from less.prems(1) show ?thesis
    proof (cases rule: stores_belowE [where h = ?mid])
      case (1 e)
      then show ?thesis
        using less.prems True d by (subst boundary_loop.simps) (auto simp: Let_def)
    next
      case 2
      have "\<exists>e lo'. boundary_loop exists ?mid hi = Some (e, lo') \<and> 0 \<le> sint lo' \<and> sint lo' < n \<and> (e = None \<longrightarrow> sint lo' = n - 1) \<and> (\<forall>x. e = Some x \<longrightarrow> (\<exists>h. exists h = Inl x))"
        using less.prems 2 mid True by (intro less.hyps) auto
      then show ?thesis
        using True d 2 by (subst boundary_loop.simps) (simp add: Let_def)
    next
      case 3
      have "\<exists>e lo'. boundary_loop exists lo ?mid = Some (e, lo') \<and> 0 \<le> sint lo' \<and> sint lo' < n \<and> (e = None \<longrightarrow> sint lo' = n - 1) \<and> (\<forall>x. e = Some x \<longrightarrow> (\<exists>h. exists h = Inl x))"
        using less.prems 3 mid True by (intro less.hyps) auto
      then show ?thesis
        using True d 3 by (subst boundary_loop.simps) (simp add: Let_def)
    qed
  qed
qed

text \<open>C37: The search for the last stored height always returns. When heights are stored contiguously below
  \<open>n\<close> it returns \<open>n - 1\<close>; when a lookup fails it returns that error and a height that is stored, or \<open>-1\<close>.\<close>

theorem last_contiguous_height_found:
  assumes "stores_below n exists" "0 \<le> n" "n \<le> 2 ^ 62"
  shows "\<exists>e h. LastContiguousHeight exists = Some (e, h) \<and> -1 \<le> sint h \<and> sint h < n \<and>
    (e = None \<longrightarrow> sint h = n - 1) \<and> (\<forall>x. e = Some x \<longrightarrow> (\<exists>h. exists h = Inl x))"
  using assms(1)
proof (cases rule: stores_belowE [where h = 0])
  case (1 e)
  then show ?thesis
    using assms(2) by (auto simp: LastContiguousHeight_def)
next
  case 2
  then have "0 < n" by simp
  with probe_loop_returns [OF assms(1,3), of 0 1] obtain e lo hi where
    p: "probe_loop exists 0 1 = Some (e, lo, hi)" "0 \<le> sint lo" "sint lo < n" "sint lo < sint hi" "e = None \<longrightarrow> n \<le> sint hi"
      "\<forall>x. e = Some x \<longrightarrow> (\<exists>h. exists h = Inl x)"
    by auto
  show ?thesis
  proof (cases e)
    case None
    with boundary_loop_returns [OF assms(1) p(2,3) _ p(4)] p show ?thesis
      by (auto simp: LastContiguousHeight_def 2)
  next
    case (Some x)
    with p show ?thesis
      by (simp add: LastContiguousHeight_def 2)
  qed
next
  case 3
  then show ?thesis
    using assms(2) by (simp add: LastContiguousHeight_def)
qed

theorem last_contiguous_height_found_witness:
  "\<exists>h. LastContiguousHeight (\<lambda>h. Inr (0 \<le> sint h \<and> sint h < 1000)) = Some (None, h) \<and> sint h = 999"
proof -
  let ?ex = "\<lambda>h :: int64. Inr (0 \<le> sint h \<and> sint h < 1000) :: bool res"
  have below: "stores_below 1000 ?ex"
    by (simp add: stores_below_def)
  from last_contiguous_height_found [OF this] show ?thesis
    by auto
qed

subsection \<open>The record of the highest snapshot\<close>

abbreviation (input) AccountsDBPrefix :: bytes where "AccountsDBPrefix \<equiv> string_bytes ''AC''"
abbreviation (input) StakingAccountsDBPrefix :: bytes where "StakingAccountsDBPrefix \<equiv> string_bytes ''SA''"
abbreviation (input) DexAccountsDBPrefix :: bytes where "DexAccountsDBPrefix \<equiv> string_bytes ''DA''"
abbreviation (input) StateCommitDBPrefix :: bytes where "StateCommitDBPrefix \<equiv> string_bytes ''SC''"

definition storedHeightMetaKey :: "bytes \<Rightarrow> bytes" where
  "storedHeightMetaKey prefix = prefix @ string_bytes ''LAST''"

definition lastStoredHeightMeta :: "DB \<Rightarrow> bytes \<Rightarrow> int64 option" where
  "lastStoredHeightMeta db prefix =
    (case map_of db (storedHeightMetaKey prefix) of
       None \<Rightarrow> None
     | Some b \<Rightarrow> if length b \<noteq> 8 then None else Some (get_le b))"

definition setLastStoredHeightMeta :: "bytes \<Rightarrow> int64 \<Rightarrow> DB \<Rightarrow> DB" where
  "setLastStoredHeightMeta prefix height db = mput (storedHeightMetaKey prefix) (GetByteInt64 height) db"

definition raiseLastStoredHeightMeta :: "bytes \<Rightarrow> int64 \<Rightarrow> DB \<Rightarrow> DB" where
  "raiseLastStoredHeightMeta prefix height db =
    (case lastStoredHeightMeta db prefix of
       Some cur \<Rightarrow> if sint cur \<ge> sint height then db else setLastStoredHeightMeta prefix height db
     | None \<Rightarrow> setLastStoredHeightMeta prefix height db)"

definition SetLastStoredSnapshotHeights :: "int64 \<Rightarrow> DB \<Rightarrow> DB" where
  "SetLastStoredSnapshotHeights height db =
     setLastStoredHeightMeta DexAccountsDBPrefix height
       (setLastStoredHeightMeta StakingAccountsDBPrefix height (setLastStoredHeightMeta AccountsDBPrefix height db))"

subsection \<open>Snapshot retention\<close>

abbreviation (input) SnapshotRetentionBlocks :: int64 where "SnapshotRetentionBlocks \<equiv> 4320"
abbreviation (input) SnapshotCheckpointInterval :: int64 where "SnapshotCheckpointInterval \<equiv> 8640"

definition snapshotsToPrune :: "int64 list \<Rightarrow> int64 \<Rightarrow> int64 list" where
  "snapshotsToPrune heights tip =
    (let windowFloor = tip - SnapshotRetentionBlocks in
     filter (\<lambda>h. \<not> (sint h \<le> 0 \<or> sint h \<ge> sint windowFloor \<or> go_mod h SnapshotCheckpointInterval = 0)) heights)"

definition storedSnapshotHeights :: "bytes \<Rightarrow> DB \<Rightarrow> int64 list" where
  "storedSnapshotHeights prefix db =
     map (\<lambda>k. get_le (drop (length prefix) k)) (filter (\<lambda>k. length k = length prefix + 8) (LoadAllKeys prefix db))"

definition ClosestStoredSnapshotHeight :: "bytes \<Rightarrow> int64 \<Rightarrow> DB \<Rightarrow> int64" where
  "ClosestStoredSnapshotHeight prefix height db =
     foldl (\<lambda>best h. if sint h \<le> sint height \<and> sint h > sint best then h else best) (-1) (storedSnapshotHeights prefix db)"

definition pruneSnapshots :: "bytes \<Rightarrow> int64 \<Rightarrow> DB \<Rightarrow> nat \<times> DB" where
  "pruneSnapshots prefix tip db =
    (let drops = snapshotsToPrune (storedSnapshotHeights prefix db) tip
     in (length drops, foldl (\<lambda>db h. mdel (prefix @ GetByteInt64 h) db) db drops))"

definition PruneStateSnapshots :: "int64 \<Rightarrow> DB \<Rightarrow> DB" where
  "PruneStateSnapshots tip db =
     foldl (\<lambda>db prefix. snd (pruneSnapshots prefix tip db)) db
       [AccountsDBPrefix, StakingAccountsDBPrefix, DexAccountsDBPrefix, StateCommitDBPrefix]"

subsection \<open>Storing and loading the accounts\<close>

text \<open>An account of an old snapshot still carries its history; it moves to the index. \<open>ok\<close> is the outcome
  of the writes; the first failure leaves everything as it is.\<close>

definition migrate_lists :: "bytes \<Rightarrow> bytes \<Rightarrow> bytes list \<Rightarrow> DB \<Rightarrow> DB" where
  "migrate_lists prefix address hashes db =
     foldl (\<lambda>db (seq, hash). mput (txHistoryKey prefix address (word_of_nat seq)) hash db) db (enumerate 0 hashes)"

definition migrateTxHistoryLocked :: "bool \<Rightarrow> AccountsType \<times> DB \<Rightarrow> AccountsType \<times> DB" where
  "migrateTxHistoryLocked ok = (\<lambda>(at, db).
    let full = (\<lambda>(address, acc). acc_TransactionsSender acc \<noteq> [] \<or> acc_TransactionsRecipient acc \<noteq> []) in
    if \<not> ok then (at, db)
    else
      (at\<lparr>AllAccounts := map (\<lambda>(address, acc).
           (address, if full (address, acc)
                     then acc\<lparr>acc_SentCount := word_of_nat (length (acc_TransactionsSender acc)),
                              acc_ReceivedCount := word_of_nat (length (acc_TransactionsRecipient acc)),
                              acc_TransactionsSender := [], acc_TransactionsRecipient := []\<rparr>
                     else acc)) (AllAccounts at)\<rparr>,
       foldl (\<lambda>db (address, acc).
           migrate_lists TxHistoryReceivedDBPrefix address (acc_TransactionsRecipient acc)
             (migrate_lists TxHistorySentDBPrefix address (acc_TransactionsSender acc) db))
         db (filter full (AllAccounts at))))"

definition StoreAccounts :: "int64 \<Rightarrow> int64 \<Rightarrow> AccountsType \<Rightarrow> DB \<Rightarrow> DB" where
  "StoreAccounts current height at db =
    (let height = (if sint height < 0 then current else height) in
     raiseLastStoredHeightMeta AccountsDBPrefix height
       (mput (AccountsDBPrefix @ GetByteInt64 height) (AccountsType_Marshal at) db))"

definition RemoveAccountsFromDB :: "int64 \<Rightarrow> DB \<Rightarrow> DB" where
  "RemoveAccountsFromDB height db = mdel (AccountsDBPrefix @ GetByteInt64 height) db"

definition AccountsStoredAtHeight :: "DB \<Rightarrow> int64 \<Rightarrow> bool" where
  "AccountsStoredAtHeight db height \<longleftrightarrow>
     \<not> sint height < 0 \<and> map_of db (AccountsDBPrefix @ GetByteInt64 height) \<noteq> None"

definition LastHeightStoredInAccounts :: "DB \<Rightarrow> (err option \<times> int64) option" where
  "LastHeightStoredInAccounts db =
    (case lastStoredHeightMeta db AccountsDBPrefix of
       Some h \<Rightarrow> Some (None, h)
     | None \<Rightarrow> LastContiguousHeight (\<lambda>h. Inr (map_of db (AccountsDBPrefix @ GetByteInt64 h) \<noteq> None)))"

text \<open>\<open>Inl\<close> is a load that failed; what it leaves of the accounts is not described. \<open>None\<close> is a search
  for the last height that never returns.\<close>

definition LoadAccounts :: "bool \<Rightarrow> int64 \<Rightarrow> AccountsType \<times> DB \<Rightarrow> (AccountsType \<times> DB) res option" where
  "LoadAccounts ok height = (\<lambda>(at, db).
    case (if sint height < 0 then map_option snd (LastHeightStoredInAccounts db) else Some height) of
      None \<Rightarrow> None
    | Some height \<Rightarrow> Some
        (case map_of db (AccountsDBPrefix @ GetByteInt64 height) of
           None \<Rightarrow> Inl (Errorf ''key not found'')
         | Some b \<Rightarrow> bindR (AccountsType_Unmarshal at b) (\<lambda>at'. Inr (migrateTxHistoryLocked ok (at', db)))))"


subsection \<open>What retention keeps\<close>

lemma bit_get_le: "bit (get_le bs :: 'a::len word) i \<Longrightarrow> i < 8 * length bs"
proof (induction bs arbitrary: i)
  case (Cons b bs)
  then consider "bit b i" | "8 \<le> i" "bit (get_le bs :: 'a word) (i - 8)"
    by (auto simp: bit_simps)
  then show ?case
  proof cases
    case 1
    then show ?thesis
      using bit_imp_le_length [of b i] by simp
  next
    case 2
    then show ?thesis
      using Cons.IH [of "i - 8"] by simp
  qed
qed simp

lemma put_le_get_le:
  "8 * length bs \<le> LENGTH('a) \<Longrightarrow> put_le (length bs) (get_le bs :: 'a::len word) = bs"
proof (induction bs)
  case (Cons b bs)
  let ?w = "get_le bs :: 'a word"
  have low: "ucast (or (ucast b) (push_bit 8 ?w) :: 'a word) = b"
    using Cons.prems by (intro bit_word_eqI) (auto simp: bit_simps)
  have "drop_bit 8 (or (ucast b) (push_bit 8 ?w) :: 'a word) = ?w"
  proof (rule bit_word_eqI)
    fix i assume "i < LENGTH('a)"
    then show "bit (drop_bit 8 (or (ucast b) (push_bit 8 ?w) :: 'a word)) i = bit ?w i"
      using bit_get_le [where bs = bs and i = i and 'a = 'a] bit_imp_le_length [of b "8 + i"] Cons.prems by (auto simp: bit_simps)
  qed
  then show ?case
    using Cons low by simp
qed simp

lemma stored_height_iff:
  "h \<in> set (storedSnapshotHeights prefix db) \<longleftrightarrow> map_of db (prefix @ GetByteInt64 h) \<noteq> None"
proof
  assume "h \<in> set (storedSnapshotHeights prefix db)"
  then obtain k where k: "k \<in> fst ` set db" "take (length prefix) k = prefix" "length k = length prefix + 8" "h = get_le (drop (length prefix) k)"
    by (auto simp: storedSnapshotHeights_def LoadAllKeys_def)
  have "put_le 8 h = drop (length prefix) k"
    using put_le_get_le [of "drop (length prefix) k", where 'a = 64] k(3,4) by simp
  then have "prefix @ GetByteInt64 h = k"
    using k(2) by (metis GetByteInt64_def append_take_drop_id)
  with k(1) show "map_of db (prefix @ GetByteInt64 h) \<noteq> None"
    by (simp add: map_of_eq_None_iff)
next
  assume "map_of db (prefix @ GetByteInt64 h) \<noteq> None"
  then have "prefix @ GetByteInt64 h \<in> fst ` set db"
    by (simp add: map_of_eq_None_iff)
  then show "h \<in> set (storedSnapshotHeights prefix db)"
    by (force simp: storedSnapshotHeights_def LoadAllKeys_def GetByteInt64_def intro!: image_eqI [where x = "prefix @ GetByteInt64 h"])
qed

lemma foldl_mdel: "map_of (foldl (\<lambda>db h. mdel (f h) db) db hs) k = (if k \<in> f ` set hs then None else map_of db k)"
  by (induction hs arbitrary: db) (auto simp: map_of_mdel)

text \<open>Pruning removes a snapshot exactly when it is neither genesis, nor in the recent window, nor a
  checkpoint.\<close>

definition retained :: "int64 \<Rightarrow> int64 \<Rightarrow> bool" where
  "retained tip h \<longleftrightarrow> sint h \<le> 0 \<or> sint (tip - SnapshotRetentionBlocks) \<le> sint h \<or> go_mod h SnapshotCheckpointInterval = 0"

lemma prune_lookup:
  "map_of (snd (pruneSnapshots prefix tip db)) (prefix @ GetByteInt64 h) =
     (if retained tip h then map_of db (prefix @ GetByteInt64 h) else None)"
proof -
  have "prefix @ GetByteInt64 h \<in> (\<lambda>h. prefix @ GetByteInt64 h) ` set (snapshotsToPrune (storedSnapshotHeights prefix db) tip)
      \<longleftrightarrow> \<not> retained tip h \<and> map_of db (prefix @ GetByteInt64 h) \<noteq> None"
    using stored_height_iff [of h prefix db]
    by (auto simp: snapshotsToPrune_def Let_def retained_def)
  then show ?thesis
    unfolding pruneSnapshots_def Let_def snd_conv foldl_mdel by auto
qed

text \<open>The closest stored height is the greatest stored one at or below the request.\<close>

lemma closest_fold:
  fixes b :: int64
  assumes "sint b \<le> sint t" "c = foldl (\<lambda>best h. if sint h \<le> sint t \<and> sint h > sint best then h else best) b hs"
  shows "sint b \<le> sint c \<and> sint c \<le> sint t \<and> (c = b \<or> c \<in> set hs) \<and> (\<forall>h \<in> set hs. sint h \<le> sint t \<longrightarrow> sint h \<le> sint c)"
  using assms
proof (induction hs arbitrary: b)
  case (Cons h hs)
  let ?b = "if sint h \<le> sint t \<and> sint h > sint b then h else b"
  have "sint ?b \<le> sint t" "c = foldl (\<lambda>best h. if sint h \<le> sint t \<and> sint h > sint best then h else best) ?b hs"
    using Cons.prems by simp_all
  from Cons.IH [OF this] show ?case
    by (auto split: if_splits)
qed simp

lemma closest_stored:
  assumes "0 \<le> sint t" "c = ClosestStoredSnapshotHeight prefix t db"
  shows "sint c \<le> sint t" "c = -1 \<or> map_of db (prefix @ GetByteInt64 c) \<noteq> None"
    "map_of db (prefix @ GetByteInt64 h) \<noteq> None \<Longrightarrow> sint h \<le> sint t \<Longrightarrow> sint h \<le> sint c"
  using closest_fold [of "-1" t c "storedSnapshotHeights prefix db"] assms stored_height_iff [of _ prefix db]
  by (auto simp: ClosestStoredSnapshotHeight_def)

lemma checkpoint_below:
  assumes "0 \<le> sint (t :: int64)"
  defines "h \<equiv> word_of_int (8640 * (sint t div 8640)) :: int64"
  shows "sint h = 8640 * (sint t div 8640)" "go_mod h SnapshotCheckpointInterval = 0"
proof -
  have "8640 * (sint t div 8640) \<le> sint t" "0 \<le> 8640 * (sint t div 8640)"
    using assms(1) by simp_all
  then show "sint h = 8640 * (sint t div 8640)"
    unfolding h_def using sint_range64 [of t] by (intro sint_word_of_int64) linarith+
  then show "go_mod h SnapshotCheckpointInterval = 0"
    by (simp add: go_mod_def signed_modulo_int_def signed_divide_int_def)
qed

text \<open>Retention leaves a state to rewind to. When a snapshot is stored at every height up to the tip,
  then after pruning the closest stored snapshot at or below any height exists and lies less than one
  checkpoint interval below it, and within the recent window it is that height itself.\<close>

theorem retention_leaves_rewind_target:
  assumes "\<forall>h. 0 \<le> sint h \<and> sint h \<le> sint tip \<longrightarrow> map_of db (prefix @ GetByteInt64 h) \<noteq> None"
    and "0 \<le> sint t" "sint t \<le> sint tip"
  shows "let db' = snd (pruneSnapshots prefix tip db); c = ClosestStoredSnapshotHeight prefix t db' in
    map_of db' (prefix @ GetByteInt64 c) = map_of db (prefix @ GetByteInt64 c) \<and> map_of db' (prefix @ GetByteInt64 c) \<noteq> None \<and>
    sint t - sint SnapshotCheckpointInterval < sint c \<and> sint c \<le> sint t \<and>
    (sint tip - sint SnapshotRetentionBlocks \<le> sint t \<longrightarrow> c = t)"
proof -
  define db' where "db' = snd (pruneSnapshots prefix tip db)"
  define c where "c = ClosestStoredSnapshotHeight prefix t db'"
  note closest = closest_stored [OF assms(2) c_def]
  have look: "map_of db' (prefix @ GetByteInt64 h) = (if retained tip h then map_of db (prefix @ GetByteInt64 h) else None)" for h
    unfolding db'_def by (rule prune_lookup)
  define h where "h = (word_of_int (8640 * (sint t div 8640)) :: int64)"
  note cp = checkpoint_below [OF assms(2), folded h_def]
  have hb: "0 \<le> sint h" "sint h \<le> sint t" "sint t - 8640 < sint h"
    using assms(2) cp(1) by simp_all
  then have "map_of db' (prefix @ GetByteInt64 h) \<noteq> None"
    using assms(1,3) cp(2) by (simp add: look retained_def)
  then have "sint h \<le> sint c"
    using closest(3) hb(2) by blast
  then have "c \<noteq> -1"
    using hb(1) by auto
  then have here: "map_of db' (prefix @ GetByteInt64 c) \<noteq> None"
    using closest(2) by blast
  have floor: "sint (tip - SnapshotRetentionBlocks) = sint tip - 4320"
    using assms(2,3) sint_range64 [of tip] by (subst sint_diff64) auto
  have "c = t" if "sint tip - 4320 \<le> sint t"
  proof -
    have "map_of db' (prefix @ GetByteInt64 t) \<noteq> None"
      using assms that floor by (simp add: look retained_def)
    then show ?thesis
      using closest(1,3) by (metis order_antisym order_refl sint_inject)
  qed
  then show ?thesis
    unfolding Let_def db'_def [symmetric] c_def [symmetric]
    using here closest(1) hb(3) \<open>sint h \<le> sint c\<close> look [of c] by (auto split: if_splits)
qed

theorem retention_leaves_rewind_target_witness:
  "let db = [(AccountsDBPrefix @ GetByteInt64 0, [1]), (AccountsDBPrefix @ GetByteInt64 1, [2])] in
   ClosestStoredSnapshotHeight AccountsDBPrefix 1 (snd (pruneSnapshots AccountsDBPrefix 1 db)) = 1"
proof -
  let ?db = "[(AccountsDBPrefix @ GetByteInt64 0, [1]), (AccountsDBPrefix @ GetByteInt64 1, [2])] :: DB"
  have "map_of ?db (AccountsDBPrefix @ GetByteInt64 h) \<noteq> None" if "0 \<le> sint h \<and> sint h \<le> sint (1 :: int64)" for h
  proof -
    have "sint h = sint (0 :: int64) \<or> sint h = sint (1 :: int64)"
      using that by simp linarith
    then show ?thesis
      unfolding sint_inject by auto
  qed
  then show ?thesis
    using retention_leaves_rewind_target [of 1 ?db AccountsDBPrefix 1] by (simp add: Let_def)
qed

end
