(* ===== verification/Merkle.thy ===== *)
theory Merkle
  imports Heights
begin

text \<open>
  The Merkle trees of the node: the transaction tree whose root a block header commits to
  (\<open>transactionsPool/merkleTree.go\<close>) and the tree over the key addresses of an identity
  (\<open>pubkeys/pubKeysTrie.go\<close>).

  \<open>H\<close> stands for BLAKE2b-256 (\<open>common.CalcHashToByte\<close>). The level-by-level construction is shown to
  build the recursive tree of the specification, split at the largest power of two, and its root to
  commit to the list of leaves: two different lists with the same root exhibit two different inputs
  of \<open>H\<close> with the same value.
\<close>

subsection \<open>The transaction tree\<close>

datatype MerkleNode = MLeaf (Data: bytes) | MInner (Left: MerkleNode) (Right: MerkleNode) (Data: bytes)

definition NewMerkleLeaf :: "(bytes \<Rightarrow> bytes) \<Rightarrow> bytes \<Rightarrow> MerkleNode" where
  "NewMerkleLeaf H d = MLeaf (H (0 # d))"

definition NewMerkleNode :: "(bytes \<Rightarrow> bytes) \<Rightarrow> MerkleNode \<Rightarrow> MerkleNode \<Rightarrow> MerkleNode" where
  "NewMerkleNode H l r = MInner l r (H (1 # Data l @ Data r))"

text \<open>One level: neighbours are paired, an odd node is promoted unchanged.\<close>

fun merkle_level :: "('n \<Rightarrow> 'n \<Rightarrow> 'n) \<Rightarrow> 'n list \<Rightarrow> 'n list" where
  "merkle_level f (a # b # ns) = f a b # merkle_level f ns"
| "merkle_level f ns = ns"

lemma length_merkle_level: "length (merkle_level f ns) = Suc (length ns) div 2"
  by (induction f ns rule: merkle_level.induct) auto

function merkle_levels :: "('n \<Rightarrow> 'n \<Rightarrow> 'n) \<Rightarrow> 'n list \<Rightarrow> 'n list" where
  "merkle_levels f ns = (if length ns > 1 then merkle_levels f (merkle_level f ns) else ns)"
  by auto
termination
  by (relation "measure (length \<circ> snd)") (auto simp: length_merkle_level)

declare merkle_levels.simps [simp del]

definition NewMerkleTree :: "(bytes \<Rightarrow> bytes) \<Rightarrow> bytes list \<Rightarrow> MerkleNode list" where
  "NewMerkleTree H data = merkle_levels (NewMerkleNode H) (map (NewMerkleLeaf H) data)"

record MerkleTree =
  Root :: "MerkleNode list"
  TxHashes :: "bytes list"

definition BuildMerkleTree :: "(bytes \<Rightarrow> bytes) \<Rightarrow> bytes list \<Rightarrow> MerkleTree" where
  "BuildMerkleTree H hashes = \<lparr>Root = NewMerkleTree H hashes, TxHashes = hashes\<rparr>"

definition IsTxHashInTree :: "MerkleTree \<Rightarrow> bytes \<Rightarrow> bool" where
  "IsTxHashInTree t hash \<longleftrightarrow> (\<exists>h \<in> set (TxHashes t). h = hash)"

definition GetRootHash :: "MerkleTree \<Rightarrow> bytes" where
  "GetRootHash t = (if length (Root t) > 0 then Data (Root t ! 0) else EmptyHash)"

text \<open>Storing a tree under its height; \<open>json\<close> is the encoding of the nodes.\<close>

abbreviation (input) MerkleNodeDBPrefix :: bytes where "MerkleNodeDBPrefix \<equiv> string_bytes ''NN''"
abbreviation (input) RootHashMerkleTreeDBPrefix :: bytes where "RootHashMerkleTreeDBPrefix \<equiv> string_bytes ''RR''"
abbreviation (input) TransactionsHashesByHeightDBPrefix :: bytes where "TransactionsHashesByHeightDBPrefix \<equiv> string_bytes ''RH''"

definition StoreTree :: "(MerkleNode list \<Rightarrow> bytes) \<Rightarrow> int64 \<Rightarrow> MerkleTree \<Rightarrow> DB \<Rightarrow> DB" where
  "StoreTree json height t db =
    (let db = mput (MerkleNodeDBPrefix @ GetByteInt64 height) (MerkleNodeDBPrefix @ json (Root t)) db;
         db = mput (RootHashMerkleTreeDBPrefix @ GetByteInt64 height) (GetRootHash t) db
     in mput (TransactionsHashesByHeightDBPrefix @ GetByteInt64 height) (concat (TxHashes t)) db)"

definition LoadTxHashes :: "int64 \<Rightarrow> DB \<Rightarrow> bytes list res" where
  "LoadTxHashes height db =
    (case map_of db (TransactionsHashesByHeightDBPrefix @ GetByteInt64 height) of
       None \<Rightarrow> Inl (Errorf ''key not found'')
     | Some txbytes \<Rightarrow>
         Inr (map (\<lambda>i. take HashLength (drop (HashLength * i) txbytes)) [0..<length txbytes div HashLength]))"

definition LoadHashMerkleTreeByHeight :: "int64 \<Rightarrow> DB \<Rightarrow> bytes res" where
  "LoadHashMerkleTreeByHeight height db =
    (case map_of db (RootHashMerkleTreeDBPrefix @ GetByteInt64 height) of
       None \<Rightarrow> Inl (Errorf ''key not found'') | Some hash \<Rightarrow> Inr hash)"

definition FindTransactionInBlocks :: "bytes \<Rightarrow> int64 \<Rightarrow> DB \<Rightarrow> int64 res" where
  "FindTransactionInBlocks targetHash height db =
     bindR (LoadTxHashes height db) (\<lambda>hashes.
       if targetHash \<in> set hashes then Inr height else Inl (Errorf ''tx hash not found''))"

definition LastHeightStoredInMerleTrie :: "DB \<Rightarrow> (err option \<times> int64) option" where
  "LastHeightStoredInMerleTrie db =
     LastContiguousHeight (\<lambda>h. Inr (map_of db (RootHashMerkleTreeDBPrefix @ GetByteInt64 h) \<noteq> None))"

definition RemoveMerkleTrieFromDB :: "int64 \<Rightarrow> DB \<Rightarrow> DB" where
  "RemoveMerkleTrieFromDB height db =
    (let hb = GetByteInt64 height;
         db = mdel (RootHashMerkleTreeDBPrefix @ hb) db;
         db = mdel (MerkleNodeDBPrefix @ hb) db
     in mdel (TransactionsHashesByHeightDBPrefix @ hb) db)"

subsection \<open>The tree over key addresses\<close>

text \<open>No domain tags here, and an odd node is paired with a copy of itself.\<close>

definition NewKeyNode :: "(bytes \<Rightarrow> bytes) \<Rightarrow> MerkleNode \<Rightarrow> MerkleNode \<Rightarrow> MerkleNode" where
  "NewKeyNode H l r = MInner l r (H (Data l @ Data r))"

fun key_level :: "('n \<Rightarrow> 'n \<Rightarrow> 'n) \<Rightarrow> 'n list \<Rightarrow> 'n list" where
  "key_level f (a # b # ns) = f a b # key_level f ns"
| "key_level f [a] = [f a a]"
| "key_level f [] = []"

lemma length_key_level: "length (key_level f ns) = (length ns + 1) div 2"
  by (induction f ns rule: key_level.induct) auto

function key_levels :: "('n \<Rightarrow> 'n \<Rightarrow> 'n) \<Rightarrow> 'n list \<Rightarrow> 'n list" where
  "key_levels f ns = (if length ns > 1 then key_levels f (key_level f ns) else ns)"
  by auto
termination
  by (relation "measure (length \<circ> snd)") (auto simp: length_key_level)

declare key_levels.simps [simp del]

definition NewKeyTree :: "(bytes \<Rightarrow> bytes) \<Rightarrow> Address list \<Rightarrow> MerkleNode list" where
  "NewKeyTree H addresses = key_levels (NewKeyNode H) (map (\<lambda>a. MLeaf (H (addr_ByteValue a))) addresses)"

text \<open>\<open>containsAddress\<close>, with the index the source counts along the path.\<close>

fun containsAddress :: "MerkleNode \<Rightarrow> int64 \<Rightarrow> bytes \<Rightarrow> bool \<times> int64" where
  "containsAddress (MLeaf d) index hash = (d = hash, index)"
| "containsAddress (MInner l r d) index hash =
    (if d = hash then (True, index)
     else let (left, il) = containsAddress l (index + 1) hash;
              (right, ir) = containsAddress r (index + 1) hash
          in (left \<or> right, if right then ir else if left then il else index))"

definition IsAddressInTree :: "(bytes \<Rightarrow> bytes) \<Rightarrow> MerkleNode list \<Rightarrow> Address \<Rightarrow> bool res" where
  "IsAddressInTree H root a =
    bindR (indexR root 0) (\<lambda>r.
      let hash = H (addr_ByteValue a) in
      Inr (fst (containsAddress r 0 hash) \<or> (length root > 1 \<and> fst (containsAddress (root ! 1) 0 hash))))"


subsection \<open>The recursive tree\<close>

text \<open>The largest power of two below \<open>n\<close>, for \<open>n\<close> at least 2.\<close>

fun pow2_below :: "nat \<Rightarrow> nat" where
  "pow2_below n = (if n \<le> 2 then 1 else 2 * pow2_below (Suc n div 2))"

declare pow2_below.simps [simp del]

lemma pow2_below_spec: "2 \<le> n \<Longrightarrow> \<exists>k. pow2_below n = 2 ^ k \<and> 2 ^ k < n \<and> n \<le> 2 ^ (k + 1)"
proof (induction n rule: pow2_below.induct)
  case (1 n)
  show ?case
  proof (cases "n \<le> 2")
    case True
    with 1(2) show ?thesis
      by (subst pow2_below.simps) (auto intro: exI [of _ 0])
  next
    case False
    moreover have "2 \<le> Suc n div 2"
      using False by simp
    ultimately obtain k where "pow2_below (Suc n div 2) = 2 ^ k" "2 ^ k < Suc n div 2" "Suc n div 2 \<le> 2 ^ (k + 1)"
      using 1(1) by blast
    with False show ?thesis
      by (subst pow2_below.simps) (auto intro!: exI [of _ "k + 1"])
  qed
qed

lemma pow2_below_bounds: "2 \<le> n \<Longrightarrow> 0 < pow2_below n \<and> pow2_below n < n"
  using pow2_below_spec [of n] by auto

function pow2_tree :: "('n \<Rightarrow> 'n \<Rightarrow> 'n) \<Rightarrow> 'n list \<Rightarrow> 'n" where
  "pow2_tree f ns =
    (if length ns < 2 then ns ! 0
     else f (pow2_tree f (take (pow2_below (length ns)) ns)) (pow2_tree f (drop (pow2_below (length ns)) ns)))"
  by auto
termination
  by (relation "measure (length \<circ> snd)") (auto simp: not_less dest: pow2_below_bounds)

declare pow2_tree.simps [simp del]

lemma pow2_tree_single [simp]: "pow2_tree f [a] = a"
  by (simp add: pow2_tree.simps)

lemma merkle_level_append: "even (length xs) \<Longrightarrow> merkle_level f (xs @ ys) = merkle_level f xs @ merkle_level f ys"
  by (induction f xs rule: merkle_level.induct) auto

lemma pow2_tree_level: "ns \<noteq> [] \<Longrightarrow> pow2_tree f (merkle_level f ns) = pow2_tree f ns"
proof (induction f ns rule: pow2_tree.induct)
  case (1 f ns)
  consider "length ns = 1" | "length ns = 2" | "2 < length ns"
    using 1(3) by (cases "length ns") force+
  then show ?case
  proof cases
    case 1
    then obtain a where "ns = [a]"
      by (auto simp: length_Suc_conv)
    then show ?thesis by simp
  next
    case 2
    then obtain a b where ns: "ns = [a, b]"
      by (auto simp: length_Suc_conv numeral_2_eq_2)
    show ?thesis
      by (simp add: ns pow2_tree.simps [of f "[a, b]"] pow2_below.simps)
  next
    case 3
    let ?n = "length ns" and ?k = "pow2_below (length ns)" and ?h = "pow2_below (Suc (length ns) div 2)"
    have k: "?k = 2 * ?h"
      using 3 by (subst pow2_below.simps) simp
    have b: "0 < ?k" "?k < ?n"
      using 3 pow2_below_bounds [of ?n] by auto
    let ?x = "take ?k ns" and ?y = "drop ?k ns"
    have split: "merkle_level f ns = merkle_level f ?x @ merkle_level f ?y"
      using merkle_level_append [of ?x f ?y] b k by simp
    have "length (merkle_level f ?x) = ?h"
      using b k by (simp add: length_merkle_level)
    then have parts: "take ?h (merkle_level f ns) = merkle_level f ?x" "drop ?h (merkle_level f ns) = merkle_level f ?y"
      by (simp_all add: split)
    have "length (merkle_level f ns) = Suc ?n div 2" "\<not> Suc ?n div 2 < 2"
      using 3 by (simp_all add: length_merkle_level)
    then have "pow2_tree f (merkle_level f ns) = f (pow2_tree f (merkle_level f ?x)) (pow2_tree f (merkle_level f ?y))"
      by (subst pow2_tree.simps) (simp add: parts)
    also have "\<dots> = f (pow2_tree f ?x) (pow2_tree f ?y)"
      using 1 3 b by simp
    also have "\<dots> = pow2_tree f ns"
      using 3 by (subst (3) pow2_tree.simps) simp
    finally show ?thesis .
  qed
qed

lemma merkle_levels_rec: "ns \<noteq> [] \<Longrightarrow> merkle_levels f ns = [pow2_tree f ns]"
proof (induction f ns rule: merkle_levels.induct)
  case (1 f ns)
  show ?case
  proof (cases "length ns > 1")
    case True
    then have "merkle_level f ns \<noteq> []"
      using length_merkle_level [of f ns] by auto
    with 1 True show ?thesis
      by (subst merkle_levels.simps) (simp add: pow2_tree_level)
  next
    case False
    with 1(2) obtain a where "ns = [a]"
      by (cases ns) auto
    then show ?thesis
      by (simp add: merkle_levels.simps)
  qed
qed

lemma pow2_tree_hom:
  assumes "\<And>a b. g (f a b) = f' (g a) (g b)"
  shows "ns \<noteq> [] \<Longrightarrow> g (pow2_tree f ns) = pow2_tree f' (map g ns)"
proof (induction "length ns" arbitrary: ns rule: less_induct)
  case less
  show ?case
  proof (cases "length ns < 2")
    case True
    with less.prems obtain a where "ns = [a]"
      by (cases ns) auto
    then show ?thesis by simp
  next
    case False
    let ?k = "pow2_below (length ns)"
    have b: "length (take ?k ns) < length ns" "take ?k ns \<noteq> []" "length (drop ?k ns) < length ns" "drop ?k ns \<noteq> []"
      using False pow2_below_bounds [of "length ns"] by auto
    have "g (pow2_tree f (take ?k ns)) = pow2_tree f' (map g (take ?k ns))" "g (pow2_tree f (drop ?k ns)) = pow2_tree f' (map g (drop ?k ns))"
      using less.hyps [OF b(1,2)] less.hyps [OF b(3,4)] by simp_all
    then show ?thesis
      using False assms by (subst (1 2) pow2_tree.simps) (simp add: take_map drop_map)
  qed
qed

datatype tree = Leaf bytes | Node tree tree

fun node_of :: "(bytes \<Rightarrow> bytes) \<Rightarrow> tree \<Rightarrow> MerkleNode" where
  "node_of H (Leaf d) = NewMerkleLeaf H d"
| "node_of H (Node l r) = NewMerkleNode H (node_of H l) (node_of H r)"

fun leaves :: "tree \<Rightarrow> bytes list" where
  "leaves (Leaf d) = [d]"
| "leaves (Node l r) = leaves l @ leaves r"

text \<open>The tree of the specification: split at the largest power of two below the number of leaves.\<close>

definition spec_tree :: "bytes list \<Rightarrow> tree" where
  "spec_tree ds = pow2_tree Node (map Leaf ds)"

lemma spec_tree_leaves: "ds \<noteq> [] \<Longrightarrow> leaves (spec_tree ds) = ds"
proof -
  have cat: "pow2_tree (@) xs = concat xs" if "xs \<noteq> []" for xs :: "bytes list list"
    using that
  proof (induction "length xs" arbitrary: xs rule: less_induct)
    case less
    show ?case
    proof (cases "length xs < 2")
      case True
      with less.prems obtain a where "xs = [a]"
        by (cases xs) auto
      then show ?thesis by simp
    next
      case False
      let ?k = "pow2_below (length xs)"
      have b: "length (take ?k xs) < length xs" "take ?k xs \<noteq> []" "length (drop ?k xs) < length xs" "drop ?k xs \<noteq> []"
        using False pow2_below_bounds [of "length xs"] by auto
      have "pow2_tree (@) (take ?k xs) = concat (take ?k xs)" "pow2_tree (@) (drop ?k xs) = concat (drop ?k xs)"
        using less.hyps [OF b(1,2)] less.hyps [OF b(3,4)] by simp_all
      then show ?thesis
        using False by (subst pow2_tree.simps) (simp flip: concat_append)
    qed
  qed
  assume "ds \<noteq> []"
  then show ?thesis
    unfolding spec_tree_def using pow2_tree_hom [of leaves Node "(@)" "map Leaf ds"] cat [of "map leaves (map Leaf ds)"]
    by (simp add: comp_def)
qed

lemma NewMerkleTree_spec: "ds \<noteq> [] \<Longrightarrow> NewMerkleTree H ds = [node_of H (spec_tree ds)]"
  unfolding NewMerkleTree_def spec_tree_def
  using pow2_tree_hom [of "node_of H" Node "NewMerkleNode H" "map Leaf ds"] by (simp add: merkle_levels_rec comp_def)

subsection \<open>The root commits to the leaves\<close>

text \<open>The inputs of the hash function when the tree is built.\<close>

fun hash_inputs :: "(bytes \<Rightarrow> bytes) \<Rightarrow> tree \<Rightarrow> bytes list" where
  "hash_inputs H (Leaf d) = [0 # d]"
| "hash_inputs H (Node l r) = (1 # Data (node_of H l) @ Data (node_of H r)) # hash_inputs H l @ hash_inputs H r"

lemma tree_binding:
  assumes "\<And>x. length (H x) = HashLength"
  shows "Data (node_of H t) = Data (node_of H t') \<Longrightarrow> t \<noteq> t' \<Longrightarrow>
    \<exists>a \<in> set (hash_inputs H t). \<exists>b \<in> set (hash_inputs H t'). a \<noteq> b \<and> H a = H b"
proof (induction t arbitrary: t')
  case (Leaf d)
  then show ?case
    by (cases t') (auto simp: NewMerkleLeaf_def NewMerkleNode_def)
next
  case (Node l r)
  have len: "length (Data (node_of H x)) = 32" for x
    using assms by (cases x) (simp_all add: NewMerkleLeaf_def NewMerkleNode_def)
  show ?case
  proof (cases t')
    case (Leaf d)
    then show ?thesis
      using Node.prems(1) by (auto simp: NewMerkleLeaf_def NewMerkleNode_def)
  next
    case t': (Node l' r')
    let ?i = "1 # Data (node_of H l) @ Data (node_of H r)" and ?i' = "1 # Data (node_of H l') @ Data (node_of H r')"
    have eq: "H ?i = H ?i'"
      using Node.prems(1) t' by (simp add: NewMerkleNode_def)
    show ?thesis
    proof (cases "?i = ?i'")
      case True
      then have "Data (node_of H l) = Data (node_of H l')" "Data (node_of H r) = Data (node_of H r')"
        using len by auto
      then show ?thesis
        using Node.IH(1) [of l'] Node.IH(2) [of r'] Node.prems(2) t' by (cases "l = l'") auto
    next
      case False
      with eq t' show ?thesis by auto
    qed
  qed
qed

text \<open>C38: The level-by-level construction is the recursive one: for a non-empty list the tree has a single
  root, which is the node of the tree that splits the list at the largest power of two below its length,
  and the leaves of that tree are the list in order.\<close>

theorem merkle_tree_refines:
  assumes "ds \<noteq> []"
  shows "NewMerkleTree H ds = [node_of H (spec_tree ds)] \<and> leaves (spec_tree ds) = ds \<and>
    GetRootHash (BuildMerkleTree H ds) = Data (node_of H (spec_tree ds))"
  using NewMerkleTree_spec [OF assms, of H] spec_tree_leaves [OF assms] by (simp add: GetRootHash_def BuildMerkleTree_def)

theorem merkle_tree_refines_witness:
  "NewMerkleTree id [[2], [3], [4]] = [node_of id (Node (Node (Leaf [2]) (Leaf [3])) (Leaf [4]))]"
  using merkle_tree_refines [of "[[2], [3], [4]]" id]
  by (simp add: spec_tree_def pow2_tree.simps pow2_below.simps)

text \<open>The root of the transaction tree commits to the list of transactions, length and order included:
  two different non-empty lists with the same root exhibit, among the inputs hashed when the two trees
  are built, two different ones with the same hash.\<close>

theorem merkle_root_commits:
  assumes "\<And>x. length (H x) = HashLength" "xs \<noteq> []" "ys \<noteq> []" "xs \<noteq> ys"
    "GetRootHash (BuildMerkleTree H xs) = GetRootHash (BuildMerkleTree H ys)"
  shows "\<exists>a \<in> set (hash_inputs H (spec_tree xs)). \<exists>b \<in> set (hash_inputs H (spec_tree ys)). a \<noteq> b \<and> H a = H b"
proof (rule tree_binding [OF assms(1)])
  show "spec_tree xs \<noteq> spec_tree ys"
    using assms(2-4) spec_tree_leaves by metis
  show "Data (node_of H (spec_tree xs)) = Data (node_of H (spec_tree ys))"
    using assms(5) NewMerkleTree_spec [OF assms(2), of H] NewMerkleTree_spec [OF assms(3), of H]
    by (simp add: GetRootHash_def BuildMerkleTree_def)
qed

theorem merkle_root_commits_witness:
  "\<exists>a \<in> set (hash_inputs (\<lambda>_. replicate 32 0) (spec_tree [[1]])). \<exists>b \<in> set (hash_inputs (\<lambda>_. replicate 32 0) (spec_tree [[1], [2]])).
     a \<noteq> b \<and> replicate 32 (0 :: byte) = replicate 32 0"
  using merkle_root_commits [of "\<lambda>_. replicate 32 0" "[[1]]" "[[1], [2]]"]
  by (simp add: GetRootHash_def BuildMerkleTree_def NewMerkleTree_spec spec_tree_def pow2_tree.simps pow2_below.simps
    NewMerkleLeaf_def NewMerkleNode_def)

subsection \<open>Stored trees\<close>

lemma chunks_concat:
  "\<forall>x \<in> set xs. length x = n \<Longrightarrow> 0 < n \<Longrightarrow>
   map (\<lambda>i. take n (drop (n * i) (concat xs))) [0..<length (concat xs) div n] = xs"
proof (induction xs)
  case (Cons x xs)
  have "length (concat (x # xs)) div n = Suc (length (concat xs) div n)"
    using Cons.prems by (auto simp: div_add_self1)
  moreover have "map (\<lambda>i. take n (drop (n * Suc i) (concat (x # xs)))) [0..<length (concat xs) div n] = xs"
    using Cons by (simp add: add.commute)
  ultimately show ?case
    using Cons.prems by (simp add: upt_conv_Cons map_Suc_upt [symmetric] comp_def del: upt_Suc)
qed simp

lemma StoreTree_lookup:
  assumes "\<forall>x \<in> set xs. length x = HashLength"
  shows "LoadTxHashes h (StoreTree json h (BuildMerkleTree H xs) db) = Inr xs"
    "LoadHashMerkleTreeByHeight h (StoreTree json h (BuildMerkleTree H xs) db) = Inr (GetRootHash (BuildMerkleTree H xs))"
    "FindTransactionInBlocks x h (StoreTree json h (BuildMerkleTree H xs) db) = Inr h \<longleftrightarrow> IsTxHashInTree (BuildMerkleTree H xs) x"
    "LoadTxHashes h (RemoveMerkleTrieFromDB h db) = Inl (Errorf ''key not found'')"
proof -
  have ne: "string_bytes ''RH'' @ a \<noteq> string_bytes ''RR'' @ b" "string_bytes ''RR'' @ a \<noteq> string_bytes ''RH'' @ b" for a b
    by (simp_all add: string_bytes_def)
  show l: "LoadTxHashes h (StoreTree json h (BuildMerkleTree H xs) db) = Inr xs"
    using chunks_concat [of xs 32] assms by (simp add: LoadTxHashes_def StoreTree_def BuildMerkleTree_def Let_def)
  show "LoadHashMerkleTreeByHeight h (StoreTree json h (BuildMerkleTree H xs) db) = Inr (GetRootHash (BuildMerkleTree H xs))"
    by (simp add: LoadHashMerkleTreeByHeight_def StoreTree_def Let_def ne)
  show "FindTransactionInBlocks x h (StoreTree json h (BuildMerkleTree H xs) db) = Inr h \<longleftrightarrow> IsTxHashInTree (BuildMerkleTree H xs) x"
    unfolding FindTransactionInBlocks_def l by (auto simp: IsTxHashInTree_def BuildMerkleTree_def)
  show "LoadTxHashes h (RemoveMerkleTrieFromDB h db) = Inl (Errorf ''key not found'')"
    by (simp add: LoadTxHashes_def RemoveMerkleTrieFromDB_def Let_def map_of_mdel)
qed

subsection \<open>Every address is in its tree\<close>

lemma containsAddress_inner:
  "fst (containsAddress l (i + 1) h) \<or> fst (containsAddress r (i + 1) h) \<Longrightarrow> fst (containsAddress (NewKeyNode H l r) i h)"
  by (auto simp: NewKeyNode_def Let_def split: prod.splits)

lemma key_level_contains:
  "n \<in> set ns \<Longrightarrow> (\<And>i. fst (containsAddress n i h)) \<Longrightarrow> \<exists>m \<in> set (key_level (NewKeyNode H) ns). \<forall>i. fst (containsAddress m i h)"
proof (induction "NewKeyNode H" ns rule: key_level.induct)
  case (1 a b ns)
  then show ?case
    using containsAddress_inner [of a _ h b H] by (cases "n \<in> set ns") auto
qed (use containsAddress_inner in auto)

lemma key_levels_contains:
  "n \<in> set ns \<Longrightarrow> (\<And>i. fst (containsAddress n i h)) \<Longrightarrow>
   \<exists>m. key_levels (NewKeyNode H) ns = [m] \<and> (\<forall>i. fst (containsAddress m i h))"
proof (induction "NewKeyNode H" ns arbitrary: n rule: key_levels.induct)
  case (1 ns)
  show ?case
  proof (cases "length ns > 1")
    case True
    obtain m where "m \<in> set (key_level (NewKeyNode H) ns)" "\<forall>i. fst (containsAddress m i h)"
      using key_level_contains [OF 1(2,3)] by blast
    with 1(1) True show ?thesis
      by (subst key_levels.simps) auto
  next
    case False
    with 1(2) have "ns = [n]"
      by (cases ns) auto
    with 1(3) show ?thesis
      by (simp add: key_levels.simps)
  qed
qed

lemma address_in_tree: "a \<in> set as \<Longrightarrow> IsAddressInTree H (NewKeyTree H as) a = Inr True"
  using key_levels_contains [of "MLeaf (H (addr_ByteValue a))" "map (\<lambda>a. MLeaf (H (addr_ByteValue a))) as" "H (addr_ByteValue a)" H]
  by (auto simp: IsAddressInTree_def NewKeyTree_def)

end
