(* ===== verification/Keys.thy ===== *)
theory Keys
  imports Merkle Pool_Store
begin

text \<open>
  The registry of public keys (\<open>pubkeys/registryHeight.go\<close>, \<open>pubKeyHelper.go\<close>, \<open>pubKeysTrie.go\<close>) and the
  registrations a block makes and a rewind takes back (\<open>blocks/processPubKey.go\<close>).

  The registry lives in the key-value store under six prefixes. Each prefix is a field here, holding
  the decoded values: the key records (JSON in the store), the address list, the tree and the root hash
  of every identity, the height every key was registered at, and the journal of registrations by height.
  Writes are taken to succeed.
\<close>

record KeyRegistry =
  reg_Keys :: "(bytes, PubKey) gomap"
  reg_Addresses :: "(bytes, Address list) gomap"
  reg_Trees :: "(bytes, MerkleNode list) gomap"
  reg_Roots :: "(bytes, bytes) gomap"
  reg_Heights :: "(bytes, int64) gomap"
  reg_Journal :: "(int64 \<times> bytes, bytes) gomap"

abbreviation (input) NoHeightLimit :: int64 where "NoHeightLimit \<equiv> 9223372036854775807"
abbreviation (input) MaxKeysPerIdentity :: nat where "MaxKeysPerIdentity \<equiv> 32"
abbreviation (input) journalPerHeightScanLimit :: int where "journalPerHeightScanLimit \<equiv> 2048"

subsection \<open>Reading\<close>

definition StoreRegistrationHeight :: "Address \<Rightarrow> int64 \<Rightarrow> KeyRegistry \<Rightarrow> KeyRegistry" where
  "StoreRegistrationHeight derived height reg = reg\<lparr>reg_Heights := mput (addr_ByteValue derived) height (reg_Heights reg)\<rparr>"

definition DeleteRegistrationHeight :: "Address \<Rightarrow> KeyRegistry \<Rightarrow> KeyRegistry" where
  "DeleteRegistrationHeight derived reg = reg\<lparr>reg_Heights := mdel (addr_ByteValue derived) (reg_Heights reg)\<rparr>"

definition RegistrationHeight :: "KeyRegistry \<Rightarrow> bytes \<Rightarrow> int64" where
  "RegistrationHeight reg derived = mget 0 (reg_Heights reg) derived"

definition RegisteredAsOf :: "KeyRegistry \<Rightarrow> bytes \<Rightarrow> int64 \<Rightarrow> bool" where
  "RegisteredAsOf reg derived asOf \<longleftrightarrow> asOf = NoHeightLimit \<or> sint (RegistrationHeight reg derived) \<le> sint asOf"

definition LoadAddresses :: "KeyRegistry \<Rightarrow> Address \<Rightarrow> Address list res" where
  "LoadAddresses reg mainAddress =
    (case map_of (reg_Addresses reg) (addr_ByteValue mainAddress) of
       None \<Rightarrow> Inl (Errorf ''key not found'') | Some as \<Rightarrow> Inr as)"

definition IsRegisteredUnder :: "KeyRegistry \<Rightarrow> Address \<Rightarrow> Address \<Rightarrow> bool" where
  "IsRegisteredUnder reg mainAddress derived \<longleftrightarrow>
    (case LoadAddresses reg mainAddress of
       Inl _ \<Rightarrow> False
     | Inr addrs \<Rightarrow> \<exists>a \<in> set addrs. addr_ByteValue a = addr_ByteValue derived)"

definition LoadAddressesAsOf :: "KeyRegistry \<Rightarrow> Address \<Rightarrow> int64 \<Rightarrow> Address list res" where
  "LoadAddressesAsOf reg mainAddress asOf =
    (case LoadAddresses reg mainAddress of
       Inl e \<Rightarrow> Inl e
     | Inr addrs \<Rightarrow>
         if asOf = NoHeightLimit then Inr addrs
         else let kept = filter (\<lambda>a. RegisteredAsOf reg (addr_ByteValue a) asOf) addrs
              in if kept = [] then Inl (Errorf ''key not found'') else Inr kept)"

text \<open>\<open>LoadPubKey\<close> without the cache in front of the store.\<close>

definition LoadPubKey :: "KeyRegistry \<Rightarrow> bytes \<Rightarrow> PubKey res" where
  "LoadPubKey reg a = (case map_of (reg_Keys reg) a of None \<Rightarrow> Inl (Errorf ''key not found'') | Some pk \<Rightarrow> Inr pk)"

definition LoadPubKeyAsOf :: "KeyRegistry \<Rightarrow> bytes \<Rightarrow> int64 \<Rightarrow> PubKey res" where
  "LoadPubKeyAsOf reg a asOf =
    (if \<not> RegisteredAsOf reg a asOf then Inl (Errorf ''key not registered as of height'') else LoadPubKey reg a)"

definition LoadPubKeyWithPrimaryAsOf :: "KeyRegistry \<Rightarrow> Address \<Rightarrow> bool \<Rightarrow> int64 \<Rightarrow> PubKey res" where
  "LoadPubKeyWithPrimaryAsOf reg mainAddress primary asOf =
     bindR (LoadAddressesAsOf reg mainAddress asOf) (\<lambda>addresses.
       case filter (\<lambda>a. addr_Primary a = primary) (rev addresses) of
         [] \<Rightarrow> Inl (Errorf ''no pubkey found'')
       | a # _ \<Rightarrow> LoadPubKey reg (addr_ByteValue a))"

definition LoadPubKeyWithPrimaryOfLengthAsOf :: "KeyRegistry \<Rightarrow> Address \<Rightarrow> bool \<Rightarrow> int \<Rightarrow> int64 \<Rightarrow> PubKey res" where
  "LoadPubKeyWithPrimaryOfLengthAsOf reg mainAddress primary len asOf =
     bindR (LoadAddressesAsOf reg mainAddress asOf) (\<lambda>addresses.
       let keys = map (\<lambda>a. LoadPubKey reg (addr_ByteValue a)) (filter (\<lambda>a. addr_Primary a = primary) (rev addresses)) in
       case filter (\<lambda>r. case r of Inl _ \<Rightarrow> False | Inr pk \<Rightarrow> int (length (pk_ByteValue pk)) = len) keys of
         [] \<Rightarrow> Inl (Errorf ''no pubkey of length found'')
       | r # _ \<Rightarrow> r)"

definition HasOperatorKeysAsOf :: "KeyRegistry \<Rightarrow> Address \<Rightarrow> int64 \<Rightarrow> bool" where
  "HasOperatorKeysAsOf reg mainAddress asOf \<longleftrightarrow>
    (case LoadAddressesAsOf reg mainAddress asOf of
       Inl _ \<Rightarrow> False
     | Inr addrs \<Rightarrow> (\<exists>a \<in> set addrs. addr_Primary a) \<and> (\<exists>a \<in> set addrs. \<not> addr_Primary a))"

subsection \<open>Registering\<close>

definition KeyTree_GetRootHash :: "MerkleNode list \<Rightarrow> bytes" where
  "KeyTree_GetRootHash root = (case root of [] \<Rightarrow> replicate HashLength 0 | r # _ \<Rightarrow> Data r)"

definition StoreKeyTree :: "(bytes \<Rightarrow> bytes) \<Rightarrow> Address \<Rightarrow> Address list \<Rightarrow> KeyRegistry \<Rightarrow> KeyRegistry" where
  "StoreKeyTree H256 mainAddress addresses reg =
     reg\<lparr>reg_Trees := mput (addr_ByteValue mainAddress) (NewKeyTree H256 addresses) (reg_Trees reg),
         reg_Roots := mput (addr_ByteValue mainAddress) (KeyTree_GetRootHash (NewKeyTree H256 addresses)) (reg_Roots reg),
         reg_Addresses := mput (addr_ByteValue mainAddress) addresses (reg_Addresses reg)\<rparr>"

text \<open>Building the tree over a list, the check that it holds every address of it, and storing it.\<close>

definition build_and_store :: "Crypto \<Rightarrow> Address \<Rightarrow> Address list \<Rightarrow> string \<Rightarrow> KeyRegistry cmd" where
  "build_and_store cr mainAddress addresses msg reg =
    (let tree = NewKeyTree (cr_H256 cr) addresses in
     case filter (\<lambda>a. IsAddressInTree (cr_H256 cr) tree a \<noteq> Inr True) addresses of
       a # _ \<Rightarrow> (case IsAddressInTree (cr_H256 cr) tree a of Inl e \<Rightarrow> (Some e, reg) | Inr _ \<Rightarrow> (Some (Errorf msg), reg))
     | [] \<Rightarrow> (None, StoreKeyTree (cr_H256 cr) mainAddress addresses reg))"

definition CreateAddressFromFirstPubKey :: "Crypto \<Rightarrow> PubKey \<Rightarrow> KeyRegistry \<Rightarrow> Address res \<times> KeyRegistry" where
  "CreateAddressFromFirstPubKey cr p reg =
    (case PubKeyToAddress (cr_H160 cr) (pk_ByteValue p) (pk_Primary p) of
       Inl e \<Rightarrow> (Inl e, reg)
     | Inr address \<Rightarrow>
         if (case LoadAddresses reg address of Inl _ \<Rightarrow> [] | Inr as \<Rightarrow> as) \<noteq> []
         then (Inl (Errorf ''there are just generated markle trie for given pubkey''), reg)
         else case build_and_store cr address [address] ''addresses patricia trie fails to initialize'' reg of
             (Some e, reg) \<Rightarrow> (Inl e, reg)
           | (None, reg) \<Rightarrow> (Inr address, reg))"

definition StorePubKey :: "Crypto \<Rightarrow> PubKey \<Rightarrow> KeyRegistry cmd" where
  "StorePubKey cr pk reg =
    (case PubKeyToAddress (cr_H160 cr) (pk_ByteValue pk) (pk_Primary pk) of
       Inl e \<Rightarrow> (Some e, reg)
     | Inr a \<Rightarrow>
         if addr_ByteValue a \<noteq> addr_ByteValue (pk_Address pk)
         then (Some (Errorf ''address is different in pubkey and recovered from bytes''), reg)
         else (None, reg\<lparr>reg_Keys := mput (addr_ByteValue a) pk (reg_Keys reg)\<rparr>))"

definition StorePubKeyInPatriciaTrie :: "Crypto \<Rightarrow> PubKey \<Rightarrow> KeyRegistry cmd" where
  "StorePubKeyInPatriciaTrie cr pk reg =
    (if \<not> IsValidPubKeyLength (cr_enc cr) (int (length (pk_ByteValue pk))) (pk_Primary pk)
     then (Some (Errorf ''refusing to register pubkey of length matching no active scheme''), reg)
     else
       let addresses = (case LoadAddresses reg (pk_MainAddress pk) of Inl _ \<Rightarrow> [] | Inr as \<Rightarrow> as) in
       case PubKeyToAddress (cr_H160 cr) (pk_ByteValue pk) (pk_Primary pk) of
         Inl e \<Rightarrow>
           if addresses \<noteq> [] \<and> (\<exists>a \<in> set addresses. addr_ByteValue a = addr_ByteValue (pk_Address pk)) then (None, reg)
           else (Some e, reg)
       | Inr derived \<Rightarrow>
           if addresses = [] \<and> addr_ByteValue derived = addr_ByteValue (pk_MainAddress pk) then
             case CreateAddressFromFirstPubKey cr pk reg of
               (Inl e, reg) \<Rightarrow> (Some e, reg)
             | (Inr mainAddress, reg) \<Rightarrow>
                 if addr_ByteValue (pk_MainAddress pk) \<noteq> addr_ByteValue mainAddress
                 then (Some (Errorf ''error with creation of address from first pub key''), reg)
                 else (None, reg)
           else if \<exists>a \<in> set addresses. addr_ByteValue a = addr_ByteValue (pk_Address pk) then (None, reg)
           else if length addresses \<ge> MaxKeysPerIdentity
           then (Some (Errorf ''identity already registered the maximum public keys''), reg)
           else build_and_store cr (pk_MainAddress pk) (addresses @ [derived]) ''pubkey patricia trie fails to add pubkey'' reg)"

definition journalPubKeyRegistration :: "int64 \<Rightarrow> Address \<Rightarrow> Address \<Rightarrow> KeyRegistry \<Rightarrow> KeyRegistry" where
  "journalPubKeyRegistration height derived mainAddr reg =
     reg\<lparr>reg_Journal := mput (height, addr_ByteValue derived) (addr_ByteValue mainAddr) (reg_Journal reg)\<rparr>"

definition registerPubKeyAtHeight :: "Crypto \<Rightarrow> PubKey \<Rightarrow> int64 \<Rightarrow> KeyRegistry cmd" where
  "registerPubKeyAtHeight cr pk height reg =
    (let isNew = \<not> IsRegisteredUnder reg (pk_MainAddress pk) (pk_Address pk) in
     case then_ok (StorePubKey cr pk) (StorePubKeyInPatriciaTrie cr pk) reg of
       (Some e, reg) \<Rightarrow> (Some e, reg)
     | (None, reg) \<Rightarrow>
         if \<not> isNew then (None, reg)
         else (None, journalPubKeyRegistration height (pk_Address pk) (pk_MainAddress pk)
                       (StoreRegistrationHeight (pk_Address pk) height reg)))"

text \<open>The key a transaction of a block carries, completed the way \<open>ProcessBlockPubKey\<close> completes it; \<open>None\<close>
  when it is skipped.\<close>

definition completed_key :: "Crypto \<Rightarrow> Transaction \<Rightarrow> PubKey option" where
  "completed_key cr t =
    (let pk = Pubkey (tx_TxData t); zeroBytes = replicate AddressLength 0 in
     if length (pk_ByteValue pk) = 0 then None
     else case (if addr_ByteValue (pk_Address pk) = zeroBytes
                then map_option (\<lambda>a. pk\<lparr>pk_Address := a\<rparr>)
                  (case PubKeyToAddress (cr_H160 cr) (pk_ByteValue pk) (pk_Primary pk) of Inl _ \<Rightarrow> None | Inr a \<Rightarrow> Some a)
                else Some pk) of
         None \<Rightarrow> None
       | Some pk \<Rightarrow>
           let pk = (if addr_ByteValue (pk_MainAddress pk) = zeroBytes then pk\<lparr>pk_MainAddress := pk_Address pk\<rparr> else pk)
           in if addr_ByteValue (pk_MainAddress pk) \<noteq> addr_ByteValue (GetSenderAddress t) then None else Some pk)"

fun ProcessBlockPubKey :: "Crypto \<Rightarrow> bytes list \<Rightarrow> int64 \<Rightarrow> (DB \<times> KeyRegistry) cmd" where
  "ProcessBlockPubKey cr [] height (db, reg) = (None, db, reg)"
| "ProcessBlockPubKey cr (txh # txs) height (db, reg) =
    (case LoadFromDBPoolTx cr TransactionPoolHashesDBPrefix txh db of
       (Inl e, db) \<Rightarrow> (Some e, db, reg)
     | (Inr t, db) \<Rightarrow>
         case completed_key cr t of
           None \<Rightarrow> ProcessBlockPubKey cr txs height (db, reg)
         | Some pk \<Rightarrow>
             case registerPubKeyAtHeight cr pk height reg of
               (Some e, reg) \<Rightarrow> (Some e, db, reg)
             | (None, reg) \<Rightarrow> ProcessBlockPubKey cr txs height (db, reg))"

text \<open>Two older entry points. The tree is loaded with its root hash overwritten by the stored one, and it
  is searched for the raw address, while its leaves are hashes of addresses.\<close>

definition LoadHashMerkleTreeByAddress :: "KeyRegistry \<Rightarrow> Address \<Rightarrow> bytes res" where
  "LoadHashMerkleTreeByAddress reg mainAddress =
    (case map_of (reg_Roots reg) (addr_ByteValue mainAddress) of
       None \<Rightarrow> Inl (Errorf ''key not found'') | Some h \<Rightarrow> Inr h)"

definition LoadTreeWithoutAddresses :: "KeyRegistry \<Rightarrow> Address \<Rightarrow> MerkleNode list res" where
  "LoadTreeWithoutAddresses reg mainAddress =
    (case map_of (reg_Trees reg) (addr_ByteValue mainAddress) of
       None \<Rightarrow> Inl (Errorf ''key not found'')
     | Some root \<Rightarrow>
         case map_of (reg_Roots reg) (addr_ByteValue mainAddress) of
           None \<Rightarrow> Inl (Errorf ''key not found'')
         | Some h \<Rightarrow>
             Inr (case root of [] \<Rightarrow> [] | MLeaf _ # ns \<Rightarrow> MLeaf h # ns | MInner l r _ # ns \<Rightarrow> MInner l r h # ns))"

definition FindAddressForMainAddress :: "KeyRegistry \<Rightarrow> Address \<Rightarrow> Address \<Rightarrow> int64 res" where
  "FindAddressForMainAddress reg mainAddress address =
    (case LoadTreeWithoutAddresses reg mainAddress of
       Inl e \<Rightarrow> Inl e
     | Inr [] \<Rightarrow> Inl (Errorf ''no merkle tree root hash'')
     | Inr (n0 # ns) \<Rightarrow>
         if fst (containsAddress n0 0 (addr_ByteValue address)) then Inr (snd (containsAddress n0 0 (addr_ByteValue address)))
         else case ns of
             n1 # _ \<Rightarrow>
               if fst (containsAddress n1 0 (addr_ByteValue address)) then Inr (snd (containsAddress n1 0 (addr_ByteValue address)))
               else Inl (Errorf ''pub key not found'')
           | [] \<Rightarrow> Inl (Errorf ''pub key not found''))"

definition AddPubKeyToAddress :: "Crypto \<Rightarrow> PubKey \<Rightarrow> Address \<Rightarrow> KeyRegistry cmd" where
  "AddPubKeyToAddress cr pk mainAddress reg =
    (let as = (case LoadAddresses reg mainAddress of Inl _ \<Rightarrow> [] | Inr as \<Rightarrow> as) in
     case PubKeyToAddress (cr_H160 cr) (pk_ByteValue pk) (pk_Primary pk) of
       Inl e \<Rightarrow> (Some e, reg)
     | Inr address \<Rightarrow> build_and_store cr mainAddress (as @ [address]) ''pubkey patricia trie fails to add pubkey'' reg)"

definition StoreAddress :: "Crypto \<Rightarrow> Address \<Rightarrow> PubKey \<Rightarrow> KeyRegistry cmd" where
  "StoreAddress cr mainAddress pk reg =
    (case FindAddressForMainAddress reg mainAddress (pk_Address pk) of
       Inl e \<Rightarrow> (Some e, reg)
     | Inr index \<Rightarrow>
         if 0 \<le> sint index then (Some (Errorf ''address just stored before''), reg)
         else AddPubKeyToAddress cr pk mainAddress reg)"

subsection \<open>Taking registrations back\<close>

definition RemoveKeyTree :: "Address \<Rightarrow> KeyRegistry \<Rightarrow> KeyRegistry" where
  "RemoveKeyTree mainAddr reg =
     reg\<lparr>reg_Roots := mdel (addr_ByteValue mainAddr) (reg_Roots reg),
         reg_Trees := mdel (addr_ByteValue mainAddr) (reg_Trees reg),
         reg_Addresses := mdel (addr_ByteValue mainAddr) (reg_Addresses reg)\<rparr>"

definition unregisterPubKey :: "Crypto \<Rightarrow> Address \<Rightarrow> Address \<Rightarrow> KeyRegistry \<Rightarrow> KeyRegistry" where
  "unregisterPubKey cr derived mainAddr reg =
    (let reg = reg\<lparr>reg_Keys := mdel (addr_ByteValue derived) (reg_Keys reg)\<rparr>;
         reg = DeleteRegistrationHeight derived reg
     in case LoadAddresses reg mainAddr of
          Inl _ \<Rightarrow> reg
        | Inr addrs \<Rightarrow>
            let kept = filter (\<lambda>a. addr_ByteValue a \<noteq> addr_ByteValue derived) addrs in
            if length kept = length addrs then reg
            else if kept = [] then RemoveKeyTree mainAddr reg
            else StoreKeyTree (cr_H256 cr) mainAddr kept reg)"

definition address_of :: "bytes \<Rightarrow> Address" where
  "address_of b = \<lparr>addr_ByteValue = b, addr_Primary = False\<rparr>"

definition unregister_entry :: "Crypto \<Rightarrow> int64 \<times> bytes \<Rightarrow> KeyRegistry \<Rightarrow> KeyRegistry" where
  "unregister_entry cr k reg =
    (let reg = (case map_of (reg_Journal reg) k of
                  Some mainB \<Rightarrow>
                    if length mainB < AddressLength then reg
                    else unregisterPubKey cr (address_of (snd k)) (address_of (take AddressLength mainB)) reg
                | None \<Rightarrow> reg)
     in reg\<lparr>reg_Journal := mdel k (reg_Journal reg)\<rparr>)"

text \<open>The journal is scanned in the order of its keys in the store; a key of the wrong length is skipped.\<close>

definition journal_keys :: "(int64 \<Rightarrow> bool) \<Rightarrow> KeyRegistry \<Rightarrow> (int64 \<times> bytes) list" where
  "journal_keys P reg =
     sort_key (\<lambda>(h, d). GetByteInt64 h @ d) (filter (\<lambda>(h, d). P h \<and> length d = AddressLength) (map fst (reg_Journal reg)))"

definition UnregisterPubKeysAtHeight :: "Crypto \<Rightarrow> int64 \<Rightarrow> KeyRegistry \<Rightarrow> KeyRegistry" where
  "UnregisterPubKeysAtHeight cr height reg = fold (unregister_entry cr) (journal_keys (\<lambda>h. h = height) reg) reg"

definition UnregisterPubKeysAboveHeight :: "Crypto \<Rightarrow> int64 \<Rightarrow> int64 \<Rightarrow> KeyRegistry \<Rightarrow> KeyRegistry" where
  "UnregisterPubKeysAboveHeight cr target topH reg =
    (if sint topH > sint target \<and> sint (topH - target) \<le> journalPerHeightScanLimit
     then fold (\<lambda>h. UnregisterPubKeysAtHeight cr (word_of_int h)) [sint target + 1..sint topH] reg
     else fold (unregister_entry cr) (journal_keys (\<lambda>h. \<not> sint h \<le> sint target) reg) reg)"

subsection \<open>What a registration changes\<close>

definition listed :: "KeyRegistry \<Rightarrow> bytes \<Rightarrow> Address list" where
  "listed reg m = (case map_of (reg_Addresses reg) m of None \<Rightarrow> [] | Some as \<Rightarrow> as)"

abbreviation derived_listed :: "KeyRegistry \<Rightarrow> bytes \<Rightarrow> bytes set" where
  "derived_listed reg m \<equiv> addr_ByteValue ` set (listed reg m)"

lemma LoadAddresses_listed:
  "(case LoadAddresses reg a of Inl _ \<Rightarrow> [] | Inr as \<Rightarrow> as) = listed reg (addr_ByteValue a)"
  by (simp add: LoadAddresses_def listed_def split: option.split)

lemma IsRegisteredUnder_listed:
  "IsRegisteredUnder reg a d \<longleftrightarrow> addr_ByteValue d \<in> derived_listed reg (addr_ByteValue a)"
  by (simp add: IsRegisteredUnder_def LoadAddresses_def listed_def image_iff Bex_def eq_commute [of _ "addr_ByteValue d"] split: option.split)

lemma build_and_store_ok: "build_and_store cr a as msg reg = (None, StoreKeyTree (cr_H256 cr) a as reg)"
proof -
  have "filter (\<lambda>b. IsAddressInTree (cr_H256 cr) (NewKeyTree (cr_H256 cr) as) b \<noteq> Inr True) as = []"
    by (simp add: filter_empty_conv address_in_tree)
  then show ?thesis
    by (simp add: build_and_store_def Let_def)
qed

lemma PubKeyToAddress_length: "PubKeyToAddress H pb p = Inr a \<Longrightarrow> length (addr_ByteValue a) = AddressLength"
  by (auto simp: PubKeyToAddress_def BytesToAddress_def Address_Init_def split: if_splits)

lemma StorePubKeyInPatriciaTrie_new:
  assumes "PubKeyToAddress (cr_H160 cr) (pk_ByteValue pk) (pk_Primary pk) = Inr d"
    and "addr_ByteValue d = addr_ByteValue (pk_Address pk)"
    and "addr_ByteValue (pk_Address pk) \<notin> derived_listed reg (addr_ByteValue (pk_MainAddress pk))"
    and "StorePubKeyInPatriciaTrie cr pk reg = (None, reg')"
  shows "reg' = StoreKeyTree (cr_H256 cr) (pk_MainAddress pk) (listed reg (addr_ByteValue (pk_MainAddress pk)) @ [d]) reg"
proof -
  have no: "\<not> (\<exists>a \<in> set (listed reg (addr_ByteValue (pk_MainAddress pk))). addr_ByteValue a = addr_ByteValue (pk_Address pk))"
    using assms(3) by (metis imageI)
  show ?thesis
  proof (cases "listed reg (addr_ByteValue (pk_MainAddress pk)) = [] \<and> addr_ByteValue d = addr_ByteValue (pk_MainAddress pk)")
    case True
    have "StoreKeyTree (cr_H256 cr) d [d] reg = StoreKeyTree (cr_H256 cr) (pk_MainAddress pk) [d] reg"
      using True by (simp add: StoreKeyTree_def)
    then show ?thesis
      using assms(4) True no
      by (auto simp: StorePubKeyInPatriciaTrie_def LoadAddresses_listed assms(1) CreateAddressFromFirstPubKey_def build_and_store_ok
          split: if_splits)
  next
    case False
    then show ?thesis
      using assms(4) no
      by (auto simp: StorePubKeyInPatriciaTrie_def LoadAddresses_listed assms(1) build_and_store_ok Let_def split: if_splits)
  qed
qed

lemma StorePubKeyInPatriciaTrie_error:
  "StorePubKeyInPatriciaTrie cr pk reg = (Some e, reg') \<Longrightarrow> reg' = reg"
  by (auto simp: StorePubKeyInPatriciaTrie_def CreateAddressFromFirstPubKey_def build_and_store_ok LoadAddresses_listed Let_def
      split: if_splits sum.splits)

lemma StorePubKeyInPatriciaTrie_old:
  "addr_ByteValue (pk_Address pk) \<in> derived_listed reg (addr_ByteValue (pk_MainAddress pk)) \<Longrightarrow>
   snd (StorePubKeyInPatriciaTrie cr pk reg) = reg"
  by (auto simp: StorePubKeyInPatriciaTrie_def LoadAddresses_listed Let_def split: sum.split)

text \<open>A registration either leaves lists, heights and journal alone, or adds one derived address that the
  identity did not have.\<close>

lemma register_cases [consumes 1, case_names kept new]:
  assumes "registerPubKeyAtHeight cr pk h reg = (r, reg')"
  obtains "reg_Addresses reg' = reg_Addresses reg" "reg_Heights reg' = reg_Heights reg" "reg_Journal reg' = reg_Journal reg"
  | a d m where "d = addr_ByteValue (pk_Address pk)" "m = addr_ByteValue (pk_MainAddress pk)" "addr_ByteValue a = d"
    "length d = AddressLength" "d \<notin> derived_listed reg m" "reg_Addresses reg' = mput m (listed reg m @ [a]) (reg_Addresses reg)"
    "reg_Heights reg' = mput d h (reg_Heights reg)" "reg_Journal reg' = mput (h, d) m (reg_Journal reg)"
proof -
  define d m where "d = addr_ByteValue (pk_Address pk)" and "m = addr_ByteValue (pk_MainAddress pk)"
  consider (err) e where "StorePubKey cr pk reg = (Some e, reg)"
    | (ok) a where "PubKeyToAddress (cr_H160 cr) (pk_ByteValue pk) (pk_Primary pk) = Inr a" "addr_ByteValue a = d"
      "StorePubKey cr pk reg = (None, reg\<lparr>reg_Keys := mput d pk (reg_Keys reg)\<rparr>)"
    by (cases "PubKeyToAddress (cr_H160 cr) (pk_ByteValue pk) (pk_Primary pk)") (force simp: StorePubKey_def d_def)+
  then show thesis
  proof cases
    case err
    then show thesis
      using assms that(1) by (simp add: registerPubKeyAtHeight_def then_ok_def Let_def)
  next
    case (ok a)
    define s where "s = reg\<lparr>reg_Keys := mput d pk (reg_Keys reg)\<rparr>"
    have s: "reg_Addresses s = reg_Addresses reg" "reg_Heights s = reg_Heights reg" "reg_Journal s = reg_Journal reg"
      "listed s m = listed reg m"
      by (simp_all add: s_def listed_def)
    show thesis
    proof (cases "StorePubKeyInPatriciaTrie cr pk s")
      case (Pair e t)
      have run: "(r, reg') = (if e \<noteq> None \<or> d \<in> derived_listed reg m then (e, t)
          else (None, journalPubKeyRegistration h (pk_Address pk) (pk_MainAddress pk) (StoreRegistrationHeight (pk_Address pk) h t)))"
        using assms ok(3) Pair
        by (auto simp: registerPubKeyAtHeight_def then_ok_def Let_def IsRegisteredUnder_listed d_def m_def s_def split: option.splits)
      show thesis
      proof (cases "e \<noteq> None \<or> d \<in> derived_listed reg m")
        case True
        then have "t = s"
          using StorePubKeyInPatriciaTrie_error [of cr pk s _ t] StorePubKeyInPatriciaTrie_old [of pk s cr] Pair s(4)
          by (auto simp: d_def m_def)
        then show thesis
          using run True s that(1) by simp
      next
        case False
        then have "t = StoreKeyTree (cr_H256 cr) (pk_MainAddress pk) (listed s m @ [a]) s"
          using StorePubKeyInPatriciaTrie_new [OF ok(1), of s t] ok(2) Pair s(4) by (simp add: d_def m_def)
        then show thesis
          using that(2) [OF d_def m_def ok(2)] False run s ok(2) PubKeyToAddress_length [OF ok(1)]
          by (simp add: journalPubKeyRegistration_def StoreRegistrationHeight_def StoreKeyTree_def d_def m_def)
      qed
    qed
  qed
qed

subsection \<open>Reading as of a height\<close>

text \<open>A derived address belongs to one identity.\<close>

definition unshared :: "KeyRegistry \<Rightarrow> PubKey \<Rightarrow> bool" where
  "unshared reg pk \<longleftrightarrow>
    (\<forall>m. addr_ByteValue (pk_Address pk) \<in> derived_listed reg m \<longrightarrow> m = addr_ByteValue (pk_MainAddress pk))"

inductive registering :: "Crypto \<Rightarrow> int64 \<Rightarrow> int64 \<Rightarrow> KeyRegistry \<Rightarrow> KeyRegistry \<Rightarrow> bool" for cr target topH where
  register: "registerPubKeyAtHeight cr pk h reg = (r, reg') \<Longrightarrow> sint target < sint h \<Longrightarrow> sint h \<le> sint topH \<Longrightarrow>
    unshared reg pk \<Longrightarrow> wf_Address (pk_MainAddress pk) \<Longrightarrow> registering cr target topH reg reg'"

lemma LoadAddressesAsOf_listed:
  assumes "sint asOf < sint (NoHeightLimit :: int64)"
  shows "LoadAddressesAsOf reg a asOf =
    (let kept = filter (\<lambda>b. sint (RegistrationHeight reg (addr_ByteValue b)) \<le> sint asOf) (listed reg (addr_ByteValue a))
     in if kept = [] then Inl (Errorf ''key not found'') else Inr kept)"
proof -
  have "asOf \<noteq> NoHeightLimit" using assms by auto
  then show ?thesis
    by (simp add: LoadAddressesAsOf_def LoadAddresses_def listed_def RegisteredAsOf_def split: option.split)
qed

lemma below_NoHeightLimit: "sint (a :: int64) < sint (h :: int64) \<Longrightarrow> sint a < sint (NoHeightLimit :: int64)"
  using sint_range64 [of h] by simp

lemma listed_put: "reg_Addresses reg' = mput m as (reg_Addresses reg) \<Longrightarrow> listed reg' k = (if k = m then as else listed reg k)"
  by (simp add: listed_def)

lemma registering_as_of:
  assumes "registering cr asOf topH reg reg'"
  shows "LoadAddressesAsOf reg' a asOf = LoadAddressesAsOf reg a asOf"
  using assms
proof cases
  case (register pk h r)
  note lim = below_NoHeightLimit [OF register(2)]
  from register(1) show ?thesis
  proof (cases rule: register_cases)
    case kept
    then show ?thesis
      unfolding LoadAddressesAsOf_def LoadAddresses_def RegisteredAsOf_def RegistrationHeight_def by (simp only:)
  next
    case (new b d m)
    have other: "addr_ByteValue x \<noteq> d" if "x \<in> set (listed reg k)" for x k
      using that new(1,2,5) register(4) unfolding unshared_def by (metis imageI)
    have height: "RegistrationHeight reg' k = (if k = d then h else RegistrationHeight reg k)" for k
      unfolding RegistrationHeight_def new(7) by (simp add: mget_mput)
    have "filter (\<lambda>b. sint (RegistrationHeight reg' (addr_ByteValue b)) \<le> sint asOf) (listed reg k) =
          filter (\<lambda>b. sint (RegistrationHeight reg (addr_ByteValue b)) \<le> sint asOf) (listed reg k)" for k
      by (rule filter_cong [OF refl]) (simp add: height other)
    moreover have "\<not> sint (RegistrationHeight reg' (addr_ByteValue b)) \<le> sint asOf"
      using register(2) by (simp add: height new(3))
    ultimately show ?thesis
      unfolding LoadAddressesAsOf_listed [OF lim] listed_put [OF new(6)] by simp
  qed
qed

text \<open>The keys a block offers, and what is asked of them.\<close>

definition offered :: "Crypto \<Rightarrow> bytes list \<Rightarrow> DB \<Rightarrow> PubKey set" where
  "offered cr txs db = {pk. \<exists>txh \<in> set txs. \<exists>t. fst (LoadFromDBPoolTx cr TransactionPoolHashesDBPrefix txh db) = Inr t \<and>
     completed_key cr t = Some pk}"

definition one_identity :: "KeyRegistry \<Rightarrow> PubKey set \<Rightarrow> bool" where
  "one_identity reg K \<longleftrightarrow> (\<forall>pk \<in> K. unshared reg pk \<and> wf_Address (pk_MainAddress pk) \<and>
     (\<forall>pk' \<in> K. addr_ByteValue (pk_Address pk') = addr_ByteValue (pk_Address pk) \<longrightarrow>
        addr_ByteValue (pk_MainAddress pk') = addr_ByteValue (pk_MainAddress pk)))"

lemma LoadFromDBPoolTx_missing: "map_of db (p @ k) = None \<Longrightarrow> fst (LoadFromDBPoolTx cr p k db) = Inl (Errorf ''key not found'')"
  by (simp add: LoadFromDBPoolTx_def)

lemma LoadFromDBPoolTx_same:
  assumes "map_of db (p @ k) = map_of db' (p @ k)"
  shows "fst (LoadFromDBPoolTx cr p k db) = fst (LoadFromDBPoolTx cr p k db')"
  unfolding LoadFromDBPoolTx_def Let_def assms
  by (cases "map_of db' (p @ k)"; simp)
    (simp split: sum.split)

lemma LoadFromDBPoolTx_db: "snd (LoadFromDBPoolTx cr p k db) \<in> {db, mdel (p @ k) db}"
  unfolding LoadFromDBPoolTx_def Let_def
  by (cases "map_of db (p @ k)"; simp)
    (simp split: sum.split)

lemma LoadFromDBPoolTx_shrinks:
  assumes "fst (LoadFromDBPoolTx cr p k (snd (LoadFromDBPoolTx cr p k0 db))) = Inr t"
  shows "fst (LoadFromDBPoolTx cr p k db) = Inr t"
proof -
  define db' where "db' = snd (LoadFromDBPoolTx cr p k0 db)"
  have "map_of db' (p @ k) \<noteq> None"
    using assms LoadFromDBPoolTx_missing [of db' p k cr] by (auto simp: db'_def)
  then have "map_of db' (p @ k) = map_of db (p @ k)"
    using LoadFromDBPoolTx_db [of cr p k0 db] by (auto simp: db'_def [symmetric] map_of_mdel split: if_splits)
  then show ?thesis
    using LoadFromDBPoolTx_same assms unfolding db'_def by metis
qed

lemma one_identity_register:
  assumes "registerPubKeyAtHeight cr pk h reg = (r, reg')" "pk \<in> K" "one_identity reg K"
  shows "one_identity reg' K"
  using assms(1)
proof (cases rule: register_cases)
  case kept
  then show ?thesis
    using assms(3) unfolding one_identity_def unshared_def listed_def by (simp only:)
next
  case (new a d m)
  have "k = addr_ByteValue (pk_MainAddress pk')"
    if "pk' \<in> K" and listed: "addr_ByteValue (pk_Address pk') \<in> derived_listed reg' k" for pk' k
  proof (cases "addr_ByteValue (pk_Address pk') \<in> derived_listed reg k")
    case True
    then show ?thesis
      using assms(3) that(1) unfolding one_identity_def unshared_def by metis
  next
    case False
    then have "k = m" "addr_ByteValue (pk_Address pk') = d"
      using listed new(3) unfolding listed_put [OF new(6)] by (simp_all split: if_splits)
    then show ?thesis
      using assms(2,3) that(1) new(1,2) unfolding one_identity_def by metis
  qed
  then show ?thesis
    using assms(3) unfolding one_identity_def unshared_def by blast
qed

lemma ProcessBlockPubKey_registers:
  assumes "ProcessBlockPubKey cr txs h (db, reg) = (r, db', reg')" "one_identity reg K" "offered cr txs db \<subseteq> K"
    "sint target < sint h" "sint h \<le> sint topH"
  shows "(registering cr target topH)\<^sup>*\<^sup>* reg reg'"
  using assms(1-3)
proof (induction txs arbitrary: db reg)
  case (Cons txh txs)
  obtain res db1 where l: "LoadFromDBPoolTx cr TransactionPoolHashesDBPrefix txh db = (res, db1)"
    by fastforce
  have sub: "offered cr txs db1 \<subseteq> K"
    using Cons.prems(3) LoadFromDBPoolTx_shrinks [of cr TransactionPoolHashesDBPrefix _ txh db] l
    by (fastforce simp: offered_def)
  show ?case
  proof (cases res)
    case (Inr t)
    show ?thesis
    proof (cases "completed_key cr t")
      case None
      then show ?thesis
        using Cons.IH [OF _ Cons.prems(2) sub] Cons.prems(1) l Inr by simp
    next
      case (Some pk)
      then have K: "pk \<in> K"
        using Cons.prems(3) l Inr by (fastforce simp: offered_def)
      obtain e reg1 where reg1: "registerPubKeyAtHeight cr pk h reg = (e, reg1)" by fastforce
      have "unshared reg pk" "wf_Address (pk_MainAddress pk)"
        using Cons.prems(2) K unfolding one_identity_def by blast+
      note step = registering.register [OF reg1 assms(4,5) this]
      show ?thesis
      proof (cases e)
        case None
        then have "(registering cr target topH)\<^sup>*\<^sup>* reg1 reg'"
          using Cons.IH [OF _ one_identity_register [OF reg1 K Cons.prems(2)] sub] Cons.prems(1) l Inr Some reg1 by simp
        with step show ?thesis by simp
      next
        case (Some e')
        then show ?thesis
          using Cons.prems(1) l Inr \<open>completed_key cr t = Some pk\<close> reg1 step by simp
      qed
    qed
  qed (use Cons.prems(1) l in simp)
qed simp

subsection \<open>Rewinding registrations\<close>

definition undone_at :: "int64 \<Rightarrow> KeyRegistry \<Rightarrow> bytes \<Rightarrow> bytes set" where
  "undone_at target reg m = {d. \<exists>h. sint target < sint h \<and> map_of (reg_Journal reg) (h, d) = Some m}"

text \<open>\<open>rewinds target reg cur\<close>: taking out of \<open>cur\<close> what its journal records above \<open>target\<close> gives \<open>reg\<close>.\<close>

definition rewinds :: "int64 \<Rightarrow> KeyRegistry \<Rightarrow> KeyRegistry \<Rightarrow> bool" where
  "rewinds target reg cur \<longleftrightarrow>
     (\<forall>m. listed reg m = filter (\<lambda>a. addr_ByteValue a \<notin> undone_at target cur m) (listed cur m)) \<and>
     (\<forall>d. map_of (reg_Heights reg) d = (if \<exists>m. d \<in> undone_at target cur m then None else map_of (reg_Heights cur) d)) \<and>
     (\<forall>m. map_of (reg_Addresses cur) m \<noteq> Some [])"

text \<open>The journal above the target is readable, ends at the tip and records only what is listed; every
  recorded height is that of a listed key.\<close>

definition journal_ok :: "int64 \<Rightarrow> int64 \<Rightarrow> KeyRegistry \<Rightarrow> bool" where
  "journal_ok target topH reg \<longleftrightarrow>
     (\<forall>h d m. map_of (reg_Journal reg) (h, d) = Some m \<longrightarrow> sint target < sint h \<longrightarrow>
        length d = AddressLength \<and> length m = AddressLength \<and> sint h \<le> sint topH)"

definition entries_listed :: "int64 \<Rightarrow> KeyRegistry \<Rightarrow> bool" where
  "entries_listed target reg \<longleftrightarrow>
     (\<forall>m. undone_at target reg m \<subseteq> derived_listed reg m) \<and>
     (\<forall>d. map_of (reg_Heights reg) d \<noteq> None \<longrightarrow> (\<exists>m. d \<in> derived_listed reg m))"

lemma registering_rewinds:
  assumes "registering cr target topH cur cur'" "rewinds target reg cur" "journal_ok target topH cur" "entries_listed target cur"
  shows "rewinds target reg cur' \<and> journal_ok target topH cur' \<and> entries_listed target cur'"
  using assms(1)
proof cases
  case (register pk h r)
  from register(1) show ?thesis
  proof (cases rule: register_cases)
    case kept
    have "rewinds target reg cur'"
      using assms(2) unfolding rewinds_def undone_at_def listed_def kept .
    moreover have "journal_ok target topH cur'"
      using assms(3) unfolding journal_ok_def kept .
    moreover have "entries_listed target cur'"
      using assms(4) unfolding entries_listed_def undone_at_def listed_def kept .
    ultimately show ?thesis by simp
  next
    case (new a d m)
    have fresh: "d \<notin> derived_listed cur k" for k
      using register(4) new(1,2,5) unfolding unshared_def by metis
    then have "d \<notin> undone_at target cur k" for k
      using assms(4) unfolding entries_listed_def by blast
    then have no: "map_of (reg_Journal cur) (h', d) \<noteq> Some k" if "sint target < sint h'" for h' k
      using that unfolding undone_at_def by blast
    have none: "map_of (reg_Heights cur) d = None"
      using assms(4) fresh unfolding entries_listed_def by blast
    have un: "undone_at target cur' k = (if k = m then insert d (undone_at target cur k) else undone_at target cur k)" for k
      using no register(2) unfolding undone_at_def new(8) by auto
    note li = listed_put [OF new(6)]
    have "rewinds target reg cur'"
      unfolding rewinds_def
    proof (intro conjI allI)
      fix k
      have "filter (\<lambda>a. addr_ByteValue a \<notin> insert d (undone_at target cur m)) (listed cur m) =
            filter (\<lambda>a. addr_ByteValue a \<notin> undone_at target cur m) (listed cur m)"
        by (rule filter_cong [OF refl]) (use fresh in auto)
      then show "listed reg k = filter (\<lambda>a. addr_ByteValue a \<notin> undone_at target cur' k) (listed cur' k)"
        using assms(2) new(3) unfolding rewinds_def li un by simp
      show "map_of (reg_Addresses cur') k \<noteq> Some []"
        using assms(2) unfolding rewinds_def new(6) by simp
    next
      fix d'
      have "map_of (reg_Heights reg) d = None"
        using assms(2) none unfolding rewinds_def by simp
      then show "map_of (reg_Heights reg) d' = (if \<exists>k. d' \<in> undone_at target cur' k then None else map_of (reg_Heights cur') d')"
        using assms(2) unfolding rewinds_def un new(7) by (cases "d' = d") auto
    qed
    moreover have "journal_ok target topH cur'"
      using assms(3) register(3,5) new(2,4) unfolding journal_ok_def new(8) by (simp add: wf_Address_def)
    moreover have "entries_listed target cur'"
      unfolding entries_listed_def un li new(7)
    proof (intro conjI allI impI)
      show "(if k = m then insert d (undone_at target cur k) else undone_at target cur k)
          \<subseteq> addr_ByteValue ` set (if k = m then listed cur m @ [a] else listed cur k)" for k
        using assms(4) new(3) unfolding entries_listed_def by auto
      show "\<exists>k. d' \<in> addr_ByteValue ` set (if k = m then listed cur m @ [a] else listed cur k)"
        if h: "map_of (mput d h (reg_Heights cur)) d' \<noteq> None" for d'
      proof (cases "d' = d")
        case True
        then show ?thesis using new(3) by (intro exI [of _ m]) simp
      next
        case False
        then have "map_of (reg_Heights cur) d' \<noteq> None"
          using h by simp
        then obtain k where "d' \<in> derived_listed cur k"
          using assms(4) unfolding entries_listed_def by blast
        then show ?thesis by (intro exI [of _ k]) auto
      qed
    qed
    ultimately show ?thesis by simp
  qed
qed


lemma unregisterPubKey_effect:
  assumes "\<forall>k. map_of (reg_Addresses reg) k \<noteq> Some []" "reg' = unregisterPubKey cr (address_of d) (address_of m) reg"
  shows "listed reg' k = (if k = m then filter (\<lambda>a. addr_ByteValue a \<noteq> d) (listed reg m) else listed reg k)"
    "map_of (reg_Addresses reg') k \<noteq> Some []" "map_of (reg_Heights reg') = (map_of (reg_Heights reg))(d := None)"
    "reg_Journal reg' = reg_Journal reg"
proof -
  define kept where "kept = filter (\<lambda>a. addr_ByteValue a \<noteq> d) (listed reg m)"
  have same: "length kept = length (listed reg m) \<longleftrightarrow> kept = listed reg m"
    unfolding kept_def by (metis filter_cong filter_id_conv length_filter_less less_irrefl_nat)
  have form: "reg_Addresses reg' = (if kept = listed reg m then reg_Addresses reg
      else if kept = [] then mdel m (reg_Addresses reg) else mput m kept (reg_Addresses reg)) \<and>
    map_of (reg_Heights reg') = (map_of (reg_Heights reg))(d := None) \<and> reg_Journal reg' = reg_Journal reg"
    unfolding assms(2) unregisterPubKey_def Let_def
    by (simp add: LoadAddresses_def address_of_def DeleteRegistrationHeight_def RemoveKeyTree_def StoreKeyTree_def
        map_of_mdel same [symmetric] split: option.split)
      (simp add: kept_def listed_def)
  show "map_of (reg_Heights reg') = (map_of (reg_Heights reg))(d := None)" "reg_Journal reg' = reg_Journal reg"
    using form by simp_all
  show "map_of (reg_Addresses reg') k \<noteq> Some []"
    using form assms(1) by (simp add: map_of_mdel)
  show "listed reg' k = (if k = m then filter (\<lambda>a. addr_ByteValue a \<noteq> d) (listed reg m) else listed reg k)"
    using form unfolding kept_def [symmetric] by (simp add: listed_def [of reg'] map_of_mdel) (simp add: listed_def)
qed


lemma unregister_entry_rewinds:
  assumes "rewinds target reg cur" "journal_ok target topH cur" "sint target < sint h"
    "map_of (reg_Journal cur) (h, d) \<noteq> None" "cur' = unregister_entry cr (h, d) cur"
  shows "rewinds target reg cur' \<and> journal_ok target topH cur'"
proof -
  obtain m where m: "map_of (reg_Journal cur) (h, d) = Some m"
    using assms(4) by blast
  then have len: "length m = AddressLength"
    using assms(2,3) unfolding journal_ok_def by blast
  define s where "s = unregisterPubKey cr (address_of d) (address_of m) cur"
  have cur': "cur' = s\<lparr>reg_Journal := mdel (h, d) (reg_Journal s)\<rparr>"
    using m len unfolding assms(5) s_def by (simp add: unregister_entry_def Let_def)
  have "\<forall>k. map_of (reg_Addresses cur) k \<noteq> Some []"
    using assms(1) unfolding rewinds_def by blast
  note eff = unregisterPubKey_effect [OF this s_def]
  have jo: "map_of (reg_Journal cur') = (map_of (reg_Journal cur))((h, d) := None)"
    unfolding cur' by (simp add: eff map_of_mdel)
  have li: "listed cur' k = (if k = m then filter (\<lambda>a. addr_ByteValue a \<noteq> d) (listed cur m) else listed cur k)" for k
    using eff(1) [of k] unfolding cur' by (simp add: listed_def)
  have he: "map_of (reg_Heights cur') = (map_of (reg_Heights cur))(d := None)"
    unfolding cur' by (simp add: eff)
  have top: "d \<in> undone_at target cur m"
    using m assms(3) unfolding undone_at_def by blast
  have "map_of (reg_Journal cur') (h', x) = Some k \<longleftrightarrow> map_of (reg_Journal cur) (h', x) = Some k" if "k \<noteq> m" for h' x k
    using m that unfolding jo by auto
  then have un: "insert d (undone_at target cur' m) = undone_at target cur m"
    "k \<noteq> m \<Longrightarrow> undone_at target cur' k = undone_at target cur k" for k
    using m assms(3) unfolding undone_at_def by (auto simp: jo)
  have sub: "undone_at target cur' k \<subseteq> undone_at target cur k" for k
    using un by (cases "k = m") auto
  have "rewinds target reg cur'"
    unfolding rewinds_def
  proof (intro conjI allI)
    fix k
    have *: "listed reg k = filter (\<lambda>a. addr_ByteValue a \<notin> undone_at target cur k) (listed cur k)"
      using assms(1) unfolding rewinds_def by blast
    show "listed reg k = filter (\<lambda>a. addr_ByteValue a \<notin> undone_at target cur' k) (listed cur' k)"
      unfolding li using * un(2) [of k] by (auto simp: un(1) [symmetric] conj_commute)
    show "map_of (reg_Addresses cur') k \<noteq> Some []"
      using eff(2) [of k] unfolding cur' by simp
  next
    fix d'
    have *: "map_of (reg_Heights reg) d' = (if \<exists>m. d' \<in> undone_at target cur m then None else map_of (reg_Heights cur) d')"
      using assms(1) unfolding rewinds_def by blast
    show "map_of (reg_Heights reg) d' = (if \<exists>m. d' \<in> undone_at target cur' m then None else map_of (reg_Heights cur') d')"
    proof (cases "d' = d")
      case True
      then show ?thesis using * top he by auto
    next
      case False
      then have "d' \<in> undone_at target cur' k \<longleftrightarrow> d' \<in> undone_at target cur k" for k
        using un by (cases "k = m") auto
      then show ?thesis using * False he by simp
    qed
  qed
  moreover have "journal_ok target topH cur'"
    using assms(2) unfolding journal_ok_def jo by simp
  ultimately show ?thesis by simp
qed

text \<open>A sweep over journal keys takes each of them out and nothing else of the journal.\<close>

lemma unregister_entry_journal: "map_of (reg_Journal (unregister_entry cr k reg)) = (map_of (reg_Journal reg))(k := None)"
proof -
  have "reg_Journal (unregisterPubKey cr a b reg) = reg_Journal reg" for a b
    by (simp add: unregisterPubKey_def Let_def DeleteRegistrationHeight_def RemoveKeyTree_def StoreKeyTree_def split: sum.split)
  then show ?thesis
    by (simp add: unregister_entry_def Let_def map_of_mdel split: option.split)
qed

lemma unregister_fold:
  assumes "rewinds target reg cur" "journal_ok target topH cur" "\<forall>(h, d) \<in> set ks. sint target < sint h"
    "cur' = fold (unregister_entry cr) ks cur"
  shows "rewinds target reg cur' \<and> journal_ok target topH cur' \<and>
    map_of (reg_Journal cur') = (\<lambda>k. if k \<in> set ks then None else map_of (reg_Journal cur) k)"
  using assms
proof (induction ks arbitrary: cur)
  case (Cons k ks)
  obtain h d where k: "k = (h, d)" by fastforce
  define s where "s = unregister_entry cr k cur"
  have step: "rewinds target reg s \<and> journal_ok target topH s"
  proof (cases "map_of (reg_Journal cur) k")
    case None
    have "mdel k (reg_Journal cur) = reg_Journal cur"
      by (rule delete_id) (use None in \<open>simp add: map_of_eq_None_iff\<close>)
    then have "s = cur"
      using None by (simp add: s_def unregister_entry_def)
    then show ?thesis using Cons.prems(1,2) by simp
  next
    case Some
    then show ?thesis
      using unregister_entry_rewinds [OF Cons.prems(1,2), of h d s cr] Cons.prems(3) by (simp add: k s_def)
  qed
  show ?case
    using Cons.IH [of s] step Cons.prems(3,4) unregister_entry_journal [of cr k cur] by (auto simp: s_def)
qed auto


lemma journal_keys_set:
  "set (journal_keys P reg) = {(h, d). map_of (reg_Journal reg) (h, d) \<noteq> None \<and> P h \<and> length d = AddressLength}"
  unfolding journal_keys_def set_sort set_filter set_map map_of_eq_None_iff by auto

lemma unregister_at:
  assumes "rewinds target reg cur" "journal_ok target topH cur" "sint target < sint h" "u = UnregisterPubKeysAtHeight cr h cur"
  shows "rewinds target reg u \<and> journal_ok target topH u \<and>
    (\<forall>h' d m. sint target < sint h' \<longrightarrow> map_of (reg_Journal u) (h', d) = Some m \<longrightarrow>
       h' \<noteq> h \<and> map_of (reg_Journal cur) (h', d) = Some m)"
proof -
  have above: "\<forall>(h', d) \<in> set (journal_keys (\<lambda>h'. h' = h) cur). sint target < sint h'"
    using assms(3) by (auto simp: journal_keys_set)
  note f = unregister_fold [OF assms(1,2) above assms(4) [unfolded UnregisterPubKeysAtHeight_def]]
  have "h' \<noteq> h \<and> map_of (reg_Journal cur) (h', d) = Some m"
    if "sint target < sint h'" "map_of (reg_Journal u) (h', d) = Some m" for h' d m
  proof -
    have no: "(h', d) \<notin> set (journal_keys (\<lambda>h'. h' = h) cur)" and m: "map_of (reg_Journal cur) (h', d) = Some m"
      using that(2) f by (simp_all split: if_splits)
    moreover have "length d = AddressLength"
      using assms(2) m that(1) unfolding journal_ok_def by blast
    ultimately show ?thesis by (auto simp: journal_keys_set)
  qed
  with f show ?thesis by blast
qed

lemma unregister_heights:
  assumes "rewinds target reg cur" "journal_ok target topH cur" "\<forall>h \<in> set hs. sint target < h \<and> h \<le> sint topH"
    "u = fold (\<lambda>h. UnregisterPubKeysAtHeight cr (word_of_int h)) hs cur"
  shows "rewinds target reg u \<and> journal_ok target topH u \<and>
    (\<forall>h d m. sint target < sint h \<longrightarrow> map_of (reg_Journal u) (h, d) = Some m \<longrightarrow>
       sint h \<notin> set hs \<and> map_of (reg_Journal cur) (h, d) = Some m)"
  using assms
proof (induction hs arbitrary: cur)
  case (Cons i hs)
  have i: "sint (word_of_int i :: int64) = i"
    using Cons.prems(3) sint_range64 [of target] sint_range64 [of topH] by (intro sint_word_of_int64) auto
  define s where "s = UnregisterPubKeysAtHeight cr (word_of_int i) cur"
  have at: "rewinds target reg s \<and> journal_ok target topH s \<and>
    (\<forall>h' d m. sint target < sint h' \<longrightarrow> map_of (reg_Journal s) (h', d) = Some m \<longrightarrow>
       h' \<noteq> word_of_int i \<and> map_of (reg_Journal cur) (h', d) = Some m)"
    using Cons.prems(3) i by (intro unregister_at [OF Cons.prems(1,2) _ s_def]) simp
  moreover have "rewinds target reg u \<and> journal_ok target topH u \<and>
    (\<forall>h d m. sint target < sint h \<longrightarrow> map_of (reg_Journal u) (h, d) = Some m \<longrightarrow>
       sint h \<notin> set hs \<and> map_of (reg_Journal s) (h, d) = Some m)"
    using at Cons.prems(3,4) by (intro Cons.IH) (auto simp: s_def)
  moreover have "h' \<noteq> word_of_int i \<longleftrightarrow> sint h' \<noteq> i" for h' :: int64
    using i by auto
  ultimately show ?case by (metis set_ConsD)
qed auto

lemma unregister_above:
  assumes "rewinds target reg cur" "journal_ok target topH cur" "sint target < sint topH"
    "u = UnregisterPubKeysAboveHeight cr target topH cur"
  shows "rewinds target reg u \<and> (\<forall>h d. sint target < sint h \<longrightarrow> map_of (reg_Journal u) (h, d) = None)"
proof (cases "sint (topH - target) \<le> journalPerHeightScanLimit")
  case True
  have "u = fold (\<lambda>h. UnregisterPubKeysAtHeight cr (word_of_int h)) [sint target + 1..sint topH] cur"
    using True assms(3,4) by (simp add: UnregisterPubKeysAboveHeight_def)
  then have sweep: "rewinds target reg u \<and> journal_ok target topH u \<and>
    (\<forall>h d m. sint target < sint h \<longrightarrow> map_of (reg_Journal u) (h, d) = Some m \<longrightarrow>
       sint h \<notin> set [sint target + 1..sint topH] \<and> map_of (reg_Journal cur) (h, d) = Some m)"
    by (intro unregister_heights [OF assms(1,2)]) auto
  moreover have "map_of (reg_Journal u) (h, d) = None" if h: "sint target < sint h" for h d
  proof (rule ccontr)
    assume "map_of (reg_Journal u) (h, d) \<noteq> None"
    then obtain m where m: "map_of (reg_Journal u) (h, d) = Some m" by blast
    with sweep h have "\<not> sint h \<le> sint topH" by auto
    with sweep h m show False unfolding journal_ok_def by blast
  qed
  ultimately show ?thesis by blast
next
  case False
  have u: "u = fold (unregister_entry cr) (journal_keys (\<lambda>h. \<not> sint h \<le> sint target) cur) cur"
    using False assms(4) by (simp add: UnregisterPubKeysAboveHeight_def)
  have above: "\<forall>(h, d) \<in> set (journal_keys (\<lambda>h. \<not> sint h \<le> sint target) cur). sint target < sint h"
    by (auto simp: journal_keys_set)
  note f = unregister_fold [OF assms(1,2) above u]
  have "map_of (reg_Journal u) (h, d) = None" if h: "sint target < sint h" for h d
  proof (cases "map_of (reg_Journal cur) (h, d)")
    case (Some m)
    then have "length d = AddressLength"
      using assms(2) h unfolding journal_ok_def by blast
    then show ?thesis
      using f Some h by (simp add: journal_keys_set)
  qed (use f in simp)
  with f show ?thesis by blast
qed


text \<open>Applying blocks above a height, as far as the registry is concerned; a block may fail half-way.\<close>

inductive applying_keys :: "Crypto \<Rightarrow> int64 \<Rightarrow> int64 \<Rightarrow> KeyRegistry \<Rightarrow> KeyRegistry \<Rightarrow> bool" for cr target topH where
  block: "ProcessBlockPubKey cr txs h (db, reg) = (r, db', reg') \<Longrightarrow> sint target < sint h \<Longrightarrow> sint h \<le> sint topH \<Longrightarrow>
    one_identity reg (offered cr txs db) \<Longrightarrow> applying_keys cr target topH reg reg'"

lemma applying_keys_registers: "(applying_keys cr target topH)\<^sup>*\<^sup>* reg reg' \<Longrightarrow> (registering cr target topH)\<^sup>*\<^sup>* reg reg'"
proof (induction rule: rtranclp_induct)
  case (step s s')
  from step(2) have "(registering cr target topH)\<^sup>*\<^sup>* s s'"
    by cases (rule ProcessBlockPubKey_registers [OF _ _ order_refl])
  with step(3) show ?case by (rule rtranclp_trans)
qed simp


definition registry_ok :: "int64 \<Rightarrow> KeyRegistry \<Rightarrow> bool" where
  "registry_ok tip reg \<longleftrightarrow>
     (\<forall>m. map_of (reg_Addresses reg) m \<noteq> Some []) \<and>
     (\<forall>d. map_of (reg_Heights reg) d \<noteq> None \<longrightarrow> (\<exists>m. d \<in> derived_listed reg m)) \<and>
     (\<forall>h d. map_of (reg_Journal reg) (h, d) \<noteq> None \<longrightarrow> sint h \<le> sint tip)"

lemma applying_keys_rewinds:
  assumes "(applying_keys cr target topH)\<^sup>*\<^sup>* reg reg'" "registry_ok target reg"
  shows "rewinds target reg reg' \<and> journal_ok target topH reg'"
proof -
  have none: "undone_at target reg m = {}" for m
    using assms(2) unfolding registry_ok_def undone_at_def by fastforce
  have "rewinds target reg reg \<and> journal_ok target topH reg \<and> entries_listed target reg"
    using assms(2) none unfolding rewinds_def entries_listed_def registry_ok_def journal_ok_def by fastforce
  with applying_keys_registers [OF assms(1)]
  have "rewinds target reg reg' \<and> journal_ok target topH reg' \<and> entries_listed target reg'"
    by (induction rule: rtranclp_induct) (use registering_rewinds in blast)+
  then show ?thesis by simp
qed



subsection \<open>A concrete registration\<close>

definition sample_crypto :: Crypto where
  "sample_crypto = \<lparr>cr_enc = sample_enc, cr_H160 = (\<lambda>_. replicate 20 7), cr_H256 = (\<lambda>_. replicate 32 9)\<rparr>"

definition sample_key :: "Address \<Rightarrow> PubKey" where
  "sample_key m = \<lparr>pk_ByteValue = replicate 897 1, pk_Address = sample_addr 7, pk_MainAddress = m, pk_Primary = True\<rparr>"

definition sample_key_tx :: Transaction where
  "sample_key_tx = sample_tx\<lparr>tx_TxData := (tx_TxData sample_tx)\<lparr>Pubkey := sample_key (sample_addr 7)\<rparr>\<rparr>"

definition sample_key_db :: DB where
  "sample_key_db = [(TransactionPoolHashesDBPrefix @ replicate 32 9, Transaction_GetBytes sample_key_tx)]"

definition empty_registry :: KeyRegistry where
  "empty_registry = \<lparr>reg_Keys = [], reg_Addresses = [], reg_Trees = [], reg_Roots = [], reg_Heights = [], reg_Journal = []\<rparr>"

lemma sample_key_address: "PubKeyToAddress (\<lambda>_. replicate 20 7) b True = Inr (sample_addr 7)"
  by (simp add: PubKeyToAddress_def BytesToAddress_def Address_Init_def sample_addr_def)

lemma sample_key_tx_wf: "wf_Transaction sample_enc (\<lambda>_. replicate 20 7) sample_key_tx"
proof -
  have "PubKey_Init sample_enc (\<lambda>_. replicate 20 7) (replicate 897 1) (sample_addr 7) = Inr (sample_key (sample_addr 7))"
    by (simp add: PubKey_Init_def PubKeyLength_def sample_enc_def sample_key_address sample_key_def Let_def)
  then show ?thesis
    by (simp add: wf_Transaction_def sample_key_tx_def sample_tx_def wf_TxParam_def wf_TxData_def sample_addr_def wf_Address_def
        zero_TxData_def zero_PubKey_def zero_Address_def TxData_body_def Address_GetBytesWithPrimary_def Signature_Init_def sample_key_def)
qed

lemma sample_key_valid: "IsValidPubKeyLength sample_enc 897 True"
  by (simp add: IsValidPubKeyLength_def PubKeyLength_def sample_enc_def Let_def)

lemma listed_Keys [simp]: "listed (reg\<lparr>reg_Keys := ks\<rparr>) = listed reg"
  by (simp add: listed_def fun_eq_iff)

lemma sample_register:
  assumes "listed reg (addr_ByteValue m) = []"
  shows "\<exists>reg'. registerPubKeyAtHeight sample_crypto (sample_key m) h reg = (None, reg') \<and>
    reg_Addresses reg' = mput (addr_ByteValue m) [sample_addr 7] (reg_Addresses reg) \<and>
    reg_Heights reg' = mput (replicate 20 7) h (reg_Heights reg)"
  using assms
  by (simp add: registerPubKeyAtHeight_def then_ok_def StorePubKey_def StorePubKeyInPatriciaTrie_def LoadAddresses_listed
      CreateAddressFromFirstPubKey_def build_and_store_ok sample_crypto_def sample_key_def sample_key_address sample_key_valid Let_def
      IsRegisteredUnder_listed StoreKeyTree_def journalPubKeyRegistration_def StoreRegistrationHeight_def)
    (simp add: sample_addr_def)

lemma sample_load:
  "LoadFromDBPoolTx sample_crypto TransactionPoolHashesDBPrefix (replicate 32 9) sample_key_db = (Inr sample_key_tx, sample_key_db)"
proof -
  have "HashMatchesBody (\<lambda>_. replicate 32 9) sample_key_tx" "tx_Hash sample_key_tx = replicate 32 9"
    by (simp_all add: HashMatchesBody_def sample_key_tx_def sample_tx_def GetHashFromBytes_def Hash_Set_def EmptyHash_def)
  then show ?thesis
    using Transaction_round_trip [OF sample_key_tx_wf, of "[]"]
    by (simp add: LoadFromDBPoolTx_def sample_key_db_def sample_crypto_def Transaction_bytes_ne)
qed

lemma sample_completed: "completed_key sample_crypto sample_key_tx = Some (sample_key (sample_addr 7))"
  by (simp add: completed_key_def sample_key_tx_def sample_key_def sample_addr_def GetSenderAddress_def sample_tx_def Let_def)

lemma sample_block:
  "\<exists>reg'. ProcessBlockPubKey sample_crypto [replicate 32 9] 5 (sample_key_db, empty_registry) = (None, sample_key_db, reg') \<and>
    LoadAddresses reg' (sample_addr 7) = Inr [sample_addr 7]"
  using sample_register [of empty_registry "sample_addr 7" 5] sample_load sample_completed
  by (auto simp: empty_registry_def listed_def LoadAddresses_def)

lemma sample_applying:
  assumes "ProcessBlockPubKey sample_crypto [replicate 32 9] 5 (sample_key_db, empty_registry) = (r, db', reg')"
  shows "(applying_keys sample_crypto 4 6)\<^sup>*\<^sup>* empty_registry reg'"
proof -
  have "offered sample_crypto [replicate 32 9] sample_key_db = {sample_key (sample_addr 7)}"
    by (auto simp: offered_def sample_load sample_completed)
  then have "one_identity empty_registry (offered sample_crypto [replicate 32 9] sample_key_db)"
    by (simp add: one_identity_def unshared_def listed_def empty_registry_def wf_Address_def sample_key_def sample_addr_def)
  then show ?thesis
    by (intro r_into_rtranclp applying_keys.block [OF assms]) simp_all
qed



text \<open>A key that two identities register is recorded at the later height only, so that the first identity
  loses it as of the heights in between.\<close>

lemma shared_key_looks_younger:
  assumes "m = sample_addr 7" "m' = sample_addr 8"
    "reg1 = snd (registerPubKeyAtHeight sample_crypto (sample_key m) 3 empty_registry)"
    "reg2 = snd (registerPubKeyAtHeight sample_crypto (sample_key m') 5 reg1)"
  shows "LoadAddressesAsOf reg1 m 4 = Inr [sample_addr 7]" "LoadAddressesAsOf reg2 m 4 = Inl (Errorf ''key not found'')"
proof -
  have ne: "addr_ByteValue m \<noteq> addr_ByteValue m'"
    by (simp add: assms(1,2) sample_addr_def)
  have 1: "reg_Addresses reg1 = mput (addr_ByteValue m) [sample_addr 7] []" "reg_Heights reg1 = mput (replicate 20 7) 3 []"
    using sample_register [of empty_registry m 3] by (auto simp: assms(3) empty_registry_def listed_def)
  then have 2: "reg_Addresses reg2 = mput (addr_ByteValue m') [sample_addr 7] (reg_Addresses reg1)"
    "reg_Heights reg2 = mput (replicate 20 7) 5 (reg_Heights reg1)"
    using sample_register [of reg1 m' 5] ne by (auto simp: assms(4) listed_def)
  show "LoadAddressesAsOf reg1 m 4 = Inr [sample_addr 7]" "LoadAddressesAsOf reg2 m 4 = Inl (Errorf ''key not found'')"
    using 1 2 ne by (simp_all add: LoadAddressesAsOf_listed listed_def RegistrationHeight_def mget_def sample_addr_def)
qed

end
