(* ===== verification/Key_Cache.thy ===== *)
theory Key_Cache
  imports Keys
begin

text \<open>
  The cache of decoded public keys in front of the store (\<open>pubkeys/pubKeyHelper.go\<close>), and its
  interleavings with the writers of the store (\<open>StorePubKey\<close> and \<open>unregisterPubKey\<close> in
  \<open>blocks/processPubKey.go\<close>).

  \<open>LoadPubKey\<close> takes the lock twice with the read of the store in between, so it is two operations here,
  \<open>cache_lookup\<close> and \<open>cache_insert\<close>; a writer changes the store and then calls \<open>InvalidatePubKeyCache\<close>. The
  step relation \<open>cache_step\<close> interleaves any number of readers and writers at these points. The order in
  which Go ranges over the map is the argument \<open>pick\<close>.
\<close>

record PubKeyCache =
  pubKeyCache :: "(bytes, PubKey) gomap"
  pubKeyCacheBytes :: "64 word"
  pubKeyCacheGen :: "64 word"

abbreviation (input) pubKeyCacheMaxEntries :: nat where "pubKeyCacheMaxEntries \<equiv> 100000"
abbreviation (input) pubKeyCacheMaxBytes :: "64 word" where "pubKeyCacheMaxBytes \<equiv> 67108864"

definition pubKeyEntrySize :: "PubKey \<Rightarrow> 64 word" where
  "pubKeyEntrySize pk = of_nat (length (pk_ByteValue pk) + AddressLength)"

definition drop_entry :: "bytes \<Rightarrow> PubKeyCache \<Rightarrow> PubKeyCache" where
  "drop_entry a c =
    (case map_of (pubKeyCache c) a of
       None \<Rightarrow> c
     | Some old \<Rightarrow> c\<lparr>pubKeyCacheBytes := pubKeyCacheBytes c - pubKeyEntrySize old, pubKeyCache := mdel a (pubKeyCache c)\<rparr>)"

definition InvalidatePubKeyCache :: "bytes \<Rightarrow> PubKeyCache \<Rightarrow> PubKeyCache" where
  "InvalidatePubKeyCache a c = (let c = drop_entry a c in c\<lparr>pubKeyCacheGen := pubKeyCacheGen c + 1\<rparr>)"

text \<open>The first critical section of \<open>LoadPubKey\<close>: the cached key, if any, and the generation.\<close>

definition cache_lookup :: "bytes \<Rightarrow> PubKeyCache \<Rightarrow> PubKey option \<times> 64 word" where
  "cache_lookup a c = (map_of (pubKeyCache c) a, pubKeyCacheGen c)"

text \<open>The eviction loop. \<open>pick\<close> stands for the order of a \<open>range\<close> over the map: it names the entry the
  iteration meets first.\<close>

definition over_budget :: "64 word \<Rightarrow> PubKeyCache \<Rightarrow> bool" where
  "over_budget sz c \<longleftrightarrow> length (pubKeyCache c) > 0 \<and>
     (length (pubKeyCache c) \<ge> pubKeyCacheMaxEntries \<or> pubKeyCacheBytes c + sz > pubKeyCacheMaxBytes)"

definition first_key :: "(PubKeyCache \<Rightarrow> nat) \<Rightarrow> PubKeyCache \<Rightarrow> bytes" where
  "first_key pick c = fst (pubKeyCache c ! (pick c mod length (pubKeyCache c)))"

lemma length_mdel_less: "k \<in> fst ` set m \<Longrightarrow> length (mdel k m) < length m"
  by (induction m) (fastforce simp: less_Suc_eq_le length_delete_le)+

lemma first_key_mem: "pubKeyCache c \<noteq> [] \<Longrightarrow> first_key pick c \<in> fst ` set (pubKeyCache c)"
  unfolding first_key_def by (intro imageI nth_mem) (simp add: mod_less_divisor)

lemma drop_entry_cache: "pubKeyCache (drop_entry a c) = mdel a (pubKeyCache c)"
proof (cases "map_of (pubKeyCache c) a")
  case None
  then have "mdel a (pubKeyCache c) = pubKeyCache c"
    by (intro delete_id) (simp add: map_of_eq_None_iff)
  with None show ?thesis by (simp add: drop_entry_def)
qed (simp add: drop_entry_def)

function evict :: "(PubKeyCache \<Rightarrow> nat) \<Rightarrow> 64 word \<Rightarrow> PubKeyCache \<Rightarrow> PubKeyCache" where
  "evict pick sz c = (if over_budget sz c then evict pick sz (drop_entry (first_key pick c) c) else c)"
  by pat_completeness auto
termination
  by (relation "measure (\<lambda>(_, _, c). length (pubKeyCache c))")
    (auto simp: drop_entry_cache over_budget_def intro!: length_mdel_less first_key_mem)

declare evict.simps [simp del]

text \<open>The second critical section of \<open>LoadPubKey\<close>: the key that was read becomes the cached one only if no
  invalidation came in between.\<close>

definition cache_insert :: "(PubKeyCache \<Rightarrow> nat) \<Rightarrow> bytes \<Rightarrow> 64 word \<Rightarrow> PubKey \<Rightarrow> PubKeyCache \<Rightarrow> PubKeyCache" where
  "cache_insert pick a gen pk c =
    (if pubKeyCacheGen c \<noteq> gen then c
     else let sz = pubKeyEntrySize pk;
              c = drop_entry a c;
              c = evict pick sz c
          in c\<lparr>pubKeyCache := mput a pk (pubKeyCache c), pubKeyCacheBytes := pubKeyCacheBytes c + sz\<rparr>)"

text \<open>One call of \<open>LoadPubKey\<close> with nothing in between.\<close>

definition LoadPubKey_cached :: "(PubKeyCache \<Rightarrow> nat) \<Rightarrow> KeyRegistry \<Rightarrow> bytes \<Rightarrow> PubKeyCache \<Rightarrow> PubKey res \<times> PubKeyCache" where
  "LoadPubKey_cached pick reg a c =
    (case cache_lookup a c of
       (Some pk, _) \<Rightarrow> (Inr pk, c)
     | (None, gen) \<Rightarrow>
         case LoadPubKey reg a of
           Inl e \<Rightarrow> (Inl e, c)
         | Inr pk \<Rightarrow> (Inr pk, cache_insert pick a gen pk c))"

subsection \<open>Interleavings\<close>

text \<open>A reader that missed has sampled the generation, and later holds what it read. A writer that changed
  the store has still to invalidate. \<open>invalidations\<close> counts the calls of \<open>InvalidatePubKeyCache\<close>.\<close>

datatype reader = Missed bytes "64 word" | Holds bytes "64 word" PubKey

record CacheSystem =
  sys_Cache :: PubKeyCache
  sys_Keys :: "(bytes, PubKey) gomap"
  sys_Readers :: "reader multiset"
  sys_Writers :: "bytes multiset"
  invalidations :: nat

inductive cache_step :: "CacheSystem \<Rightarrow> CacheSystem \<Rightarrow> bool" where
  miss: "cache_lookup a (sys_Cache s) = (None, gen) \<Longrightarrow> cache_step s (s\<lparr>sys_Readers := add_mset (Missed a gen) (sys_Readers s)\<rparr>)"
| read_store: "sys_Readers s = add_mset (Missed a gen) rs \<Longrightarrow> map_of (sys_Keys s) a = Some pk \<Longrightarrow>
    cache_step s (s\<lparr>sys_Readers := add_mset (Holds a gen pk) rs\<rparr>)"
| read_nothing: "sys_Readers s = add_mset (Missed a gen) rs \<Longrightarrow> map_of (sys_Keys s) a = None \<Longrightarrow> cache_step s (s\<lparr>sys_Readers := rs\<rparr>)"
| insert: "sys_Readers s = add_mset (Holds a gen pk) rs \<Longrightarrow>
    cache_step s (s\<lparr>sys_Cache := cache_insert pick a gen pk (sys_Cache s), sys_Readers := rs\<rparr>)"
| store: "cache_step s (s\<lparr>sys_Keys := mput a pk (sys_Keys s), sys_Writers := add_mset a (sys_Writers s)\<rparr>)"
| delete: "cache_step s (s\<lparr>sys_Keys := mdel a (sys_Keys s), sys_Writers := add_mset a (sys_Writers s)\<rparr>)"
| invalidate: "sys_Writers s = add_mset a ws \<Longrightarrow>
    cache_step s (s\<lparr>sys_Cache := InvalidatePubKeyCache a (sys_Cache s), sys_Writers := ws, invalidations := Suc (invalidations s)\<rparr>)"

text \<open>A key may be served for an address when it is the stored one or a writer has still to invalidate it.\<close>

definition servable :: "CacheSystem \<Rightarrow> bytes \<Rightarrow> PubKey \<Rightarrow> bool" where
  "servable s a pk \<longleftrightarrow> map_of (sys_Keys s) a = Some pk \<or> a \<in># sys_Writers s"

text \<open>A reader has sampled the generation in the past, and what it holds may be served if no invalidation came since.\<close>

definition reader_ok :: "CacheSystem \<Rightarrow> reader \<Rightarrow> bool" where
  "reader_ok s r = (case r of
     Missed a gen \<Rightarrow> \<exists>n \<le> invalidations s. gen = of_nat n
   | Holds a gen pk \<Rightarrow> (\<exists>n \<le> invalidations s. gen = of_nat n) \<and> (gen = of_nat (invalidations s) \<longrightarrow> servable s a pk))"

definition cache_inv :: "CacheSystem \<Rightarrow> bool" where
  "cache_inv s \<longleftrightarrow> pubKeyCacheGen (sys_Cache s) = of_nat (invalidations s) \<and>
     (\<forall>a pk. map_of (pubKeyCache (sys_Cache s)) a = Some pk \<longrightarrow> servable s a pk) \<and> (\<forall>r \<in># sys_Readers s. reader_ok s r)"

lemma drop_entry_gen [simp]: "pubKeyCacheGen (drop_entry a c) = pubKeyCacheGen c"
  by (simp add: drop_entry_def split: option.split)

lemma evict_induct [case_names stop drop]:
  assumes "\<And>c. \<not> over_budget sz c \<Longrightarrow> P c c"
    "\<And>c d. over_budget sz c \<Longrightarrow> P (drop_entry (first_key pick c) c) d \<Longrightarrow> P c d"
  shows "P c (evict pick sz c)"
proof (induction "length (pubKeyCache c)" arbitrary: c rule: less_induct)
  case less
  show ?case
  proof (cases "over_budget sz c")
    case True
    then have "length (pubKeyCache (drop_entry (first_key pick c) c)) < length (pubKeyCache c)"
      by (auto simp: drop_entry_cache over_budget_def intro!: length_mdel_less first_key_mem)
    from assms(2) [OF True less [OF this]] True show ?thesis
      by (simp add: evict.simps [of pick sz c])
  qed (use assms(1) in \<open>simp add: evict.simps [of pick sz c]\<close>)
qed

lemma evict_gen: "pubKeyCacheGen (evict pick sz c) = pubKeyCacheGen c"
  by (rule evict_induct [where P = "\<lambda>c d. pubKeyCacheGen d = pubKeyCacheGen c"]) simp_all

lemma evict_submap: "map_of (pubKeyCache (evict pick sz c)) \<subseteq>\<^sub>m map_of (pubKeyCache c)"
  by (rule evict_induct [where P = "\<lambda>c d. map_of (pubKeyCache d) \<subseteq>\<^sub>m map_of (pubKeyCache c)"])
    (auto simp: drop_entry_cache map_of_mdel map_le_def split: if_splits)

lemma cache_insert_gen: "pubKeyCacheGen (cache_insert pick a gen pk c) = pubKeyCacheGen c"
  by (simp add: cache_insert_def Let_def evict_gen)

lemma cache_insert_lookup:
  assumes "map_of (pubKeyCache (cache_insert pick a gen pk c)) b = Some pk'"
  shows "map_of (pubKeyCache c) b = Some pk' \<or> b = a \<and> pk' = pk \<and> gen = pubKeyCacheGen c"
proof (cases "pubKeyCacheGen c = gen")
  case True
  show ?thesis
  proof (cases "b = a")
    case False
    then have "map_of (pubKeyCache (evict pick (pubKeyEntrySize pk) (drop_entry a c))) b = Some pk'"
      using assms True by (simp add: cache_insert_def Let_def)
    then have "map_of (pubKeyCache (drop_entry a c)) b = Some pk'"
      using evict_submap by (metis domI map_le_def)
    then show ?thesis
      using False by (simp add: drop_entry_cache map_of_mdel)
  qed (use assms True in \<open>simp add: cache_insert_def Let_def\<close>)
qed (use assms in \<open>simp add: cache_insert_def\<close>)

lemma InvalidatePubKeyCache_simps:
  "map_of (pubKeyCache (InvalidatePubKeyCache a c)) = (map_of (pubKeyCache c))(a := None)"
  "pubKeyCacheGen (InvalidatePubKeyCache a c) = pubKeyCacheGen c + 1"
  by (simp_all add: InvalidatePubKeyCache_def Let_def drop_entry_cache map_of_mdel)

lemma unat_of_nat64: "n < 2 ^ 64 \<Longrightarrow> unat (of_nat n :: 64 word) = n"
  by (simp add: unsigned_of_nat take_bit_nat_eq_self)

lemma of_nat_eq64: "n < 2 ^ 64 \<Longrightarrow> m < 2 ^ 64 \<Longrightarrow> (of_nat n :: 64 word) = of_nat m \<longleftrightarrow> n = m"
  by (metis unat_of_nat64)

lemma servable_store: "servable s b pk' \<Longrightarrow> sys_Writers s' = add_mset a (sys_Writers s) \<Longrightarrow>
   (\<forall>b. b \<noteq> a \<longrightarrow> map_of (sys_Keys s') b = map_of (sys_Keys s) b) \<Longrightarrow> servable s' b pk'"
  by (auto simp: servable_def)

text \<open>A step that keeps the count of invalidations and what may be served keeps the invariant of a reader.\<close>

lemma reader_ok_mono:
  assumes "reader_ok s r" "invalidations s' = invalidations s" "\<And>a pk. servable s a pk \<Longrightarrow> servable s' a pk"
  shows "reader_ok s' r"
  using assms(1,3) unfolding reader_ok_def assms(2) by (simp split: reader.splits)

lemma reader_ok_invalidate:
  assumes "reader_ok s r" "invalidations s' = Suc (invalidations s)" "Suc (invalidations s) < 2 ^ 64"
  shows "reader_ok s' r"
proof -
  have "of_nat n \<noteq> (of_nat (Suc (invalidations s)) :: 64 word)" if "n \<le> invalidations s" for n
    using of_nat_eq64 [of n "Suc (invalidations s)"] that assms(3) by linarith
  then show ?thesis
    using assms(1) unfolding reader_ok_def assms(2) by (auto split: reader.splits intro: le_SucI)
qed

lemma cache_invD:
  assumes "cache_inv s"
  shows "pubKeyCacheGen (sys_Cache s) = of_nat (invalidations s)"
    "map_of (pubKeyCache (sys_Cache s)) a = Some pk \<Longrightarrow> servable s a pk" "r \<in># sys_Readers s \<Longrightarrow> reader_ok s r"
  using assms by (simp_all add: cache_inv_def)

lemma cache_step_inv:
  assumes "cache_step s s'" "cache_inv s" "invalidations s' < 2 ^ 64"
  shows "cache_inv s'"
proof -
  note inv = cache_invD [OF assms(2)]
  have same: "cache_inv s'" if "sys_Cache s' = sys_Cache s" "invalidations s' = invalidations s"
    "\<And>a pk. servable s a pk \<Longrightarrow> servable s' a pk" "\<And>r. r \<in># sys_Readers s' \<Longrightarrow> r \<in># sys_Readers s \<or> reader_ok s' r"
    using that inv(1,2) reader_ok_mono [OF inv(3) that(2,3)] unfolding cache_inv_def by metis
  from assms(1) show ?thesis
  proof cases
    case (miss a gen)
    have "reader_ok s' (Missed a gen)"
      using miss inv(1) by (auto simp: reader_ok_def cache_lookup_def)
    then show ?thesis
      by (intro same) (use miss(1) in \<open>auto simp: servable_def\<close>)
  next
    case (read_store a gen rs pk)
    have "reader_ok s' (Holds a gen pk)"
      using read_store inv(3) [of "Missed a gen"] by (auto simp: reader_ok_def servable_def)
    then show ?thesis
      by (intro same) (use read_store(1,2) in \<open>auto simp: servable_def\<close>)
  next
    case (read_nothing a gen rs)
    then show ?thesis
      by (intro same) (auto simp: servable_def)
  next
    case (insert a gen pk rs pick)
    have eq: "servable s' = servable s" "invalidations s' = invalidations s"
      by (simp_all add: insert(1) servable_def fun_eq_iff)
    have "servable s a pk" if "gen = pubKeyCacheGen (sys_Cache s)"
      using inv(3) [of "Holds a gen pk"] inv(1) that insert(2) by (simp add: reader_ok_def)
    then have "servable s b pk'" if "map_of (pubKeyCache (sys_Cache s')) b = Some pk'" for b pk'
      using that inv(2) cache_insert_lookup [of pick a gen pk "sys_Cache s" b pk'] by (auto simp: insert(1))
    moreover have "reader_ok s' r" if "r \<in># sys_Readers s'" for r
      using reader_ok_mono [OF inv(3), of r s'] that eq by (simp add: insert(1,2))
    ultimately show ?thesis
      using inv(1) unfolding cache_inv_def eq by (simp add: insert(1) cache_insert_gen)
  next
    case (store a pk)
    then show ?thesis
      by (intro same) (auto simp: servable_def split: if_splits)
  next
    case (delete a)
    then show ?thesis
      by (intro same) (auto simp: servable_def map_of_mdel split: if_splits)
  next
    case (invalidate a ws)
    have "reader_ok s' r" if "r \<in># sys_Readers s'" for r
      using reader_ok_invalidate [OF inv(3), of r s'] that assms(3) by (simp add: invalidate(1))
    moreover have "servable s' b pk" if "map_of (pubKeyCache (sys_Cache s')) b = Some pk" for b pk
      using that inv(2) [of b pk] by (simp add: invalidate InvalidatePubKeyCache_simps servable_def split: if_splits)
    ultimately show ?thesis
      using inv(1) unfolding cache_inv_def by (simp add: invalidate(1) InvalidatePubKeyCache_simps add.commute)
  qed
qed

definition cold :: "(bytes, PubKey) gomap \<Rightarrow> CacheSystem" where
  "cold keys = \<lparr>sys_Cache = \<lparr>pubKeyCache = [], pubKeyCacheBytes = 0, pubKeyCacheGen = 0\<rparr>, sys_Keys = keys,
     sys_Readers = {#}, sys_Writers = {#}, invalidations = 0\<rparr>"

lemma cache_step_count: "cache_step s s' \<Longrightarrow> invalidations s \<le> invalidations s'"
  by (induction rule: cache_step.induct) simp_all

lemma cache_run_inv: "cache_step\<^sup>*\<^sup>* (cold keys) s \<Longrightarrow> invalidations s < 2 ^ 64 \<Longrightarrow> cache_inv s"
proof (induction rule: rtranclp_induct)
  case base
  then show ?case by (simp add: cold_def cache_inv_def)
next
  case (step s s')
  then show ?case
    using cache_step_inv [OF step(2) _ step(4)] cache_step_count [OF step(2)] by simp
qed



subsection \<open>The size of the cache\<close>

definition entries_size :: "(bytes, PubKey) gomap \<Rightarrow> nat" where
  "entries_size m = sum_list (map (\<lambda>(a, pk). length (pk_ByteValue pk) + AddressLength) m)"

definition small_key :: "PubKey \<Rightarrow> bool" where
  "small_key pk \<longleftrightarrow> length (pk_ByteValue pk) < 2 ^ 32"

definition cache_ok :: "PubKeyCache \<Rightarrow> bool" where
  "cache_ok c \<longleftrightarrow> wf_map (pubKeyCache c) \<and> (\<forall>(a, pk) \<in> set (pubKeyCache c). small_key pk) \<and>
     pubKeyCacheBytes c = of_nat (entries_size (pubKeyCache c)) \<and> length (pubKeyCache c) \<le> pubKeyCacheMaxEntries \<and>
     (length (pubKeyCache c) \<le> 1 \<or> entries_size (pubKeyCache c) \<le> 64 * 1024 * 1024)"

lemma entries_size_mdel:
  assumes "wf_map m" "map_of m a = Some pk"
  shows "entries_size m = entries_size (mdel a m) + (length (pk_ByteValue pk) + AddressLength)"
  using assms
proof (induction m)
  case (Cons kv m)
  show ?case
  proof (cases "fst kv = a")
    case True
    then have "mdel a m = m"
      using Cons.prems(1) by (intro delete_id) auto
    then show ?thesis
      using True Cons.prems by (cases kv) (simp add: entries_size_def)
  qed (use Cons in \<open>cases kv; simp add: entries_size_def\<close>)
qed simp

lemma drop_entry_bytes:
  assumes "wf_map (pubKeyCache c)" "pubKeyCacheBytes c = of_nat (entries_size (pubKeyCache c))"
  shows "pubKeyCacheBytes (drop_entry a c) = of_nat (entries_size (pubKeyCache (drop_entry a c)))"
proof (cases "map_of (pubKeyCache c) a")
  case (Some pk)
  then show ?thesis
    using entries_size_mdel [OF assms(1) Some] assms(2) by (simp add: drop_entry_def pubKeyEntrySize_def)
qed (use assms in \<open>simp add: drop_entry_def\<close>)


lemma mdel_smaller: "entries_size (mdel a m) \<le> entries_size m"
  by (induction m) (auto simp: entries_size_def)

lemma drop_entry_ok:
  assumes "cache_ok c"
  shows "cache_ok (drop_entry a c)"
proof -
  define m where "m = pubKeyCache c"
  have c: "wf_map m" "\<forall>(a, pk) \<in> set m. small_key pk" "length m \<le> pubKeyCacheMaxEntries"
    "length m \<le> 1 \<or> entries_size m \<le> 64 * 1024 * 1024"
    using assms by (simp_all add: cache_ok_def m_def)
  have "set (mdel a m) \<subseteq> set m"
    by (induction m) auto
  then have keys: "\<forall>(a, pk) \<in> set (mdel a m). small_key pk"
    using c(2) by blast
  have len: "length (mdel a m) \<le> length m" and size: "entries_size (mdel a m) \<le> entries_size m"
    by (rule length_delete_le mdel_smaller)+
  have bytes: "pubKeyCacheBytes (drop_entry a c) = of_nat (entries_size (mdel a m))"
    using drop_entry_bytes [of c a] assms by (simp add: cache_ok_def drop_entry_cache m_def)
  have "length (mdel a m) \<le> 1 \<or> entries_size (mdel a m) \<le> 64 * 1024 * 1024"
    using c(4) len size by linarith
  then show ?thesis
    unfolding cache_ok_def drop_entry_cache m_def [symmetric]
    using keys bytes le_trans [OF len c(3)] wf_mdel [OF c(1)] by blast
qed

lemma evict_ok:
  assumes "cache_ok c"
  shows "cache_ok (evict pick sz c) \<and> \<not> over_budget sz (evict pick sz c)"
  using assms
  by (rule rev_mp, intro evict_induct [where P = "\<lambda>c d. cache_ok c \<longrightarrow> cache_ok d \<and> \<not> over_budget sz d"])
    (simp_all add: drop_entry_ok)

lemma cache_ok_size:
  assumes "cache_ok c"
  shows "entries_size (pubKeyCache c) < 2 ^ 33"
proof (cases "length (pubKeyCache c) \<le> 1")
  case True
  then show ?thesis
    using assms by (cases "pubKeyCache c") (auto simp: cache_ok_def entries_size_def small_key_def)
qed (use assms in \<open>simp add: cache_ok_def\<close>)

lemma within_budget:
  assumes "cache_ok c" "small_key pk" "\<not> over_budget (pubKeyEntrySize pk) c" "pubKeyCache c \<noteq> []"
  shows "length (pubKeyCache c) < pubKeyCacheMaxEntries"
    "entries_size (pubKeyCache c) + (length (pk_ByteValue pk) + AddressLength) \<le> 64 * 1024 * 1024"
proof -
  let ?n = "entries_size (pubKeyCache c) + (length (pk_ByteValue pk) + AddressLength)"
  have "?n < 2 ^ 64"
    using cache_ok_size [OF assms(1)] assms(2) by (simp add: small_key_def)
  then have n: "unat (of_nat ?n :: 64 word) = ?n"
    by (rule unat_of_nat64)
  have "(of_nat ?n :: 64 word) \<le> pubKeyCacheMaxBytes" and len: "length (pubKeyCache c) < pubKeyCacheMaxEntries"
    using assms(1,3,4) by (simp_all add: over_budget_def cache_ok_def pubKeyEntrySize_def not_le not_less)
  then show "length (pubKeyCache c) < pubKeyCacheMaxEntries" "?n \<le> 64 * 1024 * 1024"
    using n unfolding word_le_nat_alt by simp_all
qed


text \<open>The cache stays within its bounds and its byte counter stays exact: after any insertion or
  invalidation, whichever entries the eviction meets first, it has at most 100000 entries, more than one
  only if together they take at most 64 MiB, and the unsigned counter is the size of what is cached.\<close>

theorem cache_stays_bounded:
  assumes "cache_ok c" "small_key pk"
  shows "cache_ok (cache_insert pick a gen pk c) \<and> cache_ok (InvalidatePubKeyCache a c)"
proof
  show "cache_ok (InvalidatePubKeyCache a c)"
    using drop_entry_ok [OF assms(1), of a] by (simp add: InvalidatePubKeyCache_def Let_def cache_ok_def)
  define d where "d = evict pick (pubKeyEntrySize pk) (drop_entry a c)"
  have d: "cache_ok d" "\<not> over_budget (pubKeyEntrySize pk) d"
    using evict_ok [OF drop_entry_ok [OF assms(1)]] by (simp_all add: d_def)
  have "map_of (pubKeyCache (drop_entry a c)) a = None"
    by (simp add: drop_entry_cache map_of_mdel)
  then have "map_of (pubKeyCache d) a = None"
    using evict_submap [of pick "pubKeyEntrySize pk" "drop_entry a c"] unfolding d_def by (metis domIff map_le_implies_dom_le subsetD)
  then have new: "mput a pk (pubKeyCache d) = pubKeyCache d @ [(a, pk)]" and "a \<notin> fst ` set (pubKeyCache d)"
    by (simp_all only: mput_append map_of_eq_None_iff not_False_eq_True)
  then have "wf_map (pubKeyCache d @ [(a, pk)])"
    using d(1) by (simp add: cache_ok_def)
  moreover have "entries_size (pubKeyCache d @ [(a, pk)]) = entries_size (pubKeyCache d) + (length (pk_ByteValue pk) + AddressLength)"
    by (simp add: entries_size_def)
  ultimately have "cache_ok (d\<lparr>pubKeyCache := mput a pk (pubKeyCache d), pubKeyCacheBytes := pubKeyCacheBytes d + pubKeyEntrySize pk\<rparr>)"
    using d(1) within_budget [OF d(1) assms(2) d(2)] assms(2) unfolding new
    by (cases "pubKeyCache d = []") (simp_all add: cache_ok_def pubKeyEntrySize_def)
  then show "cache_ok (cache_insert pick a gen pk c)"
    using assms(1) by (simp add: cache_insert_def Let_def d_def)
qed

theorem cache_stays_bounded_witness:
  "cache_ok (cache_insert (\<lambda>_. 0) [1] 0 zero_PubKey (sys_Cache (cold [])))"
  using cache_stays_bounded [of "sys_Cache (cold [])" zero_PubKey]
  by (simp add: cache_ok_def cold_def entries_size_def small_key_def zero_PubKey_def)

end
