(* ===== verification/Staking.thy ===== *)
theory Staking
  imports Account
begin

text \<open>
  Staking accounts (\<open>account/stakeAccount.go\<close>): staking with and without locks, unstaking,
  rewards, the per-height details and their pruning, the RANDAO commitment of an operator, and
  the snapshot codec. The package variable \<open>StakingAccounts\<close>, an array of 256 delegated accounts,
  is a function from the index to a value of \<open>StakingAccountsType\<close>.
\<close>

subsection \<open>State\<close>

record StakingDetail =
  sd_Amount :: int64
  sd_Reward :: int64
  sd_LastUpdated :: int64

record StakingAccount =
  StakedBalance :: int64
  StakingRewards :: int64
  LockedAmount :: "int64 list"
  ReleasePerBlock :: "int64 list"
  LockedInitBlock :: "int64 list"
  sa_DelegatedAccount :: bytes
  sa_Address :: bytes
  OperationalAccount :: bool
  OperationalSince :: int64
  LastStakeHeight :: int64
  StakingDetails :: "(int64, StakingDetail list) gomap"
  RandCommit :: bytes
  RandCommitHeight :: int64

definition zero_StakingAccount :: StakingAccount where
  "zero_StakingAccount = \<lparr>StakedBalance = 0, StakingRewards = 0, LockedAmount = [],
     ReleasePerBlock = [], LockedInitBlock = [], sa_DelegatedAccount = replicate AddressLength 0,
     sa_Address = replicate AddressLength 0, OperationalAccount = False, OperationalSince = 0,
     LastStakeHeight = 0, StakingDetails = [], RandCommit = replicate HashLength 0,
     RandCommitHeight = 0\<rparr>"

record StakingAccountsType =
  AllStakingAccounts :: "(bytes, StakingAccount) gomap"
  StakeChangedAt :: int64

definition zero_StakingAccountsType :: StakingAccountsType where
  "zero_StakingAccountsType = \<lparr>AllStakingAccounts = [], StakeChangedAt = 0\<rparr>"

type_synonym StakingState = "nat \<Rightarrow> StakingAccountsType"

abbreviation (input) NumShards :: nat where "NumShards \<equiv> 256"

definition GetStakingAccountByAddressBytes :: "StakingState \<Rightarrow> bytes \<Rightarrow> int \<Rightarrow> StakingAccount" where
  "GetStakingAccountByAddressBytes s address d =
    (if d < 0 \<or> d \<ge> int NumShards then zero_StakingAccount
     else mget zero_StakingAccount (AllStakingAccounts (s (nat d))) (take AddressLength address))"

text \<open>\<open>StakingAccounts[d].AllStakingAccounts[address] = acc\<close>, which panics for an index outside
  the array.\<close>

definition put_staking :: "int \<Rightarrow> StakingAccount \<Rightarrow> StakingState cmd" where
  "put_staking d acc s =
    (if d < 0 \<or> d \<ge> int NumShards then (Some (Panic ''index out of range''), s)
     else (None, s(nat d := (s (nat d))\<lparr>AllStakingAccounts :=
            mput (sa_Address acc) acc (AllStakingAccounts (s (nat d)))\<rparr>)))"

definition set_StakeChangedAt :: "int \<Rightarrow> int64 \<Rightarrow> StakingState cmd" where
  "set_StakeChangedAt d t s =
    (if d < 0 \<or> d \<ge> int NumShards then (Some (Panic ''index out of range''), s)
     else (None, s(nat d := (s (nat d))\<lparr>StakeChangedAt := t\<rparr>)))"

subsection \<open>Details and their pruning\<close>

definition addDetail :: "StakingDetail \<Rightarrow> StakingDetail \<Rightarrow> StakingDetail" where
  "addDetail agg d =
    \<lparr>sd_Amount = sd_Amount agg + sd_Amount d, sd_Reward = sd_Reward agg + sd_Reward d,
     sd_LastUpdated = (if sint (sd_LastUpdated d) > sint (sd_LastUpdated agg)
                       then sd_LastUpdated d else sd_LastUpdated agg)\<rparr>"

abbreviation (input) zero_StakingDetail :: StakingDetail where
  "zero_StakingDetail \<equiv> \<lparr>sd_Amount = 0, sd_Reward = 0, sd_LastUpdated = 0\<rparr>"

definition prunable :: "int64 \<Rightarrow> int64 \<times> StakingDetail list \<Rightarrow> bool" where
  "prunable cutoff kd \<longleftrightarrow> \<not> (fst kd = 0 \<or> sint (fst kd) \<ge> sint cutoff)"

definition pruneStakingDetails :: "StakingAccount \<Rightarrow> int64 \<Rightarrow> StakingAccount" where
  "pruneStakingDetails acc height =
    (let cutoff = height - StakingDetailsRetentionBlocks; m = StakingDetails acc in
     if sint cutoff \<le> 0 then acc
     else
       let agg = (case map_of m 0 of Some existing \<Rightarrow> foldl addDetail zero_StakingDetail existing
                                   | None \<Rightarrow> zero_StakingDetail);
           old = filter (prunable cutoff) m;
           agg = foldl addDetail agg (concat (map snd old));
           rest = filter (\<lambda>kd. \<not> prunable cutoff kd) m
       in if old \<noteq> [] then acc\<lparr>StakingDetails := mput 0 [agg] rest\<rparr> else acc)"

text \<open>The block that appends a detail at the current height and prunes, shared by the four
  operations that change a staking account.\<close>

definition append_detail :: "int64 \<Rightarrow> StakingDetail \<Rightarrow> StakingAccount \<Rightarrow> StakingAccount" where
  "append_detail height sd acc =
     pruneStakingDetails
       (acc\<lparr>StakingDetails :=
          mput height (mget [] (StakingDetails acc) height @ [sd]) (StakingDetails acc)\<rparr>) height"

subsection \<open>Locks\<close>

definition lock_at :: "int64 \<Rightarrow> int64 \<times> int64 \<times> int64 \<Rightarrow> int64" where
  "lock_at height = (\<lambda>(amount, release, init).
     let lock = amount - (height - init) * release in if sint lock \<le> 0 then 0 else lock)"

text \<open>The three parallel slices as a list of triples; indexing past the end of the shorter ones
  would panic, and \<open>wf_locks\<close> below states that they have the same length.\<close>

definition locks :: "StakingAccount \<Rightarrow> (int64 \<times> int64 \<times> int64) list" where
  "locks acc = zip (LockedAmount acc) (zip (ReleasePerBlock acc) (LockedInitBlock acc))"

definition locks_panic :: "StakingAccount \<Rightarrow> bool" where
  "locks_panic acc \<longleftrightarrow> length (ReleasePerBlock acc) < length (LockedAmount acc) \<or>
     length (LockedInitBlock acc) < length (LockedAmount acc)"

definition locked_sum :: "StakingAccount \<Rightarrow> int64 \<Rightarrow> int64" where
  "locked_sum acc height = foldl (\<lambda>locked l. locked + lock_at height l) 0 (locks acc)"

definition GetLockedAmount :: "StakingState \<Rightarrow> bytes \<Rightarrow> int64 \<Rightarrow> int \<Rightarrow> int64 res" where
  "GetLockedAmount s accb height d =
    (if length accb \<noteq> AddressLength then Inl (Errorf ''wrong address length'')
     else let acc = GetStakingAccountByAddressBytes s accb d in
       if locks_panic acc then Inl (Panic ''index out of range'')
       else Inr (locked_sum acc height))"

text \<open>The rebuild of the slices without the locks that ran out.\<close>

definition expired :: "int64 \<Rightarrow> int64 \<times> int64 \<times> int64 \<Rightarrow> bool" where
  "expired height = (\<lambda>(amount, release, init). sint (amount - (height - init) * release) \<le> 0)"

definition drop_expired :: "int64 \<Rightarrow> StakingAccount \<Rightarrow> StakingAccount" where
  "drop_expired height acc =
    (if filter (expired height) (locks acc) \<noteq> [] then
       let ls = filter (\<lambda>l. \<not> expired height l) (locks acc)
       in acc\<lparr>LockedAmount := map fst ls, ReleasePerBlock := map (fst \<circ> snd) ls,
              LockedInitBlock := map (snd \<circ> snd) ls\<rparr>
     else acc)"

subsection \<open>Operations\<close>

definition lastStakeBlock :: "StakingAccount \<Rightarrow> int64" where
  "lastStakeBlock acc = LastStakeHeight acc"

definition stake_guard ::
  "StakingAccount \<Rightarrow> int64 \<Rightarrow> int64 \<Rightarrow> int64 \<Rightarrow> int64 \<Rightarrow> bool \<Rightarrow> err option" where
  "stake_guard acc amount height lockedAmount releasePerBlock thirdParty =
    (if sint amount < 0 then Some (Errorf ''staked amount has to be larger or equal than 0'')
     else if sint releasePerBlock < 0 then Some (Errorf ''releasePerBlock has to be larger or equal than 0'')
     else if sint releasePerBlock > sint lockedAmount
     then Some (Errorf ''releasePerBlock cannot be larger than lockedAmount'')
     else if sint lockedAmount < 0 then Some (Errorf ''lockedAmount has to be larger or equal than 0'')
     else if sint lockedAmount > sint amount then Some (Errorf ''locked amount cannot be larger than amount'')
     else if \<not> thirdParty \<and> sint height < sint (lastStakeBlock acc + MinNumberOfBlocksInStake)
     then Some (Errorf ''staking must be delayed'')
     else None)"

definition stake_account :: "bytes \<Rightarrow> int64 \<Rightarrow> int64 \<Rightarrow> int64 \<Rightarrow> int \<Rightarrow> bool \<Rightarrow> int64 \<Rightarrow> int64 \<Rightarrow> bool
    \<Rightarrow> StakingAccount \<Rightarrow> StakingAccount" where
  "stake_account accb amount height stakingTime d operational lockedAmount releasePerBlock thirdParty acc =
    (let acc = (if lockedAmount = 0 \<and> OperationalAccount acc = False then
                  acc\<lparr>OperationalAccount := operational,
                     OperationalSince := (if operational then stakingTime else OperationalSince acc)\<rparr>
                else acc);
         acc = acc\<lparr>StakedBalance := StakedBalance acc + amount\<rparr>;
         acc = (if \<not> thirdParty then acc\<lparr>LastStakeHeight := height\<rparr> else acc);
         acc = (if sint lockedAmount > 0 then
                  acc\<lparr>LockedInitBlock := LockedInitBlock acc @ [height],
                      LockedAmount := LockedAmount acc @ [lockedAmount],
                      ReleasePerBlock := ReleasePerBlock acc @ [releasePerBlock]\<rparr>
                else acc);
         acc = append_detail height
                 \<lparr>sd_Amount = amount, sd_Reward = 0, sd_LastUpdated = stakingTime\<rparr> acc
     in acc\<lparr>sa_DelegatedAccount := put_be 2 (word_of_int d :: int16) @ replicate (AddressLength - 2) 0,
            sa_Address := accb\<rparr>)"

definition stake :: "bytes \<Rightarrow> int64 \<Rightarrow> int64 \<Rightarrow> int64 \<Rightarrow> int \<Rightarrow> bool \<Rightarrow> int64 \<Rightarrow> int64 \<Rightarrow> bool
    \<Rightarrow> StakingState cmd" where
  "stake accb amount height stakingTime d operational lockedAmount releasePerBlock thirdParty s =
    (if length accb \<noteq> AddressLength then (Some (Errorf ''wrong address length''), s)
     else
       let acc = (GetStakingAccountByAddressBytes s accb d)\<lparr>sa_Address := accb\<rparr> in
       case stake_guard acc amount height lockedAmount releasePerBlock thirdParty of
         Some e \<Rightarrow> (Some e, s)
       | None \<Rightarrow>
           then_ok (put_staking d (stake_account accb amount height stakingTime d operational
                      lockedAmount releasePerBlock thirdParty acc))
             (set_StakeChangedAt d stakingTime) s)"

definition Stake :: "bytes \<Rightarrow> int64 \<Rightarrow> int64 \<Rightarrow> int64 \<Rightarrow> int \<Rightarrow> bool \<Rightarrow> int64 \<Rightarrow> int64 \<Rightarrow> StakingState cmd" where
  "Stake accb amount height stakingTime d operational lockedAmount releasePerBlock =
     stake accb amount height stakingTime d operational lockedAmount releasePerBlock False"

definition StakeLockedFor :: "bytes \<Rightarrow> int64 \<Rightarrow> int64 \<Rightarrow> int64 \<Rightarrow> int \<Rightarrow> int64 \<Rightarrow> int64 \<Rightarrow> StakingState cmd" where
  "StakeLockedFor accb amount height stakingTime d lockedAmount releasePerBlock =
     stake accb amount height stakingTime d False lockedAmount releasePerBlock True"

definition Unstake :: "bytes \<Rightarrow> int64 \<Rightarrow> int64 \<Rightarrow> int64 \<Rightarrow> int \<Rightarrow> StakingState cmd" where
  "Unstake accb amount height stakingTime d s =
    (if length accb \<noteq> AddressLength then (Some (Errorf ''wrong address length''), s)
     else
       let acc = GetStakingAccountByAddressBytes s accb d in
       if sa_Address acc \<noteq> accb then (Some (Errorf ''no account present in unstaking account''), s)
       else if sint amount \<ge> 0 then (Some (Errorf ''unstaked amount has to be larger than 0''), s)
       else if sint height < sint (lastStakeBlock acc + MinNumberOfBlocksInStake)
       then (Some (Errorf ''staking must be delayed''), s)
       else if sint (StakedBalance acc + amount) < 0 then (Some (Errorf ''insufficient staked balance''), s)
       else if locks_panic acc then (Some (Panic ''index out of range''), s)
       else if sint (StakedBalance acc - locked_sum acc height + amount) < 0
       then (Some (Errorf ''insufficient staked balance after locking''), s)
       else
         let acc = drop_expired height acc;
             acc = acc\<lparr>StakedBalance := StakedBalance acc + amount, LastStakeHeight := height\<rparr>;
             acc = (if StakedBalance acc = 0 then acc\<lparr>OperationalAccount := False, OperationalSince := 0\<rparr>
                    else acc);
             acc = append_detail height
                     \<lparr>sd_Amount = amount, sd_Reward = 0, sd_LastUpdated = stakingTime\<rparr> acc
         in then_ok (put_staking d acc) (set_StakeChangedAt d stakingTime) s)"

text \<open>\<open>time.Now().Unix()\<close> is the argument \<open>now\<close>.\<close>

definition Reward :: "int64 \<Rightarrow> bytes \<Rightarrow> int64 \<Rightarrow> int64 \<Rightarrow> int \<Rightarrow> StakingState cmd" where
  "Reward now accb reward height d s =
    (if length accb \<noteq> AddressLength then (Some (Errorf ''wrong address length''), s)
     else
       let acc = GetStakingAccountByAddressBytes s accb d in
       if sa_Address acc \<noteq> accb then (Some (Errorf ''no account present in rewarding account''), s)
       else if sint reward < 0 then (Some (Errorf ''reward has to be larger than 0''), s)
       else
         let acc = acc\<lparr>StakingRewards := StakingRewards acc + reward\<rparr>;
             acc = append_detail height \<lparr>sd_Amount = 0, sd_Reward = reward, sd_LastUpdated = now\<rparr> acc
         in put_staking d acc s)"

definition WithdrawReward :: "int64 \<Rightarrow> bytes \<Rightarrow> int64 \<Rightarrow> int64 \<Rightarrow> int \<Rightarrow> StakingState cmd" where
  "WithdrawReward now accb amount height d s =
    (if length accb \<noteq> AddressLength then (Some (Errorf ''wrong address length''), s)
     else
       let acc = GetStakingAccountByAddressBytes s accb d in
       if sa_Address acc \<noteq> accb then (Some (Errorf ''no account present in withdraw rewarding''), s)
       else if sint amount \<ge> 0 then (Some (Errorf ''withdraw amount has to be larger than 0''), s)
       else if sint (StakingRewards acc + amount) < 0
       then (Some (Errorf ''insufficient rewards balance to withdraw''), s)
       else
         let acc = acc\<lparr>StakingRewards := StakingRewards acc + amount\<rparr>;
             acc = append_detail height \<lparr>sd_Amount = 0, sd_Reward = amount, sd_LastUpdated = now\<rparr> acc
         in put_staking d acc s)"

definition GetRandCommit :: "StakingState \<Rightarrow> nat \<Rightarrow> bytes \<Rightarrow> bytes \<times> int64" where
  "GetRandCommit s n address =
    (case map_of (AllStakingAccounts (s n)) address of
       None \<Rightarrow> (replicate HashLength 0, 0)
     | Some sa \<Rightarrow> (RandCommit sa, RandCommitHeight sa))"

definition SetRandCommit :: "nat \<Rightarrow> bytes \<Rightarrow> bytes \<Rightarrow> int64 \<Rightarrow> StakingState cmd" where
  "SetRandCommit n address commit height s =
    (case map_of (AllStakingAccounts (s n)) address of
       None \<Rightarrow> (Some (Errorf ''no staking entry for the block operator in delegated account''), s)
     | Some sa \<Rightarrow> (None, s(n := (s n)\<lparr>AllStakingAccounts :=
            mput address (sa\<lparr>RandCommit := commit, RandCommitHeight := height\<rparr>)
              (AllStakingAccounts (s n))\<rparr>)))"


subsection \<open>Details account for the balances\<close>

definition detail_total :: "(StakingDetail \<Rightarrow> int64) \<Rightarrow> StakingAccount \<Rightarrow> int64" where
  "detail_total f acc = msum (\<lambda>ds. sum_list (map f ds)) (StakingDetails acc)"

text \<open>The staked balance is the sum of the recorded amounts and the rewards are the sum of the
  recorded rewards.\<close>

definition details_ok :: "StakingAccount \<Rightarrow> bool" where
  "details_ok acc \<longleftrightarrow> wf_map (StakingDetails acc) \<and>
     detail_total sd_Amount acc = StakedBalance acc \<and> detail_total sd_Reward acc = StakingRewards acc"

lemma foldl_addDetail:
  "sd_Amount (foldl addDetail a ds) = sd_Amount a + sum_list (map sd_Amount ds)"
  "sd_Reward (foldl addDetail a ds) = sd_Reward a + sum_list (map sd_Reward ds)"
  by (induction ds arbitrary: a) (simp_all add: addDetail_def)

lemma msum_filter_split:
  "msum f (filter P m) + msum f (filter (\<lambda>x. \<not> P x) m) = msum f m"
  by (induction m) (simp_all add: algebra_simps)

lemma msum_concat: "msum (\<lambda>ds. sum_list (map f ds)) m = (sum_list (map f (concat (map snd m))) :: int64)"
  by (induction m) simp_all

lemma not_prunable_0: "\<not> prunable cutoff (0, ds)"
  by (simp add: prunable_def)

lemma map_of_filter_prunable: "map_of (filter (\<lambda>kd. \<not> prunable cutoff kd) m) 0 = map_of m 0"
  by (induction m) (auto simp: not_prunable_0)

text \<open>Pruning moves the sums of the dropped entries into the entry at key 0.\<close>

lemma prune_detail_total:
  assumes "wf_map (StakingDetails acc)"
    and f: "\<And>a ds. f (foldl addDetail a ds) = f a + sum_list (map f ds)" "f zero_StakingDetail = 0"
  shows "detail_total f (pruneStakingDetails acc height) = detail_total f acc"
proof -
  let ?m = "StakingDetails acc" and ?P = "prunable (height - 8640)"
  let ?F = "\<lambda>ds. sum_list (map f ds)"
  let ?start = "case map_of ?m 0 of Some existing \<Rightarrow> foldl addDetail zero_StakingDetail existing
                                   | None \<Rightarrow> zero_StakingDetail"
  let ?agg = "foldl addDetail ?start (concat (map snd (filter ?P ?m)))"
  have wf: "wf_map (filter (\<lambda>x. \<not> ?P x) ?m)"
    using assms(1) by (rule wf_map_filter)
  have zero: "f ?start = ?F (mget [] (filter (\<lambda>x. \<not> ?P x) ?m) 0)"
    by (simp add: mget_def map_of_filter_prunable f split: option.split)
  have "msum ?F (mput 0 [?agg] (filter (\<lambda>x. \<not> ?P x) ?m)) =
      msum ?F (filter (\<lambda>x. \<not> ?P x) ?m) + sum_list (map f (concat (map snd (filter ?P ?m))))"
    using zero by (simp add: msum_mput [OF wf, where z = "[]"] f)
  also have "\<dots> = msum ?F ?m"
    using msum_filter_split [of ?F ?P ?m] by (simp add: msum_concat [symmetric] add.commute)
  finally show ?thesis
    by (simp add: detail_total_def pruneStakingDetails_def Let_def)
qed

lemma prune_wf: "wf_map (StakingDetails acc) \<Longrightarrow> wf_map (StakingDetails (pruneStakingDetails acc h))"
  by (simp add: pruneStakingDetails_def Let_def wf_map_filter)

lemma prune_other_fields [simp]:
  "StakedBalance (pruneStakingDetails acc h) = StakedBalance acc"
  "StakingRewards (pruneStakingDetails acc h) = StakingRewards acc"
  "LockedAmount (pruneStakingDetails acc h) = LockedAmount acc"
  "ReleasePerBlock (pruneStakingDetails acc h) = ReleasePerBlock acc"
  "LockedInitBlock (pruneStakingDetails acc h) = LockedInitBlock acc"
  "sa_Address (pruneStakingDetails acc h) = sa_Address acc"
  "sa_DelegatedAccount (pruneStakingDetails acc h) = sa_DelegatedAccount acc"
  "OperationalAccount (pruneStakingDetails acc h) = OperationalAccount acc"
  "OperationalSince (pruneStakingDetails acc h) = OperationalSince acc"
  "LastStakeHeight (pruneStakingDetails acc h) = LastStakeHeight acc"
  "RandCommit (pruneStakingDetails acc h) = RandCommit acc"
  "RandCommitHeight (pruneStakingDetails acc h) = RandCommitHeight acc"
  by (simp_all add: pruneStakingDetails_def Let_def)

lemma append_detail_fields [simp]:
  "StakedBalance (append_detail h sd acc) = StakedBalance acc"
  "StakingRewards (append_detail h sd acc) = StakingRewards acc"
  "LockedAmount (append_detail h sd acc) = LockedAmount acc"
  "ReleasePerBlock (append_detail h sd acc) = ReleasePerBlock acc"
  "LockedInitBlock (append_detail h sd acc) = LockedInitBlock acc"
  "sa_Address (append_detail h sd acc) = sa_Address acc"
  "sa_DelegatedAccount (append_detail h sd acc) = sa_DelegatedAccount acc"
  "OperationalAccount (append_detail h sd acc) = OperationalAccount acc"
  "OperationalSince (append_detail h sd acc) = OperationalSince acc"
  "LastStakeHeight (append_detail h sd acc) = LastStakeHeight acc"
  "RandCommit (append_detail h sd acc) = RandCommit acc"
  "RandCommitHeight (append_detail h sd acc) = RandCommitHeight acc"
  by (simp_all add: append_detail_def)

lemma detail_total_mput:
  assumes "wf_map (StakingDetails acc)"
  shows "detail_total f (acc\<lparr>StakingDetails := mput h (mget [] (StakingDetails acc) h @ [sd]) (StakingDetails acc)\<rparr>)
    = detail_total f acc + f sd"
  by (simp add: detail_total_def msum_mput [OF assms, where z = "[]"])

lemma append_detail_total:
  assumes "wf_map (StakingDetails acc)"
  shows "detail_total sd_Amount (append_detail h sd acc) = detail_total sd_Amount acc + sd_Amount sd"
    and "detail_total sd_Reward (append_detail h sd acc) = detail_total sd_Reward acc + sd_Reward sd"
    and "wf_map (StakingDetails (append_detail h sd acc))"
  using assms
  by (simp_all add: append_detail_def prune_detail_total foldl_addDetail prune_wf detail_total_mput)

lemma append_detail_ok:
  assumes "wf_map (StakingDetails acc)"
    "detail_total sd_Amount acc + sd_Amount sd = StakedBalance acc"
    "detail_total sd_Reward acc + sd_Reward sd = StakingRewards acc"
  shows "details_ok (append_detail h sd acc)"
  using assms by (simp add: details_ok_def append_detail_total)

subsection \<open>Sums of the staked balances and of the rewards\<close>

definition total_staked :: "StakingState \<Rightarrow> int64" where
  "total_staked s = sum_list (map (\<lambda>d. msum StakedBalance (AllStakingAccounts (s d))) [0..<NumShards])"

definition total_rewards :: "StakingState \<Rightarrow> int64" where
  "total_rewards s = sum_list (map (\<lambda>d. msum StakingRewards (AllStakingAccounts (s d))) [0..<NumShards])"

definition wf_locks :: "StakingAccount \<Rightarrow> bool" where
  "wf_locks acc \<longleftrightarrow> length (ReleasePerBlock acc) = length (LockedAmount acc) \<and>
     length (LockedInitBlock acc) = length (LockedAmount acc)"

text \<open>The invariant of one staking account stored under the key \<open>k\<close>, and of the whole state.\<close>

definition wf_staking_entry :: "bytes \<Rightarrow> StakingAccount \<Rightarrow> bool" where
  "wf_staking_entry k acc \<longleftrightarrow>
     sa_Address acc = k \<and> length k = AddressLength \<and> details_ok acc \<and> wf_locks acc"

definition wf_staking :: "StakingState \<Rightarrow> bool" where
  "wf_staking s \<longleftrightarrow> (\<forall>d < NumShards. wf_map (AllStakingAccounts (s d)) \<and>
     (\<forall>k acc. map_of (AllStakingAccounts (s d)) k = Some acc \<longrightarrow> wf_staking_entry k acc))"

definition stored :: "int \<Rightarrow> int64 option \<Rightarrow> StakingAccount \<Rightarrow> StakingState \<Rightarrow> StakingState" where
  "stored d t acc s = s(nat d := (s (nat d))\<lparr>AllStakingAccounts :=
       mput (sa_Address acc) acc (AllStakingAccounts (s (nat d))),
     StakeChangedAt := (case t of None \<Rightarrow> StakeChangedAt (s (nat d)) | Some t \<Rightarrow> t)\<rparr>)"

lemma put_staking_eq:
  "put_staking d acc s =
    (if 0 \<le> d \<and> d < 256 then (None, stored d None acc s) else (Some (Panic ''index out of range''), s))"
  by (auto simp: put_staking_def stored_def)

lemma put_then_set_eq:
  "then_ok (put_staking d acc) (set_StakeChangedAt d t) s =
    (if 0 \<le> d \<and> d < 256 then (None, stored d (Some t) acc s)
     else (Some (Panic ''index out of range''), s))"
  by (auto simp: put_staking_def set_StakeChangedAt_def stored_def then_ok_def)

lemma zero_StakingAccount_sums [simp]:
  "StakedBalance zero_StakingAccount = 0" "StakingRewards zero_StakingAccount = 0"
  by (simp_all add: zero_StakingAccount_def)

lemma stored_totals [supply_simps]:
  assumes "wf_staking s" "0 \<le> d" "d < 256" "length (sa_Address acc) = AddressLength"
  shows "total_staked (stored d t acc s) = total_staked s
      - StakedBalance (GetStakingAccountByAddressBytes s (sa_Address acc) d) + StakedBalance acc"
    and "total_rewards (stored d t acc s) = total_rewards s
      - StakingRewards (GetStakingAccountByAddressBytes s (sa_Address acc) d) + StakingRewards acc"
proof -
  let ?sh = "(s (nat d))\<lparr>AllStakingAccounts := mput (sa_Address acc) acc (AllStakingAccounts (s (nat d))),
     StakeChangedAt := (case t of None \<Rightarrow> StakeChangedAt (s (nat d)) | Some t \<Rightarrow> t)\<rparr>"
  have d: "nat d < 256" and wf: "wf_map (AllStakingAccounts (s (nat d)))"
    using assms(1-3) by (auto simp: wf_staking_def)
  show "total_staked (stored d t acc s) = total_staked s
      - StakedBalance (GetStakingAccountByAddressBytes s (sa_Address acc) d) + StakedBalance acc"
    using assms(2-4) sum_list_upt_fun_upd [OF d, of "\<lambda>sh. msum StakedBalance (AllStakingAccounts sh)" s ?sh]
      msum_mput [OF wf, of StakedBalance zero_StakingAccount]
    by (simp add: total_staked_def stored_def GetStakingAccountByAddressBytes_def)
  show "total_rewards (stored d t acc s) = total_rewards s
      - StakingRewards (GetStakingAccountByAddressBytes s (sa_Address acc) d) + StakingRewards acc"
    using assms(2-4) sum_list_upt_fun_upd [OF d, of "\<lambda>sh. msum StakingRewards (AllStakingAccounts sh)" s ?sh]
      msum_mput [OF wf, of StakingRewards zero_StakingAccount]
    by (simp add: total_rewards_def stored_def GetStakingAccountByAddressBytes_def)
qed

lemma detail_total_upd [simp]:
  "detail_total f (acc\<lparr>sa_Address := x\<rparr>) = detail_total f acc"
  "detail_total f (acc\<lparr>sa_DelegatedAccount := x\<rparr>) = detail_total f acc"
  "detail_total f (acc\<lparr>StakedBalance := y\<rparr>) = detail_total f acc"
  "detail_total f (acc\<lparr>StakingRewards := y\<rparr>) = detail_total f acc"
  "detail_total f (acc\<lparr>LastStakeHeight := y\<rparr>) = detail_total f acc"
  "detail_total f (acc\<lparr>OperationalAccount := b\<rparr>) = detail_total f acc"
  "detail_total f (acc\<lparr>OperationalSince := y\<rparr>) = detail_total f acc"
  "detail_total f (acc\<lparr>LockedAmount := l\<rparr>) = detail_total f acc"
  "detail_total f (acc\<lparr>ReleasePerBlock := l\<rparr>) = detail_total f acc"
  "detail_total f (acc\<lparr>LockedInitBlock := l\<rparr>) = detail_total f acc"
  by (simp_all add: detail_total_def)

lemma details_ok_upd [simp]:
  "details_ok (acc\<lparr>sa_Address := x\<rparr>) = details_ok acc"
  "details_ok (acc\<lparr>sa_DelegatedAccount := x\<rparr>) = details_ok acc"
  by (simp_all add: details_ok_def)

lemma wf_locks_upd [simp]: "wf_locks (acc\<lparr>sa_Address := x\<rparr>) = wf_locks acc"
  by (simp add: wf_locks_def)

lemma stored_wf:
  assumes "wf_staking s" "wf_staking_entry (sa_Address acc) acc"
  shows "wf_staking (stored d t acc s)"
  using assms by (auto simp: wf_staking_def stored_def simp del: map_of_eq_Some_iff split: if_splits)

lemma GetStakingAccount_wf:
  assumes "wf_staking s" "length accb = AddressLength"
  shows "wf_staking_entry accb ((GetStakingAccountByAddressBytes s accb d)\<lparr>sa_Address := accb\<rparr>)"
proof -
  have zero: "wf_staking_entry accb (zero_StakingAccount\<lparr>sa_Address := accb\<rparr>)"
    using assms(2) by (simp add: wf_staking_entry_def zero_StakingAccount_def details_ok_def detail_total_def
        wf_locks_def)
  have upd: "acc\<lparr>sa_Address := accb\<rparr> = acc" if "sa_Address acc = accb" for acc :: StakingAccount
    using that by simp
  show ?thesis
  proof (cases "d < 0 \<or> d \<ge> 256 \<or> map_of (AllStakingAccounts (s (nat d))) accb = None")
    case True
    then show ?thesis
      using zero assms(2) by (auto simp: GetStakingAccountByAddressBytes_def mget_def)
  next
    case False
    then obtain acc where acc: "map_of (AllStakingAccounts (s (nat d))) accb = Some acc" "nat d < 256"
      by auto
    then have "wf_staking_entry accb acc"
      using assms(1) by (simp add: wf_staking_def)
    then show ?thesis
      using False acc assms(2) upd [of acc]
      by (simp add: GetStakingAccountByAddressBytes_def mget_def wf_staking_entry_def)
  qed
qed

subsection \<open>What each operation does to the state\<close>

lemma stake_account_fields [simp]:
  "StakedBalance (stake_account accb amount h t d opr la rel tp acc) = StakedBalance acc + amount"
  "StakingRewards (stake_account accb amount h t d opr la rel tp acc) = StakingRewards acc"
  "sa_Address (stake_account accb amount h t d opr la rel tp acc) = accb"
  "LastStakeHeight (stake_account accb amount h t d opr la rel tp acc) =
     (if tp then LastStakeHeight acc else h)"
  "OperationalAccount (stake_account accb amount h t d opr la rel tp acc) =
     (OperationalAccount acc \<or> (la = 0 \<and> opr))"
  by (auto simp: stake_account_def Let_def)

lemma stake_account_wf:
  assumes "wf_staking_entry accb acc"
  shows "wf_staking_entry accb (stake_account accb amount h t d opr la rel tp acc)"
proof -
  have acc: "wf_map (StakingDetails acc)" "detail_total sd_Amount acc = StakedBalance acc"
      "detail_total sd_Reward acc = StakingRewards acc" "wf_locks acc" "length accb = 20"
    using assms by (auto simp: wf_staking_entry_def details_ok_def)
  have "details_ok (stake_account accb amount h t d opr la rel tp acc)"
    unfolding stake_account_def Let_def details_ok_upd
    by (rule append_detail_ok) (use acc in auto)
  moreover have "wf_locks (stake_account accb amount h t d opr la rel tp acc)"
    using acc(4) by (simp add: wf_locks_def stake_account_def Let_def)
  ultimately show ?thesis
    using acc(5) by (simp add: wf_staking_entry_def)
qed

lemma stake_unfold:
  "stake accb amount h t d opr la rel tp s =
    (let acc = (GetStakingAccountByAddressBytes s accb d)\<lparr>sa_Address := accb\<rparr> in
     if length accb \<noteq> AddressLength then (Some (Errorf ''wrong address length''), s)
     else case stake_guard acc amount h la rel tp of
        Some e \<Rightarrow> (Some e, s)
      | None \<Rightarrow>
         if 0 \<le> d \<and> d < 256
         then (None, stored d (Some t) (stake_account accb amount h t d opr la rel tp acc) s)
         else (Some (Panic ''index out of range''), s))"
  unfolding stake_def Let_def put_then_set_eq by (rule refl)

lemma stake_error: "stake accb amount h t d opr la rel tp s = (Some e, s') \<Longrightarrow> s' = s"
  unfolding stake_unfold Let_def by (simp split: if_splits option.splits)

lemma stake_okD:
  assumes "stake accb amount h t d opr la rel tp s = (None, s')"
  defines "acc \<equiv> (GetStakingAccountByAddressBytes s accb d)\<lparr>sa_Address := accb\<rparr>"
  shows "length accb = AddressLength" "0 \<le> d" "d < 256" "stake_guard acc amount h la rel tp = None"
    "s' = stored d (Some t) (stake_account accb amount h t d opr la rel tp acc) s"
  using assms(1) unfolding stake_unfold Let_def acc_def [symmetric]
  by (simp_all split: if_splits option.splits)

lemma stake_ok:
  assumes "stake accb amount h t d opr la rel tp s = (None, s')" "wf_staking s"
  shows "total_staked s' = total_staked s + amount" "total_rewards s' = total_rewards s" "wf_staking s'"
    "0 \<le> sint amount"
proof -
  let ?acc = "(GetStakingAccountByAddressBytes s accb d)\<lparr>sa_Address := accb\<rparr>"
  note * = stake_okD [OF assms(1)]
  show "total_staked s' = total_staked s + amount" "total_rewards s' = total_rewards s"
    using stored_totals [OF assms(2) *(2,3), of "stake_account accb amount h t d opr la rel tp ?acc" "Some t"] *
    by simp_all
  show "wf_staking s'"
    unfolding *(5) using stake_account_wf [OF GetStakingAccount_wf [OF assms(2) *(1)]]
    by (intro stored_wf assms(2)) simp
  show "0 \<le> sint amount"
    using *(4) by (auto simp: stake_guard_def split: if_splits)
qed

lemma drop_expired_fields [simp]:
  "StakedBalance (drop_expired h acc) = StakedBalance acc"
  "StakingRewards (drop_expired h acc) = StakingRewards acc"
  "sa_Address (drop_expired h acc) = sa_Address acc"
  "StakingDetails (drop_expired h acc) = StakingDetails acc"
  "detail_total f (drop_expired h acc) = detail_total f acc"
  by (simp_all add: drop_expired_def Let_def)

lemma drop_expired_wf: "wf_locks acc \<Longrightarrow> wf_locks (drop_expired h acc)"
  by (simp add: drop_expired_def Let_def wf_locks_def)

definition unstaked :: "int64 \<Rightarrow> int64 \<Rightarrow> int64 \<Rightarrow> StakingAccount \<Rightarrow> StakingAccount" where
  "unstaked amount h t acc =
    (let acc = drop_expired h acc;
         acc = acc\<lparr>StakedBalance := StakedBalance acc + amount, LastStakeHeight := h\<rparr>;
         acc = (if StakedBalance acc = 0 then acc\<lparr>OperationalAccount := False, OperationalSince := 0\<rparr>
                else acc)
     in append_detail h \<lparr>sd_Amount = amount, sd_Reward = 0, sd_LastUpdated = t\<rparr> acc)"

lemma unstaked_fields [simp]:
  "StakedBalance (unstaked amount h t acc) = StakedBalance acc + amount"
  "StakingRewards (unstaked amount h t acc) = StakingRewards acc"
  "sa_Address (unstaked amount h t acc) = sa_Address acc"
  "LastStakeHeight (unstaked amount h t acc) = h"
  by (simp_all add: unstaked_def Let_def)

lemma unstaked_wf:
  assumes "wf_staking_entry k acc"
  shows "wf_staking_entry k (unstaked amount h t acc)"
proof -
  have acc: "wf_map (StakingDetails acc)" "detail_total sd_Amount acc = StakedBalance acc"
      "detail_total sd_Reward acc = StakingRewards acc" "wf_locks (drop_expired h acc)"
    using assms by (auto simp: wf_staking_entry_def details_ok_def drop_expired_wf)
  have "details_ok (unstaked amount h t acc)"
    unfolding unstaked_def Let_def by (rule append_detail_ok) (use acc in auto)
  moreover have "wf_locks (unstaked amount h t acc)"
    using acc(4) by (simp add: wf_locks_def unstaked_def Let_def)
  ultimately show ?thesis
    using assms by (simp add: wf_staking_entry_def)
qed

lemma Unstake_unfold:
  "Unstake accb amount h t d s =
    (let acc = GetStakingAccountByAddressBytes s accb d in
     if length accb \<noteq> AddressLength then (Some (Errorf ''wrong address length''), s)
     else if sa_Address acc \<noteq> accb then (Some (Errorf ''no account present in unstaking account''), s)
     else if sint amount \<ge> 0 then (Some (Errorf ''unstaked amount has to be larger than 0''), s)
     else if sint h < sint (LastStakeHeight acc + 36) then (Some (Errorf ''staking must be delayed''), s)
     else if sint (StakedBalance acc + amount) < 0 then (Some (Errorf ''insufficient staked balance''), s)
     else if locks_panic acc then (Some (Panic ''index out of range''), s)
     else if sint (StakedBalance acc - locked_sum acc h + amount) < 0
     then (Some (Errorf ''insufficient staked balance after locking''), s)
     else if 0 \<le> d \<and> d < 256 then (None, stored d (Some t) (unstaked amount h t acc) s)
     else (Some (Panic ''index out of range''), s))"
  unfolding Unstake_def Let_def unstaked_def put_then_set_eq lastStakeBlock_def by (rule refl if_cong)+

lemma Unstake_error: "Unstake accb amount h t d s = (Some e, s') \<Longrightarrow> s' = s"
  unfolding Unstake_unfold Let_def by (simp split: if_splits)

lemma Unstake_okD:
  assumes "Unstake accb amount h t d s = (None, s')"
  defines "acc \<equiv> GetStakingAccountByAddressBytes s accb d"
  shows "length accb = AddressLength" "0 \<le> d" "d < 256" "sa_Address acc = accb" "sint amount < 0"
    "sint (LastStakeHeight acc + 36) \<le> sint h" "0 \<le> sint (StakedBalance acc + amount)"
    "0 \<le> sint (StakedBalance acc - locked_sum acc h + amount)"
    "s' = stored d (Some t) (unstaked amount h t acc) s"
  using assms(1) unfolding Unstake_unfold Let_def acc_def [symmetric]
  by (simp_all split: if_splits)

lemma GetStakingAccount_present:
  assumes "wf_staking s" "sa_Address (GetStakingAccountByAddressBytes s accb d) = accb"
    "length accb = AddressLength"
  shows "wf_staking_entry accb (GetStakingAccountByAddressBytes s accb d)"
proof -
  have "acc\<lparr>sa_Address := accb\<rparr> = acc" if "sa_Address acc = accb" for acc :: StakingAccount
    using that by simp
  then show ?thesis
    using GetStakingAccount_wf [OF assms(1,3), of d] assms(2) by metis
qed

lemma Unstake_ok:
  assumes "Unstake accb amount h t d s = (None, s')" "wf_staking s"
  shows "total_staked s' = total_staked s + amount" "total_rewards s' = total_rewards s" "wf_staking s'"
    "sint amount < 0"
proof -
  define acc where "acc = GetStakingAccountByAddressBytes s accb d"
  note * = Unstake_okD [OF assms(1), folded acc_def]
  have get: "GetStakingAccountByAddressBytes s (sa_Address (unstaked amount h t acc)) d = acc"
    using *(4) by (simp add: acc_def)
  show "total_staked s' = total_staked s + amount" "total_rewards s' = total_rewards s"
    using stored_totals [OF assms(2) *(2,3), of "unstaked amount h t acc" "Some t"] *(1,4) get
    by (simp_all add: *(9))
  have "wf_staking_entry accb acc"
    using GetStakingAccount_present [OF assms(2)] *(1,4) by (simp add: acc_def)
  then show "wf_staking s'"
    unfolding *(9) using *(4) by (intro stored_wf assms(2)) (simp add: unstaked_wf)
  show "sint amount < 0" by (fact *)
qed

definition rewarded :: "int64 \<Rightarrow> int64 \<Rightarrow> int64 \<Rightarrow> StakingAccount \<Rightarrow> StakingAccount" where
  "rewarded reward h now acc =
     append_detail h \<lparr>sd_Amount = 0, sd_Reward = reward, sd_LastUpdated = now\<rparr>
       (acc\<lparr>StakingRewards := StakingRewards acc + reward\<rparr>)"

lemma rewarded_fields [simp]:
  "StakedBalance (rewarded reward h now acc) = StakedBalance acc"
  "StakingRewards (rewarded reward h now acc) = StakingRewards acc + reward"
  "sa_Address (rewarded reward h now acc) = sa_Address acc"
  "LastStakeHeight (rewarded reward h now acc) = LastStakeHeight acc"
  by (simp_all add: rewarded_def)

lemma rewarded_wf:
  assumes "wf_staking_entry k acc"
  shows "wf_staking_entry k (rewarded reward h now acc)"
proof -
  have acc: "wf_map (StakingDetails acc)" "detail_total sd_Amount acc = StakedBalance acc"
      "detail_total sd_Reward acc = StakingRewards acc"
    using assms by (auto simp: wf_staking_entry_def details_ok_def)
  have "details_ok (rewarded reward h now acc)"
    unfolding rewarded_def by (rule append_detail_ok) (use acc in auto)
  then show ?thesis
    using assms by (simp add: wf_staking_entry_def wf_locks_def rewarded_def)
qed

text \<open>\<open>Reward\<close> and \<open>WithdrawReward\<close> differ in their guards only.\<close>

lemma Reward_error: "Reward now accb amount h d s = (Some e, s') \<Longrightarrow> s' = s"
  unfolding Reward_def Let_def put_staking_eq by (simp split: if_splits)

lemma WithdrawReward_error: "WithdrawReward now accb amount h d s = (Some e, s') \<Longrightarrow> s' = s"
  unfolding WithdrawReward_def Let_def put_staking_eq by (simp split: if_splits)

lemma Reward_okD:
  assumes "Reward now accb amount h d s = (None, s')"
  defines "acc \<equiv> GetStakingAccountByAddressBytes s accb d"
  shows "length accb = AddressLength" "0 \<le> d" "d < 256" "sa_Address acc = accb" "0 \<le> sint amount"
    "s' = stored d None (rewarded amount h now acc) s"
  using assms(1) unfolding Reward_def Let_def acc_def [symmetric] put_staking_eq rewarded_def [symmetric]
  by (simp_all split: if_splits)

lemma WithdrawReward_okD:
  assumes "WithdrawReward now accb amount h d s = (None, s')"
  defines "acc \<equiv> GetStakingAccountByAddressBytes s accb d"
  shows "length accb = AddressLength" "0 \<le> d" "d < 256" "sa_Address acc = accb" "sint amount < 0"
    "0 \<le> sint (StakingRewards acc + amount)" "s' = stored d None (rewarded amount h now acc) s"
  using assms(1) unfolding WithdrawReward_def Let_def acc_def [symmetric] put_staking_eq rewarded_def [symmetric]
  by (simp_all split: if_splits)

lemma rewarded_state:
  assumes "wf_staking s" "0 \<le> d" "d < 256" "length accb = AddressLength"
    and acc: "acc = GetStakingAccountByAddressBytes s accb d" "sa_Address acc = accb"
    and s': "s' = stored d None (rewarded amount h now acc) s"
  shows "total_staked s' = total_staked s" "total_rewards s' = total_rewards s + amount" "wf_staking s'"
proof -
  have get: "GetStakingAccountByAddressBytes s (sa_Address (rewarded amount h now acc)) d = acc"
    using acc(2) by (simp add: acc(1))
  show "total_staked s' = total_staked s" "total_rewards s' = total_rewards s + amount"
    using stored_totals [OF assms(1-3), of "rewarded amount h now acc" None] assms(4) acc(2) get
    by (simp_all add: s')
  have "wf_staking_entry accb acc"
    using GetStakingAccount_present [OF assms(1) _ assms(4)] acc by simp
  then show "wf_staking s'"
    unfolding s' using acc(2) by (intro stored_wf assms(1)) (simp add: rewarded_wf)
qed

lemma Reward_ok:
  assumes "Reward now accb amount h d s = (None, s')" "wf_staking s"
  shows "total_staked s' = total_staked s" "total_rewards s' = total_rewards s + amount" "wf_staking s'"
  using rewarded_state [OF assms(2) Reward_okD(2,3,1) [OF assms(1)] refl Reward_okD(4,6) [OF assms(1)]]
  by simp_all

lemma WithdrawReward_ok:
  assumes "WithdrawReward now accb amount h d s = (None, s')" "wf_staking s"
  shows "total_staked s' = total_staked s" "total_rewards s' = total_rewards s + amount" "wf_staking s'"
  using rewarded_state [OF assms(2) WithdrawReward_okD(2,3,1) [OF assms(1)] refl WithdrawReward_okD(4,7) [OF assms(1)]]
  by simp_all

text \<open>What a call did to the state: on success the invariant holds and the sums moved by the given
  amounts, on failure nothing changed.\<close>

definition moved :: "int64 \<Rightarrow> int64 \<Rightarrow> StakingState \<Rightarrow> err option \<times> StakingState \<Rightarrow> bool" where
  "moved dS dR s r = (case r of
      (None, s') \<Rightarrow> wf_staking s' \<and> total_staked s' = total_staked s + dS \<and> total_rewards s' = total_rewards s + dR
    | (Some _, s') \<Rightarrow> s' = s)"

lemma operations_moved:
  assumes "wf_staking s"
  shows stake_moved: "moved amount 0 s (stake accb amount h t d opr la rel tp s)"
    and Unstake_moved: "moved amount 0 s (Unstake accb amount h t d s)"
    and Reward_moved: "moved 0 amount s (Reward t accb amount h d s)"
    and WithdrawReward_moved: "moved 0 amount s (WithdrawReward t accb amount h d s)"
proof -
  show "moved amount 0 s (stake accb amount h t d opr la rel tp s)"
    by (cases "stake accb amount h t d opr la rel tp s")
      (auto simp: moved_def assms split: option.split dest: stake_ok stake_error)
  show "moved amount 0 s (Unstake accb amount h t d s)"
    by (cases "Unstake accb amount h t d s")
      (auto simp: moved_def assms split: option.split dest: Unstake_ok Unstake_error)
  show "moved 0 amount s (Reward t accb amount h d s)"
    by (cases "Reward t accb amount h d s")
      (auto simp: moved_def assms split: option.split dest: Reward_ok Reward_error)
  show "moved 0 amount s (WithdrawReward t accb amount h d s)"
    by (cases "WithdrawReward t accb amount h d s")
      (auto simp: moved_def assms split: option.split dest: WithdrawReward_ok WithdrawReward_error)
qed

lemma moved_wf: "wf_staking s \<Longrightarrow> moved dS dR s r \<Longrightarrow> wf_staking (snd r)"
  by (auto simp: moved_def split: prod.splits option.splits)

subsection \<open>Snapshot codec\<close>

text \<open>\<open>common.GetInt64FromByte(buffer.Next(8))\<close>: \<open>Next\<close> returns what is left when the buffer holds
  fewer bytes, and the conversion then panics.\<close>

definition next64 :: "bytes \<Rightarrow> (int64 \<times> bytes) res" where
  "next64 d = bindR (GetInt64FromByte (take 8 d)) (\<lambda>u. Inr (u, drop 8 d))"

definition marshal_lock :: "int64 \<times> int64 \<times> int64 \<Rightarrow> bytes" where
  "marshal_lock = (\<lambda>(amount, release, init). GetByteInt64 amount @ GetByteInt64 release @ GetByteInt64 init)"

definition marshal_detail :: "StakingDetail \<Rightarrow> bytes" where
  "marshal_detail sd = GetByteInt64 (sd_Amount sd) @ GetByteInt64 (sd_Reward sd) @ GetByteInt64 (sd_LastUpdated sd)"

definition marshal_details :: "int64 \<times> StakingDetail list \<Rightarrow> bytes" where
  "marshal_details = (\<lambda>(key, ds). GetByteInt64 key @ GetByteInt64 (word_of_nat (length ds))
     @ concat (map marshal_detail ds))"

definition sorted_details :: "(int64, StakingDetail list) gomap \<Rightarrow> (int64 \<times> StakingDetail list) list" where
  "sorted_details m = map (\<lambda>k. (k, the (map_of m k))) (sort_key sint (map fst m))"

definition StakingAccount_Marshal :: "StakingAccount \<Rightarrow> bytes" where
  "StakingAccount_Marshal sa =
     GetByteInt64 (StakedBalance sa) @ GetByteInt64 (StakingRewards sa)
     @ GetByteInt64 (word_of_nat (length (LockedAmount sa)))
     @ concat (map marshal_lock (locks sa))
     @ sa_DelegatedAccount sa @ sa_Address sa @ [BoolToByte (OperationalAccount sa)]
     @ GetByteInt64 (word_of_nat (length (StakingDetails sa)))
     @ concat (map marshal_details (sorted_details (StakingDetails sa)))
     @ GetByteInt64 (OperationalSince sa) @ GetByteInt64 (LastStakeHeight sa)
     @ RandCommit sa @ GetByteInt64 (RandCommitHeight sa)"

fun readLocks :: "nat \<Rightarrow> bytes \<Rightarrow> ((int64 \<times> int64 \<times> int64) list \<times> bytes) res" where
  "readLocks 0 d = Inr ([], d)"
| "readLocks (Suc n) d =
    bindR (next64 d) (\<lambda>(amount, d). bindR (next64 d) (\<lambda>(release, d). bindR (next64 d) (\<lambda>(init, d).
    bindR (readLocks n d) (\<lambda>(ls, d). Inr ((amount, release, init) # ls, d)))))"

fun readDetails :: "nat \<Rightarrow> bytes \<Rightarrow> (StakingDetail list \<times> bytes) res" where
  "readDetails 0 d = Inr ([], d)"
| "readDetails (Suc n) d =
    (if length d < 24 then Inl (Errorf ''insufficient data for StakingDetail'')
     else bindR (next64 d) (\<lambda>(amount, d). bindR (next64 d) (\<lambda>(reward, d). bindR (next64 d) (\<lambda>(upd, d).
       bindR (readDetails n d) (\<lambda>(ds, d).
         Inr (\<lparr>sd_Amount = amount, sd_Reward = reward, sd_LastUpdated = upd\<rparr> # ds, d))))))"

fun readDetailsMap :: "nat \<Rightarrow> (int64, StakingDetail list) gomap \<Rightarrow> bytes
    \<Rightarrow> ((int64, StakingDetail list) gomap \<times> bytes) res" where
  "readDetailsMap 0 m d = Inr (m, d)"
| "readDetailsMap (Suc n) m d =
    (if length d < 16 then Inl (Errorf ''insufficient data for key and detail count'')
     else bindR (next64 d) (\<lambda>(key, d). bindR (next64 d) (\<lambda>(cnt, d).
       if sint cnt < 0 \<or> sint cnt > int (length d) div 24
       then Inl (Errorf ''invalid staking detail count'')
       else bindR (readDetails (nat (sint cnt)) d) (\<lambda>(ds, d). readDetailsMap n (mput key ds m) d))))"

definition Unmarshal_tail :: "StakingAccount \<Rightarrow> bytes \<Rightarrow> StakingAccount res" where
  "Unmarshal_tail sa d =
    bindR (if length d \<ge> 8 then bindR (next64 d) (\<lambda>(u, d). Inr (sa\<lparr>OperationalSince := u\<rparr>, d))
           else Inr (sa, d)) (\<lambda>(sa, d).
    bindR (if length d \<ge> 8 then bindR (next64 d) (\<lambda>(u, d). Inr (sa\<lparr>LastStakeHeight := u\<rparr>, d))
           else Inr (sa, d)) (\<lambda>(sa, d).
    if length d \<ge> HashLength + 8 then
      bindR (next64 (drop HashLength d)) (\<lambda>(u, _).
        Inr (sa\<lparr>RandCommit := take HashLength d, RandCommitHeight := u\<rparr>))
    else Inr sa))"

definition StakingAccount_Unmarshal :: "StakingAccount \<Rightarrow> bytes \<Rightarrow> StakingAccount res" where
  "StakingAccount_Unmarshal sa data =
    (if length data < 16 + 8 + 2 * AddressLength
     then Inl (Errorf ''insufficient data for StakedBalance and StakingRewards'')
     else bindR (next64 data) (\<lambda>(bal, d). bindR (next64 d) (\<lambda>(rew, d). bindR (next64 d) (\<lambda>(numLocked, d).
       if sint numLocked < 0 \<or> sint numLocked > int (length d) div 24
       then Inl (Errorf ''invalid locked-amount count'')
       else bindR (readLocks (nat (sint numLocked)) d) (\<lambda>(ls, d).
       if length d < 2 * AddressLength + 1 + 8
       then Inl (Errorf ''insufficient data for staking account addresses and details count'')
       else
         let da = take 20 d; addr = take 20 (drop 20 d) in
         bindR (indexR (take 1 (drop 40 d)) 0) (\<lambda>opr.
         bindR (next64 (drop 41 d)) (\<lambda>(cnt, d).
         if sint cnt < 0 \<or> sint cnt > int (length d) div 16
         then Inl (Errorf ''invalid staking details count'')
         else bindR (readDetailsMap (nat (sint cnt)) [] d) (\<lambda>(m, d).
           Unmarshal_tail (sa\<lparr>StakedBalance := bal, StakingRewards := rew, LockedAmount := map fst ls,
             ReleasePerBlock := map (fst \<circ> snd) ls, LockedInitBlock := map (snd \<circ> snd) ls,
             sa_DelegatedAccount := da, sa_Address := addr, OperationalAccount := (unat opr > 0),
             StakingDetails := m\<rparr>) d))))))))"

definition wf_StakingAccount :: "StakingAccount \<Rightarrow> bool" where
  "wf_StakingAccount sa \<longleftrightarrow>
     wf_locks sa \<and> length (LockedAmount sa) < 2 ^ 63 \<and>
     length (sa_DelegatedAccount sa) = AddressLength \<and> length (sa_Address sa) = AddressLength \<and>
     wf_map (StakingDetails sa) \<and> length (StakingDetails sa) < 2 ^ 63 \<and>
     (\<forall>(k, ds) \<in> set (StakingDetails sa). length ds < 2 ^ 63) \<and>
     length (RandCommit sa) = HashLength"

lemma next64_app [simp, codec_simps]: "next64 (GetByteInt64 u @ d) = Inr (u, d)"
  by (simp add: next64_def)

lemma next64_exact [simp, codec_simps]: "next64 (GetByteInt64 u) = Inr (u, [])"
  by (simp add: next64_def)

lemma no_panic_next64: "8 \<le> length d \<Longrightarrow> no_panic (next64 d)"
  by (simp add: next64_def GetInt64FromByte_def)

lemma next64_Inr: "next64 d = Inr (u, d') \<Longrightarrow> d' = drop 8 d"
  by (auto simp: next64_def bindR_eq_Inr)

lemma readLocks_ok: "readLocks (length ls) (concat (map marshal_lock ls) @ d) = Inr (ls, d)"
  by (induction ls) (auto simp: marshal_lock_def)

lemma length_marshal_locks [simp]: "length (concat (map marshal_lock ls)) = 24 * length ls"
  by (induction ls) (auto simp: marshal_lock_def)

lemma length_marshal_detail_list [simp]: "length (concat (map marshal_detail ds)) = 24 * length ds"
  by (induction ds) (auto simp: marshal_detail_def)

lemma readDetails_ok: "readDetails (length ds) (concat (map marshal_detail ds) @ d) = Inr (ds, d)"
  by (induction ds) (auto simp: marshal_detail_def)

lemma readDetailsMap_ok:
  assumes "wf_map (m @ xs)" "\<forall>(k, ds) \<in> set xs. length ds < 2 ^ 63"
  shows "readDetailsMap (length xs) m (concat (map marshal_details xs) @ d) = Inr (m @ xs, d)"
  using assms
proof (induction xs arbitrary: m)
  case Nil
  then show ?case by simp
next
  case (Cons kv xs)
  obtain k ds where kv: "kv = (k, ds)" by (cases kv)
  define r where "r = concat (map marshal_details xs) @ d"
  have m: "concat (map marshal_details (kv # xs)) @ d
    = GetByteInt64 k @ GetByteInt64 (word_of_nat (length ds)) @ concat (map marshal_detail ds) @ r"
    by (simp add: kv marshal_details_def r_def)
  have "mput k ds m = m @ [(k, ds)]"
    by (rule mput_append) (use Cons.prems(1) kv in auto)
  moreover have "readDetailsMap (length xs) (m @ [(k, ds)]) r = Inr ((m @ [(k, ds)]) @ xs, d)"
    unfolding r_def by (rule Cons.IH) (use Cons.prems kv in auto)
  moreover have "length ds < 2 ^ 63"
    using Cons.prems(2) kv by auto
  ultimately show ?case
    unfolding m by (simp add: kv readDetails_ok not_less)
qed

lemma length_marshal_details: "16 * length xs \<le> length (concat (map marshal_details xs))"
  by (induction xs) (auto simp: marshal_details_def)

lemma sorted_details_facts:
  assumes "wf_map m"
  shows "wf_map (sorted_details m)" "set (sorted_details m) = set m"
    "length (sorted_details m) = length m" "map_of (sorted_details m) = map_of m"
proof -
  have ms: "mset (sorted_details m) = mset m"
    using sorted_pairs_mset [OF assms, of sint] by (simp add: sorted_details_def)
  show "wf_map (sorted_details m)"
    using assms by (simp add: sorted_details_def comp_def)
  show "set (sorted_details m) = set m" "length (sorted_details m) = length m"
    using ms by (auto dest: mset_eq_setD mset_eq_length)
  show "map_of (sorted_details m) = map_of m"
    using map_of_perm [OF assms] ms by metis
qed

lemma Unmarshal_tail_ok:
  "length rc = HashLength \<Longrightarrow> Unmarshal_tail sa (GetByteInt64 s @ GetByteInt64 l @ rc @ GetByteInt64 h)
    = Inr (sa\<lparr>OperationalSince := s, LastStakeHeight := l, RandCommit := rc, RandCommitHeight := h\<rparr>)"
  by (simp add: Unmarshal_tail_def)

lemma locks_split:
  "wf_locks sa \<Longrightarrow> map fst (locks sa) = LockedAmount sa" "wf_locks sa \<Longrightarrow> map (fst \<circ> snd) (locks sa) = ReleasePerBlock sa"
  "wf_locks sa \<Longrightarrow> map (snd \<circ> snd) (locks sa) = LockedInitBlock sa"
  "wf_locks sa \<Longrightarrow> length (locks sa) = length (LockedAmount sa)"
  by (simp_all add: locks_def wf_locks_def flip: map_map)

lemma StakingAccount_Unmarshal_parts:
  assumes L: "length L = 24 * length ls" "readLocks (length ls) (L @ r1) = Inr (ls, r1)" "length ls < 2 ^ 63"
    and r1: "r1 = da @ addr @ [opr] @ GetByteInt64 (word_of_nat n) @ D @ r2" "length da = 20" "length addr = 20"
    and D: "16 * n \<le> length D" "n < 2 ^ 63" "readDetailsMap n [] (D @ r2) = Inr (m, r2)"
  shows "StakingAccount_Unmarshal sa (GetByteInt64 bal @ GetByteInt64 rew
      @ GetByteInt64 (word_of_nat (length ls)) @ L @ r1) =
    Unmarshal_tail (sa\<lparr>StakedBalance := bal, StakingRewards := rew, LockedAmount := map fst ls,
             ReleasePerBlock := map (fst \<circ> snd) ls, LockedInitBlock := map (snd \<circ> snd) ls,
             sa_DelegatedAccount := da, sa_Address := addr, OperationalAccount := (unat opr > 0),
             StakingDetails := m\<rparr>) r2"
proof -
  have "int (length ls) \<le> (int (length L) + int (length r1)) div 24"
    using L(1) by linarith
  moreover have "int n \<le> (int (length D) + int (length r2)) div 16"
    using D(1) by linarith
  moreover have "length r1 = 49 + length D + length r2"
    using r1 by simp
  moreover have "take 20 r1 = da" "take 20 (drop 20 r1) = addr" "take 1 (drop 40 r1) = [opr]"
      "drop 41 r1 = GetByteInt64 (word_of_nat n) @ D @ r2"
    using r1(2,3) unfolding r1(1) by simp_all
  ultimately show ?thesis
    using L(2,3) D(2,3) unfolding StakingAccount_Unmarshal_def Let_def
    by (simp add: not_less)
qed

lemma BoolToByte_gt [simp]: "(0 < unat (BoolToByte b)) = b"
  by (simp add: BoolToByte_def)

lemma StakingAccount_Unmarshal_Marshal [codec_simps]:
  assumes "wf_StakingAccount sa"
  shows "StakingAccount_Unmarshal zero_StakingAccount (StakingAccount_Marshal sa)
    = Inr (sa\<lparr>StakingDetails := sorted_details (StakingDetails sa)\<rparr>)"
proof -
  let ?S = "sorted_details (StakingDetails sa)"
  have wf: "wf_locks sa" "length (locks sa) < 2 ^ 63" "length (sa_DelegatedAccount sa) = 20"
      "length (sa_Address sa) = 20" "wf_map (StakingDetails sa)" "length (StakingDetails sa) < 2 ^ 63"
      "\<forall>(k, ds) \<in> set (StakingDetails sa). length ds < 2 ^ 63" "length (RandCommit sa) = 32"
    using assms by (simp_all add: wf_StakingAccount_def locks_split)
  note S = sorted_details_facts [OF wf(5)]
  have D: "16 * length (StakingDetails sa) \<le> length (concat (map marshal_details ?S))"
    using length_marshal_details [of ?S] S(3) by simp
  have rD: "readDetailsMap (length (StakingDetails sa)) [] (concat (map marshal_details ?S) @ r) = Inr (?S, r)" for r
    using readDetailsMap_ok [of "[]" ?S r] S wf(7) by simp
  note parts = StakingAccount_Unmarshal_parts [OF length_marshal_locks readLocks_ok wf(2) refl wf(3,4) D wf(6) rD]
  have "StakingAccount_Unmarshal zero_StakingAccount (StakingAccount_Marshal sa) = Inr (zero_StakingAccount
    \<lparr>StakedBalance := StakedBalance sa, StakingRewards := StakingRewards sa,
     LockedAmount := LockedAmount sa, ReleasePerBlock := ReleasePerBlock sa,
     LockedInitBlock := LockedInitBlock sa, sa_DelegatedAccount := sa_DelegatedAccount sa,
     sa_Address := sa_Address sa, OperationalAccount := OperationalAccount sa, StakingDetails := ?S,
     OperationalSince := OperationalSince sa, LastStakeHeight := LastStakeHeight sa,
     RandCommit := RandCommit sa, RandCommitHeight := RandCommitHeight sa\<rparr>)"
    using parts [of zero_StakingAccount] wf(1,8)
    by (simp add: StakingAccount_Marshal_def locks_split Unmarshal_tail_ok)
  then show ?thesis
    by simp
qed

text \<open>The bytes depend on the map of details only, not on the order it is iterated in.\<close>

lemma sort_sint_unique:
  fixes xs ys :: "int64 list"
  assumes "distinct xs" "distinct ys" "mset xs = mset ys"
  shows "sort_key sint xs = sort_key sint ys"
proof -
  have inj: "inj (sint :: int64 \<Rightarrow> int)"
    by (auto simp: inj_def signed_word_eqI)
  have "map sint (sort_key sint xs) = map sint (sort_key sint ys)"
    using assms mset_eq_setD [OF assms(3)]
    by (intro sorted_distinct_set_unique) (auto simp: distinct_map inj_on_subset [OF inj])
  then show ?thesis
    by (rule map_injective) (rule inj)
qed

lemma sorted_details_perm:
  assumes "wf_map m" "wf_map m'" "map_of m = map_of m'"
  shows "sorted_details m = sorted_details m'"
proof -
  have "mset (map fst m) = mset (map fst m')"
    using wf_map_mset_eq [OF assms] by (metis mset_map)
  then have "sort_key sint (map fst m) = sort_key sint (map fst m')"
    using assms(1,2) by (rule sort_sint_unique [rotated 2])
  then show ?thesis
    by (simp add: sorted_details_def assms(3))
qed

lemma no_panic_readLocks: "24 * n \<le> length d \<Longrightarrow> no_panic (readLocks n d)"
  by (induction n d rule: readLocks.induct)
    (auto intro!: no_panic_bindR no_panic_next64 dest!: next64_Inr split: prod.splits)

lemma no_panic_readDetails: "no_panic (readDetails n d)"
  by (induction n d rule: readDetails.induct)
    (auto intro!: no_panic_bindR no_panic_next64 dest!: next64_Inr split: prod.splits)

lemma no_panic_readDetailsMap: "no_panic (readDetailsMap n m d)"
  by (induction n arbitrary: m d)
    (auto intro!: no_panic_bindR no_panic_next64 no_panic_readDetails dest!: next64_Inr split: prod.splits)

lemma no_panic_Unmarshal_tail: "no_panic (Unmarshal_tail sa d)"
  unfolding Unmarshal_tail_def
  by (intro no_panic_bindR) (auto intro!: no_panic_bindR no_panic_next64 split: prod.splits)

lemma no_panic_StakingAccount_Unmarshal: "no_panic (StakingAccount_Unmarshal sa d)"
  unfolding StakingAccount_Unmarshal_def Let_def
  by (auto intro!: no_panic_bindR no_panic_next64 no_panic_readLocks no_panic_readDetailsMap
      no_panic_Unmarshal_tail dest!: next64_Inr split: prod.splits) arith+

subsection \<open>Locks, pacing and third parties\<close>

lemma locked_sum_sum_list: "locked_sum acc h = sum_list (map (lock_at h) (locks acc))"
proof -
  have "foldl (\<lambda>locked l. locked + lock_at h l) z ls = z + sum_list (map (lock_at h) ls)" for z ls
    by (induction ls arbitrary: z) (simp_all add: algebra_simps)
  then show ?thesis
    by (simp add: locked_sum_def)
qed

lemma lock_at_expired: "expired h l \<Longrightarrow> lock_at h l = 0"
  by (cases l) (simp add: expired_def lock_at_def Let_def)

lemma sum_filter_expired:
  "sum_list (map (lock_at h) (filter (\<lambda>l. \<not> expired h l) ls)) = sum_list (map (lock_at h) ls)"
  by (induction ls) (simp_all add: lock_at_expired)

lemma locked_sum_drop_expired: "locked_sum (drop_expired h acc) h = locked_sum acc h"
proof -
  have "zip (map fst ls) (zip (map (fst \<circ> snd) ls) (map (snd \<circ> snd) ls)) = ls"
    for ls :: "(int64 \<times> int64 \<times> int64) list"
    by (induction ls) auto
  then show ?thesis
    by (simp add: locked_sum_sum_list drop_expired_def Let_def locks_def [of "_\<lparr>LockedInitBlock := _\<rparr>"]
        sum_filter_expired)
qed

lemma locks_unstaked: "locks (unstaked amount h t acc) = locks (drop_expired h acc)"
  by (simp add: unstaked_def Let_def locks_def)

lemma locked_sum_unstaked: "locked_sum (unstaked amount h t acc) h = locked_sum acc h"
  using locked_sum_drop_expired [of h acc] by (simp add: locked_sum_sum_list locks_unstaked)

lemma Get_stored:
  assumes "0 \<le> d" "d < 256" "length (sa_Address acc) = AddressLength"
  shows "GetStakingAccountByAddressBytes (stored d t acc s) (sa_Address acc) d = acc"
  using assms by (simp add: GetStakingAccountByAddressBytes_def stored_def)

lemma Get_stored_other:
  assumes "length accb = AddressLength" "0 \<le> d" "0 \<le> d'" "accb \<noteq> sa_Address acc \<or> d' \<noteq> d"
  shows "GetStakingAccountByAddressBytes (stored d t acc s) accb d' = GetStakingAccountByAddressBytes s accb d'"
  using assms by (auto simp: GetStakingAccountByAddressBytes_def stored_def)

lemma Unstake_account:
  assumes "Unstake accb amount h t d s = (None, s')"
  shows "GetStakingAccountByAddressBytes s' accb d
    = unstaked amount h t (GetStakingAccountByAddressBytes s accb d)"
proof -
  note * = Unstake_okD [OF assms]
  show ?thesis
    using Get_stored [OF *(2,3), of "unstaked amount h t (GetStakingAccountByAddressBytes s accb d)"] *(1,4)
    by (simp add: *(9))
qed

lemma stake_account_after:
  assumes "stake accb amount h t d opr la rel tp s = (None, s')"
  shows "GetStakingAccountByAddressBytes s' accb d = stake_account accb amount h t d opr la rel tp
    ((GetStakingAccountByAddressBytes s accb d)\<lparr>sa_Address := accb\<rparr>)"
proof -
  note * = stake_okD [OF assms]
  show ?thesis
    using Get_stored [OF *(2,3), of "stake_account accb amount h t d opr la rel tp
    ((GetStakingAccountByAddressBytes s accb d)\<lparr>sa_Address := accb\<rparr>)"] *(1)
    by (simp add: *(5))
qed

lemma sint_add36: "sint (a :: int64) + 36 < 2 ^ 63 \<Longrightarrow> sint (a + 36) = sint a + 36"
  using sint_add64 [of a 36] sint_range64 [of a] by simp

text \<open>An operation of the owner at height \<open>h'\<close> succeeds only when the last one is 36 blocks old.\<close>

lemma stake_paced:
  assumes "stake accb amount h' t d opr la rel False s = (None, s')"
    "LastStakeHeight (GetStakingAccountByAddressBytes s accb d) = h" "sint h + 36 < 2 ^ 63"
  shows "sint h + 36 \<le> sint h'"
  using stake_okD(4) [OF assms(1)] assms(2) sint_add36 [OF assms(3)]
  by (auto simp: stake_guard_def lastStakeBlock_def split: if_splits)

lemma Unstake_paced:
  assumes "Unstake accb amount h' t d s = (None, s')"
    "LastStakeHeight (GetStakingAccountByAddressBytes s accb d) = h" "sint h + 36 < 2 ^ 63"
  shows "sint h + 36 \<le> sint h'"
  using Unstake_okD(6) [OF assms(1)] assms(2) sint_add36 [OF assms(3)] by simp

lemma lock_at_exact:
  assumes "sint i \<le> sint h" "0 \<le> sint a" "0 \<le> sint r"
    "sint h - sint i < 2 ^ 63" "(sint h - sint i) * sint r < 2 ^ 63"
  shows "sint (lock_at h (a, r, i)) = max 0 (sint a - (sint h - sint i) * sint r)"
proof -
  have d: "sint (h - i) = sint h - sint i"
    by (rule sint_diff64) (use assms(1,4) in simp_all)
  have nn: "0 \<le> (sint h - sint i) * sint r"
    using assms(1,3) by simp
  have m: "sint ((h - i) * r) = (sint h - sint i) * sint r"
    using sint_mult64 [of "h - i" r] assms(5) nn by (simp add: d)
  have "sint (a - (h - i) * r) = sint a - (sint h - sint i) * sint r"
    using sint_diff64 [of a "(h - i) * r"] assms(2,5) nn sint_range64 [of a] by (simp add: m)
  then show ?thesis
    by (simp add: lock_at_def Let_def)
qed


subsection \<open>Properties of the staking accounts\<close>

lemma SetRandCommit_wf:
  assumes "wf_staking s"
  shows "wf_staking (snd (SetRandCommit n addr c h s))"
proof (cases "map_of (AllStakingAccounts (s n)) addr")
  case None
  then show ?thesis
    using assms by (simp add: SetRandCommit_def)
next
  case (Some sa)
  have "wf_staking_entry addr (sa\<lparr>RandCommit := c, RandCommitHeight := h\<rparr>)" if "n < 256"
  proof -
    have "wf_staking_entry addr sa"
      using assms Some that by (simp add: wf_staking_def)
    then show ?thesis
      by (simp add: wf_staking_entry_def wf_locks_def details_ok_def detail_total_def)
  qed
  then show ?thesis
    using assms Some by (auto simp: SetRandCommit_def wf_staking_def simp del: map_of_eq_Some_iff)
qed

lemma locks_drop_expired: "(\<forall>l \<in> set (locks (drop_expired h acc)). \<not> expired h l)"
proof -
  have "zip (map fst ls) (zip (map (fst \<circ> snd) ls) (map (snd \<circ> snd) ls)) = ls"
    for ls :: "(int64 \<times> int64 \<times> int64) list"
    by (induction ls) auto
  then show ?thesis
    by (auto simp: drop_expired_def Let_def locks_def [of "_\<lparr>LockedInitBlock := _\<rparr>"] filter_empty_conv)
qed

text \<open>C7: Every operation on the staking accounts keeps their invariant, whether it succeeds or fails:
  an account is stored under its own address, the three lock lists have the same length, and the
  staked balance and the rewards are the sums of the recorded details (pruning included).\<close>

theorem staking_invariant:
  assumes "wf_staking s"
  shows "wf_staking (snd (Stake accb amount h t d opr la rel s)) \<and>
    wf_staking (snd (StakeLockedFor accb amount h t d la rel s)) \<and>
    wf_staking (snd (Unstake accb amount h t d s)) \<and>
    wf_staking (snd (Reward t accb amount h d s)) \<and>
    wf_staking (snd (WithdrawReward t accb amount h d s)) \<and>
    wf_staking (snd (SetRandCommit n accb c h s))"
  unfolding Stake_def StakeLockedFor_def
  by (intro conjI operations_moved [THEN moved_wf [rotated]] SetRandCommit_wf assms)

definition sample_staking :: StakingState where
  "sample_staking = snd (Stake (replicate 20 1) 500000000000 100 7 3 True 0 0 (\<lambda>_. zero_StakingAccountsType))"

lemma wf_staking_empty: "wf_staking (\<lambda>_. zero_StakingAccountsType)"
  by (simp add: wf_staking_def zero_StakingAccountsType_def)

lemma sample_staking_wf: "wf_staking sample_staking"
  unfolding sample_staking_def Stake_def
  by (intro operations_moved [THEN moved_wf [rotated]] wf_staking_empty)

theorem staking_invariant_witness:
  "wf_staking (\<lambda>_. zero_StakingAccountsType) \<and>
   wf_staking (snd (Stake (replicate 20 1) 500000000000 100 7 3 True 0 0 (\<lambda>_. zero_StakingAccountsType)))"
  using staking_invariant [OF wf_staking_empty, of "replicate 20 1" 500000000000 100 7 3 True 0 0 0 "[]"] wf_staking_empty
  by simp

text \<open>C8: A successful operation moves the totals by its amount and by nothing else: staking raises the
  sum of the staked balances by the amount, unstaking by its (negative) amount, rewards and their
  withdrawal move only the sum of the rewards. A failed operation leaves the whole state as it was.\<close>

theorem staking_totals:
  assumes "wf_staking s"
  shows "(case Stake accb amount h t d opr la rel s of
            (None, s') \<Rightarrow> total_staked s' = total_staked s + amount \<and> total_rewards s' = total_rewards s
          | (Some _, s') \<Rightarrow> s' = s) \<and>
    (case StakeLockedFor accb amount h t d la rel s of
            (None, s') \<Rightarrow> total_staked s' = total_staked s + amount \<and> total_rewards s' = total_rewards s
          | (Some _, s') \<Rightarrow> s' = s) \<and>
    (case Unstake accb amount h t d s of
            (None, s') \<Rightarrow> total_staked s' = total_staked s + amount \<and> total_rewards s' = total_rewards s
          | (Some _, s') \<Rightarrow> s' = s) \<and>
    (case Reward t accb amount h d s of
            (None, s') \<Rightarrow> total_staked s' = total_staked s \<and> total_rewards s' = total_rewards s + amount
          | (Some _, s') \<Rightarrow> s' = s) \<and>
    (case WithdrawReward t accb amount h d s of
            (None, s') \<Rightarrow> total_staked s' = total_staked s \<and> total_rewards s' = total_rewards s + amount
          | (Some _, s') \<Rightarrow> s' = s)"
  using stake_moved [OF assms, of amount accb h t d opr la rel False]
    stake_moved [OF assms, of amount accb h t d False la rel True] Unstake_moved [OF assms, of amount accb h t d]
    Reward_moved [OF assms, of amount t accb h d] WithdrawReward_moved [OF assms, of amount t accb h d]
  unfolding Stake_def StakeLockedFor_def moved_def
  by (intro conjI) (simp_all split: prod.splits option.splits)

theorem staking_totals_witness:
  "case Stake (replicate 20 1) 500000000000 100 7 3 True 0 0 (\<lambda>_. zero_StakingAccountsType) of
     (None, s') \<Rightarrow> total_staked s' = total_staked (\<lambda>_. zero_StakingAccountsType) + 500000000000
   | (Some _, s') \<Rightarrow> False"
proof -
  have "fst (Stake (replicate 20 1) 500000000000 100 7 3 True 0 0 (\<lambda>_. zero_StakingAccountsType)) = None"
    by (simp add: Stake_def stake_unfold Let_def stake_guard_def GetStakingAccountByAddressBytes_def
      lastStakeBlock_def zero_StakingAccountsType_def mget_def zero_StakingAccount_def)
  then show ?thesis
    using staking_totals [where s = "\<lambda>_. zero_StakingAccountsType" and accb = "replicate 20 1"
        and amount = 500000000000 and h = 100 and t = 7 and d = 3 and opr = True and la = 0 and rel = 0] wf_staking_empty
    by (auto split: prod.splits option.splits)
qed




text \<open>C10: Pacing of a stake: after a \<open>Stake\<close> of the owner at height \<open>h\<close> no further \<open>Stake\<close> or \<open>Unstake\<close> of
  the same account succeeds before height \<open>h + 36\<close>, while a third party that stakes a locked amount
  for the account does not move that date.\<close>

theorem owner_is_paced:
  assumes "Stake accb amount h t d opr la rel s = (None, s')" "sint h + 36 < 2 ^ 63"
  shows "(Stake accb amount' h' t' d opr' la' rel' s' = (None, s'') \<longrightarrow> sint h + 36 \<le> sint h') \<and>
    (Unstake accb amount' h' t' d s' = (None, s'') \<longrightarrow> sint h + 36 \<le> sint h') \<and>
    (StakeLockedFor accb amount' h' t' d la' rel' s = (None, s'') \<longrightarrow>
       LastStakeHeight (GetStakingAccountByAddressBytes s'' accb d) = LastStakeHeight (GetStakingAccountByAddressBytes s accb d))"
proof -
  have last: "LastStakeHeight (GetStakingAccountByAddressBytes s' accb d) = h"
    using stake_account_after [OF assms(1) [unfolded Stake_def]] by simp
  have third: "LastStakeHeight (GetStakingAccountByAddressBytes s'' accb d) = LastStakeHeight (GetStakingAccountByAddressBytes s accb d)"
    if "StakeLockedFor accb amount' h' t' d la' rel' s = (None, s'')"
    using stake_account_after [OF that [unfolded StakeLockedFor_def]] by simp
  show ?thesis
    using stake_paced [OF _ last assms(2)] Unstake_paced [OF _ last assms(2)] third
    by (simp add: Stake_def)
qed

theorem owner_is_paced_witness:
  "fst (Stake (replicate 20 1) 500000000000 100 7 3 True 0 0 (\<lambda>_. zero_StakingAccountsType)) = None \<and>
   fst (Unstake (replicate 20 1) (-5) 135 9 3 sample_staking) \<noteq> None"
proof -
  have s: "Stake (replicate 20 1) 500000000000 100 7 3 True 0 0 (\<lambda>_. zero_StakingAccountsType) = (None, sample_staking)"
    by (simp add: sample_staking_def Stake_def stake_unfold Let_def stake_guard_def GetStakingAccountByAddressBytes_def
      lastStakeBlock_def zero_StakingAccountsType_def mget_def zero_StakingAccount_def)
  show ?thesis
    using owner_is_paced [OF s, of "-5" 135 9 True 0 0 "snd (Unstake (replicate 20 1) (-5) 135 9 3 sample_staking)"] s
    by (cases "Unstake (replicate 20 1) (-5) 135 9 3 sample_staking") auto
qed


text \<open>A lock that ran out comes back: the product of the elapsed blocks and the release per block is
  computed in 64 bits, so a lock of \<open>10^14\<close> units released in one block reads as zero in the next
  block and as a large locked amount 92235 blocks later.\<close>

lemma lock_relocks_after_overflow:
  "lock_at 1 (100000000000000, 100000000000000, 0) = 0"
  "sint (lock_at 92235 (100000000000000, 100000000000000, 0)) > 100000000000000"
  by code_simp+

end
