(* ===== verification/Staking_Shards.thy ===== *)
theory Staking_Shards
  imports Staking "HOL-Library.Product_Lexorder"
begin

text \<open>
  The 256 delegated accounts together (\<open>account/accountsStakingStates.go\<close>): the totals, which
  operator runs a delegated account, which delegated accounts may produce blocks and vote (the
  128 largest), and the snapshot of one shard.

  A selection of the source is a loop over a Go map that keeps the best entry so far. The key
  of an entry puts the comparison of the source into one linear order, so the entry the loop
  ends with is the least one whatever the order of iteration.
\<close>

subsection \<open>Selection of the operator\<close>

text \<open>A candidate: its stake, the time of its operator signal and its address.\<close>

type_synonym candidate = "int64 \<times> int64 \<times> bytes"

definition better :: "candidate \<Rightarrow> candidate \<Rightarrow> bool" where
  "better = (\<lambda>(stk, since, addr) (selStake, selSince, selAddr).
     sint stk > sint selStake \<or>
     (stk = selStake \<and> (sint since < sint selSince \<or> (since = selSince \<and> addr < selAddr))))"

definition keep_better :: "candidate \<Rightarrow> candidate \<Rightarrow> candidate" where
  "keep_better sel c = (if better c sel then c else sel)"

definition candidates :: "(bytes, StakingAccount) gomap \<Rightarrow> candidate list" where
  "candidates m = map (\<lambda>(address, staking). (StakedBalance staking, OperationalSince staking, address))
     (filter (\<lambda>(address, staking). OperationalAccount staking) m)"

definition delegatedTotalsLocked :: "StakingState \<Rightarrow> nat \<Rightarrow> int64" where
  "delegatedTotalsLocked s j = foldl (\<lambda>t (address, staking). t + StakedBalance staking) 0 (AllStakingAccounts (s j))"

definition ahead :: "StakingState \<Rightarrow> (nat \<Rightarrow> int64) \<Rightarrow> nat \<Rightarrow> nat \<Rightarrow> bool" where
  "ahead s totals d j \<longleftrightarrow>
     (let stk = totals j; targetStake = totals d; candidateTime = StakeChangedAt (s j);
          targetTime = StakeChangedAt (s d)
      in sint stk > sint targetStake \<or>
         (stk = targetStake \<and>
          (sint candidateTime < sint targetTime \<or> (candidateTime = targetTime \<and> j < d))))"

abbreviation (input) MaxActiveStakingNodes :: nat where "MaxActiveStakingNodes \<equiv> 128"

definition stake_rank :: "StakingState \<Rightarrow> (nat \<Rightarrow> int64) \<Rightarrow> nat \<Rightarrow> nat" where
  "stake_rank s totals d = 1 + length (filter (\<lambda>j. j \<noteq> d \<and> ahead s totals d j) [0..<NumShards])"

definition eligibleOperatorLocked :: "StakingState \<Rightarrow> (nat \<Rightarrow> int64) \<Rightarrow> nat \<Rightarrow> bytes \<times> bool" where
  "eligibleOperatorLocked s totals d =
    (if sint (totals d) < sint MinStakingForNode then (replicate AddressLength 0, False)
     else
       let (selStake, selSince, selOperator) =
             foldl keep_better (-1, 0, replicate AddressLength 0) (candidates (AllStakingAccounts (s d)))
       in if sint selStake < 0 then (selOperator, False)
          else (selOperator, stake_rank s totals d \<le> MaxActiveStakingNodes))"

definition IsTop128StakingNode :: "StakingState \<Rightarrow> int \<Rightarrow> Address \<Rightarrow> bool" where
  "IsTop128StakingNode s d operator =
    (if d \<le> 0 \<or> d \<ge> int NumShards then False
     else let (sel, ok) = eligibleOperatorLocked s (delegatedTotalsLocked s) (nat d)
          in ok \<and> sel = addr_ByteValue operator)"

definition IsEligibleDelegatedAccount :: "StakingState \<Rightarrow> int \<Rightarrow> bool" where
  "IsEligibleDelegatedAccount s d =
    (if d \<le> 0 \<or> d \<ge> int NumShards then False
     else snd (eligibleOperatorLocked s (delegatedTotalsLocked s) (nat d)))"

definition GetStakedInEligibleDelegatedAccounts :: "StakingState \<Rightarrow> int64" where
  "GetStakedInEligibleDelegatedAccounts s =
     foldl (\<lambda>t j. if snd (eligibleOperatorLocked s (delegatedTotalsLocked s) j)
                   then t + delegatedTotalsLocked s j else t) 0 [1..<NumShards]"

definition GetStakedInAllDelegatedAccounts :: "StakingState \<Rightarrow> int64" where
  "GetStakedInAllDelegatedAccounts s =
     foldl (\<lambda>t d. foldl (\<lambda>t (address, sa). t + StakedBalance sa) t (AllStakingAccounts (s d))) 0 [0..<NumShards]"

text \<open>\<open>GetStakedInDelegatedAccount\<close>: balance and address of every staking account, the total,
  and balance and address of the operator. Its selection starts from the zero account.\<close>

definition GetStakedInDelegatedAccount ::
  "StakingState \<Rightarrow> nat \<Rightarrow> (int64 \<times> bytes) list \<times> int64 \<times> (int64 \<times> bytes)" where
  "GetStakedInDelegatedAccount s n =
    (let m = AllStakingAccounts (s n);
         (bal, since, addr) = foldl keep_better (0, 0, replicate AddressLength 0)
           (map (\<lambda>(_, sa). (StakedBalance sa, OperationalSince sa, sa_Address sa))
             (filter (\<lambda>(_, sa). OperationalAccount sa) m))
     in (map (\<lambda>(_, sa). (StakedBalance sa, sa_Address sa)) m,
         foldl (\<lambda>t (_, sa). t + StakedBalance sa) 0 m, (bal, addr)))"

subsection \<open>Snapshot of a shard\<close>

definition StakingAccountsType_Marshal :: "StakingAccountsType \<Rightarrow> bytes" where
  "StakingAccountsType_Marshal at =
     GetByteInt64 (word_of_nat (length (AllStakingAccounts at)))
     @ concat (map (\<lambda>(address, acc). address @ BytesToLenAndBytes (StakingAccount_Marshal acc)) (AllStakingAccounts at))
     @ GetByteInt64 (StakeChangedAt at)"

fun readStakingAccounts :: "nat \<Rightarrow> (bytes, StakingAccount) gomap \<Rightarrow> bytes
    \<Rightarrow> ((bytes, StakingAccount) gomap \<times> bytes) res" where
  "readStakingAccounts 0 m d = Inr (m, d)"
| "readStakingAccounts (Suc n) m d =
    (if length d < AddressLength then Inl (Errorf ''failed to read address'')
     else
       let address = take AddressLength d; d = drop AddressLength d in
       if length d < 4 then Inl (Errorf ''not enough data for staking account length'')
       else
         let nb = unat (get_be (take 4 d) :: int32); d = drop 4 d in
         if nb > length d then Inl (Errorf ''staking account length exceeds remaining'')
         else bindR (StakingAccount_Unmarshal zero_StakingAccount (take nb d)) (\<lambda>acc.
           readStakingAccounts n (mput address acc m) (drop nb d)))"

definition StakingAccountsType_Unmarshal :: "StakingAccountsType \<Rightarrow> bytes \<Rightarrow> StakingAccountsType res" where
  "StakingAccountsType_Unmarshal at data =
    (if length data < 8 then Inl (Errorf ''not enough data to unmarshal staking accounts'')
     else bindR (next64 data) (\<lambda>(n, d).
       if sint n < 0 \<or> sint n > int (length d) div int AddressLength
       then Inl (Errorf ''invalid staking account count'')
       else bindR (readStakingAccounts (nat (sint n)) [] d) (\<lambda>(m, d).
         if length d \<ge> 8
         then bindR (next64 d) (\<lambda>(t, _). Inr (at\<lparr>AllStakingAccounts := m, StakeChangedAt := t\<rparr>))
         else Inr (at\<lparr>AllStakingAccounts := m\<rparr>))))"

subsection \<open>Ranking by a strict linear order\<close>

text \<open>Candidates with pairwise different keys: the position of a candidate is the number of
  candidates with a smaller key, and at most \<open>k\<close> candidates have a position below \<open>k\<close>.\<close>

locale ranking =
  fixes rkey :: "nat \<Rightarrow> 'k::linorder" and n :: nat
  assumes rkey_inj: "i < n \<Longrightarrow> j < n \<Longrightarrow> rkey i = rkey j \<Longrightarrow> i = j"
begin

definition pos :: "nat \<Rightarrow> nat" where
  "pos i = card {j. j < n \<and> rkey j < rkey i}"

lemma pos_mono: "i < n \<Longrightarrow> rkey i < rkey j \<Longrightarrow> pos i < pos j"
  unfolding pos_def by (rule psubset_card_mono) auto

lemma pos_inj: "inj_on pos {i. i < n}"
  using pos_mono rkey_inj by (auto simp: inj_on_def) (metis less_irrefl linorder_cases)

lemma few_below: "card {i. i < n \<and> pos i < k} \<le> k"
proof -
  have "card {i. i < n \<and> pos i < k} = card (pos ` {i. i < n \<and> pos i < k})"
    using pos_inj by (intro card_image [symmetric]) (auto simp: inj_on_def)
  also have "\<dots> \<le> card {..<k}"
    by (intro card_mono) auto
  finally show ?thesis by simp
qed

end

definition shard_key :: "StakingState \<Rightarrow> (nat \<Rightarrow> int64) \<Rightarrow> nat \<Rightarrow> int \<times> int \<times> nat" where
  "shard_key s totals d = (- sint (totals d), sint (StakeChangedAt (s d)), d)"

lemma ahead_iff: "ahead s totals d j \<longleftrightarrow> shard_key s totals j < shard_key s totals d"
  by (auto simp: ahead_def Let_def shard_key_def sint_inject less_prod_def)

interpretation shards: ranking "shard_key s totals" NumShards for s totals
  by unfold_locales (simp add: shard_key_def)

lemma stake_rank_pos:
  "stake_rank s totals d = 1 + shards.pos s totals d"
proof -
  have "(j \<noteq> d \<and> ahead s totals d j) = (shard_key s totals j < shard_key s totals d)" for j
    by (auto simp: ahead_iff)
  then show ?thesis
    by (simp add: stake_rank_def shards.pos_def length_filter_conv_card cong: conj_cong)
qed

subsection \<open>The selected operator\<close>

definition cand_key :: "candidate \<Rightarrow> int \<times> int \<times> bytes" where
  "cand_key = (\<lambda>(stk, since, addr). (- sint stk, sint since, addr))"

lemma better_iff: "better c sel \<longleftrightarrow> cand_key c < cand_key sel"
  by (cases c; cases sel) (auto simp: better_def cand_key_def sint_inject less_prod_def)

lemma cand_key_inject: "cand_key a = cand_key b \<longleftrightarrow> a = b"
  by (cases a; cases b) (auto simp: cand_key_def sint_inject)

lemma foldl_keep_better_key: "cand_key (foldl keep_better z cs) = Min (cand_key ` set (z # cs))"
proof (induction cs arbitrary: z)
  case (Cons c cs)
  have "cand_key (keep_better z c) = min (cand_key z) (cand_key c)"
    by (auto simp: keep_better_def better_iff min_def)
  then have "cand_key (foldl keep_better z (c # cs)) = Min (insert (min (cand_key z) (cand_key c)) (cand_key ` set cs))"
    using Cons.IH [of "keep_better z c"] by simp
  also have "\<dots> = Min (cand_key ` set (z # c # cs))"
    by (cases "cs = []") (simp_all add: min.assoc)
  finally show ?case .
qed simp

lemma foldl_keep_better_set:
  assumes "set cs = set cs'"
  shows "foldl keep_better z cs = foldl keep_better z cs'"
proof -
  have "cand_key (foldl keep_better z cs) = cand_key (foldl keep_better z cs')"
    unfolding foldl_keep_better_key using assms by simp
  then show ?thesis
    by (simp add: cand_key_inject)
qed

text \<open>A candidate with a stake beats the empty start of both selections.\<close>

lemma foldl_keep_better_start:
  assumes "\<forall>c \<in> set cs. cand_key c < cand_key z \<and> cand_key c < cand_key z'" "cs \<noteq> []"
  shows "foldl keep_better z cs = foldl keep_better z' cs"
proof -
  have start: "Min (insert (cand_key y) (cand_key ` set cs)) = Min (cand_key ` set cs)"
    if "\<forall>c \<in> set cs. cand_key c < cand_key y" for y
  proof -
    obtain c where "c \<in> set cs"
      using assms(2) by (cases cs) auto
    then have "Min (cand_key ` set cs) < cand_key y"
      using that by (meson List.finite_set Min_le finite_imageI image_eqI order.strict_trans1)
    then show ?thesis
      using assms(2) by (subst Min_insert) auto
  qed
  have "cand_key (foldl keep_better z cs) = cand_key (foldl keep_better z' cs)"
    unfolding foldl_keep_better_key using start [of z] start [of z'] assms(1) by simp
  then show ?thesis
    by (simp add: cand_key_inject)
qed

subsection \<open>Totals\<close>

lemma foldl_add_msum: "foldl (\<lambda>t (k, v). t + f v) z m = z + msum f m"
  by (induction m arbitrary: z) (auto simp: algebra_simps)

lemma delegatedTotals_msum: "delegatedTotalsLocked s d = msum StakedBalance (AllStakingAccounts (s d))"
  by (simp add: delegatedTotalsLocked_def foldl_add_msum)

lemma GetStakedInAll_total: "GetStakedInAllDelegatedAccounts s = total_staked s"
proof -
  have "foldl (\<lambda>t d. t + g d) z ds = z + sum_list (map g ds)" for g :: "nat \<Rightarrow> int64" and z ds
    by (induction ds arbitrary: z) (simp_all add: algebra_simps)
  then show ?thesis
    by (simp add: GetStakedInAllDelegatedAccounts_def foldl_add_msum total_staked_def)
qed

subsection \<open>Eligibility does not depend on the order of iteration\<close>

lemma candidates_set:
  assumes "set m = set m'"
  shows "set (candidates m) = set (candidates m')"
  using assms by (simp add: candidates_def)

definition same_shards :: "StakingState \<Rightarrow> StakingState \<Rightarrow> bool" where
  "same_shards s s' \<longleftrightarrow> (\<forall>d. wf_map (AllStakingAccounts (s d)) \<and> wf_map (AllStakingAccounts (s' d)) \<and>
     map_of (AllStakingAccounts (s d)) = map_of (AllStakingAccounts (s' d)) \<and>
     StakeChangedAt (s d) = StakeChangedAt (s' d))"

lemma same_shards_mset:
  "same_shards s s' \<Longrightarrow> mset (AllStakingAccounts (s d)) = mset (AllStakingAccounts (s' d))"
  by (simp add: same_shards_def wf_map_mset_eq)

lemma same_shards_totals: "same_shards s s' \<Longrightarrow> delegatedTotalsLocked s = delegatedTotalsLocked s'"
  by (rule ext) (simp add: delegatedTotals_msum msum_perm [OF same_shards_mset])

lemma eligibleOperator_same:
  assumes "same_shards s s'"
  shows "eligibleOperatorLocked s totals d = eligibleOperatorLocked s' totals d"
proof -
  have "foldl keep_better z (candidates (AllStakingAccounts (s d)))
      = foldl keep_better z (candidates (AllStakingAccounts (s' d)))" for z
    using same_shards_mset [OF assms]
    by (intro foldl_keep_better_set candidates_set) (rule mset_eq_setD)
  moreover have "stake_rank s totals d = stake_rank s' totals d"
    using assms by (simp add: stake_rank_def ahead_def same_shards_def)
  ultimately show ?thesis
    by (simp add: eligibleOperatorLocked_def split: prod.split)
qed

subsection \<open>The two selections agree\<close>

text \<open>Both loops select the same operator when every operational account of the shard has a
  stake and is stored under its own address.\<close>

lemma selections_agree:
  assumes "\<forall>(k, sa) \<in> set m. OperationalAccount sa \<longrightarrow> 0 < sint (StakedBalance sa) \<and> sa_Address sa = k"
    and "\<exists>(k, sa) \<in> set m. OperationalAccount sa"
  shows "foldl keep_better (-1, 0, replicate AddressLength 0) (candidates m) =
    foldl keep_better (0, 0, replicate AddressLength 0)
           (map (\<lambda>(_, sa). (StakedBalance sa, OperationalSince sa, sa_Address sa))
             (filter (\<lambda>(_, sa). OperationalAccount sa) m))"
proof -
  have "map (\<lambda>(_, sa). (StakedBalance sa, OperationalSince sa, sa_Address sa))
             (filter (\<lambda>(_, sa). OperationalAccount sa) m) = candidates m"
    unfolding candidates_def using assms(1) by (intro map_cong) auto
  moreover have "candidates m \<noteq> []"
    using assms(2) by (auto simp: candidates_def filter_empty_conv)
  moreover have "\<forall>c \<in> set (candidates m). cand_key c < cand_key (-1, 0, replicate 20 0) \<and>
      cand_key c < cand_key (0, 0, replicate 20 0)"
    using assms(1) by (auto simp: candidates_def cand_key_def less_prod_def)
  ultimately show ?thesis
    by (simp add: foldl_keep_better_start)
qed

subsection \<open>Snapshot of a shard\<close>

definition wf_shard :: "StakingAccountsType \<Rightarrow> bool" where
  "wf_shard at \<longleftrightarrow> wf_map (AllStakingAccounts at) \<and> length (AllStakingAccounts at) < 2 ^ 63 \<and>
     (\<forall>(k, sa) \<in> set (AllStakingAccounts at). length k = AddressLength \<and> wf_StakingAccount sa \<and>
        length (StakingAccount_Marshal sa) < 2 ^ 32)"

definition sort_entry :: "StakingAccount \<Rightarrow> StakingAccount" where
  "sort_entry sa = sa\<lparr>StakingDetails := sorted_details (StakingDetails sa)\<rparr>"

lemma BytesToLen_parts:
  assumes "length b < 2 ^ 32"
  shows "unat (get_be (take 4 (BytesToLenAndBytes b @ r)) :: int32) = length b"
    "drop 4 (BytesToLenAndBytes b @ r) = b @ r"
proof -
  show "unat (get_be (take 4 (BytesToLenAndBytes b @ r)) :: int32) = length b"
    using assms by (simp add: BytesToLenAndBytes_def unsigned_of_nat take_bit_nat_eq_self)
  show "drop 4 (BytesToLenAndBytes b @ r) = b @ r"
    by (simp add: BytesToLenAndBytes_def)
qed

lemma readStakingAccounts_step:
  assumes "length k = AddressLength" "wf_StakingAccount sa" "length (StakingAccount_Marshal sa) < 2 ^ 32"
  shows "readStakingAccounts (Suc n) m (k @ BytesToLenAndBytes (StakingAccount_Marshal sa) @ d)
    = readStakingAccounts n (mput k (sort_entry sa) m) d"
proof -
  define e where "e = BytesToLenAndBytes (StakingAccount_Marshal sa) @ d"
  have "unat (get_be (take 4 e) :: int32) = length (StakingAccount_Marshal sa)"
      "drop 4 e = StakingAccount_Marshal sa @ d" "\<not> length e < 4" "length e - 4 = length (StakingAccount_Marshal sa) + length d"
    using BytesToLen_parts [OF assms(3), of d] by (simp_all add: e_def)
  then show ?thesis
    using assms(1,2) unfolding e_def [symmetric]
    by (simp add: Let_def StakingAccount_Unmarshal_Marshal sort_entry_def)
qed

lemma readStakingAccounts_ok:
  assumes "wf_map (m @ xs)"
    "\<forall>(k, sa) \<in> set xs. length k = AddressLength \<and> wf_StakingAccount sa \<and> length (StakingAccount_Marshal sa) < 2 ^ 32"
  shows "readStakingAccounts (length xs) m
      (concat (map (\<lambda>(address, acc). address @ BytesToLenAndBytes (StakingAccount_Marshal acc)) xs) @ r)
    = Inr (m @ map (\<lambda>(k, sa). (k, sort_entry sa)) xs, r)"
  using assms
proof (induction xs arbitrary: m)
  case Nil
  then show ?case by simp
next
  case (Cons kv xs)
  obtain k sa where kv: "kv = (k, sa)" by (cases kv)
  let ?enc = "\<lambda>xs. concat (map (\<lambda>(address, acc). address @ BytesToLenAndBytes (StakingAccount_Marshal acc)) xs)"
  define d where "d = ?enc xs @ r"
  have sa: "length k = 20" "wf_StakingAccount sa" "length (StakingAccount_Marshal sa) < 2 ^ 32"
    using Cons.prems(2) kv by auto
  have eq: "?enc (kv # xs) @ r = k @ BytesToLenAndBytes (StakingAccount_Marshal sa) @ d"
    by (simp add: kv d_def)
  have m: "mput k (sort_entry sa) m = m @ [(k, sort_entry sa)]"
    by (rule mput_append) (use Cons.prems(1) kv in auto)
  have "readStakingAccounts (length xs) (m @ [(k, sort_entry sa)]) d
      = Inr ((m @ [(k, sort_entry sa)]) @ map (\<lambda>(k, sa). (k, sort_entry sa)) xs, r)"
    unfolding d_def by (rule Cons.IH) (use Cons.prems kv in auto)
  then show ?case
    unfolding eq by (simp add: kv m readStakingAccounts_step [OF sa] del: readStakingAccounts.simps)
qed

lemma length_marshal_shard:
  "\<forall>(k, sa) \<in> set xs. length k = AddressLength \<Longrightarrow>
   20 * length xs \<le> length (concat (map (\<lambda>(address, acc). address @ BytesToLenAndBytes (StakingAccount_Marshal acc)) xs))"
  by (induction xs) auto

lemma StakingAccountsType_Unmarshal_parts:
  assumes "20 * n \<le> length A" "n < 2 ^ 63" "readStakingAccounts n [] (A @ GetByteInt64 t) = Inr (m, GetByteInt64 t)"
  shows "StakingAccountsType_Unmarshal at (GetByteInt64 (word_of_nat n) @ A @ GetByteInt64 t)
    = Inr (at\<lparr>AllStakingAccounts := m, StakeChangedAt := t\<rparr>)"
proof -
  have "int n \<le> (int (length A) + 8) div 20"
    using assms(1) by linarith
  then show ?thesis
    using assms(2,3) by (simp add: StakingAccountsType_Unmarshal_def not_less)
qed

lemma StakingAccountsType_Unmarshal_Marshal [codec_simps]:
  assumes "wf_shard at"
  shows "StakingAccountsType_Unmarshal zero_StakingAccountsType (StakingAccountsType_Marshal at) =
    Inr (at\<lparr>AllStakingAccounts := map (\<lambda>(k, sa). (k, sort_entry sa)) (AllStakingAccounts at)\<rparr>)"
proof -
  let ?A = "concat (map (\<lambda>(address, acc). address @ BytesToLenAndBytes (StakingAccount_Marshal acc)) (AllStakingAccounts at))"
  have wf: "wf_map (AllStakingAccounts at)" "length (AllStakingAccounts at) < 2 ^ 63"
     and accs: "\<forall>(k, sa) \<in> set (AllStakingAccounts at). length k = AddressLength \<and> wf_StakingAccount sa \<and>
        length (StakingAccount_Marshal sa) < 2 ^ 32"
    using assms by (simp_all add: wf_shard_def)
  have "20 * length (AllStakingAccounts at) \<le> length ?A"
    by (rule length_marshal_shard) (use accs in auto)
  moreover have "readStakingAccounts (length (AllStakingAccounts at)) [] (?A @ GetByteInt64 (StakeChangedAt at))
     = Inr (map (\<lambda>(k, sa). (k, sort_entry sa)) (AllStakingAccounts at), GetByteInt64 (StakeChangedAt at))"
    using readStakingAccounts_ok [of "[]" "AllStakingAccounts at"] wf(1) accs by simp
  ultimately show ?thesis
    unfolding StakingAccountsType_Marshal_def using wf(2)
    by (cases at) (subst StakingAccountsType_Unmarshal_parts, simp_all add: zero_StakingAccountsType_def)
qed

lemma no_panic_readStakingAccounts: "no_panic (readStakingAccounts n m d)"
  by (induction n arbitrary: m d)
    (auto simp: Let_def intro!: no_panic_bindR no_panic_StakingAccount_Unmarshal)

lemma no_panic_StakingAccountsType_Unmarshal: "no_panic (StakingAccountsType_Unmarshal at d)"
  unfolding StakingAccountsType_Unmarshal_def
  by (auto intro!: no_panic_bindR no_panic_next64 no_panic_readStakingAccounts split: prod.splits)


subsection \<open>Properties of the delegated accounts\<close>

lemma eligible_card:
  "card {d. d < NumShards \<and> snd (eligibleOperatorLocked s totals d)} \<le> MaxActiveStakingNodes"
proof -
  have "snd (eligibleOperatorLocked s totals d) \<Longrightarrow> shards.pos s totals d < 128" for d
    using stake_rank_pos [of s totals d]
    by (auto simp: eligibleOperatorLocked_def Let_def split: prod.splits if_splits)
  then have "{d. d < 256 \<and> snd (eligibleOperatorLocked s totals d)} \<subseteq> {d. d < 256 \<and> shards.pos s totals d < 128}"
    by auto
  then have "card {d. d < 256 \<and> snd (eligibleOperatorLocked s totals d)} \<le> card {d. d < 256 \<and> shards.pos s totals d < 128}"
    by (rule card_mono [rotated]) simp
  also have "\<dots> \<le> 128"
    by (rule shards.few_below)
  finally show ?thesis .
qed

text \<open>C24: At most 128 delegated accounts are eligible to produce blocks and to vote, whatever the stakes
  are: ties of the totals are broken by the time of the last change and then by the index, so the
  ranks of two accounts never coincide.\<close>

theorem at_most_128_eligible:
  "card {d. IsEligibleDelegatedAccount s d} \<le> MaxActiveStakingNodes"
proof -
  let ?A = "{d. d < 256 \<and> snd (eligibleOperatorLocked s (delegatedTotalsLocked s) d)}"
  have "{d. IsEligibleDelegatedAccount s d} \<subseteq> int ` ?A"
  proof
    fix d assume "d \<in> {d. IsEligibleDelegatedAccount s d}"
    then have "d = int (nat d)" "nat d \<in> ?A"
      by (auto simp: IsEligibleDelegatedAccount_def split: if_splits)
    then show "d \<in> int ` ?A"
      by blast
  qed
  then have "card {d. IsEligibleDelegatedAccount s d} \<le> card (int ` ?A)"
    by (rule card_mono [rotated]) simp
  also have "\<dots> \<le> card ?A"
    by (rule card_image_le) simp
  finally show ?thesis
    using eligible_card [of s "delegatedTotalsLocked s"] by linarith
qed

text \<open>C25: Who may produce a block does not depend on the iteration order of the Go maps: two nodes whose
  staking maps hold the same entries agree on every eligible delegated account, on its operator and
  on the total stake of the eligible accounts.\<close>

theorem eligibility_order_independent:
  assumes "same_shards s s'"
  shows "IsTop128StakingNode s d operator = IsTop128StakingNode s' d operator \<and>
    IsEligibleDelegatedAccount s d = IsEligibleDelegatedAccount s' d \<and>
    GetStakedInEligibleDelegatedAccounts s = GetStakedInEligibleDelegatedAccounts s'"
  unfolding IsTop128StakingNode_def IsEligibleDelegatedAccount_def GetStakedInEligibleDelegatedAccounts_def
    same_shards_totals [OF assms] eligibleOperator_same [OF assms] by simp

definition sample_shards :: "(bytes \<times> StakingAccount) list \<Rightarrow> StakingState" where
  "sample_shards m = (\<lambda>d. if d = 3 then \<lparr>AllStakingAccounts = m, StakeChangedAt = 5\<rparr> else zero_StakingAccountsType)"

theorem eligibility_order_independent_witness:
  "let a = (replicate 20 1, zero_StakingAccount\<lparr>StakedBalance := 200000000000000, OperationalAccount := True\<rparr>);
       b = (replicate 20 2, zero_StakingAccount\<lparr>StakedBalance := 300000000000000, OperationalAccount := True\<rparr>)
   in IsTop128StakingNode (sample_shards [a, b]) 3 \<lparr>addr_ByteValue = replicate 20 2, addr_Primary = True\<rparr> =
      IsTop128StakingNode (sample_shards [b, a]) 3 \<lparr>addr_ByteValue = replicate 20 2, addr_Primary = True\<rparr>"
proof -
  have ne: "replicate 20 (1 :: byte) \<noteq> replicate 20 2"
    by simp
  have "same_shards (sample_shards [(replicate 20 1, x), (replicate 20 2, y)])
      (sample_shards [(replicate 20 2, y), (replicate 20 1, x)])" for x y
    using ne by (simp add: same_shards_def sample_shards_def fun_upd_twist zero_StakingAccountsType_def)
  from eligibility_order_independent [OF this] show ?thesis
    by (simp add: Let_def)
qed

text \<open>The snapshot of a shard can be read back: the accounts are the same, in the same order, up to
  the order of the details inside an account, which are written sorted by height.\<close>

theorem shard_snapshot_round_trip:
  assumes "wf_shard at"
  shows "StakingAccountsType_Unmarshal zero_StakingAccountsType (StakingAccountsType_Marshal at) =
      Inr (at\<lparr>AllStakingAccounts := map (\<lambda>(k, sa). (k, sort_entry sa)) (AllStakingAccounts at)\<rparr>) \<and>
    (\<forall>(k, sa) \<in> set (AllStakingAccounts at). map_of (StakingDetails (sort_entry sa)) = map_of (StakingDetails sa))"
proof -
  have "map_of (StakingDetails (sort_entry sa)) = map_of (StakingDetails sa)" if "(k, sa) \<in> set (AllStakingAccounts at)" for k sa
    using that assms sorted_details_facts(4) [of "StakingDetails sa"]
    by (fastforce simp: sort_entry_def wf_shard_def wf_StakingAccount_def)
  then show ?thesis
    using StakingAccountsType_Unmarshal_Marshal [OF assms] by blast
qed

theorem shard_snapshot_round_trip_witness:
  "StakingAccountsType_Unmarshal zero_StakingAccountsType (StakingAccountsType_Marshal
     \<lparr>AllStakingAccounts = [(replicate 20 1, zero_StakingAccount\<lparr>StakedBalance := 2, StakingDetails := [(9, []), (4, [])]\<rparr>)], StakeChangedAt = 5\<rparr>) =
   Inr \<lparr>AllStakingAccounts = [(replicate 20 1, sort_entry (zero_StakingAccount\<lparr>StakedBalance := 2, StakingDetails := [(9, []), (4, [])]\<rparr>))], StakeChangedAt = 5\<rparr>"
proof -
  let ?at = "\<lparr>AllStakingAccounts = [(replicate 20 1, zero_StakingAccount\<lparr>StakedBalance := 2, StakingDetails := [(9, []), (4, [])]\<rparr>)], StakeChangedAt = 5\<rparr>"
  have "wf_shard ?at"
    by (simp add: wf_shard_def wf_StakingAccount_def wf_locks_def zero_StakingAccount_def StakingAccount_Marshal_def
        sorted_details_facts(3) locks_def sorted_details_def marshal_details_def)
  from shard_snapshot_round_trip [OF this] show ?thesis
    by simp
qed

end
