(* ===== verification/Recovery_Tx.thy ===== *)
theory Recovery_Tx
  imports Transaction
begin

text \<open>
  The transactions of hash-only key recovery (\<open>transactionsDefinition/recovery.go\<close>): which transactions
  they are, the data they carry and how it is read back.
\<close>

abbreviation (input) RecoveryBindAddress :: Address where "RecoveryBindAddress \<equiv> recoveryAddress CHR ''B''"
abbreviation (input) RecoveryRevealAddress :: Address where "RecoveryRevealAddress \<equiv> recoveryAddress CHR ''R''"
abbreviation (input) RecoveryBindOptDataLength :: nat where "RecoveryBindOptDataLength \<equiv> AddressLength + 32 + 32"
abbreviation (input) RecoveryRevealOptDataLength :: nat where "RecoveryRevealOptDataLength \<equiv> RecoverySecretLength + AddressLength"

definition noPolicyFields :: "Transaction \<Rightarrow> bool" where
  "noPolicyFields tx \<longleftrightarrow>
    (let d = tx_TxData tx in
     Amount d = 0 \<and> td_LockedAmount d = 0 \<and> EscrowTransactionsDelay d = 0 \<and> td_MultiSignNumber d = 0 \<and>
     td_MultiSignAddresses d = [] \<and> MultiSignTx (tx_TxParam tx) = replicate HashLength 0)"

definition IsCommitmentRegistration :: "Transaction \<Rightarrow> bool" where
  "IsCommitmentRegistration tx \<longleftrightarrow>
    (let r = Recipient (tx_TxData tx); n = length (OptData (tx_TxData tx)) in
     if length (pk_ByteValue (Pubkey (tx_TxData tx))) = 0 \<or> \<not> noPolicyFields tx then False
     else if n \<noteq> 0 \<and> n \<noteq> AddressLength then False
     else if addr_ByteValue r = addr_ByteValue (Sender (tx_TxParam tx)) \<or> IsRecoveryAddress r then False
     else if addr_ByteValue r = replicate AddressLength 0 then False
     else case IntDelegatedAccountFromAddress r of Inl _ \<Rightarrow> True | Inr _ \<Rightarrow> False)"

definition CommitmentValues :: "Transaction \<Rightarrow> bytes \<times> bytes" where
  "CommitmentValues tx =
    (addr_ByteValue (Recipient (tx_TxData tx)),
     if length (OptData (tx_TxData tx)) = AddressLength then OptData (tx_TxData tx) else replicate AddressLength 0)"

definition IsRecoveryBind :: "Transaction \<Rightarrow> bool" where
  "IsRecoveryBind tx \<longleftrightarrow> addr_ByteValue (Recipient (tx_TxData tx)) = addr_ByteValue RecoveryBindAddress"

definition IsRecoveryReveal :: "Transaction \<Rightarrow> bool" where
  "IsRecoveryReveal tx \<longleftrightarrow> addr_ByteValue (Recipient (tx_TxData tx)) = addr_ByteValue RecoveryRevealAddress"

definition IsAddressReveal :: "Transaction \<Rightarrow> bool" where
  "IsAddressReveal tx \<longleftrightarrow> IsRecoveryReveal tx \<and> length (OptData (tx_TxData tx)) \<noteq> RecoveryRevealOptDataLength"

definition BuildRecoveryBindOptData :: "Address \<Rightarrow> bytes \<Rightarrow> bytes \<Rightarrow> bytes" where
  "BuildRecoveryBindOptData ident tag payload = addr_ByteValue ident @ tag @ payload"

definition ParseRecoveryBind :: "bytes \<Rightarrow> (Address \<times> bytes \<times> bytes) res" where
  "ParseRecoveryBind opt =
    (if length opt \<noteq> RecoveryBindOptDataLength then Inl (Errorf ''recovery bind data must be 84 bytes'')
     else bindR (Address_Init zero_Address (take AddressLength opt)) (\<lambda>ident.
       Inr (ident, take 32 (drop AddressLength opt), drop (AddressLength + 32) opt)))"

definition BuildRecoveryRevealOptData :: "bytes \<Rightarrow> Address \<Rightarrow> bytes" where
  "BuildRecoveryRevealOptData secret nxt = secret @ addr_ByteValue nxt"

definition ParseRecoveryReveal :: "bytes \<Rightarrow> (bytes \<times> Address) res" where
  "ParseRecoveryReveal opt =
    (if length opt \<noteq> RecoveryRevealOptDataLength then Inl (Errorf ''recovery reveal data must be 52 bytes'')
     else bindR (Address_Init zero_Address (drop RecoverySecretLength opt)) (\<lambda>nxt.
       Inr (take RecoverySecretLength opt, nxt)))"

text \<open>The data of a reveal that opens an account which never registered a key; the scheme's name is kept
  as its bytes.\<close>

record AddressReveal =
  ar_Next :: Address
  ar_Spare :: Address
  OldScheme :: bytes
  OldPub :: bytes
  OldSig :: bytes

definition BuildAddressRevealOptData :: "AddressReveal \<Rightarrow> bytes" where
  "BuildAddressRevealOptData r =
     addr_ByteValue (ar_Next r) @ addr_ByteValue (ar_Spare r) @ BytesToLenAndBytes (OldScheme r) @
     BytesToLenAndBytes (OldPub r) @ BytesToLenAndBytes (OldSig r)"

definition ParseAddressReveal :: "bytes \<Rightarrow> AddressReveal res" where
  "ParseAddressReveal opt =
    (if length opt \<le> 2 * AddressLength then Inl (Errorf ''address reveal data too short'')
     else bindR (Address_Init zero_Address (take AddressLength opt)) (\<lambda>nxt.
       bindR (Address_Init zero_Address (take AddressLength (drop AddressLength opt))) (\<lambda>spare.
       bindR (BytesWithLenToBytes (drop (2 * AddressLength) opt)) (\<lambda>(scheme, rest).
       bindR (BytesWithLenToBytes rest) (\<lambda>(pub, rest).
       bindR (BytesWithLenToBytes rest) (\<lambda>(sig, rest).
         if length rest \<noteq> 0 then Inl (Errorf ''address reveal data has trailing bytes'')
         else Inr \<lparr>ar_Next = nxt, ar_Spare = spare, OldScheme = scheme, OldPub = pub, OldSig = sig\<rparr>))))))"

definition verifyRecoveryBindShape :: "Transaction \<Rightarrow> err option" where
  "verifyRecoveryBindShape tx =
    (if \<not> noPolicyFields tx \<or> length (pk_ByteValue (Pubkey (tx_TxData tx))) \<noteq> 0
     then Some (Errorf ''recovery bind must carry nothing but its data'')
     else case ParseRecoveryBind (OptData (tx_TxData tx)) of
         Inl e \<Rightarrow> Some e
       | Inr (ident, _, _) \<Rightarrow>
           if addr_ByteValue ident = replicate AddressLength 0 then Some (Errorf ''recovery bind names no identity'') else None)"

end
