(* ===== verification/Ledger.thy ===== *)
theory Ledger
  imports Staking_Shards Recovery_Tx Keys
begin

text \<open>
  Applying transactions to the ledger: \<open>blocks/processTransaction.go\<close>, \<open>blocks/blockAccountState.go\<close>,
  \<open>blocks/recovery.go\<close> and the routing test \<open>isContractCallTx\<close> of \<open>blocks/evaluate.go\<close>.

  The ledger is the accounts, the staking accounts and the pools with the database, which the package
  keeps in global variables. A procedure that returns an error is a \<open>Ledger cmd\<close>: it leaves the state as
  the code leaves it at that return. Whether writes to the history index succeed is the argument \<open>ok\<close>
  (a failure is only logged), and \<open>now\<close> is the clock that reward withdrawals are stamped with.
\<close>

record Ledger =
  lg_Accounts :: AccountsType
  lg_Staking :: StakingState
  lg_Pools :: PoolState

definition on_accounts :: "AccountsType cmd \<Rightarrow> Ledger cmd" where
  "on_accounts f l = (let (e, at) = f (lg_Accounts l) in (e, l\<lparr>lg_Accounts := at\<rparr>))"

definition on_staking :: "StakingState cmd \<Rightarrow> Ledger cmd" where
  "on_staking f l = (let (e, s) = f (lg_Staking l) in (e, l\<lparr>lg_Staking := s\<rparr>))"

definition on_pools :: "(PoolState \<Rightarrow> PoolState) \<Rightarrow> Ledger cmd" where
  "on_pools f l = (None, l\<lparr>lg_Pools := f (lg_Pools l)\<rparr>)"

fun steps :: "'s cmd list \<Rightarrow> 's cmd" where
  "steps [] s = (None, s)"
| "steps (c # cs) s = then_ok c (steps cs) s"

abbreviation (input) ZerosHash :: bytes where "ZerosHash \<equiv> replicate HashLength 0"
abbreviation (input) VoidedTxDBPrefix :: bytes where "VoidedTxDBPrefix \<equiv> string_bytes ''CX''"
abbreviation (input) VoidedCancelled :: byte where "VoidedCancelled \<equiv> 0"
abbreviation (input) VoidedExpired :: byte where "VoidedExpired \<equiv> 1"

subsection \<open>Balances\<close>

definition AddBalance :: "bytes \<Rightarrow> int64 \<Rightarrow> AccountsType cmd" where
  "AddBalance address addedAmount at =
    (let (acc, at) = (case map_of (AllAccounts at) address of
           Some acc \<Rightarrow> (acc, at)
         | None \<Rightarrow> let acc = zero_Account\<lparr>acc_Address := address\<rparr> in (acc, put_account address acc at))
     in if sint (acc_Balance acc + addedAmount) < 0 then (Some (Errorf ''Not enough funds on account''), at)
        else (None, put_account address (acc\<lparr>acc_Balance := acc_Balance acc + addedAmount\<rparr>) at))"

definition GetSupplyInAccounts :: "AccountsType \<Rightarrow> int64" where
  "GetSupplyInAccounts at = foldl (\<lambda>sum (_, acc). sum + acc_Balance acc) 0 (AllAccounts at)"

definition GetSupplyInStakedAccounts :: "StakingState \<Rightarrow> int64 \<times> int64" where
  "GetSupplyInStakedAccounts s =
    foldl (\<lambda>sums d. foldl (\<lambda>(sumStaked, sumRewards) (_, acc). (sumStaked + StakedBalance acc, sumRewards + StakingRewards acc))
      sums (AllStakingAccounts (s d))) (0, 0) [0..<NumShards]"

subsection \<open>Checks\<close>

definition markVoided :: "bytes \<Rightarrow> int64 \<Rightarrow> byte \<Rightarrow> PoolState \<Rightarrow> PoolState" where
  "markVoided hash height reason s = s\<lparr>ps_DB := mput (VoidedTxDBPrefix @ hash) (VoidedRecord height reason) (ps_DB s)\<rparr>"

definition validateEscrowCancellation :: "Transaction \<Rightarrow> int64 \<Rightarrow> Ledger \<Rightarrow> Transaction res" where
  "validateEscrowCancellation tx height l =
    (case CancellationTarget tx of
       None \<Rightarrow> Inl (Errorf ''not a cancellation transaction'')
     | Some targetHash \<Rightarrow>
         let senderAddress = GetSenderAddress tx; d = tx_TxData tx in
         if Amount d \<noteq> 0 \<or> addr_ByteValue (Recipient d) \<noteq> addr_ByteValue senderAddress \<or> td_LockedAmount d \<noteq> 0 \<or>
            td_MultiSignNumber d \<noteq> 0 \<or> MultiSignTx (tx_TxParam tx) \<noteq> ZerosHash
         then Inl (Errorf ''cancellation must have zero amount and target the sender account'')
         else case GetTransactionByHash (PoolTxEscrow (lg_Pools l)) targetHash of
             None \<Rightarrow> Inl (Errorf ''escrow transaction is not pending'')
           | Some target \<Rightarrow>
               if addr_ByteValue (GetSenderAddress target) \<noteq> addr_ByteValue senderAddress
               then Inl (Errorf ''only the escrow transaction owner can cancel it'')
               else case GetAccountByAddressBytes (lg_Accounts l) (addr_ByteValue senderAddress) of
                   None \<Rightarrow> Inl (Errorf ''cancellation sender is not an escrow account'')
                 | Some sender \<Rightarrow>
                     if sint (acc_TransactionDelay sender) \<le> 0
                     then Inl (Errorf ''cancellation sender is not an escrow account'')
                     else if sint height \<ge> sint (tx_Height target + acc_TransactionDelay sender)
                     then Inl ErrEscrowAlreadyMatured
                     else Inr target)"

text \<open>One entry of the group against the signers that have not approved yet.\<close>

definition approves :: "Transaction \<Rightarrow> Transaction \<Rightarrow> bool" where
  "approves mainTx t \<longleftrightarrow> Amount (tx_TxData t) = 0 \<and>
     addr_ByteValue (Recipient (tx_TxData mainTx)) = addr_ByteValue (Recipient (tx_TxData t))"

fun count_approvals :: "Transaction \<Rightarrow> bytes list \<Rightarrow> Transaction list \<Rightarrow> nat" where
  "count_approvals mainTx notApprovedYet [] = 0"
| "count_approvals mainTx notApprovedYet (t # ts) =
    (if \<not> approves mainTx t then count_approvals mainTx notApprovedYet ts
     else let sender = addr_ByteValue (Sender (tx_TxParam t)) in
       if sender \<in> set notApprovedYet then Suc (count_approvals mainTx (remove1 sender notApprovedYet) ts)
       else count_approvals mainTx notApprovedYet ts)"

definition CountMultiSignApprovals :: "AccountsType \<Rightarrow> Transaction \<Rightarrow> Transaction list \<Rightarrow> nat \<times> nat" where
  "CountMultiSignApprovals at mainTx txs =
    (case GetAccountByAddressBytes at (addr_ByteValue (Sender (tx_TxParam mainTx))) of
       None \<Rightarrow> (0, 0)
     | Some acc \<Rightarrow> (count_approvals mainTx (acc_MultiSignAddresses acc) txs, unat (acc_MultiSignNumber acc)))"

definition EscrowMaturityHeight :: "AccountsType \<Rightarrow> Transaction \<Rightarrow> int64" where
  "EscrowMaturityHeight at tx =
    (case GetAccountByAddressBytes at (addr_ByteValue (GetSenderAddress tx)) of
       None \<Rightarrow> 0
     | Some acc \<Rightarrow> if sint (acc_TransactionDelay acc) \<le> 0 then 0 else tx_Height tx + acc_TransactionDelay acc)"

definition isContractDeployment :: "Transaction \<Rightarrow> bool" where
  "isContractDeployment tx \<longleftrightarrow> Recipient (tx_TxData tx) = EmptyAddress \<and> length (OptData (tx_TxData tx)) > 0"

definition ValidateContractDeployment :: "AccountsType \<Rightarrow> Transaction \<Rightarrow> err option" where
  "ValidateContractDeployment at tx =
    (if \<not> isContractDeployment tx then None
     else case GetAccountByAddressBytes at (addr_ByteValue (GetSenderAddress tx)) of
         None \<Rightarrow> None
       | Some acc \<Rightarrow>
           if sint (acc_TransactionDelay acc) > 0 \<or> unat (acc_MultiSignNumber acc) > 0
           then Some (Errorf ''escrow and multi-signature accounts cannot deploy smart contracts'') else None)"

definition TransactionHeightInWindow :: "int64 \<Rightarrow> int64 \<Rightarrow> bool" where
  "TransactionHeightInWindow txHeight blockHeight \<longleftrightarrow>
     sint txHeight \<le> sint blockHeight \<and> sint (blockHeight - txHeight) \<le> sint MaxTransactionAgeBlocks"

text \<open>The loop of \<open>FilterUnbuildableTransactions\<close>: the senders of the reveals met so far, and whether a
  transaction is kept and whether it leaves the main pool.\<close>

definition buildable :: "int64 \<Rightarrow> Ledger \<Rightarrow> Transaction \<Rightarrow> bool \<times> bool" where
  "buildable height l tx =
    (if \<not> TransactionHeightInWindow (tx_Height tx) height then (False, sint (tx_Height tx) < sint height)
     else if ValidateContractDeployment (lg_Accounts l) tx \<noteq> None then (False, True)
     else if CancellationTarget tx = None then (True, False)
     else case validateEscrowCancellation tx height l of
         Inr _ \<Rightarrow> (True, False)
       | Inl e \<Rightarrow> (False, e = ErrEscrowAlreadyMatured))"

fun FilterUnbuildableTransactions :: "bytes list \<Rightarrow> Transaction list \<Rightarrow> int64 \<Rightarrow> Ledger \<Rightarrow> Transaction list \<times> Ledger" where
  "FilterUnbuildableTransactions reveals [] height l = ([], l)"
| "FilterUnbuildableTransactions reveals (tx # txs) height l =
    (let s = addr_ByteValue (GetSenderAddress tx) in
     if IsRecoveryReveal tx \<and> s \<in> set reveals then FilterUnbuildableTransactions reveals txs height l
     else
       let reveals = (if IsRecoveryReveal tx then s # reveals else reveals);
           (keep, evict) = buildable height l tx;
           l = (if evict then l\<lparr>lg_Pools := (lg_Pools l)\<lparr>PoolsTx := RemoveTransactionByHash (tx_Hash tx) (PoolsTx (lg_Pools l))\<rparr>\<rparr> else l);
           (kept, l) = FilterUnbuildableTransactions reveals txs height l
       in (if keep then tx # kept else kept, l))"

definition delegated_id :: "Address \<Rightarrow> int" where
  "delegated_id a = (case IntDelegatedAccountFromAddress a of Inl _ \<Rightarrow> -1 | Inr n \<Rightarrow> n)"

definition mustDelegatedAccountID :: "Address \<Rightarrow> int" where
  "mustDelegatedAccountID a = delegated_id a"

text \<open>\<open>blockHeight\<close> is the height of the block whose transactions are checked.\<close>

definition CheckStakingTransaction :: "KeyRegistry \<Rightarrow> Transaction \<Rightarrow> int64 \<Rightarrow> int64 \<Rightarrow> int64 \<Rightarrow> Ledger \<Rightarrow> bool" where
  "CheckStakingTransaction reg tx sumAmount sumFee blockHeight l =
    (case CalcFee tx of
       Inl _ \<Rightarrow> False
     | Inr fee \<Rightarrow>
         let d = tx_TxData tx; amount = Amount d; address = addr_ByteValue (GetSenderAddress tx);
             operational = length (OptData d) > 0; locked = td_LockedAmount d in
         case GetAccountByAddressBytes (lg_Accounts l) address of
           None \<Rightarrow> False
         | Some acc \<Rightarrow>
             if acc_Address acc \<noteq> address \<or> sint (acc_Balance acc) < sint fee \<or> sint (acc_Balance acc) < sint sumFee then False
             else
               let n = (if sint locked > 0 then delegated_id (DelegatedAccountForLocking d) else delegated_id (Recipient d)) in
               if sint locked > 0 \<and> (n \<le> 0 \<or> n \<ge> 256) then False
               else
                 (if n > 0 \<and> n < 256 then
                    \<not> (operational \<and> sint amount > 0 \<and> \<not> HasOperatorKeysAsOf reg (GetSenderAddress tx) (blockHeight - 1)) \<and>
                    (if sint locked > 0 then
                       sint amount > 0 \<and> \<not> (sint amount < sint MinStakingUser \<and> sint amount > 0) \<and> \<not> sint locked < 0 \<and>
                       \<not> sint locked > sint amount \<and> \<not> sint (td_ReleasePerBlock d) < 0 \<and> \<not> sint (td_ReleasePerBlock d) > sint locked
                     else
                       let accStaking = GetStakingAccountByAddressBytes (lg_Staking l) address n in
                       \<not> (sa_DelegatedAccount accStaking \<noteq> addr_ByteValue (Recipient d) \<and> sint amount \<le> 0) \<and>
                       \<not> (sint amount < sint MinStakingUser \<and> sint amount > 0) \<and>
                       \<not> (sint (StakedBalance accStaking + amount) < sint MinStakingUser \<and> StakedBalance accStaking + amount \<noteq> 0) \<and>
                       \<not> (sint sumAmount < sint MinStakingUser \<and> sint sumAmount > 0) \<and>
                       \<not> (sint (StakedBalance accStaking + sumAmount) < sint MinStakingUser \<and> StakedBalance accStaking + sumAmount \<noteq> 0))
                  else True) \<and>
                 (if n \<ge> 256 \<and> n < 512 then
                    let accStaking = GetStakingAccountByAddressBytes (lg_Staking l) address (n mod 256) in
                    sa_Address accStaking = address \<and> \<not> sint (StakingRewards accStaking + amount) < 0
                  else True))"

definition isContractCallTx :: "Transaction \<Rightarrow> Account \<Rightarrow> bool" where
  "isContractCallTx tx senderAcc =
    (if CancellationTarget tx \<noteq> None then False
     else if length (OptData (tx_TxData tx)) = 0 then False
     else if IsRecoveryAddress (Recipient (tx_TxData tx)) \<or> IsCommitmentRegistration tx then False
     else if (case IntDelegatedAccountFromAddress (Recipient (tx_TxData tx)) of Inl _ \<Rightarrow> False | Inr _ \<Rightarrow> True) then False
     else if unat (acc_MultiSignNumber senderAcc) > 0 then False
     else if sint (acc_TransactionDelay senderAcc) > 0 then False
     else True)"

subsection \<open>Recovery transactions\<close>

definition settleCommitment :: "Transaction \<Rightarrow> int64 \<Rightarrow> Ledger cmd" where
  "settleCommitment tx height =
    (let (spare, recovery) = CommitmentValues tx
     in on_accounts (SetAccountCommitments (addr_ByteValue (GetSenderAddress tx)) spare recovery height))"

definition history_sender :: "bool \<Rightarrow> bytes \<Rightarrow> bytes \<Rightarrow> Ledger \<Rightarrow> Ledger" where
  "history_sender ok address hash l =
    (let (at, db) = AddTransactionsSender ok address hash (lg_Accounts l, ps_DB (lg_Pools l))
     in l\<lparr>lg_Accounts := at, lg_Pools := (lg_Pools l)\<lparr>ps_DB := db\<rparr>\<rparr>)"

definition history_recipient :: "bool \<Rightarrow> bytes \<Rightarrow> bytes \<Rightarrow> Ledger \<Rightarrow> Ledger" where
  "history_recipient ok address hash l =
    (let (at, db) = AddTransactionsRecipient ok address hash (lg_Accounts l, ps_DB (lg_Pools l))
     in l\<lparr>lg_Accounts := at, lg_Pools := (lg_Pools l)\<lparr>ps_DB := db\<rparr>\<rparr>)"

text \<open>\<open>None\<close> is a transaction of another kind, which the caller goes on with.\<close>

definition processRecoveryTransaction :: "Crypto \<Rightarrow> bool \<Rightarrow> Transaction \<Rightarrow> int64 \<Rightarrow> int64 \<Rightarrow> Ledger \<Rightarrow> (err option \<times> Ledger) option" where
  "processRecoveryTransaction cr ok tx height fee l =
    (let sender = GetSenderAddress tx; sb = addr_ByteValue sender; pay = on_accounts (AddBalance sb (- fee)) in
     if IsRecoveryBind tx then Some (
       case ParseRecoveryBind (OptData (tx_TxData tx)) of
         Inl e \<Rightarrow> (Some e, l)
       | Inr (ident, tag, payload) \<Rightarrow>
           let l = history_sender ok sb (tx_Hash tx) l;
               b = \<lparr>rb_Identity = addr_ByteValue ident, rb_Payload = payload, rb_Height = height\<rparr>;
               l = l\<lparr>lg_Accounts := snd (AddRecoveryBind (RecoveryBindKey (cr_H256 cr) ident tag) b (lg_Accounts l))\<rparr>
           in pay l)
     else if IsAddressReveal tx then Some (
       case ParseAddressReveal (OptData (tx_TxData tx)) of
         Inl e \<Rightarrow> (Some e, l)
       | Inr r \<Rightarrow>
           case GetAccountByAddressBytes (lg_Accounts l) sb of
             None \<Rightarrow> (Some (Errorf ''opened before its address reveal applied''), l)
           | Some acc \<Rightarrow>
               if HasCommitments acc then (Some (Errorf ''opened before its address reveal applied''), l)
               else steps [
                 (\<lambda>l. (None, history_sender ok sb (tx_Hash tx) l)),
                 on_accounts (SetAccountCommitments sb (addr_ByteValue (ar_Spare r)) (addr_ByteValue (ar_Next r)) height),
                 on_accounts (\<lambda>at. (None, DeleteRecoveryBind (RecoveryBindKey (cr_H256 cr) sender (RecoveryTag (cr_H256 cr) (OldPub r))) at)),
                 pay] l)
     else if IsRecoveryReveal tx then Some (
       case ParseRecoveryReveal (OptData (tx_TxData tx)) of
         Inl e \<Rightarrow> (Some e, l)
       | Inr (secret, nxt) \<Rightarrow>
           case RecoveryCommitment (cr_H160 cr) secret of
             Inl e \<Rightarrow> (Some e, l)
           | Inr c \<Rightarrow>
               if (case GetAccountByAddressBytes (lg_Accounts l) sb of
                     None \<Rightarrow> True | Some acc \<Rightarrow> addr_ByteValue c \<noteq> EffectiveRecoveryCommit acc height)
               then (Some (Errorf ''recovery commitment changed before its reveal applied''), l)
               else steps [
                 (\<lambda>l. (None, history_sender ok sb (tx_Hash tx) l)),
                 on_accounts (ConsumeAccountRecoveryCommit sb (addr_ByteValue nxt)),
                 on_accounts (\<lambda>at. (None, DeleteRecoveryBind (RecoveryBindKey (cr_H256 cr) sender (RecoveryTag (cr_H256 cr) secret)) at)),
                 pay] l)
     else if IsCommitmentRegistration tx then Some (
       case GetAccountByAddressBytes (lg_Accounts l) sb of
         None \<Rightarrow> (Some (Errorf ''no account for a recovery commitment''), l)
       | Some acc \<Rightarrow>
           steps [
             (\<lambda>l. (None, history_sender ok sb (tx_Hash tx) l)),
             (if sint (acc_TransactionDelay acc) > 0 then on_pools (\<lambda>p. snd (AddEscrowTransaction (tx\<lparr>tx_Height := height\<rparr>) p))
              else if unat (acc_MultiSignNumber acc) > 0 then on_pools (\<lambda>p. snd (AddMultiSignTransaction (tx\<lparr>tx_Height := height\<rparr>) p))
              else settleCommitment tx height),
             pay] l)
     else None)"

subsection \<open>Transactions\<close>

fun init_addresses :: "bytes list \<Rightarrow> Address list res" where
  "init_addresses [] = Inr []"
| "init_addresses (b # bs) = bindR (Address_Init zero_Address b) (\<lambda>a. bindR (init_addresses bs) (\<lambda>as. Inr (a # as)))"

definition ProcessMultiSignAndEscrow :: "Transaction \<Rightarrow> AccountsType cmd" where
  "ProcessMultiSignAndEscrow tx at =
    (let d = tx_TxData tx; escrow = sint (EscrowTransactionsDelay d) > 0; multi = unat (td_MultiSignNumber d) > 0 in
     if escrow \<and> multi then (Some (Errorf ''account cannot be both escrow and multisign''), at)
     else if (escrow \<or> multi) \<and> addr_ByteValue (Recipient d) \<noteq> addr_ByteValue (Sender (tx_TxParam tx))
     then (Some (Errorf ''escrow/multisig policy may only modify the account of the sender''), at)
     else
       let (acc, at) = SetAccountByAddressBytes at (addr_ByteValue (Recipient d)) in
       steps [
         (if escrow then ModifyAccountToEscrow acc (EscrowTransactionsDelay d) else (\<lambda>at. (None, at))),
         (if multi then
            case init_addresses (td_MultiSignAddresses d) of
              Inl e \<Rightarrow> (\<lambda>at. (Some e, at))
            | Inr as \<Rightarrow> ModifyAccountToMultiSign acc (td_MultiSignNumber d) as
          else (\<lambda>at. (None, at)))] at)"

text \<open>The delegated account a transaction is for: the one it locks to, or else its recipient when that is
  one; an error when the one it locks to is not a staking account.\<close>

definition delegated_account :: "Transaction \<Rightarrow> int option res" where
  "delegated_account tx =
    (if sint (td_LockedAmount (tx_TxData tx)) > 0 then
       case IntDelegatedAccountFromAddress (DelegatedAccountForLocking (tx_TxData tx)) of
         Inl _ \<Rightarrow> Inl (Errorf ''DelegatedAccountForLocking must be a delegated account less than 256'')
       | Inr n \<Rightarrow>
           if n \<le> 0 \<or> n \<ge> 256 then Inl (Errorf ''DelegatedAccountForLocking must be a delegated account less than 256'')
           else Inr (Some n)
     else Inr (case IntDelegatedAccountFromAddress (Recipient (tx_TxData tx)) of Inl _ \<Rightarrow> None | Inr n \<Rightarrow> Some n))"

text \<open>The three kinds of delegated transactions and the standard one.\<close>

definition process_staking :: "Transaction \<Rightarrow> int64 \<Rightarrow> int64 \<Rightarrow> int64 \<Rightarrow> int \<Rightarrow> Ledger cmd" where
  "process_staking tx fee height blockTime n =
    (let d = tx_TxData tx; amount = Amount d; operational = length (OptData d) > 0;
         address = addr_ByteValue (GetSenderAddress tx); recipient = addr_ByteValue (Recipient d);
         settle = [on_accounts (AddBalance address (- fee - amount)), on_accounts (ProcessMultiSignAndEscrow tx)] in
     if sint (td_LockedAmount d) > 0 then
       if sint amount \<ge> sint MinStakingUser then
         steps (on_staking (if recipient = address
                  then Stake recipient amount height blockTime n operational (td_LockedAmount d) (td_ReleasePerBlock d)
                  else StakeLockedFor recipient amount height blockTime n (td_LockedAmount d) (td_ReleasePerBlock d)) # settle)
       else (\<lambda>l. (Some (Errorf ''wrong amount in locking: ProcessTransaction''), l))
     else if sint amount \<ge> sint MinStakingUser then
       steps (on_staking (Stake address amount height blockTime n operational 0 0) # settle)
     else if sint amount < 0 then steps (on_staking (Unstake address amount height blockTime n) # settle)
     else (\<lambda>l. (Some (Errorf ''wrong amount in staking/unstaking: ProcessTransaction''), l)))"

definition process_reward :: "int64 \<Rightarrow> Transaction \<Rightarrow> int64 \<Rightarrow> int64 \<Rightarrow> int \<Rightarrow> Ledger cmd" where
  "process_reward now tx fee height n l =
    (let amount = Amount (tx_TxData tx); address = addr_ByteValue (GetSenderAddress tx);
         accStaking = GetStakingAccountByAddressBytes (lg_Staking l) address (n mod 256) in
     if sa_Address accStaking \<noteq> address then (Some (Errorf ''no staking account found in check staking transaction (rewards)''), l)
     else if sint amount > 0 then (None, l)
     else if sint amount < 0 then
       steps [on_staking (WithdrawReward now (sa_Address accStaking) amount height (n mod 256)),
              on_accounts (AddBalance address (- fee - amount))] l
     else (Some (Errorf ''wrong amount in rewarding: ProcessTransaction''), l))"

definition process_transfer :: "Transaction \<Rightarrow> int64 \<Rightarrow> int64 \<Rightarrow> Ledger cmd" where
  "process_transfer tx fee height l =
    (let d = tx_TxData tx; amount = Amount d; address = addr_ByteValue (GetSenderAddress tx);
         single = MultiSignTx (tx_TxParam tx) = ZerosHash; held = tx\<lparr>tx_Height := height\<rparr> in
     case GetAccountByAddressBytes (lg_Accounts l) address of
       None \<Rightarrow> (Some (Errorf ''no account found''), l)
     | Some senderAcc \<Rightarrow>
         let hold_escrow = sint (acc_TransactionDelay senderAcc) > 0 \<and> single;
             hold_multi = \<not> hold_escrow \<and> unat (acc_MultiSignNumber senderAcc) > 0 \<and> single in
         steps [
           (if hold_escrow then on_pools (\<lambda>p. snd (AddEscrowTransaction held p))
            else if hold_multi then on_pools (\<lambda>p. snd (AddMultiSignTransaction held p))
            else steps [
              (if \<not> single then on_pools (\<lambda>p. snd (AddMultiSignTransaction tx p)) else (\<lambda>l. (None, l))),
              (if isContractCallTx tx senderAcc then (\<lambda>l. (None, l))
               else steps [on_accounts (AddBalance address (- amount)), on_accounts (AddBalance (addr_ByteValue (Recipient d)) amount)])]),
           on_accounts (AddBalance address (- fee)),
           on_accounts (ProcessMultiSignAndEscrow (if hold_escrow \<or> hold_multi then held else tx))] l)"

definition process_cancellation :: "Transaction \<Rightarrow> bytes \<Rightarrow> int64 \<Rightarrow> int64 \<Rightarrow> Ledger cmd" where
  "process_cancellation tx targetHash fee height l =
    (case validateEscrowCancellation tx height l of
       Inl e \<Rightarrow> (Some e, l)
     | Inr _ \<Rightarrow>
         steps [
           on_accounts (AddBalance (addr_ByteValue (GetSenderAddress tx)) (- fee)),
           on_pools (RemoveEscrowTransaction targetHash),
           on_pools (\<lambda>p. p\<lparr>PoolTxEscrow := BanTransactionByHash targetHash (PoolTxEscrow p)\<rparr>),
           on_pools (markVoided targetHash height VoidedCancelled)] l)"

definition process_delegated :: "int64 \<Rightarrow> Transaction \<Rightarrow> int64 \<Rightarrow> int64 \<Rightarrow> int64 \<Rightarrow> int \<Rightarrow> Ledger cmd" where
  "process_delegated now tx fee height blockTime n =
    (if n > 0 \<and> n < 256 then process_staking tx fee height blockTime n
     else if n \<ge> 256 \<and> n < 512 then process_reward now tx fee height n
     else if n \<ge> 512 then on_accounts (AddBalance (addr_ByteValue (GetSenderAddress tx)) (- fee))
     else (\<lambda>l. (None, l)))"

definition ProcessTransaction :: "Crypto \<Rightarrow> bool \<Rightarrow> int64 \<Rightarrow> Transaction \<Rightarrow> int64 \<Rightarrow> int64 \<Rightarrow> Ledger cmd" where
  "ProcessTransaction cr ok now tx height blockTime l =
    (case CalcFee tx of
       Inl e \<Rightarrow> (Some e, l)
     | Inr fee \<Rightarrow>
         case processRecoveryTransaction cr ok tx height fee l of
           Some r \<Rightarrow> r
         | None \<Rightarrow>
             let l = history_sender ok (addr_ByteValue (GetSenderAddress tx)) (tx_Hash tx) l;
                 l = history_recipient ok (addr_ByteValue (Recipient (tx_TxData tx))) (tx_Hash tx) l in
             case CancellationTarget tx of
               Some targetHash \<Rightarrow> process_cancellation tx targetHash fee height l
             | None \<Rightarrow>
                 case delegated_account tx of
                   Inl e \<Rightarrow> (Some e, l)
                 | Inr (Some n) \<Rightarrow> process_delegated now tx fee height blockTime n l
                 | Inr None \<Rightarrow> process_transfer tx fee height l)"

subsection \<open>Settlement of held transactions\<close>

definition loadMultiSignMainTx :: "Crypto \<Rightarrow> bytes \<Rightarrow> DB \<Rightarrow> Transaction res \<times> DB" where
  "loadMultiSignMainTx cr hash db =
    (case LoadFromDBPoolTx cr TransactionDBPrefix hash db of
       (Inr t, db) \<Rightarrow> (Inr t, db)
     | (Inl _, db) \<Rightarrow> LoadFromDBPoolTx cr TransactionPoolHashesDBPrefix hash db)"

text \<open>Taking every entry of the group out of the pool.\<close>

definition drop_group :: "Transaction list \<Rightarrow> (bytes \<Rightarrow> PoolState \<Rightarrow> PoolState) \<Rightarrow> PoolState \<Rightarrow> PoolState" where
  "drop_group txs mark p = fold (\<lambda>t p. mark (tx_Hash t) (RemoveMultiSignTransaction (tx_Hash t) p)) txs p"

text \<open>The main transaction from the pool, or recovered from the database into the pool.\<close>

definition find_main :: "Crypto \<Rightarrow> bytes \<Rightarrow> Transaction list \<Rightarrow> PoolState \<Rightarrow> Transaction option \<times> PoolState" where
  "find_main cr hash txs p =
    (case find (\<lambda>t. tx_Hash t = hash) txs of
       Some t \<Rightarrow> (Some t, p)
     | None \<Rightarrow>
         case loadMultiSignMainTx cr hash (ps_DB p) of
           (Inr t, db) \<Rightarrow> (Some t, snd (AddMultiSignTransaction t (p\<lparr>ps_DB := db\<rparr>)))
         | (Inl _, db) \<Rightarrow> (None, p\<lparr>ps_DB := db\<rparr>))"

text \<open>Moving the amount of a settled transaction; the transaction is dropped for good when the sender
  cannot pay.\<close>

definition move_settled :: "Crypto \<Rightarrow> Transaction \<Rightarrow> Ledger cmd" where
  "move_settled cr tx l =
    (case on_accounts (AddBalance (addr_ByteValue (GetSenderAddress tx)) (- Amount (tx_TxData tx))) l of
       (Some e, l) \<Rightarrow> (Some e, l\<lparr>lg_Pools := RemoveBadTransactionByHash cr (tx_Hash tx) (lg_Pools l)\<rparr>)
     | (None, l) \<Rightarrow> on_accounts (AddBalance (addr_ByteValue (Recipient (tx_TxData tx))) (Amount (tx_TxData tx))) l)"

definition settle_multisign :: "Crypto \<Rightarrow> Transaction \<Rightarrow> Account \<Rightarrow> int64 \<Rightarrow> Ledger cmd" where
  "settle_multisign cr mainTx acc height l =
    (case delegated_account mainTx of
       Inl e \<Rightarrow> (Some e, l)
     | Inr (Some _) \<Rightarrow> (None, l)
     | Inr None \<Rightarrow>
         if sint (acc_TransactionDelay acc) > 0 \<and> sint (tx_Height mainTx + acc_TransactionDelay acc) > sint height
         then (Some (Errorf ''transaction should not be executed, should be delayed''), l)
         else steps [
           on_pools (RemoveMultiSignTransaction (tx_Hash mainTx)),
           (if IsCommitmentRegistration mainTx then settleCommitment mainTx height else move_settled cr mainTx)] l)"

definition ProcessTransactionsMultiSign :: "Crypto \<Rightarrow> Transaction \<Rightarrow> int64 \<Rightarrow> Ledger cmd" where
  "ProcessTransactionsMultiSign cr tx height l =
    (let hash = MultiSignTx (tx_TxParam tx) in
     if hash = ZerosHash then (None, l)
     else
       let txs = PeekTransactions (PoolTxMultiSign (lg_Pools l)) MaxTransactionInPool (int64_of_hash hash);
           (main, p) = find_main cr hash txs (lg_Pools l);
           l = l\<lparr>lg_Pools := p\<rparr> in
       case main of
         None \<Rightarrow> (Some (Errorf ''no main transaction in multi signature pool or transaction DBs''),
                   l\<lparr>lg_Pools := drop_group txs (\<lambda>_ p. p) (lg_Pools l)\<rparr>)
       | Some mainTx \<Rightarrow>
           if sint (height - tx_Height mainTx) > sint MaxTransactionInMultiSigPool
           then (Some (Errorf ''main transaction expired in multi signature pool''),
                 l\<lparr>lg_Pools := drop_group txs (\<lambda>h. markVoided h height VoidedExpired) (lg_Pools l)\<rparr>)
           else case GetAccountByAddressBytes (lg_Accounts l) (addr_ByteValue (Sender (tx_TxParam mainTx))) of
               None \<Rightarrow> (Some (Errorf ''no account found: MultiSign''), l)
             | Some acc \<Rightarrow>
                 if length txs < unat (acc_MultiSignNumber acc) then (None, l)
                 else if fst (CountMultiSignApprovals (lg_Accounts l) mainTx txs) < unat (acc_MultiSignNumber acc) then (None, l)
                 else settle_multisign cr mainTx acc height l)"

definition settle_escrow :: "Crypto \<Rightarrow> int64 \<Rightarrow> Transaction \<Rightarrow> Ledger cmd" where
  "settle_escrow cr height tx l =
    (case delegated_account tx of
       Inl e \<Rightarrow> (Some e, l)
     | Inr (Some _) \<Rightarrow> (None, l)
     | Inr None \<Rightarrow>
         let single = MultiSignTx (tx_TxParam tx) = ZerosHash in
         case GetAccountByAddressBytes (lg_Accounts l) (addr_ByteValue (GetSenderAddress tx)) of
           None \<Rightarrow> (Some (Errorf ''no account found: Escrow''), l)
         | Some senderAcc \<Rightarrow>
             if sint (acc_TransactionDelay senderAcc) > 0 \<and> sint (tx_Height tx + acc_TransactionDelay senderAcc) > sint height \<and> single
             then (None, l)
             else if unat (acc_MultiSignNumber senderAcc) > 0 \<and> single then
               on_pools (\<lambda>p. let (added, p) = AddMultiSignTransaction tx p in if added then RemoveEscrowTransaction (tx_Hash tx) p else p) l
             else if IsCommitmentRegistration tx then
               steps [settleCommitment tx height, on_pools (RemoveEscrowTransaction (tx_Hash tx))] l
             else steps [
               (if \<not> single then on_pools (\<lambda>p. snd (AddMultiSignTransaction tx p)) else (\<lambda>l. (None, l))),
               move_settled cr tx,
               on_pools (RemoveEscrowTransaction (tx_Hash tx))] l)"

definition ProcessTransactionsEscrow :: "Crypto \<Rightarrow> int64 \<Rightarrow> Ledger cmd" where
  "ProcessTransactionsEscrow cr height l =
    (let txs = PeekTransactions (PoolTxEscrow (lg_Pools l)) MaxTransactionInPool height
     in steps (map (settle_escrow cr height) txs) l)"

end
