(* ===== verification/Ledger_Supply.thy ===== *)
theory Ledger_Supply
  imports Ledger
begin

text \<open>
  What applying transactions does to the ledger as a whole: the invariant \<open>ledger_ok\<close> (every account under
  its own address with a balance that is not negative, the staking invariant), and the sum of all coins,
  which changes by the fee and by nothing else.

  The accounts are seen through the locale \<open>account_book\<close>, interpreted on \<open>AddBalance\<close>. Effects of commands
  compose by the rules for \<open>changes\<close>.
\<close>

subsection \<open>Commands that change a quantity\<close>

text \<open>\<open>changes I q d c\<close>: the command keeps \<open>I\<close>, and if it succeeds it adds \<open>d\<close> to \<open>q\<close>.\<close>

definition changes :: "('s \<Rightarrow> bool) \<Rightarrow> ('s \<Rightarrow> int64) \<Rightarrow> int64 \<Rightarrow> 's cmd \<Rightarrow> bool" where
  "changes I q d c \<longleftrightarrow> (\<forall>s. I s \<longrightarrow> I (snd (c s)) \<and> (fst (c s) = None \<longrightarrow> q (snd (c s)) = q s + d))"

named_theorems changes_intros

lemma changesD:
  assumes "changes I q d c" "I s"
  shows "I (snd (c s))" "c s = (None, s') \<Longrightarrow> q s' = q s + d" "c s = (r, s') \<Longrightarrow> I s'"
  using assms unfolding changes_def by (metis fst_conv snd_conv)+

lemma changes_skip [changes_intros]: "changes I q 0 (\<lambda>s. (None, s))"
  by (simp add: changes_def)

lemma changes_fail [changes_intros]: "changes I q d (\<lambda>s. (Some e, s))"
  by (simp add: changes_def)

lemma changes_then:
  assumes "changes I q d c" "changes I q e c'"
  shows "changes I q (d + e) (then_ok c c')"
  unfolding changes_def
proof (intro allI impI)
  fix s assume s: "I s"
  obtain r t where t: "c s = (r, t)" by fastforce
  obtain r' u where u: "c' t = (r', u)" by fastforce
  have "I t" using changesD(3) [OF assms(1) s t] .
  then show "I (snd (then_ok c c' s)) \<and> (fst (then_ok c c' s) = None \<longrightarrow> q (snd (then_ok c c' s)) = q s + (d + e))"
    using changesD(3) [OF assms(2) _ u] changesD(2) [OF assms(2), of t u] changesD(2) [OF assms(1) s, of t] t u
    by (cases r) (simp_all add: then_ok_def)
qed

lemma changes_steps [changes_intros]:
  assumes "list_all2 (changes I q) ds cs" "d = sum_list ds"
  shows "changes I q d (steps cs)"
  using assms
proof (induction arbitrary: d rule: list_all2_induct)
  case Nil
  then show ?case by (simp add: changes_def)
next
  case (Cons d1 ds1 c cs)
  have "steps (c # cs) = then_ok c (steps cs)"
    by (simp add: fun_eq_iff)
  then show ?case
    using changes_then [OF Cons(1) Cons(3) [OF refl]] Cons(4) by simp
qed

text \<open>The effect of one run, for commands whose shape depends on the state they start in.\<close>

definition effect :: "('s \<Rightarrow> bool) \<Rightarrow> ('s \<Rightarrow> int64) \<Rightarrow> int64 \<Rightarrow> 's \<Rightarrow> err option \<times> 's \<Rightarrow> bool" where
  "effect I q d s r \<longleftrightarrow> I (snd r) \<and> (fst r = None \<longrightarrow> q (snd r) = q s + d)"

lemma changes_effect: "changes I q d c \<longleftrightarrow> (\<forall>s. I s \<longrightarrow> effect I q d s (c s))"
  by (simp add: changes_def effect_def)

lemma effect_skip: "I s \<Longrightarrow> effect I q 0 s (None, s)"
  by (simp add: effect_def)

lemma effect_fail: "I s \<Longrightarrow> effect I q d s (Some e, s)"
  by (simp add: effect_def)

lemma effect_run: "changes I q d c \<Longrightarrow> I s \<Longrightarrow> effect I q d s (c s)"
  by (simp add: changes_effect)

subsection \<open>The accounts as a book\<close>

locale account_book =
  fixes add :: "'k \<Rightarrow> int64 \<Rightarrow> 'b cmd" and bal :: "'b \<Rightarrow> 'k \<Rightarrow> int64" and total :: "'b \<Rightarrow> int64" and ok :: "'b \<Rightarrow> bool"
  assumes add_done: "ok b \<Longrightarrow> add k d b = (None, b') \<Longrightarrow>
      ok b' \<and> bal b' = (bal b)(k := bal b k + d) \<and> total b' = total b + d \<and> 0 \<le> sint (bal b' k)"
    and add_refused: "ok b \<Longrightarrow> add k d b = (Some e, b') \<Longrightarrow> ok b' \<and> bal b' = bal b \<and> total b' = total b"
begin

lemma add_changes: "changes ok total d (add k d)"
  unfolding changes_def
proof (intro allI impI)
  fix b assume b: "ok b"
  obtain r b' where b': "add k d b = (r, b')" by fastforce
  show "ok (snd (add k d b)) \<and> (fst (add k d b) = None \<longrightarrow> total (snd (add k d b)) = total b + d)"
  proof (cases r)
    case None
    then show ?thesis using add_done [OF b b' [unfolded None]] b' by simp
  next
    case (Some e)
    then show ?thesis using add_refused [OF b b' [unfolded Some]] b' by simp
  qed
qed

text \<open>A transfer takes from one account what it gives to the other.\<close>

lemma transfer_changes: "changes ok total 0 (steps [add k (- x), add k' x])"
  by (rule changes_steps [where ds = "[- x, x]"]) (simp_all add: add_changes)

lemma transfer_done:
  assumes "ok b" "steps [add k (- x), add k' x] b = (None, b')"
  shows "bal b' = (let m = (bal b)(k := bal b k - x) in m(k' := m k' + x))"
proof -
  from assms(2) obtain b1 where "add k (- x) b = (None, b1)" "add k' x b1 = (None, b')"
    by (auto simp: then_ok_def split: prod.splits option.splits)
  then show ?thesis
    using add_done [OF assms(1), of k "- x" b1] add_done [of b1 k' x b'] by (simp add: Let_def)
qed

end

definition accounts_ok :: "AccountsType \<Rightarrow> bool" where
  "accounts_ok at \<longleftrightarrow> wf_map (AllAccounts at) \<and>
     (\<forall>k acc. map_of (AllAccounts at) k = Some acc \<longrightarrow> acc_Address acc = k \<and> 0 \<le> sint (acc_Balance acc))"

lemma accounts_okD:
  assumes "accounts_ok at"
  shows "wf_map (AllAccounts at)" "map_of (AllAccounts at) k = Some acc \<Longrightarrow> acc_Address acc = k"
    "map_of (AllAccounts at) k = Some acc \<Longrightarrow> 0 \<le> sint (acc_Balance acc)" "0 \<le> sint (GetBalance at k)"
  using assms by (auto simp: accounts_ok_def GetBalance_def mget_def split: option.split)

lemma accounts_ok_put:
  "accounts_ok at \<Longrightarrow> acc_Address acc = k \<Longrightarrow> 0 \<le> sint (acc_Balance acc) \<Longrightarrow> accounts_ok (put_account k acc at)"
  by (simp add: accounts_ok_def)

text \<open>Writing an account back with the balance it had.\<close>

lemma put_same_balance:
  assumes "accounts_ok at" "acc_Address acc = k" "acc_Balance acc = GetBalance at k"
  shows "accounts_ok (put_account k acc at)" "GetBalance (put_account k acc at) = GetBalance at"
    "total_balance (put_account k acc at) = total_balance at"
  using assms accounts_okD(4) [OF assms(1), of k]
  by (auto intro!: accounts_ok_put simp: total_balance_put [OF accounts_okD(1) [OF assms(1)]])

lemma AddBalance_form:
  assumes "acc = (case map_of (AllAccounts at) k of Some acc \<Rightarrow> acc | None \<Rightarrow> zero_Account\<lparr>acc_Address := k\<rparr>)"
    "at1 = (case map_of (AllAccounts at) k of Some acc \<Rightarrow> at | None \<Rightarrow> put_account k acc at)"
  shows "AddBalance k d at = (if sint (acc_Balance acc + d) < 0 then (Some (Errorf ''Not enough funds on account''), at1)
     else (None, put_account k (acc\<lparr>acc_Balance := acc_Balance acc + d\<rparr>) at1))"
  using assms by (simp add: AddBalance_def Let_def split: option.split)

interpretation accounts: account_book AddBalance GetBalance total_balance accounts_ok
proof
  fix at k d r at'
  assume ok: "accounts_ok at"
  define acc where "acc = (case map_of (AllAccounts at) k of Some acc \<Rightarrow> acc | None \<Rightarrow> zero_Account\<lparr>acc_Address := k\<rparr>)"
  define at1 where "at1 = (case map_of (AllAccounts at) k of Some acc \<Rightarrow> at | None \<Rightarrow> put_account k acc at)"
  note form = AddBalance_form [OF acc_def at1_def, of d]
  have acc: "acc_Address acc = k" "acc_Balance acc = GetBalance at k"
    using accounts_okD(2) [OF ok] by (auto simp: acc_def GetBalance_def mget_def split: option.split)
  have at1: "accounts_ok at1" "GetBalance at1 = GetBalance at" "total_balance at1 = total_balance at"
    using put_same_balance [OF ok acc] ok by (simp_all add: at1_def split: option.split)
  show "accounts_ok at' \<and> GetBalance at' = (GetBalance at)(k := GetBalance at k + d) \<and>
      total_balance at' = total_balance at + d \<and> 0 \<le> sint (GetBalance at' k)" if "AddBalance k d at = (None, at')"
  proof -
    have at': "at' = put_account k (acc\<lparr>acc_Balance := acc_Balance acc + d\<rparr>) at1" and "0 \<le> sint (acc_Balance acc + d)"
      using that form by (auto split: if_splits)
    moreover from this have "accounts_ok at'"
      unfolding at' by (intro accounts_ok_put [OF at1(1)]) (simp_all add: acc(1))
    ultimately show ?thesis
      using at1 acc total_balance_put [OF accounts_okD(1) [OF at1(1)]] by (simp add: fun_eq_iff)
  qed
  show "accounts_ok at' \<and> GetBalance at' = GetBalance at \<and> total_balance at' = total_balance at" if "AddBalance k d at = (Some r, at')"
    using that form at1 by (auto split: if_splits)
qed

subsection \<open>The ledger\<close>

definition ledger_ok :: "Ledger \<Rightarrow> bool" where
  "ledger_ok l \<longleftrightarrow> accounts_ok (lg_Accounts l) \<and> wf_staking (lg_Staking l)"

text \<open>All coins, counted the way the block check counts them.\<close>

definition coins :: "Ledger \<Rightarrow> int64" where
  "coins l = (let (staked, rewards) = GetSupplyInStakedAccounts (lg_Staking l)
     in GetSupplyInAccounts (lg_Accounts l) + staked + rewards)"

lemma foldl_sum: "foldl (\<lambda>s (k, x). s + f x) (z :: int64) m = z + msum f m"
  by (induction m arbitrary: z) (auto simp: algebra_simps)

lemma foldl_sum2:
  "foldl (\<lambda>(s, t) (k, x). (s + f x, t + g x)) (y :: int64, z :: int64) m = (y + msum f m, z + msum g m)"
  by (induction m arbitrary: y z) (auto simp: algebra_simps)

lemma staked_sums:
  "foldl (\<lambda>sums d. foldl (\<lambda>(s, t) (k, x). (s + f x, t + g x)) sums (m d)) (y :: int64, z :: int64) ds =
   (y + sum_list (map (\<lambda>d. msum f (m d)) ds), z + sum_list (map (\<lambda>d. msum g (m d)) ds))"
  by (induction ds arbitrary: y z) (simp_all add: foldl_sum2 algebra_simps)

lemma coins_totals: "coins l = total_balance (lg_Accounts l) + total_staked (lg_Staking l) + total_rewards (lg_Staking l)"
  unfolding coins_def GetSupplyInStakedAccounts_def GetSupplyInAccounts_def staked_sums foldl_sum total_balance_def total_staked_def
    total_rewards_def by simp

abbreviation shifts :: "int64 \<Rightarrow> Ledger cmd \<Rightarrow> bool" where
  "shifts \<equiv> changes ledger_ok coins"

lemma on_accounts_shifts [changes_intros]:
  assumes "changes accounts_ok total_balance d c"
  shows "shifts d (on_accounts c)"
  using assms unfolding changes_def ledger_ok_def coins_totals by (simp add: on_accounts_def split_beta)

lemma on_pools_shifts [changes_intros]: "shifts 0 (on_pools f)"
  by (simp add: changes_def on_pools_def ledger_ok_def coins_totals)

lemma on_staking_shifts:
  assumes "\<And>s. wf_staking s \<Longrightarrow> moved dS dR s (f s)"
  shows "shifts (dS + dR) (on_staking f)"
  unfolding changes_def
proof (intro allI impI)
  fix l assume l: "ledger_ok l"
  then have wf: "wf_staking (lg_Staking l)" by (simp add: ledger_ok_def)
  show "ledger_ok (snd (on_staking f l)) \<and> (fst (on_staking f l) = None \<longrightarrow> coins (snd (on_staking f l)) = coins l + (dS + dR))"
    using assms [OF wf] moved_wf [OF wf assms [OF wf]] l
    by (cases "f (lg_Staking l)") (auto simp: on_staking_def moved_def coins_totals ledger_ok_def split: option.splits)
qed

lemmas AddBalance_shifts [changes_intros] = on_accounts_shifts [OF accounts.add_changes]

subsection \<open>Steps that move no coins\<close>

text \<open>A write that keeps the address and the balance of the account it writes.\<close>

lemma put_existing:
  assumes "accounts_ok at" "map_of (AllAccounts at) k = Some acc" "acc_Address acc' = acc_Address acc" "acc_Balance acc' = acc_Balance acc"
  shows "accounts_ok (put_account k acc' at)" "total_balance (put_account k acc' at) = total_balance at"
  using put_same_balance [OF assms(1), of acc' k] accounts_okD(2) [OF assms(1,2)] assms(2-4)
  by (simp_all add: GetBalance_def mget_def)

lemma commitments_fields:
  "acc_Address (SetCommitments a s c h) = acc_Address a" "acc_Balance (SetCommitments a s c h) = acc_Balance a"
  "acc_Address (ConsumeRecoveryCommit a c) = acc_Address a" "acc_Balance (ConsumeRecoveryCommit a c) = acc_Balance a"
  by (simp_all add: SetCommitments_def ConsumeRecoveryCommit_def promoteMatured_def Let_def)

lemma commitments_keep:
  "changes accounts_ok total_balance 0 (SetAccountCommitments a s c h)"
  "changes accounts_ok total_balance 0 (ConsumeAccountRecoveryCommit a n)"
  by (auto simp: changes_def SetAccountCommitments_def ConsumeAccountRecoveryCommit_def put_existing commitments_fields split: option.split)

lemma binds_keep:
  "changes accounts_ok total_balance 0 (\<lambda>at. (None, DeleteRecoveryBind k at))"
  "accounts_ok (snd (AddRecoveryBind k b at)) = accounts_ok at" "total_balance (snd (AddRecoveryBind k b at)) = total_balance at"
  by (simp_all add: changes_def DeleteRecoveryBind_def AddRecoveryBind_def accounts_ok_def total_balance_def split: option.split)

lemma AddTransactions_keep:
  assumes "accounts_ok at"
  shows "accounts_ok (fst (AddTransactionsSender ok a h (at, db))) \<and> total_balance (fst (AddTransactionsSender ok a h (at, db))) = total_balance at"
    "accounts_ok (fst (AddTransactionsRecipient ok a h (at, db))) \<and> total_balance (fst (AddTransactionsRecipient ok a h (at, db))) = total_balance at"
proof -
  define acc where "acc = (case map_of (AllAccounts at) a of Some acc \<Rightarrow> acc | None \<Rightarrow> zero_Account\<lparr>acc_Address := a\<rparr>)"
  have acc: "acc_Address acc = a" "acc_Balance acc = GetBalance at a"
    using accounts_okD(2) [OF assms] by (auto simp: acc_def GetBalance_def mget_def split: option.split)
  have put: "accounts_ok (put_account a acc' at) \<and> total_balance (put_account a acc' at) = total_balance at"
    if "acc_Address acc' = a" "acc_Balance acc' = GetBalance at a" for acc'
    using put_same_balance [OF assms that] by simp
  show "accounts_ok (fst (AddTransactionsSender ok a h (at, db))) \<and> total_balance (fst (AddTransactionsSender ok a h (at, db))) = total_balance at"
    "accounts_ok (fst (AddTransactionsRecipient ok a h (at, db))) \<and> total_balance (fst (AddTransactionsRecipient ok a h (at, db))) = total_balance at"
    using put acc unfolding AddTransactionsSender_def AddTransactionsRecipient_def appendTxHistory_def
    by (simp_all add: acc_def [symmetric])
qed

lemma history_shifts [changes_intros]:
  "shifts 0 (\<lambda>l. (None, history_sender ok a h l))" "shifts 0 (\<lambda>l. (None, history_recipient ok a h l))"
  using AddTransactions_keep
  by (auto simp: changes_def history_sender_def history_recipient_def ledger_ok_def coins_totals split_beta)

lemma SetAccountByAddressBytes_keeps:
  assumes "accounts_ok at" "SetAccountByAddressBytes at b = (acc, at')"
  shows "accounts_ok at' \<and> total_balance at' = total_balance at \<and> acc_Address acc = take AddressLength b \<and>
    acc_Balance acc = GetBalance at' (take AddressLength b)"
proof (cases "map_of (AllAccounts at) (take AddressLength b)")
  case None
  let ?acc = "zero_Account\<lparr>acc_Address := take AddressLength b\<rparr>"
  have *: "acc_Balance ?acc = GetBalance at (take AddressLength b)"
    using None by (simp add: GetBalance_def mget_def)
  show ?thesis
    using assms(2) None put_same_balance [OF assms(1) _ *] * by (auto simp: SetAccountByAddressBytes_def GetAccountByAddressBytes_def Let_def)
next
  case (Some a)
  then show ?thesis
    using assms accounts_okD(2) [OF assms(1) Some]
    by (auto simp: SetAccountByAddressBytes_def GetAccountByAddressBytes_def GetBalance_def mget_def split: if_splits)
qed

lemma Modify_keeps:
  assumes "accounts_ok at" "acc_Balance acc = GetBalance at (acc_Address acc)"
  shows "accounts_ok (snd (ModifyAccountToEscrow acc d at)) \<and> total_balance (snd (ModifyAccountToEscrow acc d at)) = total_balance at"
    "accounts_ok (snd (ModifyAccountToMultiSign acc n as at)) \<and> total_balance (snd (ModifyAccountToMultiSign acc n as at)) = total_balance at"
proof -
  have "accounts_ok (put_account (acc_Address acc) acc' at) \<and> total_balance (put_account (acc_Address acc) acc' at) = total_balance at"
    if "acc_Address acc' = acc_Address acc" "acc_Balance acc' = acc_Balance acc" for acc'
    using put_same_balance [OF assms(1), of acc' "acc_Address acc"] that assms(2) by simp
  then show "accounts_ok (snd (ModifyAccountToEscrow acc d at)) \<and> total_balance (snd (ModifyAccountToEscrow acc d at)) = total_balance at"
    "accounts_ok (snd (ModifyAccountToMultiSign acc n as at)) \<and> total_balance (snd (ModifyAccountToMultiSign acc n as at)) = total_balance at"
    using assms(1) by (simp_all add: ModifyAccountToEscrow_def ModifyAccountToMultiSign_def)
qed

lemma steps_skip: "steps [c, \<lambda>s. (None, s)] s = c s" "steps [\<lambda>s. (None, s), c] s = c s"
  by (cases "c s"; cases "fst (c s)"; simp add: then_ok_def)+

lemma ProcessMultiSignAndEscrow_form:
  assumes "SetAccountByAddressBytes at (addr_ByteValue (Recipient (tx_TxData tx))) = (acc, at')"
  shows "(\<exists>e. ProcessMultiSignAndEscrow tx at = (Some e, at)) \<or> (\<exists>r. ProcessMultiSignAndEscrow tx at = (r, at')) \<or>
    (\<exists>d. ProcessMultiSignAndEscrow tx at = ModifyAccountToEscrow acc d at') \<or>
    (\<exists>n as. ProcessMultiSignAndEscrow tx at = ModifyAccountToMultiSign acc n as at')"
proof -
  define escrow multi where "escrow \<longleftrightarrow> sint (EscrowTransactionsDelay (tx_TxData tx)) > 0"
    and "multi \<longleftrightarrow> unat (td_MultiSignNumber (tx_TxData tx)) > 0"
  note form = ProcessMultiSignAndEscrow_def [of tx at, unfolded Let_def, folded escrow_def multi_def, unfolded assms split_conv]
  consider "escrow \<and> multi" | "\<not> multi" | "\<not> escrow" "multi" by blast
  then show ?thesis
  proof cases
    case 2
    then show ?thesis by (cases escrow) (auto simp: form steps_skip simp del: steps.simps)
  next
    case 3
    then show ?thesis
      by (cases "init_addresses (td_MultiSignAddresses (tx_TxData tx))") (auto simp: form steps_skip simp del: steps.simps)
  qed (simp add: form)
qed

lemma ProcessMultiSignAndEscrow_keeps: "changes accounts_ok total_balance 0 (ProcessMultiSignAndEscrow tx)"
  unfolding changes_def
proof (intro allI impI)
  fix at assume at: "accounts_ok at"
  obtain acc at' where set: "SetAccountByAddressBytes at (addr_ByteValue (Recipient (tx_TxData tx))) = (acc, at')"
    by fastforce
  note keep = SetAccountByAddressBytes_keeps [OF at set]
  show "accounts_ok (snd (ProcessMultiSignAndEscrow tx at)) \<and> (fst (ProcessMultiSignAndEscrow tx at) = None \<longrightarrow>
      total_balance (snd (ProcessMultiSignAndEscrow tx at)) = total_balance at + 0)"
    using ProcessMultiSignAndEscrow_form [OF set] keep at Modify_keeps [of at' acc] by auto
qed

subsection \<open>Transactions\<close>

lemma staking_shifts:
  "shifts amount (on_staking (Stake a amount h t d opr la rel))" "shifts amount (on_staking (StakeLockedFor a amount h t d la rel))"
  "shifts amount (on_staking (Unstake a amount h t d))" "shifts amount (on_staking (WithdrawReward now a amount h d))"
  using on_staking_shifts [OF stake_moved] on_staking_shifts [OF Unstake_moved] on_staking_shifts [OF WithdrawReward_moved]
  by (simp_all add: Stake_def [abs_def] StakeLockedFor_def [abs_def])

lemma settle_stake:
  assumes "shifts amount c"
  shows "shifts (- fee) (steps [c, on_accounts (AddBalance a (- fee - amount)), on_accounts (ProcessMultiSignAndEscrow tx)])"
  by (rule changes_steps [where ds = "[amount, - fee - amount, 0]"])
    (simp_all add: assms AddBalance_shifts on_accounts_shifts ProcessMultiSignAndEscrow_keeps)

lemma process_staking_shifts: "shifts (- fee) (process_staking tx fee h t n)"
  unfolding process_staking_def Let_def by (simp add: settle_stake staking_shifts changes_fail del: steps.simps)

lemma process_reward_shifts: "shifts (if 0 < sint (Amount (tx_TxData tx)) then 0 else - fee) (process_reward now tx fee h n)"
  unfolding changes_effect
proof (intro allI impI)
  fix l :: Ledger assume l: "ledger_ok l"
  have "shifts (- fee) (steps [on_staking (WithdrawReward now a (Amount (tx_TxData tx)) h (n mod 256)),
      on_accounts (AddBalance (addr_ByteValue (GetSenderAddress tx)) (- fee - Amount (tx_TxData tx)))])" for a
    by (rule changes_steps [where ds = "[Amount (tx_TxData tx), - fee - Amount (tx_TxData tx)]"])
      (simp_all add: staking_shifts AddBalance_shifts)
  from effect_run [OF this l]
  show "effect ledger_ok coins (if 0 < sint (Amount (tx_TxData tx)) then 0 else - fee) l (process_reward now tx fee h n l)"
    unfolding process_reward_def Let_def using l by (simp add: effect_skip effect_fail del: steps.simps)
qed

lemma transfer_shifts: "shifts 0 (steps [on_accounts (AddBalance a (- x)), on_accounts (AddBalance b x)])"
  by (rule changes_steps [where ds = "[- x, x]"]) (simp_all add: AddBalance_shifts)

lemma transfer_then_settle:
  assumes "shifts 0 c"
  shows "shifts (- fee) (steps [c, on_accounts (AddBalance a (- fee)), on_accounts (ProcessMultiSignAndEscrow tx)])"
  by (rule changes_steps [where ds = "[0, - fee, 0]"])
    (simp_all add: assms AddBalance_shifts on_accounts_shifts ProcessMultiSignAndEscrow_keeps)

lemma two_steps: "shifts 0 c \<Longrightarrow> shifts 0 c' \<Longrightarrow> shifts 0 (steps [c, c'])"
  by (rule changes_steps [where ds = "[0, 0]"]) simp_all

lemma process_transfer_shifts: "shifts (- fee) (process_transfer tx fee h)"
  unfolding changes_effect
proof (intro allI impI)
  fix l :: Ledger assume l: "ledger_ok l"
  show "effect ledger_ok coins (- fee) l (process_transfer tx fee h l)"
    unfolding process_transfer_def Let_def
    by (cases "GetAccountByAddressBytes (lg_Accounts l) (addr_ByteValue (GetSenderAddress tx))")
      (simp_all add: l effect_fail effect_run transfer_then_settle two_steps on_pools_shifts changes_skip transfer_shifts del: steps.simps)
qed

lemma process_cancellation_shifts: "shifts (- fee) (process_cancellation tx th fee h)"
  unfolding changes_effect
proof (intro allI impI)
  fix l :: Ledger assume l: "ledger_ok l"
  have "shifts (- fee) (steps [on_accounts (AddBalance a (- fee)), on_pools f, on_pools g, on_pools k])" for a f g k
    by (rule changes_steps [where ds = "[- fee, 0, 0, 0]"]) (simp_all add: AddBalance_shifts on_pools_shifts)
  then show "effect ledger_ok coins (- fee) l (process_cancellation tx th fee h l)"
    unfolding process_cancellation_def
    by (cases "validateEscrowCancellation tx h l") (simp_all add: l effect_fail effect_run del: steps.simps)
qed

lemma settleCommitment_shifts: "shifts 0 (settleCommitment tx h)"
  unfolding settleCommitment_def split_beta Let_def by (rule on_accounts_shifts [OF commitments_keep(1)])

lemma history_ok:
  assumes "ledger_ok l"
  shows "ledger_ok (history_sender ok a h l)" "coins (history_sender ok a h l) = coins l"
    "ledger_ok (history_recipient ok a h l)" "coins (history_recipient ok a h l) = coins l"
  using history_shifts [of ok a h] assms by (simp_all add: changes_def)

lemma effect_from: "effect I q d s r \<Longrightarrow> q s = q s' \<Longrightarrow> effect I q d s' r"
  by (simp add: effect_def)

lemma recovery_steps:
  "shifts 0 c \<Longrightarrow> shifts (- fee) (steps [\<lambda>l. (None, history_sender ok a h l), c, on_accounts (AddBalance b (- fee))])"
  by (rule changes_steps [where ds = "[0, 0, - fee]"]) (simp_all add: history_shifts AddBalance_shifts)

lemma recovery_steps':
  "shifts 0 c \<Longrightarrow> shifts (- fee) (steps [\<lambda>l. (None, history_sender ok a h l), c, on_accounts (\<lambda>at. (None, DeleteRecoveryBind k at)),
     on_accounts (AddBalance b (- fee))])"
  by (rule changes_steps [where ds = "[0, 0, 0, - fee]"]) (simp_all add: history_shifts AddBalance_shifts on_accounts_shifts binds_keep(1))

lemma processRecoveryTransaction_effect:
  assumes "ledger_ok l" "processRecoveryTransaction cr ok tx h fee l = Some r"
  shows "effect ledger_ok coins (- fee) l r"
proof -
  note rules = assms(1) effect_fail effect_run recovery_steps recovery_steps' on_accounts_shifts commitments_keep on_pools_shifts settleCommitment_shifts
  let ?sb = "addr_ByteValue (GetSenderAddress tx)"
  consider (bind) "IsRecoveryBind tx" | (opens) "\<not> IsRecoveryBind tx" "IsAddressReveal tx"
    | (reveal) "\<not> IsRecoveryBind tx" "\<not> IsAddressReveal tx" "IsRecoveryReveal tx"
    | (commit) "\<not> IsRecoveryBind tx" "\<not> IsAddressReveal tx" "\<not> IsRecoveryReveal tx" "IsCommitmentRegistration tx"
    using assms(2) by (auto simp: processRecoveryTransaction_def Let_def split: if_splits)
  then show ?thesis
  proof cases
    case bind
    define b where "b ident payload = \<lparr>rb_Identity = addr_ByteValue ident, rb_Payload = payload, rb_Height = h\<rparr>" for ident :: Address and payload
    define s where "s = history_sender ok ?sb (tx_Hash tx) l"
    define s' where "s' k b = s\<lparr>lg_Accounts := snd (AddRecoveryBind k b (lg_Accounts s))\<rparr>" for k b
    have "ledger_ok (s' k b)" "coins (s' k b) = coins l" for k b
      using history_ok [OF assms(1), of ok ?sb "tx_Hash tx"] by (simp_all add: s_def s'_def ledger_ok_def coins_totals binds_keep(2,3))
    from effect_from [OF effect_run [OF AddBalance_shifts this(1)] this(2)]
    have pay: "effect ledger_ok coins (- fee) l (on_accounts (AddBalance ?sb (- fee)) (s' k b))" for k b .
    show ?thesis
    proof (cases "ParseRecoveryBind (OptData (tx_TxData tx))")
      case (Inr t)
      then show ?thesis
        using bind assms pay
        by (cases t) (auto simp: processRecoveryTransaction_def Let_def s_def s'_def)
    qed (use bind assms in \<open>auto simp: processRecoveryTransaction_def Let_def effect_fail\<close>)
  next
    case opens
    then show ?thesis
      using assms(2) by (auto simp: processRecoveryTransaction_def Let_def rules simp del: steps.simps split: sum.splits option.splits if_splits)
  next
    case reveal
    then show ?thesis
      using assms(2) by (auto simp: processRecoveryTransaction_def Let_def rules simp del: steps.simps split: sum.splits option.splits if_splits)
  next
    case commit
    then show ?thesis
      using assms(2) by (auto simp: processRecoveryTransaction_def Let_def rules simp del: steps.simps split: option.splits)
  qed
qed


text \<open>A deposit to a reward account, which \<open>ProcessTransaction\<close> accepts without doing anything: the case is
  not implemented in the source.\<close>

definition reward_deposit :: "Transaction \<Rightarrow> bool" where
  "reward_deposit tx \<longleftrightarrow> sint (td_LockedAmount (tx_TxData tx)) \<le> 0 \<and> sint (Amount (tx_TxData tx)) > 0 \<and>
     256 \<le> delegated_id (Recipient (tx_TxData tx)) \<and> delegated_id (Recipient (tx_TxData tx)) < 512"

lemma recovery_not_delegated:
  assumes "addr_ByteValue a = addr_ByteValue (recoveryAddress c)"
  shows "delegated_id a = -1"
  using assms by (simp add: delegated_id_def IntDelegatedAccountFromAddress_def recoveryAddress_def Let_def)

lemma recovery_no_deposit:
  assumes "processRecoveryTransaction cr ok tx h fee l = Some r"
  shows "\<not> reward_deposit tx"
  using assms recovery_not_delegated [of "Recipient (tx_TxData tx)"]
  by (auto simp: processRecoveryTransaction_def Let_def reward_deposit_def IsRecoveryBind_def IsAddressReveal_def IsRecoveryReveal_def
      IsCommitmentRegistration_def noPolicyFields_def split: if_splits)


lemma delegated_pos:
  assumes "IntDelegatedAccountFromAddress a = Inr n"
  shows "0 < n"
proof -
  define k where "k = unat (get_be (take 2 (addr_ByteValue a)) :: int16)"
  have "1 \<le> k" "n = int k"
    using assms unfolding IntDelegatedAccountFromAddress_def Let_def k_def [symmetric]
    by (auto simp: bindR_eq_Inr not_less split: if_splits)
  then show ?thesis by simp
qed

lemma process_delegated_shifts:
  assumes "delegated_account tx = Inr (Some n)"
  shows "shifts (if reward_deposit tx then 0 else - fee) (process_delegated now tx fee h t n)"
proof -
  have n: "0 < n"
    using assms by (auto simp: delegated_account_def dest: delegated_pos split: if_splits sum.splits)
  have dep: "reward_deposit tx \<longleftrightarrow> 256 \<le> n \<and> n < 512 \<and> sint (Amount (tx_TxData tx)) > 0"
    using assms by (auto simp: delegated_account_def reward_deposit_def delegated_id_def split: if_splits sum.splits)
  consider "n < 256" | "256 \<le> n" "n < 512" | "512 \<le> n" by linarith
  then show ?thesis
  proof cases
    case 2
    then show ?thesis
      using process_reward_shifts [of tx fee now h n] dep by (simp add: process_delegated_def)
  qed (use n dep in \<open>simp_all add: process_delegated_def process_staking_shifts AddBalance_shifts\<close>)
qed

lemma ProcessTransaction_effect:
  assumes "ledger_ok l" "CalcFee tx = Inr fee"
  shows "effect ledger_ok coins (if reward_deposit tx then 0 else - fee) l (ProcessTransaction cr ok now tx h t l)"
proof (cases "processRecoveryTransaction cr ok tx h fee l")
  case (Some r)
  then show ?thesis
    using processRecoveryTransaction_effect [OF assms(1) Some] recovery_no_deposit [OF Some] assms(2) by (simp add: ProcessTransaction_def)
next
  case None
  define s where "s = history_recipient ok (addr_ByteValue (Recipient (tx_TxData tx))) (tx_Hash tx)
    (history_sender ok (addr_ByteValue (GetSenderAddress tx)) (tx_Hash tx) l)"
  have s: "ledger_ok s" "coins s = coins l"
    using history_ok(1,2) [OF assms(1)] history_ok(3,4) [OF history_ok(1) [OF assms(1)]] by (simp_all add: s_def)
  note form = ProcessTransaction_def [of cr ok now tx h t l, unfolded assms(2) sum.case None option.case Let_def, folded s_def]
  have "effect ledger_ok coins (if reward_deposit tx then 0 else - fee) s (ProcessTransaction cr ok now tx h t l)"
  proof (cases "CancellationTarget tx")
    case (Some th)
    show ?thesis
    proof (cases "Amount (tx_TxData tx) = 0")
      case True
      then show ?thesis
        using Some effect_run [OF process_cancellation_shifts s(1)] by (simp add: form reward_deposit_def)
    next
      case False
      then show ?thesis
        using Some s(1) by (simp add: form process_cancellation_def validateEscrowCancellation_def Let_def effect_fail)
    qed
  next
    case no: None
    show ?thesis
    proof (cases "delegated_account tx")
      case (Inr n)
      show ?thesis
      proof (cases n)
        case None
        then have "\<not> reward_deposit tx"
          using Inr by (auto simp: delegated_account_def reward_deposit_def delegated_id_def split: if_splits sum.splits)
        then show ?thesis
          using no Inr None effect_run [OF process_transfer_shifts s(1)] by (simp add: form)
      next
        case (Some k)
        then show ?thesis
          using no Inr effect_run [OF process_delegated_shifts s(1)] by (simp add: form)
      qed
    qed (use no s(1) in \<open>simp add: form effect_fail\<close>)
  qed
  then show ?thesis
    using s(2) by (rule effect_from)
qed

subsection \<open>Settlement\<close>

lemma move_settled_shifts: "shifts 0 (move_settled cr tx)"
  unfolding changes_effect
proof (intro allI impI)
  fix l :: Ledger assume l: "ledger_ok l"
  define a b x where "a = addr_ByteValue (GetSenderAddress tx)" and "b = addr_ByteValue (Recipient (tx_TxData tx))" and "x = Amount (tx_TxData tx)"
  obtain r s where s: "on_accounts (AddBalance a (- x)) l = (r, s)" by fastforce
  have ok: "ledger_ok s" using changesD(3) [OF AddBalance_shifts l s] .
  have "effect ledger_ok coins 0 l (steps [on_accounts (AddBalance a (- x)), on_accounts (AddBalance b x)] l)"
    by (rule effect_run [OF transfer_shifts l])
  then show "effect ledger_ok coins 0 l (move_settled cr tx l)"
    using s ok unfolding move_settled_def a_def [symmetric] b_def [symmetric] x_def [symmetric]
    by (cases r) (auto simp: then_ok_def effect_def ledger_ok_def split: prod.splits option.splits)
qed

lemma settle_multisign_shifts: "shifts 0 (settle_multisign cr mainTx acc h)"
  unfolding changes_effect settle_multisign_def
  by (auto simp: effect_fail effect_skip effect_run two_steps on_pools_shifts settleCommitment_shifts move_settled_shifts
      simp del: steps.simps split: sum.splits option.splits)

lemma settle_escrow_shifts: "shifts 0 (settle_escrow cr h tx)"
proof -
  have "shifts 0 (steps [c, move_settled cr tx, on_pools f])" if "shifts 0 c" for c f
    by (rule changes_steps [where ds = "[0, 0, 0]"]) (simp_all add: that move_settled_shifts on_pools_shifts)
  then show ?thesis
    unfolding changes_effect settle_escrow_def Let_def
    by (auto simp: effect_fail effect_skip effect_run two_steps on_pools_shifts settleCommitment_shifts changes_skip
        simp del: steps.simps split: sum.splits option.splits)
qed

lemma ProcessTransactionsEscrow_shifts: "shifts 0 (ProcessTransactionsEscrow cr h)"
proof -
  have "shifts 0 (steps (map (settle_escrow cr h) txs))" for txs
    by (rule changes_steps [where ds = "replicate (length txs) 0"])
      (simp_all add: list_all2_conv_all_nth settle_escrow_shifts sum_list_replicate)
  then show ?thesis
    by (simp add: changes_def ProcessTransactionsEscrow_def Let_def)
qed


lemma ProcessTransactionsMultiSign_shifts: "shifts 0 (ProcessTransactionsMultiSign cr tx h)"
  unfolding changes_effect
proof (intro allI impI)
  fix l :: Ledger assume l: "ledger_ok l"
  have pools: "ledger_ok (l\<lparr>lg_Pools := p\<rparr>)" "coins (l\<lparr>lg_Pools := p\<rparr>) = coins l" for p
    using l by (simp_all add: ledger_ok_def coins_totals)
  have "effect ledger_ok coins 0 l (e, l\<lparr>lg_Pools := p\<rparr>)" for e p
    using pools by (simp add: effect_def)
  moreover have "effect ledger_ok coins 0 l (settle_multisign cr mainTx acc h (l\<lparr>lg_Pools := p\<rparr>))" for mainTx acc p
    using effect_from [OF effect_run [OF settle_multisign_shifts pools(1)] pools(2)] .
  ultimately show "effect ledger_ok coins 0 l (ProcessTransactionsMultiSign cr tx h l)"
    using l unfolding ProcessTransactionsMultiSign_def Let_def by (auto simp: effect_skip split: prod.splits option.splits)
qed

subsection \<open>Properties of the ledger\<close>

text \<open>C16: The ledger stays well-typed whatever is applied to it and whether that succeeds or fails: every
  account is filed under its own address, no balance is negative, and the invariant of the staking
  accounts holds.\<close>

theorem ledger_stays_well_typed:
  assumes "ledger_ok l"
  shows "ledger_ok (snd (ProcessTransaction cr ok now tx h t l)) \<and> ledger_ok (snd (ProcessTransactionsMultiSign cr tx h l)) \<and>
    ledger_ok (snd (ProcessTransactionsEscrow cr h l))"
proof -
  have "ledger_ok (snd (ProcessTransaction cr ok now tx h t l))"
    using ProcessTransaction_effect [OF assms, of tx _ cr ok now h t] assms
    by (cases "CalcFee tx") (simp_all add: effect_def ProcessTransaction_def [of _ _ _ _ _ _ l])
  then show ?thesis
    using changesD(1) [OF ProcessTransactionsMultiSign_shifts assms] changesD(1) [OF ProcessTransactionsEscrow_shifts assms] by simp
qed

definition sample_ledger :: Ledger where
  "sample_ledger = \<lparr>lg_Accounts = \<lparr>AllAccounts = [(replicate 20 7, zero_Account\<lparr>acc_Address := replicate 20 7, acc_Balance := 1000000\<rparr>)],
       RecoveryBinds = [], at_Height = 0\<rparr>, lg_Staking = (\<lambda>_. zero_StakingAccountsType), lg_Pools = sample_pools\<rparr>"

lemma sample_ledger_ok: "ledger_ok sample_ledger"
  by (simp add: ledger_ok_def sample_ledger_def accounts_ok_def wf_staking_empty)

theorem ledger_stays_well_typed_witness:
  "ledger_ok (snd (ProcessTransaction sample_crypto True 0 sample_tx 80 0 sample_ledger))"
  using ledger_stays_well_typed [OF sample_ledger_ok] by blast


lemma sample_tx_kind:
  "CalcFee sample_tx = Inr 300000" "processRecoveryTransaction cr ok sample_tx h fee l = None" "CancellationTarget sample_tx = None"
  "delegated_account sample_tx = Inr None"
proof -
  have r: "Recipient (tx_TxData sample_tx) = sample_addr 5" "OptData (tx_TxData sample_tx) = []" "Pubkey (tx_TxData sample_tx) = zero_PubKey"
    "td_LockedAmount (tx_TxData sample_tx) = 0"
    by (simp_all add: sample_tx_def zero_TxData_def)
  show "CalcFee sample_tx = Inr 300000"
    by (simp add: CalcFee_def sample_tx_def Let_def go_div_def)
  have "replicate 20 (5 :: byte) \<noteq> replicate 18 255 @ b" for b
    by (auto dest!: arg_cong [where f = hd] simp: hd_append)
  then show "processRecoveryTransaction cr ok sample_tx h fee l = None"
    by (simp add: processRecoveryTransaction_def Let_def IsRecoveryBind_def IsAddressReveal_def IsRecoveryReveal_def IsCommitmentRegistration_def
        r sample_addr_def recoveryAddress_def zero_PubKey_def)
  show "CancellationTarget sample_tx = None"
    by (simp add: CancellationTarget_def r)
  show "delegated_account sample_tx = Inr None"
    by (simp add: delegated_account_def r IntDelegatedAccountFromAddress_def sample_addr_def Let_def)
qed

lemma sample_transfer: "fst (ProcessTransaction sample_crypto True 0 sample_tx 80 0 sample_ledger) = None"
proof -
  have ne: "replicate 20 (5 :: byte) \<noteq> replicate 20 7" by simp
  have tx: "addr_ByteValue (GetSenderAddress sample_tx) = replicate 20 7" "addr_ByteValue (Sender (tx_TxParam sample_tx)) = replicate 20 7"
    "addr_ByteValue (Recipient (tx_TxData sample_tx)) = replicate 20 5" "Amount (tx_TxData sample_tx) = 42" "MultiSignTx (tx_TxParam sample_tx) = ZerosHash"
    "OptData (tx_TxData sample_tx) = []" "EscrowTransactionsDelay (tx_TxData sample_tx) = 0" "td_MultiSignNumber (tx_TxData sample_tx) = 0"
    by (simp_all add: sample_tx_def zero_TxData_def sample_addr_def GetSenderAddress_def)
  have call: "isContractCallTx sample_tx acc = False" for acc
    by (simp add: isContractCallTx_def tx sample_tx_kind)
  show ?thesis
    unfolding ProcessTransaction_def sample_tx_kind sum.case option.case Let_def
    by (simp add: process_transfer_def history_sender_def history_recipient_def AddTransactionsSender_def AddTransactionsRecipient_def
      appendTxHistory_def tx call sample_ledger_def GetAccountByAddressBytes_def on_accounts_def AddBalance_def put_account_def
      ProcessMultiSignAndEscrow_def SetAccountByAddressBytes_def then_ok_def Let_def ne zero_Account_def)
qed


end
