(* ===== verification/Settlement.thy ===== *)
theory Settlement
  imports Ledger_Supply
begin

text \<open>
  What the settlement of held transactions promises (\<open>ProcessTransactionsEscrow\<close> and
  \<open>ProcessTransactionsMultiSign\<close> of \<open>blocks/processTransaction.go\<close>): an escrow transfer settles in the first
  block at or after its maturity and not before, and a multi-signature transfer settles only with the
  approvals its account requires.
\<close>

subsection \<open>Approvals\<close>

abbreviation tx_sender :: "Transaction \<Rightarrow> bytes" where
  "tx_sender t \<equiv> addr_ByteValue (Sender (tx_TxParam t))"

text \<open>Every approval uses up one place in the list of signers.\<close>

lemma count_approvals_size:
  "count_approvals mainTx ns txs = size (mset ns \<inter># mset (map tx_sender (filter (approves mainTx) txs)))"
proof (induction txs arbitrary: ns)
  case (Cons t txs)
  show ?case
  proof (cases "approves mainTx t \<and> tx_sender t \<in> set ns")
    case True
    then show ?thesis
      using Cons.IH [of "remove1 (tx_sender t) ns"] by (simp add: Let_def inter_add_right2)
  next
    case False
    then show ?thesis
      using Cons.IH [of ns] by (auto simp: Let_def inter_add_right1)
  qed
qed simp

lemma approvals_are_signers:
  assumes "distinct ns"
  shows "count_approvals mainTx ns txs \<le> card {s \<in> set ns. \<exists>t \<in> set txs. approves mainTx t \<and> tx_sender t = s}"
  using assms
proof (induction txs arbitrary: ns)
  case (Cons t txs)
  let ?signed = "\<lambda>ns txs. {s \<in> set ns. \<exists>t \<in> set txs. approves mainTx t \<and> tx_sender t = s}"
  show ?case
  proof (cases "approves mainTx t \<and> tx_sender t \<in> set ns")
    case True
    let ?A = "?signed (remove1 (tx_sender t) ns) txs"
    have "tx_sender t \<notin> ?A" "insert (tx_sender t) ?A \<subseteq> ?signed ns (t # txs)"
      using True Cons.prems by auto
    moreover have "finite ?A" "finite (?signed ns (t # txs))"
      by simp_all
    ultimately have "Suc (card ?A) \<le> card (?signed ns (t # txs))"
      using card_insert_disjoint [of ?A "tx_sender t"] card_mono [of "?signed ns (t # txs)" "insert (tx_sender t) ?A"] by linarith
    then show ?thesis
      using True Cons.IH [of "remove1 (tx_sender t) ns"] Cons.prems by (simp add: Let_def)
  next
    case False
    have "card (?signed ns txs) \<le> card (?signed ns (t # txs))"
      by (rule card_mono) auto
    then show ?thesis
      using False Cons.IH [OF Cons.prems] by (auto simp: Let_def)
  qed
qed simp

subsection \<open>Multi-signature settlement\<close>

lemma find_main_hash:
  assumes "find_main cr hash txs p = (Some mainTx, p')"
  shows "tx_Hash mainTx = hash"
proof (cases "find (\<lambda>t. tx_Hash t = hash) txs")
  case (Some t)
  then have "mainTx = t" "tx_Hash t = hash"
    using assms by (simp add: find_main_def) (use Some in \<open>auto simp: find_Some_iff\<close>)
  then show ?thesis by simp
next
  case None
  have load: "fst (LoadFromDBPoolTx cr pr hash db) = Inr t \<Longrightarrow> tx_Hash t = hash" for pr db t
    by (auto simp: LoadFromDBPoolTx_def Let_def split: option.splits if_splits sum.splits)
  have "fst (loadMultiSignMainTx cr hash (ps_DB p)) = Inr mainTx"
    using assms None by (auto simp: find_main_def split: prod.splits sum.splits)
  then show ?thesis
    using load by (auto simp: loadMultiSignMainTx_def split: prod.splits sum.splits) (metis fst_conv)+
qed

text \<open>What a settlement pool hands out: every due entry once.\<close>

lemma peek_settlement:
  assumes "wf_pool tp" "typePool tp \<noteq> 0" "length (transactions tp) \<le> n"
  shows "mset (PeekTransactions tp n x) = mset (map it_Transaction (filter (due tp x) (map snd (items tp))))"
proof -
  have core: "pool_core tp" using assms(1) by (simp add: wf_pool_def)
  have "distinct (map snd (items tp))"
  proof -
    have "map it_value (map snd (items tp)) = map fst (items tp)"
      using pool_coreD(4,7) [OF core] by (auto simp: map_of_eq_Some_iff)
    then have "distinct (map it_value (map snd (items tp)))"
      using pool_coreD(4) [OF core] by metis
    then show ?thesis using distinct_map by blast
  qed
  then have arr: "mset (arr (priorityQueue tp)) = mset (map snd (items tp))"
    using maxheap.queue_ok_distinct [OF pool_coreD(1) [OF core]] pool_coreD(5) [OF core] set_eq_iff_mset_eq_distinct by (metis set_map)
  have val: "mget zero_Transaction (transactions tp) (tx_Hash (it_Transaction it)) = it_Transaction it"
    if "it \<in> set (arr (priorityQueue tp))" for it
  proof -
    have "map_of (items tp) (it_value it) = Some it"
      using that pool_item_mem [OF core] pool_coreD(5) [OF core] by simp
    then show ?thesis
      using pool_coreD(8,9) [OF core] by (simp add: mget_def)
  qed
  have "PeekTransactions tp n x = map it_Transaction (filter (due tp x) (arr (priorityQueue tp)))"
    using assms(2,3) val pool_lengths(1) [OF core] by (auto simp: PeekTransactions_def Let_def)
  then show ?thesis
    using arr by (simp only: mset_map mset_filter)
qed

lemma peek_in_pool:
  assumes "wf_pool tp" "typePool tp \<noteq> 0" "t \<in> set (PeekTransactions tp n x)"
  shows "t \<in> snd ` set (transactions tp)"
proof -
  have core: "pool_core tp" using assms(1) by (simp add: wf_pool_def)
  from assms(2,3) obtain it where it: "it \<in> set (arr (priorityQueue tp))" "t = mget zero_Transaction (transactions tp) (tx_Hash (it_Transaction it))"
    by (auto simp: PeekTransactions_def Let_def dest: in_set_takeD split: if_splits)
  then have "map_of (items tp) (it_value it) = Some it"
    using pool_item_mem [OF core] pool_coreD(5) [OF core] by simp
  then have "map_of (transactions tp) (tx_Hash (it_Transaction it)) = Some (it_Transaction it)"
    using pool_coreD(8,9) [OF core] by (metis option.map(2))
  then show ?thesis
    using it(2) by (force simp: mget_def dest: map_of_SomeD)
qed

text \<open>The accounts change only when the settlement itself is reached.\<close>

lemma multisign_reaches_settlement:
  assumes "ProcessTransactionsMultiSign cr tx h l = (r, l')" "lg_Accounts l' \<noteq> lg_Accounts l"
    "txs = PeekTransactions (PoolTxMultiSign (lg_Pools l)) MaxTransactionInPool (int64_of_hash (MultiSignTx (tx_TxParam tx)))"
  obtains mainTx acc where "fst (find_main cr (MultiSignTx (tx_TxParam tx)) txs (lg_Pools l)) = Some mainTx"
    "tx_Hash mainTx = MultiSignTx (tx_TxParam tx)"
    "sint (h - tx_Height mainTx) \<le> sint MaxTransactionInMultiSigPool"
    "GetAccountByAddressBytes (lg_Accounts l) (tx_sender mainTx) = Some acc"
    "unat (acc_MultiSignNumber acc) \<le> count_approvals mainTx (acc_MultiSignAddresses acc) txs"
proof -
  obtain m p where m: "find_main cr (MultiSignTx (tx_TxParam tx)) txs (lg_Pools l) = (m, p)" by fastforce
  note form = assms(1) [unfolded ProcessTransactionsMultiSign_def Let_def, folded assms(3), unfolded m split_conv]
  have nz: "MultiSignTx (tx_TxParam tx) \<noteq> ZerosHash"
    using form assms(2) by auto
  then obtain mainTx where mainTx: "m = Some mainTx"
    using form assms(2) by (cases m) auto
  have age: "sint (h - tx_Height mainTx) \<le> sint MaxTransactionInMultiSigPool"
    using form nz assms(2) mainTx by (auto split: if_splits)
  then obtain acc where acc: "GetAccountByAddressBytes (lg_Accounts l) (tx_sender mainTx) = Some acc"
    using form nz assms(2) mainTx by (cases "GetAccountByAddressBytes (lg_Accounts l) (tx_sender mainTx)") auto
  have "unat (acc_MultiSignNumber acc) \<le> fst (CountMultiSignApprovals (lg_Accounts l) mainTx txs)"
    using form nz assms(2) mainTx acc age by (auto split: if_splits)
  then have "unat (acc_MultiSignNumber acc) \<le> count_approvals mainTx (acc_MultiSignAddresses acc) txs"
    using acc by (simp add: CountMultiSignApprovals_def)
  then show thesis
    using that find_main_hash [OF m [unfolded mainTx]] m mainTx age acc by simp
qed


text \<open>An account with one signer, a transfer from it and the signer's approval, both pooled.\<close>

definition sample_approval :: Transaction where
  "sample_approval = sample_tx\<lparr>tx_TxData := (tx_TxData sample_tx)\<lparr>Amount := 0\<rparr>,
     tx_TxParam := (tx_TxParam sample_tx)\<lparr>Sender := sample_addr 8, MultiSignTx := tx_Hash sample_tx\<rparr>, tx_Hash := replicate 32 4\<rparr>"

definition sample_multisign :: Ledger where
  "sample_multisign = sample_ledger\<lparr>
     lg_Accounts := (lg_Accounts sample_ledger)\<lparr>AllAccounts := [(replicate 20 7, zero_Account\<lparr>acc_Address := replicate 20 7,
       acc_Balance := 1000000, acc_MultiSignNumber := 1, acc_MultiSignAddresses := [replicate 20 8]\<rparr>)]\<rparr>,
     lg_Pools := snd (AddMultiSignTransaction sample_approval (snd (AddMultiSignTransaction sample_tx (lg_Pools sample_ledger))))\<rparr>"

lemma sample_multisign_pool:
  "wf_pool (PoolTxMultiSign (lg_Pools sample_multisign))" "typePool (PoolTxMultiSign (lg_Pools sample_multisign)) = 2"
  "items (PoolTxMultiSign (lg_Pools sample_multisign)) =
     [(replicate 32 9, NewItem sample_tx (int64_of_hash (replicate 32 9))),
      (replicate 32 4, NewItem sample_approval (int64_of_hash (replicate 32 9)))]"
  "length (transactions (PoolTxMultiSign (lg_Pools sample_multisign))) = 2"
proof -
  let ?p0 = "NewTransactionPool 5 2" and ?pr = "int64_of_hash (replicate 32 9)"
  define p1 where "p1 = with_new sample_tx ?pr ?p0"
  have key: "MultiSignPoolKeyFor sample_tx = replicate 32 9" "MultiSignPoolKeyFor sample_approval = replicate 32 9"
    "tx_Hash sample_tx = replicate 32 9" "tx_Hash sample_approval = replicate 32 4"
    by (simp_all add: MultiSignPoolKeyFor_def sample_tx_def sample_approval_def EmptyHash_def)
  have pool: "PoolTxMultiSign (snd (AddMultiSignTransaction t p)) = snd (AddTransaction t (MultiSignPoolKeyFor t) (PoolTxMultiSign p))" for t p
    by (simp add: AddMultiSignTransaction_def Let_def split: prod.split)
  have one: "AddTransaction sample_tx (replicate 32 9) ?p0 = (True, p1)"
    unfolding p1_def by (rule AddTransaction_room) (simp_all add: NewTransactionPool_wf banned_def item_priority_def, simp_all add: NewTransactionPool_def)
  then have p1: "wf_pool p1" "typePool p1 = 2" "maxTransactions p1 = 5" "bannedTransactions p1 = []"
    "transactions p1 = [(replicate 32 9, sample_tx)]" "items p1 = [(replicate 32 9, NewItem sample_tx ?pr)]"
    using AddTransaction_wf [of ?p0 sample_tx "replicate 32 9"]
    by (simp_all add: NewTransactionPool_wf p1_def key) (simp_all add: NewTransactionPool_def with_new_def addPendingLocked_def push_item_def Let_def key)
  have two: "AddTransaction sample_approval (replicate 32 9) p1 = (True, with_new sample_approval ?pr p1)"
    by (rule AddTransaction_room) (simp_all add: p1 banned_def item_priority_def key)
  have "PoolTxMultiSign (lg_Pools sample_multisign) = with_new sample_approval ?pr p1"
    using one two by (simp add: sample_multisign_def pool key sample_ledger_def sample_pools_def)
  moreover have "wf_pool (with_new sample_approval ?pr p1)"
    using AddTransaction_wf [OF p1(1), of sample_approval "replicate 32 9"] two by simp
  ultimately show "wf_pool (PoolTxMultiSign (lg_Pools sample_multisign))" "typePool (PoolTxMultiSign (lg_Pools sample_multisign)) = 2"
    "items (PoolTxMultiSign (lg_Pools sample_multisign)) = [(replicate 32 9, NewItem sample_tx ?pr), (replicate 32 4, NewItem sample_approval ?pr)]"
    "length (transactions (PoolTxMultiSign (lg_Pools sample_multisign))) = 2"
    by (simp_all add: p1 key) (simp add: with_new_def p1 key)
qed

lemma mset_pair:
  assumes "mset xs = {#a, b#}"
  shows "xs = [a, b] \<or> xs = [b, a]"
proof -
  have "length xs = Suc (Suc 0)" using arg_cong [OF assms, of size] by simp
  then obtain x y where "xs = [x, y]" by (auto simp: length_Suc_conv)
  then show ?thesis using assms by (auto simp: add_eq_conv_ex)
qed


text \<open>The path of a settlement that pays.\<close>

lemma multisign_pays:
  assumes "MultiSignTx (tx_TxParam tx) = hash" "hash \<noteq> ZerosHash"
    "PeekTransactions (PoolTxMultiSign (lg_Pools l)) MaxTransactionInPool (int64_of_hash hash) = txs"
    "find_main cr hash txs (lg_Pools l) = (Some m, p)" "sint (h - tx_Height m) \<le> sint MaxTransactionInMultiSigPool"
    "GetAccountByAddressBytes (lg_Accounts l) (tx_sender m) = Some acc" "unat (acc_MultiSignNumber acc) \<le> length txs"
    "unat (acc_MultiSignNumber acc) \<le> count_approvals m (acc_MultiSignAddresses acc) txs"
    "delegated_account m = Inr None" "acc_TransactionDelay acc = 0" "\<not> IsCommitmentRegistration m"
    "AddBalance (tx_sender m) (- Amount (tx_TxData m)) (lg_Accounts l) = (None, debited)"
    "AddBalance (addr_ByteValue (Recipient (tx_TxData m))) (Amount (tx_TxData m)) debited = (None, paid)"
  shows "ProcessTransactionsMultiSign cr tx h l = (None, l\<lparr>lg_Accounts := paid, lg_Pools := RemoveMultiSignTransaction (tx_Hash m) p\<rparr>)"
  using assms by (simp add: ProcessTransactionsMultiSign_def Let_def CountMultiSignApprovals_def settle_multisign_def on_pools_def
    then_ok_def move_settled_def on_accounts_def GetSenderAddress_def)

text \<open>A settled transfer can be settled again. Settlement takes only the main transaction out of the pool; its
  approvals stay, and a later co-signature that names the transaction finds it in the database of
  confirmed transactions, puts it back and counts the same approvals once more.\<close>

definition sample_replay :: Ledger where
  "sample_replay = sample_multisign\<lparr>lg_Pools := (lg_Pools sample_multisign)\<lparr>
     ps_DB := [(TransactionDBPrefix @ tx_Hash sample_tx, Transaction_GetBytes sample_tx)]\<rparr>\<rparr>"

lemma settled_multisign_settles_again:
  "\<exists>l1 l2. ProcessTransactionsMultiSign sample_crypto sample_approval 80 sample_replay = (None, l1) \<and>
     ProcessTransactionsMultiSign sample_crypto sample_approval 81 l1 = (None, l2) \<and>
     GetBalance (lg_Accounts l1) (replicate 20 5) = 42 \<and> GetBalance (lg_Accounts l2) (replicate 20 5) = 84 \<and>
     GetBalance (lg_Accounts l2) (replicate 20 7) = 1000000 - 84"
proof -
  let ?h = "replicate 32 9 :: bytes"
  define p where "p = lg_Pools sample_replay"
  have hash: "MultiSignTx (tx_TxParam sample_approval) = ?h" "tx_Hash sample_tx = ?h" "tx_Hash sample_approval = replicate 32 4"
    "tx_Height sample_tx = 77" "tx_sender sample_tx = replicate 20 7" "tx_sender sample_approval = replicate 20 8"
    "approves sample_tx sample_approval" "\<not> approves sample_tx sample_tx" "Amount (tx_TxData sample_tx) = 42"
    "addr_ByteValue (GetSenderAddress sample_tx) = replicate 20 7" "addr_ByteValue (Recipient (tx_TxData sample_tx)) = replicate 20 5"
    by (simp_all add: sample_approval_def sample_tx_def sample_addr_def approves_def GetSenderAddress_def)
  have nz: "?h \<noteq> ZerosHash" by simp
  have gh: "GetHashFromBytes ?h = ?h" by (simp add: GetHashFromBytes_def Hash_Set_def EmptyHash_def)
  have comm: "\<not> IsCommitmentRegistration sample_tx"
    by (simp add: IsCommitmentRegistration_def sample_tx_def zero_TxData_def zero_PubKey_def)
  define acc where "acc b = zero_Account\<lparr>acc_Address := replicate 20 7, acc_Balance := b, acc_MultiSignNumber := 1,
    acc_MultiSignAddresses := [replicate 20 8]\<rparr>" for b
  have acc: "acc_MultiSignNumber (acc b) = 1" "acc_MultiSignAddresses (acc b) = [replicate 20 8]" "acc_TransactionDelay (acc b) = 0"
    "acc_Balance (acc b) = b" "acc b\<lparr>acc_Balance := c\<rparr> = acc c" for b c by (simp_all add: acc_def zero_Account_def)
  define to where "to b = zero_Account\<lparr>acc_Address := replicate 20 5, acc_Balance := b\<rparr>" for b
  have to: "acc_Balance (to b) = b" "to b\<lparr>acc_Balance := c\<rparr> = to c" "zero_Account\<lparr>acc_Address := replicate 20 5\<rparr> = to 0" for b c
    by (simp_all add: to_def zero_Account_def)
  define at where "at xs = \<lparr>AllAccounts = xs, RecoveryBinds = [], at_Height = 0\<rparr>" for xs
  have ne: "replicate 20 5 \<noteq> (replicate 20 7 :: bytes)" by simp
  have quiet: "journalPendingChange a b c q = q" if "journalHeight q = 0" for a b c q
    using that by (simp add: journalPendingChange_def)
  have add0: "journalHeight (snd (AddMultiSignTransaction t q)) = 0" if "journalHeight q = 0" for t q
    using that by (simp add: AddMultiSignTransaction_def Let_def quiet split: prod.split)
  have pool: "PoolTxMultiSign p = PoolTxMultiSign (lg_Pools sample_multisign)" "journalHeight p = 0"
    "ps_DB p = [(TransactionDBPrefix @ ?h, Transaction_GetBytes sample_tx)]"
    using add0 [OF add0, of "lg_Pools sample_ledger"]
    by (simp_all add: p_def sample_replay_def hash) (simp add: sample_multisign_def sample_ledger_def sample_pools_def)
  have start: "lg_Accounts sample_replay = at [(replicate 20 7, acc 1000000)]"
    by (simp add: sample_replay_def sample_multisign_def acc_def at_def sample_ledger_def)
  define txs where "txs = PeekTransactions (PoolTxMultiSign p) MaxTransactionInPool (int64_of_hash ?h)"
  have "mset txs = {#sample_tx, sample_approval#}"
    using peek_settlement [OF sample_multisign_pool(1), of MaxTransactionInPool "int64_of_hash ?h"] sample_multisign_pool(2-4)
    by (simp add: txs_def due_def NewItem_def pool(1))
  from mset_pair [OF this] have main: "find_main sample_crypto ?h txs p = (Some sample_tx, p)" "length txs = 2"
    "count_approvals sample_tx [replicate 20 8] txs = 1"
    by (auto simp add: find_main_def hash)
  define l1 where "l1 = sample_replay\<lparr>lg_Accounts := at [(replicate 20 7, acc 999958), (replicate 20 5, to 42)], lg_Pools := RemoveMultiSignTransaction ?h p\<rparr>"
  have pay: "AddBalance (replicate 20 7) (- 42) (at [(replicate 20 7, acc 1000000)]) = (None, at [(replicate 20 7, acc 999958)])"
    "AddBalance (replicate 20 5) 42 (at [(replicate 20 7, acc 999958)]) = (None, at [(replicate 20 7, acc 999958), (replicate 20 5, to 42)])"
    "AddBalance (replicate 20 7) (- 42) (at [(replicate 20 7, acc 999958), (replicate 20 5, to 42)]) =
      (None, at [(replicate 20 7, acc 999916), (replicate 20 5, to 42)])"
    "AddBalance (replicate 20 5) 42 (at [(replicate 20 7, acc 999916), (replicate 20 5, to 42)]) =
      (None, at [(replicate 20 7, acc 999916), (replicate 20 5, to 84)])"
    by (simp_all add: AddBalance_def at_def acc to put_account_def ne Let_def)
  have get: "GetAccountByAddressBytes (at ((replicate 20 7, acc b) # xs)) (replicate 20 7) = Some (acc b)" for b xs
    by (simp add: GetAccountByAddressBytes_def at_def)
  have run1: "ProcessTransactionsMultiSign sample_crypto sample_approval 80 sample_replay = (None, l1)"
    unfolding l1_def
    by (subst multisign_pays [where hash = ?h and txs = txs and m = sample_tx and p = p and acc = "acc 1000000"
        and debited = "at [(replicate 20 7, acc 999958)]" and paid = "at [(replicate 20 7, acc 999958), (replicate 20 5, to 42)]"])
      (simp_all add: hash main start acc pay get comm sample_tx_kind flip: p_def txs_def)
  let ?p1 = "RemoveMultiSignTransaction ?h p"
  have db: "ps_DB ?p1 = ps_DB p" "journalHeight ?p1 = 0"
    using pool(2,3) by (auto simp: RemoveMultiSignTransaction_def Let_def quiet RemoveTransactionFromDBbyHash_def string_bytes_def split: option.split)
  have wf: "wf_pool (PoolTxMultiSign p)" "map_of (items (PoolTxMultiSign p)) ?h = Some (NewItem sample_tx (int64_of_hash ?h))"
    using sample_multisign_pool(1,3) by (simp_all add: pool)
  have p1: "PoolTxMultiSign ?p1 = RemoveTransactionByHash ?h (PoolTxMultiSign p)"
    by (simp add: RemoveMultiSignTransaction_def Let_def split: option.split)
  have rest: "wf_pool (PoolTxMultiSign ?p1)" "typePool (PoolTxMultiSign ?p1) = 2" "length (transactions (PoolTxMultiSign ?p1)) \<le> MaxTransactionInPool"
    "items (PoolTxMultiSign ?p1) = [(replicate 32 4, NewItem sample_approval (int64_of_hash ?h))]"
    using RemoveTransactionByHash_wf [OF wf(1), of ?h] RemoveTransactionByHash_present [of "PoolTxMultiSign p" ?h, unfolded gh, OF wf(2)] sample_multisign_pool(2-4)
    by (auto simp: p1 pool(1) without_def intro: order_trans [OF length_delete_le])
  have left: "PeekTransactions (PoolTxMultiSign ?p1) MaxTransactionInPool (int64_of_hash ?h) = [sample_approval]"
    using peek_settlement [OF rest(1) _ rest(3), of "int64_of_hash ?h"] rest(2,4) by (simp add: due_def NewItem_def)
  have load: "loadMultiSignMainTx sample_crypto ?h (ps_DB ?p1) = (Inr sample_tx, ps_DB ?p1)"
  proof -
    have "HashMatchesBody (\<lambda>_. replicate 32 9) sample_tx"
      by (simp add: HashMatchesBody_def hash gh)
    then show ?thesis
      using Transaction_round_trip [OF sample_tx_wf, of "\<lambda>_. replicate 20 7" "[]"]
      by (simp add: db(1) pool(3) loadMultiSignMainTx_def LoadFromDBPoolTx_def sample_crypto_def Transaction_bytes_ne hash)
  qed
  define p2 where "p2 = snd (AddMultiSignTransaction sample_tx (?p1\<lparr>ps_DB := ps_DB ?p1\<rparr>))"
  have found: "find_main sample_crypto ?h [sample_approval] ?p1 = (Some sample_tx, p2)"
    by (simp add: find_main_def hash load p2_def)
  have run2: "ProcessTransactionsMultiSign sample_crypto sample_approval 81 l1 =
      (None, l1\<lparr>lg_Accounts := at [(replicate 20 7, acc 999916), (replicate 20 5, to 84)], lg_Pools := RemoveMultiSignTransaction ?h p2\<rparr>)"
    by (subst multisign_pays [where hash = ?h and txs = "[sample_approval]" and m = sample_tx and p = p2 and acc = "acc 999958"
        and debited = "at [(replicate 20 7, acc 999916), (replicate 20 5, to 42)]"
        and paid = "at [(replicate 20 7, acc 999916), (replicate 20 5, to 84)]"])
      (simp_all add: l1_def hash left found acc pay get comm sample_tx_kind)
  have "GetBalance (at ((replicate 20 7, acc b) # (replicate 20 5, to c) # xs)) (replicate 20 5) = c"
    "GetBalance (at ((replicate 20 7, acc b) # xs)) (replicate 20 7) = b" for b c xs
    by (simp_all add: GetBalance_def at_def mget_def ne acc to)
  then show ?thesis using run1 run2 by (simp add: l1_def)
qed

subsection \<open>Escrow settlement\<close>

text \<open>The policy of an account, which settling does not change: its delay and its number of signers.\<close>

definition policy :: "AccountsType \<Rightarrow> bytes \<Rightarrow> int64 \<times> byte" where
  "policy at k = (let acc = mget zero_Account (AllAccounts at) k in (acc_TransactionDelay acc, acc_MultiSignNumber acc))"

definition escrow_waits :: "int64 \<Rightarrow> AccountsType \<Rightarrow> Transaction \<Rightarrow> bool" where
  "escrow_waits h at t \<longleftrightarrow> delegated_account t \<noteq> Inr None \<or>
     (let delay = fst (policy at (tx_sender t)) in
      sint delay > 0 \<and> sint (tx_Height t + delay) > sint h \<and> MultiSignTx (tx_TxParam t) = ZerosHash)"

text \<open>The accounts can pay for a list of held transactions: each sender for all of its own, and no balance
  overflows whatever it receives.\<close>

definition outgoing :: "bytes \<Rightarrow> Transaction list \<Rightarrow> int" where
  "outgoing k ts = sum_list (map (\<lambda>t. if tx_sender t = k then sint (Amount (tx_TxData t)) else 0) ts)"

definition total_amount :: "Transaction list \<Rightarrow> int" where
  "total_amount ts = sum_list (map (\<lambda>t. sint (Amount (tx_TxData t))) ts)"

definition payable :: "AccountsType \<Rightarrow> Transaction list \<Rightarrow> bool" where
  "payable at ts \<longleftrightarrow>
     (\<forall>t \<in> set ts. (\<exists>n. delegated_account t = Inr n) \<and> 0 \<le> sint (Amount (tx_TxData t)) \<and> length (tx_sender t) = AddressLength \<and>
        map_of (AllAccounts at) (tx_sender t) \<noteq> None) \<and>
     (\<forall>k. outgoing k ts \<le> sint (GetBalance at k) \<and> sint (GetBalance at k) + total_amount ts < 2 ^ 63)"

text \<open>Accounts after a step: the same policies and no account lost.\<close>

definition same_policies :: "AccountsType \<Rightarrow> AccountsType \<Rightarrow> bool" where
  "same_policies at at' \<longleftrightarrow> policy at' = policy at \<and> dom (map_of (AllAccounts at)) \<subseteq> dom (map_of (AllAccounts at'))"

lemma same_policies_put:
  assumes "acc_TransactionDelay acc = fst (policy at k)" "acc_MultiSignNumber acc = snd (policy at k)"
  shows "same_policies at (put_account k acc at)"
  using assms by (auto simp: same_policies_def policy_def put_account_def mget_def Let_def fun_eq_iff)

lemma same_policies_trans: "same_policies a b \<Longrightarrow> same_policies b c \<Longrightarrow> same_policies a c"
  by (auto simp: same_policies_def)

lemma AddBalance_succeeds:
  assumes "0 \<le> sint (GetBalance at k) + sint d" "sint (GetBalance at k) + sint d < 2 ^ 63"
  obtains at' where "AddBalance k d at = (None, at')" "same_policies at at'" "GetBalance at' = (GetBalance at)(k := GetBalance at k + d)"
proof -
  define acc where "acc = (case map_of (AllAccounts at) k of Some acc \<Rightarrow> acc | None \<Rightarrow> zero_Account\<lparr>acc_Address := k\<rparr>)"
  define at1 where "at1 = (case map_of (AllAccounts at) k of Some acc \<Rightarrow> at | None \<Rightarrow> put_account k acc at)"
  have acc: "acc_Balance acc = GetBalance at k" "acc_TransactionDelay acc = fst (policy at k)" "acc_MultiSignNumber acc = snd (policy at k)"
    by (auto simp: acc_def GetBalance_def policy_def mget_def Let_def split: option.split)
  have at1: "same_policies at at1" "GetBalance at1 = GetBalance at" "policy at1 = policy at"
    using same_policies_put [OF acc(2,3)] acc(1)
    by (auto simp: at1_def same_policies_def GetBalance_def put_account_def mget_def fun_eq_iff split: option.split)
  have "sint (GetBalance at k + d) = sint (GetBalance at k) + sint d"
    using assms by (intro sint_add64) simp_all
  then have "AddBalance k d at = (None, put_account k (acc\<lparr>acc_Balance := acc_Balance acc + d\<rparr>) at1)"
    using AddBalance_form [OF acc_def at1_def, of d] assms(1) acc(1) by simp
  moreover have "same_policies at (put_account k (acc\<lparr>acc_Balance := acc_Balance acc + d\<rparr>) at1)"
    using at1(3) acc(2,3) by (intro same_policies_trans [OF at1(1) same_policies_put]) simp_all
  moreover have "GetBalance (put_account k (acc\<lparr>acc_Balance := acc_Balance acc + d\<rparr>) at1) = (GetBalance at)(k := GetBalance at k + d)"
    using at1(2) acc(1) by (auto simp: GetBalance_def put_account_def mget_def fun_eq_iff)
  ultimately show thesis using that by blast
qed

text \<open>The transfers of a payable list succeed one after the other.\<close>

lemma payableD:
  assumes "payable at ts"
  shows "t \<in> set ts \<Longrightarrow> \<exists>n. delegated_account t = Inr n" "t \<in> set ts \<Longrightarrow> 0 \<le> sint (Amount (tx_TxData t))"
    "t \<in> set ts \<Longrightarrow> length (tx_sender t) = AddressLength" "t \<in> set ts \<Longrightarrow> map_of (AllAccounts at) (tx_sender t) \<noteq> None"
    "outgoing k ts \<le> sint (GetBalance at k)" "sint (GetBalance at k) + total_amount ts < 2 ^ 63"
  using assms unfolding payable_def by blast+

lemma outgoing_le:
  assumes "\<And>t. t \<in> set ts \<Longrightarrow> 0 \<le> sint (Amount (tx_TxData t))"
  shows "0 \<le> outgoing k ts" "outgoing k ts \<le> total_amount ts" "0 \<le> total_amount ts"
  using assms by (induction ts) (auto simp: outgoing_def total_amount_def, fastforce+)

lemma payable_rest:
  assumes "payable at (t # ts)" "same_policies at at'"
    "\<And>k. outgoing k ts \<le> sint (GetBalance at' k) \<and> sint (GetBalance at' k) + total_amount ts < 2 ^ 63"
  shows "payable at' ts"
  unfolding payable_def
proof (intro conjI ballI allI)
  fix u assume u: "u \<in> set ts"
  then show "\<exists>n. delegated_account u = Inr n" "0 \<le> sint (Amount (tx_TxData u))" "length (tx_sender u) = AddressLength"
    using payableD(1-3) [OF assms(1), of u] by simp_all
  have "map_of (AllAccounts at) (tx_sender u) \<noteq> None"
    using u by (intro payableD(4) [OF assms(1)]) simp
  then show "map_of (AllAccounts at') (tx_sender u) \<noteq> None"
    using assms(2) by (auto simp: same_policies_def dom_def)
qed (use assms(3) in blast)+

lemma payable_skip:
  assumes "payable at (t # ts)" "GetBalance at' = GetBalance at" "same_policies at at'"
  shows "payable at' ts"
proof (rule payable_rest [OF assms(1,3)])
  fix k
  have "0 \<le> sint (Amount (tx_TxData t))" by (rule payableD(2) [OF assms(1)]) simp
  then have "outgoing k ts \<le> outgoing k (t # ts)" "total_amount ts \<le> total_amount (t # ts)"
    by (simp_all add: outgoing_def total_amount_def)
  then show "outgoing k ts \<le> sint (GetBalance at' k) \<and> sint (GetBalance at' k) + total_amount ts < 2 ^ 63"
    using payableD(5,6) [OF assms(1), of k] unfolding assms(2) by linarith
qed

lemma move_succeeds:
  assumes "payable at (t # ts)"
  obtains at1 at2 where "AddBalance (tx_sender t) (- Amount (tx_TxData t)) at = (None, at1)"
    "AddBalance (addr_ByteValue (Recipient (tx_TxData t))) (Amount (tx_TxData t)) at1 = (None, at2)"
    "same_policies at at2" "payable at2 ts"
proof -
  let ?s = "tx_sender t" and ?r = "addr_ByteValue (Recipient (tx_TxData t))" and ?a = "Amount (tx_TxData t)"
  have pos: "0 \<le> sint (Amount (tx_TxData u))" if "u \<in> set (t # ts)" for u
    using payableD(2) [OF assms that] .
  have a: "0 \<le> sint ?a" "sint ?a < 2 ^ 63" using pos [of t] sint_range64 [of ?a] by simp_all
  then have neg: "sint (- ?a) = - sint ?a" using sint_diff64 [of 0 ?a] by simp
  have rest: "0 \<le> outgoing k ts" "outgoing k ts \<le> total_amount ts" "0 \<le> total_amount ts" for k
    using outgoing_le [of ts] pos by simp_all
  have sum: "outgoing k (t # ts) = (if ?s = k then sint ?a else 0) + outgoing k ts" "total_amount (t # ts) = sint ?a + total_amount ts" for k
    by (simp_all add: outgoing_def total_amount_def)
  have bal: "outgoing k (t # ts) \<le> sint (GetBalance at k)" "sint (GetBalance at k) + total_amount (t # ts) < 2 ^ 63" for k
    using payableD(5,6) [OF assms] by blast+
  have "0 \<le> sint (GetBalance at ?s) - sint ?a"
    using bal(1) [of ?s] sum(1) [of ?s] rest(1) [of ?s] by simp
  moreover have "sint (GetBalance at ?s) - sint ?a < 2 ^ 63"
    using a sint_range64(2) [of "GetBalance at ?s"] by linarith
  ultimately obtain at1 where at1: "AddBalance ?s (- ?a) at = (None, at1)" "same_policies at at1"
      "GetBalance at1 = (GetBalance at)(?s := GetBalance at ?s - ?a)"
    using AddBalance_succeeds [of at ?s "- ?a"] neg by auto
  have b1: "sint (GetBalance at1 k) = sint (GetBalance at k) - (if k = ?s then sint ?a else 0)" for k
    using \<open>0 \<le> sint (GetBalance at ?s) - sint ?a\<close> \<open>sint (GetBalance at ?s) - sint ?a < 2 ^ 63\<close> by (simp add: at1(3) sint_diff64)
  have up: "0 \<le> sint (GetBalance at1 ?r) + sint ?a" "sint (GetBalance at1 ?r) + sint ?a < 2 ^ 63"
    using b1 [of ?r] bal [of ?r] sum(1) [of ?r] sum(2) rest(1,2) [of ?r] rest(3) a by (simp_all split: if_splits)
  then obtain at2 where at2: "AddBalance ?r ?a at1 = (None, at2)" "same_policies at1 at2"
      "GetBalance at2 = (GetBalance at1)(?r := GetBalance at1 ?r + ?a)"
    using AddBalance_succeeds by blast
  have b2: "sint (GetBalance at2 k) = sint (GetBalance at1 k) + (if k = ?r then sint ?a else 0)" for k
    using up by (simp add: at2(3) sint_add64)
  have "payable at2 ts"
  proof (rule payable_rest [OF assms same_policies_trans [OF at1(2) at2(2)]])
    fix k show "outgoing k ts \<le> sint (GetBalance at2 k) \<and> sint (GetBalance at2 k) + total_amount ts < 2 ^ 63"
      using b1 [of k] b2 [of k] bal [of k] sum(1) [of k] sum(2) a by (auto split: if_splits)
  qed
  then show thesis
    using that at1(1) at2(1) same_policies_trans [OF at1(2) at2(2)] by blast
qed

text \<open>One held transaction: it stays when it waits, and leaves the pool when it is settled.\<close>

lemma settle_escrow_step:
  assumes "payable (lg_Accounts l) (t # ts)"
  obtains l' where "settle_escrow cr h t l = (None, l')" "payable (lg_Accounts l') ts" "same_policies (lg_Accounts l) (lg_Accounts l')"
    "escrow_waits h (lg_Accounts l) t \<Longrightarrow> l' = l"
    "PoolTxEscrow (lg_Pools l') \<in> {PoolTxEscrow (lg_Pools l), RemoveTransactionByHash (tx_Hash t) (PoolTxEscrow (lg_Pools l))}"
    "\<not> escrow_waits h (lg_Accounts l) t \<Longrightarrow> snd (policy (lg_Accounts l) (tx_sender t)) = 0 \<Longrightarrow>
       PoolTxEscrow (lg_Pools l') = RemoveTransactionByHash (tx_Hash t) (PoolTxEscrow (lg_Pools l))"
proof -
  let ?at = "lg_Accounts l"
  obtain acc where acc: "map_of (AllAccounts ?at) (tx_sender t) = Some acc"
    using payableD(4) [OF assms, of t] by auto
  have get: "GetAccountByAddressBytes ?at (addr_ByteValue (GetSenderAddress t)) = Some acc" "addr_ByteValue (GetSenderAddress t) = tx_sender t"
    using acc payableD(3) [OF assms, of t] by (simp_all add: GetAccountByAddressBytes_def GetSenderAddress_def)
  have pol: "policy ?at (tx_sender t) = (acc_TransactionDelay acc, acc_MultiSignNumber acc)"
    using acc by (simp add: policy_def mget_def Let_def)
  have esc: "PoolTxEscrow (snd (AddMultiSignTransaction u p)) = PoolTxEscrow p" for u p
    by (simp add: AddMultiSignTransaction_def Let_def split: prod.split)
  have refl: "same_policies ?at ?at" by (simp add: same_policies_def)
  have run: "settle_escrow cr h t l =
      (if unat (acc_MultiSignNumber acc) > 0 \<and> MultiSignTx (tx_TxParam t) = ZerosHash then
         on_pools (\<lambda>p. let (added, p) = AddMultiSignTransaction t p in if added then RemoveEscrowTransaction (tx_Hash t) p else p) l
       else if IsCommitmentRegistration t then
         steps [settleCommitment t h, on_pools (RemoveEscrowTransaction (tx_Hash t))] l
       else steps [
         (if MultiSignTx (tx_TxParam t) \<noteq> ZerosHash then on_pools (\<lambda>p. snd (AddMultiSignTransaction t p)) else (\<lambda>l. (None, l))),
         move_settled cr t, on_pools (RemoveEscrowTransaction (tx_Hash t))] l)" if "\<not> escrow_waits h ?at t"
    using that get pol by (auto simp: settle_escrow_def escrow_waits_def Let_def)
  consider (waits) "escrow_waits h ?at t" | (multi) "\<not> escrow_waits h ?at t" "unat (acc_MultiSignNumber acc) > 0 \<and> MultiSignTx (tx_TxParam t) = ZerosHash"
    | (commit) "\<not> escrow_waits h ?at t" "\<not> (unat (acc_MultiSignNumber acc) > 0 \<and> MultiSignTx (tx_TxParam t) = ZerosHash)" "IsCommitmentRegistration t"
    | (pay) "\<not> escrow_waits h ?at t" "\<not> (unat (acc_MultiSignNumber acc) > 0 \<and> MultiSignTx (tx_TxParam t) = ZerosHash)" "\<not> IsCommitmentRegistration t"
    by metis
  then show thesis
  proof cases
    case waits
    then have "settle_escrow cr h t l = (None, l)"
      using payableD(1) [OF assms, of t] get pol by (auto simp: settle_escrow_def escrow_waits_def Let_def split: option.splits)
    then show thesis using that [of l] waits refl payable_skip [OF assms] by simp
  next
    case multi
    define l' where "l' = l\<lparr>lg_Pools := (let (added, p) = AddMultiSignTransaction t (lg_Pools l) in if added then RemoveEscrowTransaction (tx_Hash t) p else p)\<rparr>"
    have "settle_escrow cr h t l = (None, l')"
      using run [OF multi(1)] multi(2) by (simp add: on_pools_def l'_def)
    moreover have "PoolTxEscrow (lg_Pools l') \<in> {PoolTxEscrow (lg_Pools l), RemoveTransactionByHash (tx_Hash t) (PoolTxEscrow (lg_Pools l))}"
      using esc [of t "lg_Pools l"] by (auto simp: l'_def split: prod.split)
    moreover have "lg_Accounts l' = ?at" by (simp add: l'_def)
    moreover have "acc_MultiSignNumber acc \<noteq> 0" using multi(2) by auto
    ultimately show thesis using that [of l'] multi pol refl payable_skip [OF assms] by (simp del: insert_iff)
  next
    case commit
    obtain sp rc where c: "CommitmentValues t = (sp, rc)" by fastforce
    define at' where "at' = put_account (tx_sender t) (SetCommitments acc sp rc h) ?at"
    define l' where "l' = l\<lparr>lg_Accounts := at', lg_Pools := RemoveEscrowTransaction (tx_Hash t) (lg_Pools l)\<rparr>"
    have "settle_escrow cr h t l = (None, l')"
      using run [OF commit(1)] commit(2,3) acc get(2)
      by (simp add: settleCommitment_def c on_accounts_def on_pools_def SetAccountCommitments_def then_ok_def l'_def at'_def)
    moreover have "same_policies ?at at'"
      unfolding at'_def by (rule same_policies_put) (simp_all add: pol SetCommitments_def promoteMatured_def)
    moreover have "GetBalance at' = GetBalance ?at"
      using acc by (auto simp: at'_def GetBalance_def put_account_def mget_def fun_eq_iff commitments_fields)
    ultimately show thesis
      using that [of l'] commit(1) payable_skip [OF assms] by (simp add: l'_def)
  next
    case pay
    obtain at1 at2 where mv: "AddBalance (tx_sender t) (- Amount (tx_TxData t)) ?at = (None, at1)"
      "AddBalance (addr_ByteValue (Recipient (tx_TxData t))) (Amount (tx_TxData t)) at1 = (None, at2)" "same_policies ?at at2" "payable at2 ts"
      by (rule move_succeeds [OF assms])
    define p where "p = (if MultiSignTx (tx_TxParam t) \<noteq> ZerosHash then snd (AddMultiSignTransaction t (lg_Pools l)) else lg_Pools l)"
    define l' where "l' = l\<lparr>lg_Accounts := at2, lg_Pools := RemoveEscrowTransaction (tx_Hash t) p\<rparr>"
    have "settle_escrow cr h t l = (None, l')"
      using run [OF pay(1)] pay(2,3) mv(1,2) get(2)
      by (simp add: move_settled_def on_accounts_def on_pools_def then_ok_def l'_def p_def)
    moreover have "PoolTxEscrow p = PoolTxEscrow (lg_Pools l)" by (simp add: p_def esc)
    ultimately show thesis
      using that [of l'] pay(1) mv(3,4) by (simp add: l'_def)
  qed
qed

lemma Remove_transactions:
  assumes "wf_pool tp" "length hash = HashLength"
  shows "map_of (transactions (RemoveTransactionByHash hash tp)) = (map_of (transactions tp))(hash := None)"
proof -
  have h: "GetHashFromBytes hash = hash"
    using assms(2) by (simp add: GetHashFromBytes_def Hash_Set_def EmptyHash_def)
  have core: "pool_core tp" using assms(1) by (simp add: wf_pool_def)
  show ?thesis
  proof (cases "map_of (items tp) hash")
    case None
    then show ?thesis
      using RemoveTransactionByHash_absent [of tp hash] pool_coreD(9) [OF core, of hash] by (auto simp: h fun_eq_iff)
  next
    case (Some it)
    then show ?thesis
      using without_transactions [OF RemoveTransactionByHash_present [of tp hash it]] by (simp add: h)
  qed
qed

lemma escrow_waits_cong: "same_policies at at' \<Longrightarrow> escrow_waits h at' t = escrow_waits h at t"
  by (simp add: escrow_waits_def same_policies_def)

lemma settle_escrow_all:
  assumes "payable (lg_Accounts l) ts" "wf_pool (PoolTxEscrow (lg_Pools l))" "\<forall>t \<in> set ts. length (tx_Hash t) = HashLength"
  shows "\<exists>l'. steps (map (settle_escrow cr h) ts) l = (None, l') \<and>
    (\<forall>k. (\<forall>t \<in> set ts. tx_Hash t = k \<longrightarrow> escrow_waits h (lg_Accounts l) t) \<longrightarrow>
       map_of (transactions (PoolTxEscrow (lg_Pools l'))) k = map_of (transactions (PoolTxEscrow (lg_Pools l))) k) \<and>
    (\<forall>t \<in> set ts. \<not> escrow_waits h (lg_Accounts l) t \<and> snd (policy (lg_Accounts l) (tx_sender t)) = 0 \<longrightarrow>
       map_of (transactions (PoolTxEscrow (lg_Pools l'))) (tx_Hash t) = None) \<and>
    map_of (transactions (PoolTxEscrow (lg_Pools l'))) \<subseteq>\<^sub>m map_of (transactions (PoolTxEscrow (lg_Pools l)))"
  using assms
proof (induction ts arbitrary: l)
  case Nil
  then show ?case by simp
next
  case (Cons t ts)
  let ?at = "lg_Accounts l" and ?m = "\<lambda>l. map_of (transactions (PoolTxEscrow (lg_Pools l)))"
  obtain l1 where l1: "settle_escrow cr h t l = (None, l1)" "payable (lg_Accounts l1) ts" "same_policies ?at (lg_Accounts l1)"
    "escrow_waits h ?at t \<Longrightarrow> l1 = l"
    "PoolTxEscrow (lg_Pools l1) \<in> {PoolTxEscrow (lg_Pools l), RemoveTransactionByHash (tx_Hash t) (PoolTxEscrow (lg_Pools l))}"
    "\<not> escrow_waits h ?at t \<Longrightarrow> snd (policy ?at (tx_sender t)) = 0 \<Longrightarrow>
       PoolTxEscrow (lg_Pools l1) = RemoveTransactionByHash (tx_Hash t) (PoolTxEscrow (lg_Pools l))"
    using settle_escrow_step [OF Cons.prems(1), of cr h] by metis
  have wf1: "wf_pool (PoolTxEscrow (lg_Pools l1))"
    using l1(5) Cons.prems(2) RemoveTransactionByHash_wf by auto
  have rem: "map_of (transactions (RemoveTransactionByHash (tx_Hash t) (PoolTxEscrow (lg_Pools l)))) = (?m l)(tx_Hash t := None)"
    using Cons.prems(2,3) by (intro Remove_transactions) simp_all
  have m1: "?m l1 = ?m l \<or> ?m l1 = (?m l)(tx_Hash t := None)" using l1(5) rem by auto
  have pol: "policy (lg_Accounts l1) = policy ?at" using l1(3) by (simp add: same_policies_def)
  have hashes: "\<forall>t \<in> set ts. length (tx_Hash t) = HashLength" using Cons.prems(3) by simp
  from Cons.IH [OF l1(2) wf1 hashes, unfolded escrow_waits_cong [OF l1(3)] pol] obtain l' where
    l': "steps (map (settle_escrow cr h) ts) l1 = (None, l')"
      "\<And>k. \<forall>t \<in> set ts. tx_Hash t = k \<longrightarrow> escrow_waits h ?at t \<Longrightarrow> ?m l' k = ?m l1 k"
      "\<And>t. t \<in> set ts \<Longrightarrow> \<not> escrow_waits h ?at t \<and> snd (policy ?at (tx_sender t)) = 0 \<Longrightarrow> ?m l' (tx_Hash t) = None"
      "?m l' \<subseteq>\<^sub>m ?m l1"
    by blast
  have sub: "?m l' \<subseteq>\<^sub>m ?m l"
    using l'(4) m1 by (auto simp: map_le_def dom_def split: if_splits)
  have "?m l' k = ?m l k" if "\<forall>u \<in> set (t # ts). tx_Hash u = k \<longrightarrow> escrow_waits h ?at u" for k
    using l'(2) [of k] that m1 l1(4) by auto
  moreover have "?m l' (tx_Hash u) = None" if u: "u \<in> set (t # ts)" "\<not> escrow_waits h ?at u \<and> snd (policy ?at (tx_sender u)) = 0" for u
  proof (cases "u = t")
    case True
    then have "?m l1 (tx_Hash u) = None" using l1(6) u rem by simp
    then show ?thesis using l'(4) by (metis domIff map_le_def)
  qed (use l'(3) u in simp)
  moreover have "steps (map (settle_escrow cr h) (t # ts)) l = (None, l')"
    using l1(1) l'(1) by (simp add: then_ok_def)
  ultimately show ?case using sub by blast
qed

text \<open>C14: Escrow transfers settle, on time and none early. Take a block at height \<open>h\<close> and an escrow pool whose
  due entries the accounts can pay for. Then \<open>ProcessTransactionsEscrow\<close> succeeds, and afterwards an entry
  that was due is still in the pool exactly when it has to wait: its sender's delay has not passed since
  the block that took it, or it is for a delegated account, which settles elsewhere. Entries that are not
  due stay. Entries of senders that also need signatures are left out, as they move to another pool.\<close>

theorem escrow_settles_on_time:
  assumes "wf_pool (PoolTxEscrow (lg_Pools l))" "typePool (PoolTxEscrow (lg_Pools l)) = 1"
    "maxTransactions (PoolTxEscrow (lg_Pools l)) \<le> MaxTransactionInPool"
    "\<forall>k it. map_of (items (PoolTxEscrow (lg_Pools l))) k = Some it \<longrightarrow> length k = HashLength"
    "payable (lg_Accounts l) (PeekTransactions (PoolTxEscrow (lg_Pools l)) MaxTransactionInPool h)"
  shows "\<exists>l'. ProcessTransactionsEscrow cr h l = (None, l') \<and>
    (\<forall>k it. map_of (items (PoolTxEscrow (lg_Pools l))) k = Some it \<and> snd (policy (lg_Accounts l) (tx_sender (it_Transaction it))) = 0 \<longrightarrow>
       GetTransactionByHash (PoolTxEscrow (lg_Pools l')) k =
         (if sint (it_priority it) \<le> sint h \<and> \<not> escrow_waits h (lg_Accounts l) (it_Transaction it) then None else Some (it_Transaction it)))"
proof -
  let ?tp = "PoolTxEscrow (lg_Pools l)" and ?at = "lg_Accounts l"
  define txs where "txs = PeekTransactions ?tp MaxTransactionInPool h"
  have core: "pool_core ?tp" using assms(1) by (simp add: wf_pool_def)
  have "mset txs = mset (map it_Transaction (filter (due ?tp h) (map snd (items ?tp))))"
    unfolding txs_def by (rule peek_settlement [OF assms(1)]) (use assms(1-3) in \<open>simp_all add: wf_pool_def\<close>)
  from mset_eq_setD [OF this] have txs: "set txs = it_Transaction ` {it \<in> snd ` set (items ?tp). sint (it_priority it) \<le> sint h}"
    using assms(2) by (auto simp: due_def)
  have mem: "it \<in> snd ` set (items ?tp) \<longleftrightarrow> (\<exists>k. map_of (items ?tp) k = Some it)" for it
    using pool_item_mem [OF core] pool_coreD(7) [OF core] by (metis)
  have hash: "tx_Hash (it_Transaction it) = k" "length k = HashLength" if "map_of (items ?tp) k = Some it" for k it
    using pool_coreD(8) [OF core that] assms(4) that by auto
  have "\<forall>t \<in> set txs. length (tx_Hash t) = HashLength"
    using hash by (auto simp: txs mem)
  from settle_escrow_all [OF assms(5) [folded txs_def] assms(1) this, of cr h] obtain l' where
    run: "ProcessTransactionsEscrow cr h l = (None, l')" and
    stay: "\<And>k. \<forall>t \<in> set txs. tx_Hash t = k \<longrightarrow> escrow_waits h ?at t \<Longrightarrow>
       map_of (transactions (PoolTxEscrow (lg_Pools l'))) k = map_of (transactions ?tp) k" and
    gone: "\<And>t. t \<in> set txs \<Longrightarrow> \<not> escrow_waits h ?at t \<and> snd (policy ?at (tx_sender t)) = 0 \<Longrightarrow>
       map_of (transactions (PoolTxEscrow (lg_Pools l'))) (tx_Hash t) = None"
    unfolding ProcessTransactionsEscrow_def Let_def txs_def [symmetric] by blast
  have "GetTransactionByHash (PoolTxEscrow (lg_Pools l')) k =
      (if sint (it_priority it) \<le> sint h \<and> \<not> escrow_waits h ?at (it_Transaction it) then None else Some (it_Transaction it))"
    if it: "map_of (items ?tp) k = Some it" "snd (policy ?at (tx_sender (it_Transaction it))) = 0" for k it
  proof -
    have k: "GetHashFromBytes k = k"
      using hash(2) [OF it(1)] by (simp add: GetHashFromBytes_def Hash_Set_def EmptyHash_def)
    have old: "map_of (transactions ?tp) k = Some (it_Transaction it)"
      using pool_coreD(9) [OF core, of k] it(1) by simp
    show ?thesis
    proof (cases "sint (it_priority it) \<le> sint h \<and> \<not> escrow_waits h ?at (it_Transaction it)")
      case True
      then have "it_Transaction it \<in> set txs" using it(1) by (auto simp: txs mem)
      from gone [OF this] True it hash(1) [OF it(1)] show ?thesis by (simp add: GetTransactionByHash_def k)
    next
      case False
      have "\<forall>t \<in> set txs. tx_Hash t = k \<longrightarrow> escrow_waits h ?at t"
        using False hash it(1) by (auto simp: txs mem)
      from stay [OF this] False old show ?thesis by (auto simp: GetTransactionByHash_def k)
    qed
  qed
  with run show ?thesis by blast
qed

text \<open>A transfer of an account with a delay of three blocks, held since block 77: it waits in block 79 and
  settles in block 80.\<close>

definition sample_escrow :: Ledger where
  "sample_escrow = sample_ledger\<lparr>
     lg_Accounts := (lg_Accounts sample_ledger)\<lparr>AllAccounts := [(replicate 20 7, zero_Account\<lparr>acc_Address := replicate 20 7,
       acc_Balance := 1000000, acc_TransactionDelay := 3\<rparr>)]\<rparr>,
     lg_Pools := snd (AddEscrowTransaction sample_tx (lg_Pools sample_ledger))\<rparr>"

lemma sample_escrow_pool:
  "wf_pool (PoolTxEscrow (lg_Pools sample_escrow))" "typePool (PoolTxEscrow (lg_Pools sample_escrow)) = 1"
  "maxTransactions (PoolTxEscrow (lg_Pools sample_escrow)) = 5"
  "items (PoolTxEscrow (lg_Pools sample_escrow)) = [(replicate 32 9, NewItem sample_tx 77)]"
  "length (transactions (PoolTxEscrow (lg_Pools sample_escrow))) = 1"
proof -
  let ?p0 = "NewTransactionPool 5 1"
  have h: "tx_Hash sample_tx = replicate 32 9" by (simp add: sample_tx_def)
  have one: "AddTransaction sample_tx (replicate 32 9) ?p0 = (True, with_new sample_tx 77 ?p0)"
    by (rule AddTransaction_room) (simp_all add: NewTransactionPool_wf banned_def item_priority_def, simp_all add: NewTransactionPool_def sample_tx_def zero_TxData_def)
  have p: "PoolTxEscrow (lg_Pools sample_escrow) = with_new sample_tx 77 ?p0"
    using one by (simp add: sample_escrow_def AddEscrowTransaction_def sample_ledger_def sample_pools_def h Let_def)
  have "wf_pool (with_new sample_tx 77 ?p0)"
    using AddTransaction_wf [of ?p0 sample_tx "replicate 32 9"] one by (simp add: NewTransactionPool_wf)
  then show "wf_pool (PoolTxEscrow (lg_Pools sample_escrow))" "typePool (PoolTxEscrow (lg_Pools sample_escrow)) = 1"
    "maxTransactions (PoolTxEscrow (lg_Pools sample_escrow)) = 5"
    "items (PoolTxEscrow (lg_Pools sample_escrow)) = [(replicate 32 9, NewItem sample_tx 77)]"
    "length (transactions (PoolTxEscrow (lg_Pools sample_escrow))) = 1"
    unfolding p by (simp_all add: h) (simp_all add: NewTransactionPool_def with_new_def)
qed

theorem escrow_settles_on_time_witness:
  "\<exists>l1 l2. ProcessTransactionsEscrow sample_crypto 79 sample_escrow = (None, l1) \<and>
     ProcessTransactionsEscrow sample_crypto 80 sample_escrow = (None, l2) \<and>
     GetTransactionByHash (PoolTxEscrow (lg_Pools l1)) (replicate 32 9) = Some sample_tx \<and>
     GetTransactionByHash (PoolTxEscrow (lg_Pools l2)) (replicate 32 9) = None"
proof -
  let ?at = "lg_Accounts sample_escrow"
  have tx: "tx_sender sample_tx = replicate 20 7" "Amount (tx_TxData sample_tx) = 42" "tx_Height sample_tx = 77"
    "MultiSignTx (tx_TxParam sample_tx) = ZerosHash"
    by (simp_all add: sample_tx_def sample_addr_def)
  have accs: "AllAccounts ?at = [(replicate 20 7, zero_Account\<lparr>acc_Address := replicate 20 7, acc_Balance := 1000000, acc_TransactionDelay := 3\<rparr>)]"
    by (simp add: sample_escrow_def)
  have pol: "policy ?at (replicate 20 7) = (3, 0)"
    by (simp add: policy_def accs mget_def zero_Account_def)
  have "PeekTransactions (PoolTxEscrow (lg_Pools sample_escrow)) MaxTransactionInPool h = [sample_tx]" if "77 \<le> sint h" for h
    using peek_settlement [OF sample_escrow_pool(1), of MaxTransactionInPool h] sample_escrow_pool(2,4,5) that
    by (simp add: due_def NewItem_def)
  moreover have "payable ?at [sample_tx]"
    by (simp add: payable_def sample_tx_kind tx accs outgoing_def total_amount_def GetBalance_def mget_def zero_Account_def)
  ultimately have ready: "payable ?at (PeekTransactions (PoolTxEscrow (lg_Pools sample_escrow)) MaxTransactionInPool h)" if "77 \<le> sint h" for h
    using that by simp
  have waits: "escrow_waits 79 ?at sample_tx" "\<not> escrow_waits 80 ?at sample_tx"
    by (simp_all add: escrow_waits_def sample_tx_kind tx pol)
  have "\<forall>k it. map_of (items (PoolTxEscrow (lg_Pools sample_escrow))) k = Some it \<longrightarrow> length k = HashLength"
    by (simp add: sample_escrow_pool(4))
  note settle = escrow_settles_on_time [OF sample_escrow_pool(1,2) _ this ready, of _ sample_crypto]
  have it: "map_of (items (PoolTxEscrow (lg_Pools sample_escrow))) (replicate 32 9) = Some (NewItem sample_tx 77)"
    "snd (policy ?at (tx_sender (it_Transaction (NewItem sample_tx 77)))) = 0" "it_Transaction (NewItem sample_tx 77) = sample_tx"
    "it_priority (NewItem sample_tx 77) = 77"
    by (simp_all add: sample_escrow_pool(4)) (simp_all add: NewItem_def tx pol)
  have "\<exists>l'. ProcessTransactionsEscrow sample_crypto h sample_escrow = (None, l') \<and>
      GetTransactionByHash (PoolTxEscrow (lg_Pools l')) (replicate 32 9) = (if \<not> escrow_waits h ?at sample_tx then None else Some sample_tx)"
    if h: "77 \<le> sint h" for h
  proof -
    obtain l' where l': "ProcessTransactionsEscrow sample_crypto h sample_escrow = (None, l')"
      and all: "\<And>k it. map_of (items (PoolTxEscrow (lg_Pools sample_escrow))) k = Some it \<Longrightarrow> snd (policy ?at (tx_sender (it_Transaction it))) = 0 \<Longrightarrow>
        GetTransactionByHash (PoolTxEscrow (lg_Pools l')) k =
          (if sint (it_priority it) \<le> sint h \<and> \<not> escrow_waits h ?at (it_Transaction it) then None else Some (it_Transaction it))"
      using settle [OF _ h] sample_escrow_pool(3) by auto
    show ?thesis using l' all [OF it(1,2)] h by (simp add: it(3,4))
  qed
  from this [of 79] this [of 80] show ?thesis using waits by (simp, blast)
qed

end
