(* ===== verification/Verify.thy ===== *)
theory Verify
  imports Ledger
begin

text \<open>
  Who may act for an account: \<open>Transaction.verify\<close> with its rules on shape, gas, locks and policy, the
  reveals of hash-only recovery (\<open>transactionsDefinition/transaction.go\<close>, \<open>recovery.go\<close>) and the signature
  check \<open>Verify\<close> of \<open>wallet/wallet.go\<close>.

  The signature library (liboqs) is a parameter: the public-key length of a scheme, when the library
  knows it, and whether a signature verifies. What the code reads elsewhere is in the record \<open>Chain\<close>:
  the accounts, the key registry, the height, the chain id and the hash functions. \<open>verify\<close> recomputes
  the hash in place and compares it with the one that was there, so a transaction that passes is
  unchanged; the result is \<open>Inl\<close> when the code would panic.
\<close>

subsection \<open>Signatures\<close>

record Oqs =
  oqs_Length :: "string \<Rightarrow> nat option"
  oqs_Verify :: "string \<Rightarrow> bytes \<Rightarrow> bytes \<Rightarrow> bytes \<Rightarrow> bool"

definition oqs_check :: "Oqs \<Rightarrow> string \<Rightarrow> bytes \<Rightarrow> bytes \<Rightarrow> bytes \<Rightarrow> bool" where
  "oqs_check oqs scheme msg sig pubkey =
    (case oqs_Length oqs scheme of
       None \<Rightarrow> False
     | Some len \<Rightarrow> len = length pubkey \<and> oqs_Verify oqs scheme msg sig pubkey)"

text \<open>The names of the schemes in the two slots and whether they are paused, which \<open>GetSigNames\<close> returns and
  the source passes on as four arguments.\<close>

record SigNames =
  sn_Name :: string
  sn_Name2 :: string
  sn_Paused :: bool
  sn_Paused2 :: bool

definition wallet_Verify :: "Oqs \<Rightarrow> bytes \<Rightarrow> bytes \<Rightarrow> bytes \<Rightarrow> SigNames \<Rightarrow> bool" where
  "wallet_Verify oqs msg sig pubkey sn =
    (if length sig < 1 then False
     else if length msg < 1 then False
     else
       let primary = (sig ! 0 = 0); sig = drop 1 sig in
       if primary \<and> \<not> sn_Paused sn then oqs_check oqs (sn_Name sn) msg sig pubkey
       else if \<not> primary \<and> \<not> sn_Paused2 sn then oqs_check oqs (sn_Name2 sn) msg sig pubkey
       else False)"

definition signingSchemeName :: "bool \<Rightarrow> SigNames \<Rightarrow> string" where
  "signingSchemeName primary sn = (if primary then sn_Name sn else sn_Name2 sn)"

subsection \<open>Rules on the shape of a transaction\<close>

record Chain =
  ch_Accounts :: AccountsType
  ch_Keys :: KeyRegistry
  ch_Height :: int64
  ch_ChainID :: int16
  ch_Crypto :: Crypto
  ch_Oqs :: Oqs

datatype txKind = txKindRegular | txKindNonce | txKindGenesis

definition IsKeyRegistration :: "Transaction \<Rightarrow> bool" where
  "IsKeyRegistration tx \<longleftrightarrow>
     length (pk_ByteValue (Pubkey (tx_TxData tx))) > 0 \<and> (isPureRegistration tx \<or> IsCommitmentRegistration tx)"

definition bootstrapBindsKey :: "Address \<Rightarrow> Address \<Rightarrow> bool" where
  "bootstrapBindsKey pkAddr senderAddr \<longleftrightarrow> addr_ByteValue pkAddr = addr_ByteValue senderAddr"

definition keyNamesSender :: "Address \<Rightarrow> Address \<Rightarrow> bool" where
  "keyNamesSender pkMainAddress senderAddr \<longleftrightarrow> addr_ByteValue pkMainAddress = addr_ByteValue senderAddr"

definition recoveryHeight :: "Chain \<Rightarrow> int64 \<Rightarrow> int64" where
  "recoveryHeight ch asOf = (if asOf = NoHeightLimit then ch_Height ch + 1 else asOf + 1)"

definition hasSpareCover :: "Chain \<Rightarrow> Address \<Rightarrow> int64 \<Rightarrow> bool" where
  "hasSpareCover ch ident asOf \<longleftrightarrow>
    (case GetAccountByAddressBytes (ch_Accounts ch) (addr_ByteValue ident) of
       Some acc \<Rightarrow> acc_SpareCommit acc \<noteq> zeroCommit \<or> acc_SparePendingCommit acc \<noteq> zeroCommit
     | None \<Rightarrow> False) \<or> HasOperatorKeysAsOf (ch_Keys ch) ident asOf"

definition isCommittedSpare :: "Chain \<Rightarrow> Address \<Rightarrow> Address \<Rightarrow> int64 \<Rightarrow> bool" where
  "isCommittedSpare ch ident keyAddr asOf =
    (case GetAccountByAddressBytes (ch_Accounts ch) (addr_ByteValue ident) of
       None \<Rightarrow> False
     | Some acc \<Rightarrow>
         let spare = EffectiveSpareCommit acc (recoveryHeight ch asOf)
         in spare \<noteq> zeroCommit \<and> spare = addr_ByteValue keyAddr)"

text \<open>The checks of \<open>verify\<close> before the hash is recomputed, in their order.\<close>

definition kind_ok :: "txKind \<Rightarrow> Transaction \<Rightarrow> bool" where
  "kind_ok kind tx =
    (let n = delegated_id (Recipient (tx_TxData tx)) in
     case kind of
       txKindNonce \<Rightarrow> \<not> (n \<le> 0 \<or> n \<ge> 256 \<or> Amount (tx_TxData tx) \<noteq> 0)
     | txKindGenesis \<Rightarrow> tx_Height tx = 0
     | txKindRegular \<Rightarrow> True)"

definition gas_ok :: "Transaction \<Rightarrow> bool" where
  "gas_ok tx \<longleftrightarrow> sint (GasPrice tx) > 0 \<and> sint (GasUsage tx) \<ge> sint (MinGasUsage tx) \<and>
     sint (GasUsage tx) \<le> sint MaxGasUsage \<and> sint (GasPrice tx) \<le> sint MaxGasPrice"

definition lock_ok :: "Transaction \<Rightarrow> bool" where
  "lock_ok tx =
    (let d = tx_TxData tx; locked = td_LockedAmount d in
     if sint locked > 0 then
       (case IntDelegatedAccountFromAddress (DelegatedAccountForLocking d) of
          Inl _ \<Rightarrow> False
        | Inr n \<Rightarrow> \<not> n < 0 \<and> \<not> n > 256 \<and> \<not> sint locked < 0 \<and> \<not> sint locked > sint (Amount d) \<and>
            \<not> sint (td_ReleasePerBlock d) < 0 \<and> \<not> sint (td_ReleasePerBlock d) > sint locked)
     else True)"

definition policy_ok :: "AccountsType \<Rightarrow> Transaction \<Rightarrow> bool" where
  "policy_ok at tx =
    (let d = tx_TxData tx; escrow = sint (EscrowTransactionsDelay d) > 0; multi = unat (td_MultiSignNumber d) > 0 in
     \<not> ((escrow \<or> multi) \<and> addr_ByteValue (Recipient d) \<noteq> addr_ByteValue (Sender (tx_TxParam tx))) \<and>
     \<not> (\<not> CanBeModifiedAccount at (addr_ByteValue (Recipient d)) \<and> (escrow \<or> multi)) \<and>
     (if escrow then \<not> sint (EscrowTransactionsDelay d) > sint MaxTransactionDelay
      else \<not> sint (EscrowTransactionsDelay d) < 0) \<and>
     \<not> (multi \<and> unat (td_MultiSignNumber d) > length (td_MultiSignAddresses d)))"

definition dex_ok :: "Transaction \<Rightarrow> bool" where
  "dex_ok tx =
    (case IntDelegatedAccountFromAddress (Recipient (tx_TxData tx)) of
       Inl _ \<Rightarrow> True
     | Inr n \<Rightarrow> n > 512 \<longrightarrow> (case ParseDexOptData (OptData (tx_TxData tx)) (n - 512) of Inl _ \<Rightarrow> False | Inr _ \<Rightarrow> True))"

definition rules_ok :: "Chain \<Rightarrow> txKind \<Rightarrow> int64 \<Rightarrow> Transaction \<Rightarrow> bool" where
  "rules_ok ch kind asOf tx =
    (let d = tx_TxData tx; r = IntDelegatedAccountFromAddress (Recipient d); n = delegated_id (Recipient d) in
     kind_ok kind tx \<and> ChainID (tx_TxParam tx) = ch_ChainID ch \<and> (kind = txKindRegular \<longrightarrow> gas_ok tx) \<and>
     \<not> (sint (Amount d) < 0 \<and> (case r of Inl _ \<Rightarrow> True | Inr _ \<Rightarrow> False) \<and> n < 512) \<and>
     (n > 0 \<and> n < 256 \<and> length (OptData d) > 0 \<and> sint (Amount d) > 0 \<longrightarrow> HasOperatorKeysAsOf (ch_Keys ch) (GetSenderAddress tx) asOf) \<and>
     \<not> (kind = txKindRegular \<and> \<not> IsKeyRegistration tx \<and> \<not> IsRecoveryReveal tx \<and> \<not> hasSpareCover ch (GetSenderAddress tx) asOf) \<and>
     lock_ok tx \<and> policy_ok (ch_Accounts ch) tx \<and> dex_ok tx \<and>
     (IsRecoveryBind tx \<longrightarrow> verifyRecoveryBindShape tx = None))"

subsection \<open>Reveals\<close>

definition bytes_string :: "bytes \<Rightarrow> string" where
  "bytes_string b = map (\<lambda>x. char_of (unat x)) b"

definition verifyAddressOpening :: "Chain \<Rightarrow> Address \<Rightarrow> Address \<Rightarrow> AddressReveal \<Rightarrow> Account \<Rightarrow> int64 \<Rightarrow> err option" where
  "verifyAddressOpening ch sender newKey r acc asOf =
    (case LoadAddressesAsOf (ch_Keys ch) sender asOf of
       Inr _ \<Rightarrow> Some (Errorf ''has registered keys; it recovers through its commitments'')
     | Inl _ \<Rightarrow>
         if HasCommitments acc then Some (Errorf ''already has commitments'')
         else case PubKeyToAddress (cr_H160 (ch_Crypto ch)) (OldPub r) True of
             Inl e \<Rightarrow> Some e
           | Inr derived \<Rightarrow>
               if addr_ByteValue derived \<noteq> addr_ByteValue sender then Some (Errorf ''the revealed old key does not hash to the sender'')
               else
                 let msg = AddressOpenMessage (cr_H256 (ch_Crypto ch)) (ch_ChainID ch) sender newKey (ar_Next r) (ar_Spare r);
                     scheme = bytes_string (OldScheme r) in
                 if oqs_Length (ch_Oqs ch) scheme = None then Some (Errorf ''unknown old signature scheme'')
                 else if oqs_Verify (ch_Oqs ch) scheme msg (OldSig r) (OldPub r) then None
                 else Some (Errorf ''the old key's signature over the opening does not verify''))"

text \<open>What opens the bind, and the payload the bind has to carry: for an address opening the old key, for a
  commitment reveal the secret.\<close>

definition reveal_secret :: "Chain \<Rightarrow> Address \<Rightarrow> Account \<Rightarrow> int64 \<Rightarrow> Transaction \<Rightarrow> (bytes \<times> bytes) res" where
  "reveal_secret ch pkAddr acc asOf tx =
    (let sender = GetSenderAddress tx; opt = OptData (tx_TxData tx) in
     if IsAddressReveal tx then
       bindR (ParseAddressReveal opt) (\<lambda>r.
         case verifyAddressOpening ch sender pkAddr r acc asOf of
           Some e \<Rightarrow> Inl e
         | None \<Rightarrow> Inr (OldPub r, AddressOpenPayload (cr_H256 (ch_Crypto ch)) sender pkAddr (ar_Next r) (ar_Spare r) (OldPub r)))
     else
       bindR (ParseRecoveryReveal opt) (\<lambda>(secret, nxt).
         let want = EffectiveRecoveryCommit acc (recoveryHeight ch asOf) in
         if want = zeroCommit then Inl (Errorf ''has no effective recovery commitment'')
         else bindR (RecoveryCommitment (cr_H160 (ch_Crypto ch)) secret) (\<lambda>c.
           if addr_ByteValue c \<noteq> want then Inl (Errorf ''secret does not open the recovery commitment'')
           else Inr (secret, RecoveryPayload (cr_H256 (ch_Crypto ch)) sender pkAddr nxt secret))))"

definition bind_opens :: "Chain \<Rightarrow> Address \<Rightarrow> int64 \<Rightarrow> bytes \<Rightarrow> bytes \<Rightarrow> err option" where
  "bind_opens ch sender height secret payload =
    (case GetRecoveryBind (ch_Accounts ch) (RecoveryBindKey (cr_H256 (ch_Crypto ch)) sender (RecoveryTag (cr_H256 (ch_Crypto ch)) secret)) of
       None \<Rightarrow> Some (Errorf ''no recovery bind for this secret'')
     | Some b \<Rightarrow>
         if rb_Identity b \<noteq> addr_ByteValue sender then Some (Errorf ''no recovery bind for this secret'')
         else if sint height < sint (rb_Height b + RecoveryBindDelayBlocks) then Some (Errorf ''recovery bind matures later'')
         else if sint height > sint (rb_Height b + RecoveryBindExpiryBlocks) then Some (Errorf ''recovery bind expired'')
         else if payload \<noteq> rb_Payload b then Some (Errorf ''reveal does not match the first bind of this secret'')
         else None)"

definition verifyRecoveryReveal :: "Chain \<Rightarrow> bytes \<Rightarrow> SigNames \<Rightarrow> int64 \<Rightarrow> Transaction \<Rightarrow> err option" where
  "verifyRecoveryReveal ch hash sn asOf tx =
    (let sender = GetSenderAddress tx; pk = Pubkey (tx_TxData tx); pkb = pk_ByteValue pk; sig = sig_ByteValue (tx_Signature tx) in
     if \<not> noPolicyFields tx then Some (Errorf ''recovery reveal must not move coins or set account policy'')
     else if length pkb = 0 \<or> \<not> keyNamesSender (pk_MainAddress pk) sender
     then Some (Errorf ''recovery reveal must enclose a key naming its sender'')
     else if \<not> IsValidPubKeyLength (cr_enc (ch_Crypto ch)) (int (length pkb)) (pk_Primary pk)
     then Some (Errorf ''revealed key length matches no active scheme'')
     else case PubKeyToAddress (cr_H160 (ch_Crypto ch)) pkb (pk_Primary pk) of
         Inl e \<Rightarrow> Some e
       | Inr pkAddr \<Rightarrow>
           if addr_ByteValue (pk_Address pk) \<noteq> addr_ByteValue pkAddr then Some (Errorf ''revealed key's address does not derive from it'')
           else case LoadPubKeyAsOf (ch_Keys ch) (addr_ByteValue pkAddr) asOf of
               Inr _ \<Rightarrow> Some (Errorf ''revealed key is already registered'')
             | Inl _ \<Rightarrow>
                 case GetAccountByAddressBytes (ch_Accounts ch) (addr_ByteValue sender) of
                   None \<Rightarrow> Some (Errorf ''no account'')
                 | Some acc \<Rightarrow>
                     case reveal_secret ch pkAddr acc asOf tx of
                       Inl e \<Rightarrow> Some e
                     | Inr (secret, payload) \<Rightarrow>
                         case bind_opens ch sender (recoveryHeight ch asOf) secret payload of
                           Some e \<Rightarrow> Some e
                         | None \<Rightarrow>
                             if length sig < 1 \<or> (sig ! 0 = 0) \<noteq> pk_Primary pk
                             then Some (Errorf ''recovery reveal must be signed by the revealed key'')
                             else if \<not> wallet_Verify (ch_Oqs ch) hash sig pkb (sn\<lparr>sn_Paused := False, sn_Paused2 := False\<rparr>)
                             then Some (Errorf ''recovery reveal signature does not verify against the revealed key'')
                             else None)"

subsection \<open>The key a signature is checked against\<close>

text \<open>A transaction without an enclosed key: a key registered to the sender.\<close>

definition sender_key :: "Chain \<Rightarrow> SigNames \<Rightarrow> int64 \<Rightarrow> Transaction \<Rightarrow> bool \<Rightarrow> PubKey res" where
  "sender_key ch sn asOf tx primary =
    (case oqs_Length (ch_Oqs ch) (signingSchemeName primary sn) of
       None \<Rightarrow> LoadPubKeyWithPrimaryAsOf (ch_Keys ch) (GetSenderAddress tx) primary asOf
     | Some expLen \<Rightarrow> LoadPubKeyWithPrimaryOfLengthAsOf (ch_Keys ch) (GetSenderAddress tx) primary (int expLen) asOf)"

text \<open>The authority of a transaction that encloses a key: whether the key is allowed, the bytes the signature
  is checked against so far, whether the key was in the registry and whether it is the committed spare.\<close>

definition enclosed_authority :: "Chain \<Rightarrow> SigNames \<Rightarrow> int64 \<Rightarrow> Transaction \<Rightarrow> bool \<Rightarrow> Address \<Rightarrow> bool \<times> bytes \<times> bool \<times> bool" where
  "enclosed_authority ch sn asOf tx primary pkAddr =
    (let pk = Pubkey (tx_TxData tx); pkb = pk_ByteValue pk; sender = GetSenderAddress tx in
     case LoadPubKeyAsOf (ch_Keys ch) (addr_ByteValue pkAddr) asOf of
       Inr known \<Rightarrow> (addr_ByteValue (pk_MainAddress known) = addr_ByteValue sender, pkb, True, False)
     | Inl _ \<Rightarrow>
         if isPureRegistration tx \<and> primary = pk_Primary pk \<and> isCommittedSpare ch sender pkAddr asOf
         then (True, pkb, False, True)
         else
           case (case oqs_Length (ch_Oqs ch) (signingSchemeName primary sn) of
                   None \<Rightarrow> Inl (Errorf ''unknown scheme'')
                 | Some expLen \<Rightarrow> LoadPubKeyWithPrimaryOfLengthAsOf (ch_Keys ch) sender primary (int expLen) asOf) of
             Inr existing \<Rightarrow> (addr_ByteValue (pk_MainAddress pk) = addr_ByteValue sender, pk_ByteValue existing, False, False)
           | Inl _ \<Rightarrow> (bootstrapBindsKey pkAddr sender, pkb, False, False))"

definition unpaused :: "bool \<Rightarrow> SigNames \<Rightarrow> SigNames" where
  "unpaused primary sn = (if primary then sn\<lparr>sn_Paused := False\<rparr> else sn\<lparr>sn_Paused2 := False\<rparr>)"

definition verify_enclosed :: "Chain \<Rightarrow> SigNames \<Rightarrow> int64 \<Rightarrow> Transaction \<Rightarrow> bool \<Rightarrow> bool" where
  "verify_enclosed ch sn asOf tx primary =
    (let pk = Pubkey (tx_TxData tx); sender = GetSenderAddress tx; sig = sig_ByteValue (tx_Signature tx) in
     if \<not> IsValidPubKeyLength (cr_enc (ch_Crypto ch)) (int (length (pk_ByteValue pk))) (pk_Primary pk) then False
     else case PubKeyToAddress (cr_H160 (ch_Crypto ch)) (pk_ByteValue pk) (pk_Primary pk) of
         Inl _ \<Rightarrow> False
       | Inr pkAddr \<Rightarrow>
           let (addressMatch, pkb, resolved, spareReveal) = enclosed_authority ch sn asOf tx primary pkAddr;
               eff = (if spareReveal then unpaused primary sn else sn) in
           if addressMatch \<and> \<not> keyNamesSender (pk_MainAddress pk) sender then False
           else if \<not> addressMatch then False
           else
             let eff = (if \<not> resolved \<and> isPureRegistration tx \<and> primary = pk_Primary pk \<and> addr_ByteValue pkAddr = addr_ByteValue sender
                        then unpaused primary eff else eff) in
             case oqs_Length (ch_Oqs ch) (signingSchemeName primary sn) of
               Some expLen \<Rightarrow>
                 if length pkb \<noteq> expLen then
                   (case LoadPubKeyWithPrimaryOfLengthAsOf (ch_Keys ch) sender primary (int expLen) asOf of
                      Inl _ \<Rightarrow> False
                    | Inr signer \<Rightarrow> wallet_Verify (ch_Oqs ch) (tx_Hash tx) sig (pk_ByteValue signer) eff)
                 else wallet_Verify (ch_Oqs ch) (tx_Hash tx) sig pkb eff
             | None \<Rightarrow> wallet_Verify (ch_Oqs ch) (tx_Hash tx) sig pkb eff)"

definition verify :: "Chain \<Rightarrow> txKind \<Rightarrow> SigNames \<Rightarrow> int64 \<Rightarrow> Transaction \<Rightarrow> bool res" where
  "verify ch kind sn asOf tx =
    (if \<not> rules_ok ch kind asOf tx then Inr False
     else if \<not> HashMatchesBody (cr_H256 (ch_Crypto ch)) tx then Inr False
     else if IsRecoveryReveal tx then Inr (kind = txKindRegular \<and> verifyRecoveryReveal ch (tx_Hash tx) sn asOf tx = None)
     else
       let sig = sig_ByteValue (tx_Signature tx) in
       if length sig = 0 then Inl (Panic ''index out of range'')
       else
         let primary = (sig ! 0 = 0) in
         if length (pk_ByteValue (Pubkey (tx_TxData tx))) = 0 then
           (case sender_key ch sn asOf tx primary of
              Inl _ \<Rightarrow> Inr False
            | Inr pkp \<Rightarrow> Inr (wallet_Verify (ch_Oqs ch) (tx_Hash tx) sig (pk_ByteValue pkp) sn))
         else Inr (verify_enclosed ch sn asOf tx primary))"

definition Verify :: "Chain \<Rightarrow> SigNames \<Rightarrow> Transaction \<Rightarrow> bool res" where
  "Verify ch sn tx = verify ch txKindRegular sn NoHeightLimit tx"

definition VerifyAsOf :: "Chain \<Rightarrow> SigNames \<Rightarrow> int64 \<Rightarrow> Transaction \<Rightarrow> bool res" where
  "VerifyAsOf ch sn asOf tx = verify ch txKindRegular sn asOf tx"

definition VerifyNonce :: "Chain \<Rightarrow> SigNames \<Rightarrow> Transaction \<Rightarrow> bool res" where
  "VerifyNonce ch sn tx = verify ch txKindNonce sn NoHeightLimit tx"

definition VerifyGenesis :: "Chain \<Rightarrow> SigNames \<Rightarrow> Transaction \<Rightarrow> bool res" where
  "VerifyGenesis ch sn tx = verify ch txKindGenesis sn NoHeightLimit tx"

subsection \<open>Authority\<close>

text \<open>The bytes are those of a key listed in the slot of an identity as of a height.\<close>

definition registered_key :: "KeyRegistry \<Rightarrow> Address \<Rightarrow> bool \<Rightarrow> int64 \<Rightarrow> bytes \<Rightarrow> bool" where
  "registered_key reg ident primary asOf b \<longleftrightarrow>
    (\<exists>as a pk. LoadAddressesAsOf reg ident asOf = Inr as \<and> a \<in> set as \<and> addr_Primary a = primary \<and>
       LoadPubKey reg (addr_ByteValue a) = Inr pk \<and> pk_ByteValue pk = b)"

lemma filtered_key:
  assumes "filter P (map (\<lambda>a. LoadPubKey reg (addr_ByteValue a)) (filter (\<lambda>a. addr_Primary a = primary) (rev as))) = Inr pk # rs"
    "LoadAddressesAsOf reg ident asOf = Inr as"
  shows "registered_key reg ident primary asOf (pk_ByteValue pk)"
proof -
  have "Inr pk \<in> set (filter P (map (\<lambda>a. LoadPubKey reg (addr_ByteValue a)) (filter (\<lambda>a. addr_Primary a = primary) (rev as))))"
    unfolding assms(1) by simp
  then obtain a where "a \<in> set as" "addr_Primary a = primary" "LoadPubKey reg (addr_ByteValue a) = Inr pk"
    by auto
  then show ?thesis
    using assms(2) by (auto simp: registered_key_def)
qed

lemma LoadOfLength_registered:
  assumes "LoadPubKeyWithPrimaryOfLengthAsOf reg ident primary len asOf = Inr pk"
  shows "registered_key reg ident primary asOf (pk_ByteValue pk)" "int (length (pk_ByteValue pk)) = len"
proof -
  from assms obtain as where as: "LoadAddressesAsOf reg ident asOf = Inr as"
    by (auto simp: LoadPubKeyWithPrimaryOfLengthAsOf_def bindR_def split: sum.splits)
  let ?keys = "map (\<lambda>a. LoadPubKey reg (addr_ByteValue a)) (filter (\<lambda>a. addr_Primary a = primary) (rev as))"
  let ?P = "\<lambda>r. case r of Inl _ \<Rightarrow> False | Inr pk \<Rightarrow> int (length (pk_ByteValue pk)) = len"
  obtain rs where rs: "filter ?P ?keys = Inr pk # rs"
    using assms as by (auto simp: LoadPubKeyWithPrimaryOfLengthAsOf_def bindR_def Let_def split: list.splits)
  show "registered_key reg ident primary asOf (pk_ByteValue pk)"
    by (rule filtered_key [OF rs as])
  have "Inr pk \<in> set (filter ?P ?keys)" unfolding rs by simp
  then show "int (length (pk_ByteValue pk)) = len" by simp
qed

lemma LoadWithPrimary_registered:
  assumes "LoadPubKeyWithPrimaryAsOf reg ident primary asOf = Inr pk"
  shows "registered_key reg ident primary asOf (pk_ByteValue pk)"
proof -
  from assms obtain as where as: "LoadAddressesAsOf reg ident asOf = Inr as"
    by (auto simp: LoadPubKeyWithPrimaryAsOf_def bindR_def split: sum.splits)
  obtain a xs where a: "filter (\<lambda>a. addr_Primary a = primary) (rev as) = a # xs" "LoadPubKey reg (addr_ByteValue a) = Inr pk"
    using assms as by (auto simp: LoadPubKeyWithPrimaryAsOf_def split: list.splits)
  then have "a \<in> set (filter (\<lambda>a. addr_Primary a = primary) (rev as))" by simp
  then show ?thesis
    using a(2) as by (auto simp: registered_key_def)
qed

lemma sender_key_registered:
  "sender_key ch sn asOf tx primary = Inr pk \<Longrightarrow>
   registered_key (ch_Keys ch) (GetSenderAddress tx) primary asOf (pk_ByteValue pk)"
  by (auto simp: sender_key_def dest: LoadWithPrimary_registered LoadOfLength_registered(1) split: option.splits)

text \<open>The enclosed key is allowed to act for the sender: the registry binds it to the sender, or it derives the
  sender's address, or it is the spare the sender committed to.\<close>

definition key_owned :: "Chain \<Rightarrow> int64 \<Rightarrow> Transaction \<Rightarrow> bool" where
  "key_owned ch asOf tx \<longleftrightarrow>
    (\<exists>pkAddr. PubKeyToAddress (cr_H160 (ch_Crypto ch)) (pk_ByteValue (Pubkey (tx_TxData tx))) (pk_Primary (Pubkey (tx_TxData tx))) = Inr pkAddr \<and>
       ((\<exists>known. LoadPubKeyAsOf (ch_Keys ch) (addr_ByteValue pkAddr) asOf = Inr known \<and>
            addr_ByteValue (pk_MainAddress known) = addr_ByteValue (GetSenderAddress tx)) \<or>
        addr_ByteValue pkAddr = addr_ByteValue (GetSenderAddress tx) \<or>
        isPureRegistration tx \<and> isCommittedSpare ch (GetSenderAddress tx) pkAddr asOf))"

text \<open>The one exemption from a pause: registering a key that is not in the registry yet and that derives the
  sender's address or is its committed spare.\<close>

definition pause_exempt :: "Chain \<Rightarrow> int64 \<Rightarrow> Transaction \<Rightarrow> bool" where
  "pause_exempt ch asOf tx \<longleftrightarrow> isPureRegistration tx \<and>
    (\<exists>pkAddr e. PubKeyToAddress (cr_H160 (ch_Crypto ch)) (pk_ByteValue (Pubkey (tx_TxData tx))) (pk_Primary (Pubkey (tx_TxData tx))) = Inr pkAddr \<and>
       LoadPubKeyAsOf (ch_Keys ch) (addr_ByteValue pkAddr) asOf = Inl e \<and>
       (addr_ByteValue pkAddr = addr_ByteValue (GetSenderAddress tx) \<or> isCommittedSpare ch (GetSenderAddress tx) pkAddr asOf))"

definition slot_paused :: "bool \<Rightarrow> SigNames \<Rightarrow> bool" where
  "slot_paused primary sn = (if primary then sn_Paused sn else sn_Paused2 sn)"

lemma wallet_Verify_checked:
  assumes "wallet_Verify oqs msg sig b eff"
  shows "sig \<noteq> []" "oqs_check oqs (signingSchemeName (sig ! 0 = 0) eff) msg (drop 1 sig) b" "\<not> slot_paused (sig ! 0 = 0) eff"
  using assms by (auto simp: wallet_Verify_def Let_def signingSchemeName_def slot_paused_def split: if_splits)

lemma unpaused_simps [simp]:
  "signingSchemeName p (unpaused q sn) = signingSchemeName p sn" "slot_paused p (unpaused q sn) \<longleftrightarrow> slot_paused p sn \<and> p \<noteq> q"
  by (auto simp: unpaused_def signingSchemeName_def slot_paused_def)

lemma enclosed_authority_owner:
  assumes "enclosed_authority ch sn asOf tx primary pkAddr = (True, b, resolved, spare)"
    "PubKeyToAddress (cr_H160 (ch_Crypto ch)) (pk_ByteValue (Pubkey (tx_TxData tx))) (pk_Primary (Pubkey (tx_TxData tx))) = Inr pkAddr"
  shows "registered_key (ch_Keys ch) (GetSenderAddress tx) primary asOf b \<or> b = pk_ByteValue (Pubkey (tx_TxData tx)) \<and> key_owned ch asOf tx"
    "resolved \<longleftrightarrow> (\<exists>known. LoadPubKeyAsOf (ch_Keys ch) (addr_ByteValue pkAddr) asOf = Inr known)"
    "spare \<Longrightarrow> pause_exempt ch asOf tx"
proof -
  let ?load = "LoadPubKeyAsOf (ch_Keys ch) (addr_ByteValue pkAddr) asOf"
  show "registered_key (ch_Keys ch) (GetSenderAddress tx) primary asOf b \<or> b = pk_ByteValue (Pubkey (tx_TxData tx)) \<and> key_owned ch asOf tx"
    using assms by (auto simp: enclosed_authority_def key_owned_def bootstrapBindsKey_def Let_def dest: LoadOfLength_registered(1)
      split: sum.splits if_splits option.splits)
  show "resolved \<longleftrightarrow> (\<exists>known. ?load = Inr known)"
    using assms(1) by (auto simp: enclosed_authority_def Let_def split: sum.splits if_splits option.splits)
  show "pause_exempt ch asOf tx" if spare
    using assms that by (auto simp: enclosed_authority_def pause_exempt_def Let_def split: sum.splits if_splits option.splits)
qed

lemma verify_enclosed_authority:
  assumes "verify_enclosed ch sn asOf tx primary" "primary = (sig_ByteValue (tx_Signature tx) ! 0 = 0)"
  shows "\<exists>b. oqs_check (ch_Oqs ch) (signingSchemeName primary sn) (tx_Hash tx) (drop 1 (sig_ByteValue (tx_Signature tx))) b \<and>
    (registered_key (ch_Keys ch) (GetSenderAddress tx) primary asOf b \<or> b = pk_ByteValue (Pubkey (tx_TxData tx)) \<and> key_owned ch asOf tx) \<and>
    (slot_paused primary sn \<longrightarrow> pause_exempt ch asOf tx) \<and> keyNamesSender (pk_MainAddress (Pubkey (tx_TxData tx))) (GetSenderAddress tx)"
proof -
  let ?pk = "Pubkey (tx_TxData tx)" and ?sig = "sig_ByteValue (tx_Signature tx)" and ?sender = "GetSenderAddress tx"
  obtain pkAddr where addr: "PubKeyToAddress (cr_H160 (ch_Crypto ch)) (pk_ByteValue ?pk) (pk_Primary ?pk) = Inr pkAddr"
    using assms(1) by (auto simp: verify_enclosed_def Let_def split: sum.splits if_splits)
  obtain m b resolved spare where auth: "enclosed_authority ch sn asOf tx primary pkAddr = (m, b, resolved, spare)"
    by (metis surj_pair)
  define eff where "eff = (let eff = (if spare then unpaused primary sn else sn) in
    if \<not> resolved \<and> isPureRegistration tx \<and> primary = pk_Primary ?pk \<and> addr_ByteValue pkAddr = addr_ByteValue ?sender then unpaused primary eff else eff)"
  have names: m "keyNamesSender (pk_MainAddress ?pk) ?sender"
    using assms(1) by (auto simp: verify_enclosed_def Let_def addr auth split: if_splits)
  have "\<exists>b'. wallet_Verify (ch_Oqs ch) (tx_Hash tx) ?sig b' eff \<and> (b' = b \<or> registered_key (ch_Keys ch) ?sender primary asOf b')"
    using assms(1) names
    by (auto simp: verify_enclosed_def Let_def addr auth eff_def dest: LoadOfLength_registered(1) split: if_splits option.splits sum.splits)
  then obtain b' where b': "wallet_Verify (ch_Oqs ch) (tx_Hash tx) ?sig b' eff" "b' = b \<or> registered_key (ch_Keys ch) ?sender primary asOf b'"
    by blast
  note owner = enclosed_authority_owner [OF auth [unfolded eqTrueI [OF names(1)]] addr]
  have "signingSchemeName primary eff = signingSchemeName primary sn" by (simp add: eff_def Let_def)
  then have "oqs_check (ch_Oqs ch) (signingSchemeName primary sn) (tx_Hash tx) (drop 1 ?sig) b'"
    using wallet_Verify_checked(2) [OF b'(1), folded assms(2)] by simp
  moreover have "registered_key (ch_Keys ch) ?sender primary asOf b' \<or> b' = pk_ByteValue ?pk \<and> key_owned ch asOf tx"
    using b'(2) owner(1) by auto
  moreover have "pause_exempt ch asOf tx" if "slot_paused primary sn"
  proof (cases spare)
    case True
    then show ?thesis by (rule owner(3))
  next
    case False
    then have "\<not> resolved \<and> isPureRegistration tx \<and> addr_ByteValue pkAddr = addr_ByteValue ?sender"
      using wallet_Verify_checked(3) [OF b'(1), folded assms(2)] that by (auto simp: eff_def Let_def split: if_splits)
    then show ?thesis
      using owner(2) addr by (cases "LoadPubKeyAsOf (ch_Keys ch) (addr_ByteValue pkAddr) asOf") (auto simp: pause_exempt_def)
  qed
  ultimately show ?thesis using names(2) by blast
qed

text \<open>C3: Nobody can act for an account without a key of it. When \<open>verify\<close> accepts a transaction other than a
  recovery reveal, the hash is the hash of its content and the signature over that hash checks, under the
  scheme of the slot it names, with a key that was registered to the sender as of the given height, or
  with the enclosed key, which then is bound to the sender by the registry, derives the sender's address or
  is the sender's committed spare. An enclosed key always names the sender as its identity, and a signature
  of a paused scheme is good only for registering such a key for the first time, moving no coins.\<close>

theorem accepted_means_authorised:
  assumes "verify ch kind sn asOf tx = Inr True" "\<not> IsRecoveryReveal tx"
  defines "sig \<equiv> sig_ByteValue (tx_Signature tx)" and "key \<equiv> Pubkey (tx_TxData tx)" and "sender \<equiv> GetSenderAddress tx"
  shows "HashMatchesBody (cr_H256 (ch_Crypto ch)) tx \<and> sig \<noteq> [] \<and>
    (\<exists>b. oqs_check (ch_Oqs ch) (signingSchemeName (sig ! 0 = 0) sn) (tx_Hash tx) (drop 1 sig) b \<and>
       (registered_key (ch_Keys ch) sender (sig ! 0 = 0) asOf b \<or> b = pk_ByteValue key \<and> key_owned ch asOf tx)) \<and>
    (pk_ByteValue key \<noteq> [] \<longrightarrow> keyNamesSender (pk_MainAddress key) sender) \<and>
    (slot_paused (sig ! 0 = 0) sn \<longrightarrow> pause_exempt ch asOf tx \<and> Amount (tx_TxData tx) = 0)"
proof -
  have hash: "HashMatchesBody (cr_H256 (ch_Crypto ch)) tx" and sig: "sig \<noteq> []"
    using assms(1,2) by (auto simp: verify_def Let_def sig_def split: if_splits)
  have pure: "Amount (tx_TxData tx) = 0" if "pause_exempt ch asOf tx"
    using that by (auto simp: pause_exempt_def isPureRegistration_def pureShape_def Let_def)
  show ?thesis
  proof (cases "pk_ByteValue key = []")
    case True
    then obtain pkp where pkp: "sender_key ch sn asOf tx (sig ! 0 = 0) = Inr pkp" "wallet_Verify (ch_Oqs ch) (tx_Hash tx) sig (pk_ByteValue pkp) sn"
      using assms(1,2) sig hash by (auto simp: verify_def Let_def key_def sig_def split: if_splits sum.splits)
    show ?thesis
      using hash sig True sender_key_registered [OF pkp(1)] wallet_Verify_checked [OF pkp(2)] unfolding sender_def by blast
  next
    case False
    then have "verify_enclosed ch sn asOf tx (sig ! 0 = 0)"
      using assms(1,2) sig hash by (auto simp: verify_def Let_def key_def sig_def split: if_splits)
    from verify_enclosed_authority [OF this [unfolded sig_def] refl] show ?thesis
      using hash sig pure unfolding sender_def key_def sig_def by blast
  qed
qed

subsection \<open>Recovery\<close>

text \<open>The two ways to open an account without a registered key, with the secret and the payload the bind has to
  carry: the secret behind the recovery commitment in force, or the key behind the address of an account
  that never registered anything.\<close>

definition opens_commitment :: "Chain \<Rightarrow> Transaction \<Rightarrow> int64 \<Rightarrow> Address \<Rightarrow> Account \<Rightarrow> bytes \<Rightarrow> bytes \<Rightarrow> bool" where
  "opens_commitment ch tx asOf pkAddr acc secret payload \<longleftrightarrow>
    (\<exists>nxt c. ParseRecoveryReveal (OptData (tx_TxData tx)) = Inr (secret, nxt) \<and>
       RecoveryCommitment (cr_H160 (ch_Crypto ch)) secret = Inr c \<and> addr_ByteValue c = EffectiveRecoveryCommit acc (recoveryHeight ch asOf) \<and>
       addr_ByteValue c \<noteq> zeroCommit \<and> payload = RecoveryPayload (cr_H256 (ch_Crypto ch)) (GetSenderAddress tx) pkAddr nxt secret)"

definition opens_address :: "Chain \<Rightarrow> Transaction \<Rightarrow> int64 \<Rightarrow> Address \<Rightarrow> Account \<Rightarrow> bytes \<Rightarrow> bytes \<Rightarrow> bool" where
  "opens_address ch tx asOf pkAddr acc secret payload \<longleftrightarrow>
    (\<exists>r e derived. ParseAddressReveal (OptData (tx_TxData tx)) = Inr r \<and> secret = OldPub r \<and>
       LoadAddressesAsOf (ch_Keys ch) (GetSenderAddress tx) asOf = Inl e \<and> \<not> HasCommitments acc \<and>
       PubKeyToAddress (cr_H160 (ch_Crypto ch)) secret True = Inr derived \<and> addr_ByteValue derived = addr_ByteValue (GetSenderAddress tx) \<and>
       oqs_Verify (ch_Oqs ch) (bytes_string (OldScheme r))
         (AddressOpenMessage (cr_H256 (ch_Crypto ch)) (ch_ChainID ch) (GetSenderAddress tx) pkAddr (ar_Next r) (ar_Spare r)) (OldSig r) secret \<and>
       payload = AddressOpenPayload (cr_H256 (ch_Crypto ch)) (GetSenderAddress tx) pkAddr (ar_Next r) (ar_Spare r) secret)"

lemma reveal_secret_opens:
  assumes "reveal_secret ch pkAddr acc asOf tx = Inr (secret, payload)"
  shows "if IsAddressReveal tx then opens_address ch tx asOf pkAddr acc secret payload else opens_commitment ch tx asOf pkAddr acc secret payload"
proof (cases "IsAddressReveal tx")
  case True
  with assms obtain r where r: "ParseAddressReveal (OptData (tx_TxData tx)) = Inr r" "verifyAddressOpening ch (GetSenderAddress tx) pkAddr r acc asOf = None"
      "secret = OldPub r" "payload = AddressOpenPayload (cr_H256 (ch_Crypto ch)) (GetSenderAddress tx) pkAddr (ar_Next r) (ar_Spare r) (OldPub r)"
    by (auto simp: reveal_secret_def bindR_def Let_def split: sum.splits option.splits)
  then show ?thesis
    using True by (auto simp: opens_address_def verifyAddressOpening_def Let_def split: sum.splits if_splits)
next
  case False
  with assms show ?thesis
    by (auto simp: reveal_secret_def opens_commitment_def bindR_def Let_def split: sum.splits if_splits)
qed

lemma bind_opens_bind:
  assumes "bind_opens ch sender height secret payload = None"
  shows "\<exists>b. GetRecoveryBind (ch_Accounts ch) (RecoveryBindKey (cr_H256 (ch_Crypto ch)) sender (RecoveryTag (cr_H256 (ch_Crypto ch)) secret)) = Some b \<and>
    rb_Identity b = addr_ByteValue sender \<and> rb_Payload b = payload \<and>
    sint (rb_Height b + RecoveryBindDelayBlocks) \<le> sint height \<and> sint height \<le> sint (rb_Height b + RecoveryBindExpiryBlocks)"
  using assms by (auto simp: bind_opens_def split: option.splits if_splits)

text \<open>C17: A lost or broken key is replaced only by whoever knew the account's secret before it was public. When
  \<open>verify\<close> accepts a recovery reveal, the transaction moves no coins and sets no policy, encloses a new
  unregistered key that names the sender and signed it, and opens the account: the secret hashes to the
  recovery commitment in force, or the account never had a key and its address is the hash of the old key,
  which signed the opening. In both cases a bind of this identity and secret that fixes this very key has
  been on the chain for at least an hour and at most two weeks.\<close>

theorem reveal_needs_secret_and_bind:
  assumes "verify ch kind sn asOf tx = Inr True" "IsRecoveryReveal tx"
  defines "key \<equiv> Pubkey (tx_TxData tx)" and "sender \<equiv> GetSenderAddress tx" and "height \<equiv> recoveryHeight ch asOf"
  shows "noPolicyFields tx \<and> keyNamesSender (pk_MainAddress key) sender \<and> HashMatchesBody (cr_H256 (ch_Crypto ch)) tx \<and>
    wallet_Verify (ch_Oqs ch) (tx_Hash tx) (sig_ByteValue (tx_Signature tx)) (pk_ByteValue key) (sn\<lparr>sn_Paused := False, sn_Paused2 := False\<rparr>) \<and>
    (\<exists>pkAddr e acc secret b. PubKeyToAddress (cr_H160 (ch_Crypto ch)) (pk_ByteValue key) (pk_Primary key) = Inr pkAddr \<and>
       LoadPubKeyAsOf (ch_Keys ch) (addr_ByteValue pkAddr) asOf = Inl e \<and>
       GetAccountByAddressBytes (ch_Accounts ch) (addr_ByteValue sender) = Some acc \<and>
       (opens_commitment ch tx asOf pkAddr acc secret (rb_Payload b) \<or> opens_address ch tx asOf pkAddr acc secret (rb_Payload b)) \<and>
       GetRecoveryBind (ch_Accounts ch) (RecoveryBindKey (cr_H256 (ch_Crypto ch)) sender (RecoveryTag (cr_H256 (ch_Crypto ch)) secret)) = Some b \<and>
       rb_Identity b = addr_ByteValue sender \<and> sint (rb_Height b + RecoveryBindDelayBlocks) \<le> sint height \<and>
       sint height \<le> sint (rb_Height b + RecoveryBindExpiryBlocks))"
proof -
  have hash: "HashMatchesBody (cr_H256 (ch_Crypto ch)) tx" and rev: "verifyRecoveryReveal ch (tx_Hash tx) sn asOf tx = None"
    using assms(1,2) by (auto simp: verify_def split: if_splits)
  have shape: "noPolicyFields tx" "keyNamesSender (pk_MainAddress key) sender"
    using rev by (auto simp: verifyRecoveryReveal_def Let_def key_def sender_def split: if_splits)
  obtain pkAddr e acc secret payload where parts:
      "PubKeyToAddress (cr_H160 (ch_Crypto ch)) (pk_ByteValue key) (pk_Primary key) = Inr pkAddr"
      "LoadPubKeyAsOf (ch_Keys ch) (addr_ByteValue pkAddr) asOf = Inl e"
      "GetAccountByAddressBytes (ch_Accounts ch) (addr_ByteValue sender) = Some acc"
      "reveal_secret ch pkAddr acc asOf tx = Inr (secret, payload)" "bind_opens ch sender height secret payload = None"
    and sig: "wallet_Verify (ch_Oqs ch) (tx_Hash tx) (sig_ByteValue (tx_Signature tx)) (pk_ByteValue key) (sn\<lparr>sn_Paused := False, sn_Paused2 := False\<rparr>)"
    using rev by (auto simp: verifyRecoveryReveal_def Let_def key_def sender_def height_def split: if_splits sum.splits option.splits prod.splits)
  from bind_opens_bind [OF parts(5)] obtain b where b:
      "GetRecoveryBind (ch_Accounts ch) (RecoveryBindKey (cr_H256 (ch_Crypto ch)) sender (RecoveryTag (cr_H256 (ch_Crypto ch)) secret)) = Some b"
      "rb_Identity b = addr_ByteValue sender" "rb_Payload b = payload" "sint (rb_Height b + RecoveryBindDelayBlocks) \<le> sint height"
      "sint height \<le> sint (rb_Height b + RecoveryBindExpiryBlocks)"
    by blast
  show ?thesis
    using hash shape sig parts(1-3) b(1,2,4,5) reveal_secret_opens [OF parts(4), folded b(3)] by (metis (full_types))
qed

subsection \<open>Samples\<close>

text \<open>A library that knows one scheme and accepts the signature \<open>[1, 2]\<close>; an account with a registered key and
  the commitments of its spare and of its recovery secret; a bind that is ten hours old.\<close>

definition sample_oqs :: Oqs where
  "sample_oqs = \<lparr>oqs_Length = (\<lambda>s. if s = ''Falcon-512'' then Some 897 else None), oqs_Verify = (\<lambda>_ _ sig _. sig = [1, 2])\<rparr>"

definition sample_sn :: SigNames where
  "sample_sn = \<lparr>sn_Name = ''Falcon-512'', sn_Name2 = ''MAYO-5'', sn_Paused = False, sn_Paused2 = True\<rparr>"

definition sample_registry :: KeyRegistry where
  "sample_registry = empty_registry\<lparr>reg_Keys := [(replicate 20 7, sample_key (sample_addr 7))],
     reg_Addresses := [(replicate 20 7, [sample_addr 7])], reg_Heights := [(replicate 20 7, 5)]\<rparr>"

definition sample_chain :: "KeyRegistry \<Rightarrow> Chain" where
  "sample_chain reg = \<lparr>ch_Accounts = \<lparr>AllAccounts = [(replicate 20 7, zero_Account\<lparr>acc_Address := replicate 20 7,
         acc_SpareCommit := replicate 20 3, acc_RecoveryCommit := replicate 20 7\<rparr>)],
       RecoveryBinds = [(replicate 32 9, \<lparr>rb_Identity = replicate 20 7, rb_Payload = replicate 32 9, rb_Height = 1000\<rparr>)], at_Height = 0\<rparr>,
     ch_Keys = reg, ch_Height = 4600, ch_ChainID = 23, ch_Crypto = sample_crypto, ch_Oqs = sample_oqs\<rparr>"

lemma sample_not_recovery:
  "replicate 20 (5 :: byte) \<noteq> replicate 18 255 @ b"
  by (auto dest!: arg_cong [where f = hd] simp: hd_append)

lemma sample_accepted: "verify (sample_chain sample_registry) txKindRegular sample_sn 80 sample_tx = Inr True"
proof -
  let ?ch = "sample_chain sample_registry"
  have tx: "Recipient (tx_TxData sample_tx) = sample_addr 5" "OptData (tx_TxData sample_tx) = []" "Pubkey (tx_TxData sample_tx) = zero_PubKey"
    "td_LockedAmount (tx_TxData sample_tx) = 0" "GetSenderAddress sample_tx = sample_addr 7" "EscrowTransactionsDelay (tx_TxData sample_tx) = 0"
    "td_MultiSignNumber (tx_TxData sample_tx) = 0" "sig_ByteValue (tx_Signature sample_tx) = [0, 1, 2]" "tx_Hash sample_tx = replicate 32 9"
    "GasPrice sample_tx = 10" "GasUsage sample_tx = 30000" "ChainID (tx_TxParam sample_tx) = 23" "Amount (tx_TxData sample_tx) = 42"
    by (simp_all add: sample_tx_def zero_TxData_def GetSenderAddress_def)
  have del: "IntDelegatedAccountFromAddress (sample_addr 5) = Inl (Errorf ''this is not correct delegated account'')" "delegated_id (sample_addr 5) = -1"
    by (simp_all add: delegated_id_def IntDelegatedAccountFromAddress_def sample_addr_def Let_def)
  have kinds: "\<not> IsRecoveryReveal sample_tx" "\<not> IsRecoveryBind sample_tx"
    using sample_not_recovery by (simp_all add: IsRecoveryReveal_def IsRecoveryBind_def tx sample_addr_def recoveryAddress_def)
  have "hasSpareCover ?ch (sample_addr 7) 80"
    by (simp add: hasSpareCover_def sample_chain_def GetAccountByAddressBytes_def sample_addr_def)
  moreover have "gas_ok sample_tx"
    by (simp add: gas_ok_def MinGasUsage_def tx zero_PubKey_def Let_def isDexOperation_def del)
  ultimately have "rules_ok ?ch txKindRegular 80 sample_tx"
    by (simp add: rules_ok_def Let_def kind_ok_def tx del kinds lock_ok_def policy_ok_def dex_ok_def) (simp add: sample_chain_def)
  moreover have "HashMatchesBody (cr_H256 sample_crypto) sample_tx"
    by (simp add: HashMatchesBody_def tx GetHashFromBytes_def Hash_Set_def EmptyHash_def sample_crypto_def)
  moreover have "sender_key ?ch sample_sn 80 sample_tx True = Inr (sample_key (sample_addr 7))"
    by (simp add: sender_key_def sample_chain_def sample_oqs_def signingSchemeName_def sample_sn_def LoadPubKeyWithPrimaryOfLengthAsOf_def LoadAddressesAsOf_def
        LoadAddresses_def sample_registry_def empty_registry_def tx sample_addr_def RegisteredAsOf_def RegistrationHeight_def mget_def LoadPubKey_def sample_key_def)
  moreover have "wallet_Verify sample_oqs (replicate 32 9) [0, 1, 2] (pk_ByteValue (sample_key (sample_addr 7))) sample_sn"
    by (simp add: wallet_Verify_def sample_sn_def sample_oqs_def oqs_check_def sample_key_def)
  ultimately show ?thesis
    by (simp add: verify_def kinds tx zero_PubKey_def) (simp add: sample_chain_def)
qed

theorem accepted_means_authorised_witness:
  "\<exists>b. oqs_check sample_oqs ''Falcon-512'' (replicate 32 9) [1, 2] b \<and> registered_key sample_registry (sample_addr 7) True 80 b"
proof -
  have rev: "\<not> IsRecoveryReveal sample_tx"
    using sample_not_recovery by (simp add: IsRecoveryReveal_def sample_tx_def zero_TxData_def sample_addr_def recoveryAddress_def)
  have tx: "sig_ByteValue (tx_Signature sample_tx) = [0, 1, 2]" "tx_Hash sample_tx = replicate 32 9" "GetSenderAddress sample_tx = sample_addr 7"
    "pk_ByteValue (Pubkey (tx_TxData sample_tx)) = []"
    by (simp_all add: sample_tx_def zero_TxData_def zero_PubKey_def GetSenderAddress_def)
  have "\<not> oqs_check sample_oqs ''Falcon-512'' m s []" for m s
    by (simp add: oqs_check_def sample_oqs_def)
  then show ?thesis
    using accepted_means_authorised [OF sample_accepted rev] unfolding tx
    by (auto simp: sample_chain_def signingSchemeName_def sample_sn_def)
qed

definition sample_reveal :: Transaction where
  "sample_reveal = sample_key_tx\<lparr>tx_TxData := (tx_TxData sample_key_tx)\<lparr>Recipient := recoveryAddress CHR ''R'', Amount := 0,
     OptData := replicate 32 6 @ replicate 20 4\<rparr>, GasUsage := 200000\<rparr>"

lemma sample_revealed: "verify (sample_chain empty_registry) txKindRegular sample_sn 4600 sample_reveal = Inr True"
proof -
  let ?ch = "sample_chain empty_registry" and ?R = "recoveryAddress CHR ''R''"
  have tx: "Recipient (tx_TxData sample_reveal) = ?R" "OptData (tx_TxData sample_reveal) = replicate 32 6 @ replicate 20 4"
    "Pubkey (tx_TxData sample_reveal) = sample_key (sample_addr 7)" "td_LockedAmount (tx_TxData sample_reveal) = 0"
    "GetSenderAddress sample_reveal = sample_addr 7" "EscrowTransactionsDelay (tx_TxData sample_reveal) = 0" "td_MultiSignAddresses (tx_TxData sample_reveal) = []"
    "td_MultiSignNumber (tx_TxData sample_reveal) = 0" "sig_ByteValue (tx_Signature sample_reveal) = [0, 1, 2]" "tx_Hash sample_reveal = replicate 32 9"
    "GasPrice sample_reveal = 10" "GasUsage sample_reveal = 200000" "ChainID (tx_TxParam sample_reveal) = 23" "Amount (tx_TxData sample_reveal) = 0"
    "MultiSignTx (tx_TxParam sample_reveal) = replicate 32 0"
    by (simp_all add: sample_reveal_def sample_key_tx_def sample_tx_def zero_TxData_def GetSenderAddress_def)
  have r: "addr_ByteValue ?R = 255 # 255 # 255 # drop 3 (addr_ByteValue ?R)"
    by (simp add: recoveryAddress_def numeral_eq_Suc)
  have del: "IntDelegatedAccountFromAddress ?R = Inl (Errorf ''this is not correct delegated account'')" "delegated_id ?R = -1"
    unfolding delegated_id_def IntDelegatedAccountFromAddress_def by (subst r, simp add: Let_def get_be_def)+
  have kinds: "IsRecoveryReveal sample_reveal" "\<not> IsRecoveryBind sample_reveal" "\<not> IsAddressReveal sample_reveal"
    by (simp_all add: IsRecoveryReveal_def IsRecoveryBind_def IsAddressReveal_def tx recoveryAddress_def string_bytes_def)
  have "gas_ok sample_reveal"
    by (simp add: gas_ok_def MinGasUsage_def tx Let_def isDexOperation_def del sample_key_def)
  then have rules: "rules_ok ?ch txKindRegular 4600 sample_reveal"
    by (simp add: rules_ok_def Let_def kind_ok_def tx del kinds lock_ok_def policy_ok_def dex_ok_def) (simp add: sample_chain_def)
  have hash: "HashMatchesBody (cr_H256 sample_crypto) sample_reveal"
    by (simp add: HashMatchesBody_def tx GetHashFromBytes_def Hash_Set_def EmptyHash_def sample_crypto_def)
  have height: "recoveryHeight ?ch 4600 = 4601" by (simp add: recoveryHeight_def)
  have acc: "GetAccountByAddressBytes (ch_Accounts ?ch) (replicate 20 7) = Some (zero_Account\<lparr>acc_Address := replicate 20 7,
         acc_SpareCommit := replicate 20 3, acc_RecoveryCommit := replicate 20 7\<rparr>)"
    by (simp add: sample_chain_def GetAccountByAddressBytes_def)
  have secret: "reveal_secret ?ch (sample_addr 7) (zero_Account\<lparr>acc_Address := replicate 20 7,
         acc_SpareCommit := replicate 20 3, acc_RecoveryCommit := replicate 20 7\<rparr>) 4600 sample_reveal = Inr (replicate 32 6, replicate 32 9)"
    by (simp add: reveal_secret_def kinds tx Let_def ParseRecoveryReveal_def Address_Init_def height EffectiveRecoveryCommit_def zero_Account_def
        RecoveryCommitment_def RecoveryPayload_def) (simp add: sample_chain_def sample_crypto_def)
  have bind: "bind_opens ?ch (sample_addr 7) 4601 (replicate 32 6) (replicate 32 9) = None"
    by (simp add: bind_opens_def GetRecoveryBind_def RecoveryBindKey_def RecoveryTag_def sample_chain_def sample_crypto_def sample_addr_def)
  have key: "PubKeyToAddress (cr_H160 sample_crypto) b True = Inr (sample_addr 7)" for b
    using sample_key_address by (simp add: sample_crypto_def)
  have "verifyRecoveryReveal ?ch (replicate 32 9) sample_sn 4600 sample_reveal = None"
  proof -
    have ch: "ch_Crypto ?ch = sample_crypto" "cr_enc sample_crypto = sample_enc" "ch_Keys ?ch = empty_registry" "ch_Oqs ?ch = sample_oqs"
      by (simp_all add: sample_chain_def sample_crypto_def)
    have pk: "pk_ByteValue (sample_key a) = replicate 897 1" "pk_Address (sample_key a) = sample_addr 7" "pk_MainAddress (sample_key a) = a"
      "pk_Primary (sample_key a)" "addr_ByteValue (sample_addr 7) = replicate 20 7" for a
      by (simp_all add: sample_key_def sample_addr_def)
    have "LoadPubKeyAsOf empty_registry (replicate 20 7) 4600 = Inl (Errorf ''key not found'')"
      by (simp add: LoadPubKeyAsOf_def LoadPubKey_def empty_registry_def RegisteredAsOf_def RegistrationHeight_def mget_def)
    moreover have "wallet_Verify sample_oqs (replicate 32 9) [0, 1, 2] (replicate 897 1) (sample_sn\<lparr>sn_Paused := False, sn_Paused2 := False\<rparr>)"
      by (simp add: wallet_Verify_def sample_sn_def oqs_check_def sample_oqs_def)
    ultimately show ?thesis
      using sample_key_valid by (simp add: verifyRecoveryReveal_def tx noPolicyFields_def keyNamesSender_def height ch pk key acc secret bind)
  qed
  then show ?thesis
    using rules hash by (simp add: verify_def kinds tx) (simp add: sample_chain_def)
qed

theorem reveal_needs_secret_and_bind_witness:
  "\<exists>acc secret b k. GetAccountByAddressBytes (ch_Accounts (sample_chain empty_registry)) (replicate 20 7) = Some acc \<and>
     opens_commitment (sample_chain empty_registry) sample_reveal 4600 (sample_addr 7) acc secret (rb_Payload b) \<and>
     GetRecoveryBind (ch_Accounts (sample_chain empty_registry)) k = Some b \<and> rb_Height b = 1000"
proof -
  have opt: "OptData (tx_TxData sample_reveal) = replicate 32 6 @ replicate 20 4" "Pubkey (tx_TxData sample_reveal) = sample_key (sample_addr 7)"
    "GetSenderAddress sample_reveal = sample_addr 7" "addr_ByteValue (sample_addr 7) = replicate 20 7"
    by (simp_all add: sample_reveal_def sample_key_tx_def sample_tx_def sample_addr_def GetSenderAddress_def)
  have "drop 40 (replicate 32 6 @ replicate 20 (4 :: byte)) = [4, 4, 4, 4, 4, 4, 4, 4, 4, 4, 4, 4]"
    by (simp add: numeral_eq_Suc)
  then have "\<exists>e. BytesWithLenToBytes (drop 40 (replicate 32 6 @ replicate 20 (4 :: byte))) = Inl e"
    by (simp add: BytesWithLenToBytes_def get_be_def)
  then have no: "\<not> opens_address (sample_chain empty_registry) sample_reveal 4600 k a s p" for k a s p
    by (auto simp: opens_address_def opt ParseAddressReveal_def Address_Init_def)
  have rev: "IsRecoveryReveal sample_reveal"
    by (simp add: IsRecoveryReveal_def sample_reveal_def)
  have key: "PubKeyToAddress (cr_H160 (ch_Crypto (sample_chain empty_registry))) b (pk_Primary (sample_key a)) = Inr (sample_addr 7)" for a b
    using sample_key_address by (simp add: sample_chain_def sample_crypto_def sample_key_def)
  have bind: "GetRecoveryBind (ch_Accounts (sample_chain empty_registry)) k = Some b \<Longrightarrow> rb_Height b = 1000" for k b
    by (auto simp: GetRecoveryBind_def sample_chain_def split: if_splits)
  obtain acc secret b k where "GetAccountByAddressBytes (ch_Accounts (sample_chain empty_registry)) (replicate 20 7) = Some acc"
      "opens_commitment (sample_chain empty_registry) sample_reveal 4600 (sample_addr 7) acc secret (rb_Payload b)"
      "GetRecoveryBind (ch_Accounts (sample_chain empty_registry)) k = Some b"
    using reveal_needs_secret_and_bind [OF sample_revealed rev] no unfolding opt key by auto
  then show ?thesis using bind by blast
qed

subsection \<open>Panics\<close>

lemma decoded_signature:
  assumes "Transaction_GetFromBytes enc H160 b = Inr (tx, rest)"
  shows "sig_ByteValue (tx_Signature tx) \<noteq> []"
  using assms by (auto simp: Transaction_GetFromBytes_def bindR_def Signature_Init_def split: sum.splits if_splits prod.splits)

lemma no_panic_verify: "sig_ByteValue (tx_Signature tx) \<noteq> [] \<Longrightarrow> no_panic (verify ch kind sn asOf tx)"
  by (auto simp: verify_def Let_def split: sum.split)

text \<open>Whatever arrives, decoding it and verifying the result ends in a verdict or an ordinary error.\<close>

lemma no_panic_receive:
  "no_panic (bindR (Transaction_GetFromBytes enc H160 b) (\<lambda>(tx, rest). verify ch kind sn asOf tx))"
  using no_panic_Transaction [of enc H160 b] decoded_signature [of enc H160 b] no_panic_verify
  by (auto simp: bindR_def no_panic_def split: sum.split)

end
