(* ===== verification/Schemes.thy ===== *)
theory Schemes
  imports Verify Heights
begin

text \<open>
  The configuration of a signature scheme as a block header carries it
  (\<open>crypto/oqs/encryptSchemes.go\<close>, \<open>FromBytesToEncryptionConfig\<close> of \<open>blocks/baseBlock.go\<close>): 20 bytes of
  name padded with zeros, three lengths and a pause flag.

  The signature library (liboqs) is the argument \<open>lib\<close>: for a name it knows, the lengths
  it reports for the scheme and the public key a key generation returns. Go strings are byte
  strings; the model keeps names as \<open>string\<close>.
\<close>

subsection \<open>Data\<close>

record ConfigEnc =
  ce_PubKeyLength :: int
  ce_PrivateKeyLength :: int
  ce_SignatureLength :: int
  ce_SigName :: string
  ce_IsPaused :: bool

record SigDetails =
  LengthPublicKey :: int
  LengthSecretKey :: int
  MaxLengthSignature :: int
  GenerateKeyPair :: "bytes option"

type_synonym SigLibrary = "string \<Rightarrow> SigDetails option"

abbreviation (input) sigNameLength :: nat where "sigNameLength \<equiv> 20"
abbreviation (input) totalLength :: nat where "totalLength \<equiv> 33"

subsection \<open>Encoding\<close>

definition CreateEncryptionScheme :: "string \<Rightarrow> int \<Rightarrow> int \<Rightarrow> int \<Rightarrow> bool \<Rightarrow> ConfigEnc" where
  "CreateEncryptionScheme name pkl skl sl paused =
     \<lparr>ce_PubKeyLength = pkl, ce_PrivateKeyLength = skl, ce_SignatureLength = sl, ce_SigName = name, ce_IsPaused = paused\<rparr>"

definition read_name :: "bytes \<Rightarrow> string res" where
  "read_name b =
    (let name = takeWhile (\<lambda>x. x \<noteq> 0) b in
     if \<exists>x \<in> set (drop (length name) b). x \<noteq> 0 then Inl (Errorf ''scheme name contains bytes after an interior NUL'')
     else Inr (bytes_string name))"

definition GenerateParamsEncryptionSchemesFromBytes :: "bytes \<Rightarrow> (string \<times> int \<times> int \<times> int \<times> bool) res" where
  "GenerateParamsEncryptionSchemesFromBytes bb =
    (if length bb < totalLength then Inl (Errorf ''invalid byte slice length'')
     else
       bindR (read_name (take sigNameLength bb)) (\<lambda>name.
         let pkl = get_le (take 4 (drop 20 bb)) :: int32;
             skl = get_le (take 4 (drop 24 bb)) :: int32;
             sl = get_le (take 4 (drop 28 bb)) :: int32
         in Inr (name, sint pkl, sint skl, sint sl, bb ! 32 \<noteq> 0)))"

definition GenerateBytesFromParams :: "string \<Rightarrow> int \<Rightarrow> int \<Rightarrow> int \<Rightarrow> bool \<Rightarrow> bytes res" where
  "GenerateBytesFromParams name pkl skl sl paused =
    (if length name > sigNameLength then Inl (Errorf ''SigName exceeds maximum length'')
     else Inr (string_bytes name @ replicate (sigNameLength - length name) 0
       @ GetByteInt32 (word_of_int pkl) @ GetByteInt32 (word_of_int skl) @ GetByteInt32 (word_of_int sl)
       @ [BoolToByte paused]))"

definition VerifyEncConfig :: "SigLibrary \<Rightarrow> ConfigEnc \<Rightarrow> bool" where
  "VerifyEncConfig lib c =
    (case lib (ce_SigName c) of
       None \<Rightarrow> False
     | Some d \<Rightarrow>
         (case GenerateKeyPair d of
            None \<Rightarrow> False
          | Some pubKey \<Rightarrow>
              if int (length pubKey) > ce_PubKeyLength c then False
              else if LengthPublicKey d \<noteq> ce_PubKeyLength c then False
              else if LengthSecretKey d \<noteq> ce_PrivateKeyLength c then False
              else if MaxLengthSignature d \<noteq> ce_SignatureLength c then False
              else True))"

text \<open>The parse of a configuration, with the cache of the configurations that were valid.\<close>

type_synonym EncCache = "(bytes, ConfigEnc) gomap"

definition parse_config :: "SigLibrary \<Rightarrow> bytes \<Rightarrow> ConfigEnc res" where
  "parse_config lib bb =
    (if length bb \<noteq> totalLength then Inl (Errorf ''encryption config must be 33 bytes'')
     else
       bindR (GenerateParamsEncryptionSchemesFromBytes bb) (\<lambda>(name, pkl, skl, sl, paused).
       if name = '''' then Inl (Errorf ''encryption config carries an empty scheme name'')
       else
         let c = CreateEncryptionScheme name pkl skl sl paused in
         if \<not> VerifyEncConfig lib c then Inl (Errorf ''encryption scheme is invalid'')
         else Inr c))"

definition oqs_FromBytesToEncryptionConfig :: "SigLibrary \<Rightarrow> bytes \<Rightarrow> EncCache \<Rightarrow> ConfigEnc res \<times> EncCache" where
  "oqs_FromBytesToEncryptionConfig lib bb cache =
    (if length bb \<noteq> totalLength then (Inl (Errorf ''encryption config must be 33 bytes''), cache)
     else case map_of cache bb of
         Some c \<Rightarrow> (Inr c, cache)
       | None \<Rightarrow>
           (case parse_config lib bb of
              Inl e \<Rightarrow> (Inl e, cache)
            | Inr c \<Rightarrow> (Inr c, mput bb c cache)))"

definition GenerateEncConfig :: "SigLibrary \<Rightarrow> string \<Rightarrow> ConfigEnc res" where
  "GenerateEncConfig lib name =
    (case lib name of
       None \<Rightarrow> Inl (Errorf ''signature mechanism is not supported by OQS'')
     | Some d \<Rightarrow> Inr (CreateEncryptionScheme name (LengthPublicKey d) (LengthSecretKey d) (MaxLengthSignature d) False))"

text \<open>\<open>blocks.FromBytesToEncryptionConfig\<close>: an empty slot stands for the configuration in force. The cache
  does not show in the result (\<open>cached_config\<close> below), so it is left out here.\<close>

definition PrivateKeyLength :: "EncryptionState \<Rightarrow> int" where
  "PrivateKeyLength st = sint (privateKeyLength (enc_cur st))"

definition PrivateKeyLength2 :: "EncryptionState \<Rightarrow> int" where
  "PrivateKeyLength2 st = sint (privateKeyLength2 (enc_cur st))"

definition FromBytesToEncryptionConfig :: "SigLibrary \<Rightarrow> EncryptionState \<Rightarrow> bytes \<Rightarrow> bool \<Rightarrow> ConfigEnc res" where
  "FromBytesToEncryptionConfig lib st bb primary =
    (if length bb = 0 then
       if primary then Inr (CreateEncryptionScheme (sigName (enc_cur st)) (PubKeyLength st False) (PrivateKeyLength st)
         (SignatureLength st False) (IsPaused st))
       else Inr (CreateEncryptionScheme (sigName2 (enc_cur st)) (PubKeyLength2 st False) (PrivateKeyLength2 st)
         (SignatureLength2 st False) (IsPaused2 st))
     else parse_config lib bb)"

subsection \<open>Adopting a configuration\<close>

definition SetEncryptionFromBytes :: "SigLibrary \<Rightarrow> bytes \<Rightarrow> bool \<Rightarrow> EncryptionState cmd" where
  "SetEncryptionFromBytes lib enc primary st =
    (case FromBytesToEncryptionConfig lib st enc primary of
       Inl e \<Rightarrow> (Some e, st)
     | Inr c \<Rightarrow>
         let paused = (if primary \<and> ce_SigName c \<noteq> sigName (enc_cur st) then True
                       else if \<not> primary \<and> ce_SigName c \<noteq> sigName2 (enc_cur st) then True
                       else ce_IsPaused c) in
         if paused \<noteq> ce_IsPaused c then (Some (Errorf ''not proper pause set''), st)
         else (None, SetEncryption st (ce_SigName c) (ce_PubKeyLength c) (ce_PrivateKeyLength c) (ce_SignatureLength c) paused primary))"

definition SetVoteEncryption :: "SigLibrary \<Rightarrow> bytes \<Rightarrow> bool \<Rightarrow> EncryptionState \<Rightarrow> EncryptionState" where
  "SetVoteEncryption lib enc primary st = snd (SetEncryptionFromBytes lib enc primary st)"

subsection \<open>The encoding of a configuration\<close>

lemma bytes_string_inverse [simp]: "bytes_string (string_bytes s) = s"
proof -
  have "(char_of (unat (word_of_nat (of_char c) :: byte)) :: char) = c" for c :: char
    by (simp add: unsigned_of_nat take_bit_eq_mod of_char_mod_256)
  then show ?thesis
    by (simp add: bytes_string_def string_bytes_def o_def map_idI)
qed

lemma string_bytes_inverse [simp]: "string_bytes (bytes_string b) = b"
proof -
  have "word_of_nat (of_char (char_of (unat x) :: char)) = x" for x :: byte
    using unsigned_less [of x, where 'a = nat] by simp
  then show ?thesis
    by (simp add: bytes_string_def string_bytes_def o_def map_idI)
qed

lemma length_string_bytes [simp]: "length (string_bytes s) = length s" "length (bytes_string b) = length b"
  by (simp_all add: string_bytes_def bytes_string_def)

lemma read_name_padded:
  assumes "0 \<notin> set (string_bytes name)"
  shows "read_name (string_bytes name @ replicate n 0) = Inr name"
proof -
  have "takeWhile (\<lambda>x. x \<noteq> 0) (string_bytes name @ replicate n 0) = string_bytes name"
    using assms by (subst takeWhile_append2) (metis, cases n, simp_all)
  then show ?thesis
    by (simp add: read_name_def Let_def)
qed

lemma read_name_bytes:
  assumes "read_name b = Inr name"
  shows "b = string_bytes name @ replicate (length b - length name) 0" "0 \<notin> set (string_bytes name)"
proof -
  let ?n = "takeWhile (\<lambda>x. x \<noteq> 0) b"
  have z: "\<not> (\<exists>x \<in> set (drop (length ?n) b). x \<noteq> 0)"
    using assms unfolding read_name_def Let_def by (meson Inl_Inr_False)
  have "bytes_string ?n = name"
    using assms unfolding read_name_def Let_def if_not_P [OF z] by (rule sum.inject(2) [THEN iffD1])
  then have name: "string_bytes name = ?n"
    using string_bytes_inverse [of ?n] by simp
  have d: "drop (length ?n) b = replicate (length b - length ?n) 0"
    by (rule replicate_eqI [OF length_drop]) (use z in blast)
  have e: "?n @ drop (length ?n) b = b"
    unfolding dropWhile_eq_drop [symmetric] by (rule takeWhile_dropWhile_id)
  have l: "length name = length ?n"
    using arg_cong [OF name, of length] by simp
  show "b = string_bytes name @ replicate (length b - length name) 0"
    unfolding name l d [symmetric] by (rule e [symmetric])
  show "0 \<notin> set (string_bytes name)"
    unfolding name using set_takeWhileD by metis
qed

text \<open>The parse fixes all bytes but the last: the name cannot be written in two ways, the pause flag can.\<close>

definition int32_range :: "int \<Rightarrow> bool" where
  "int32_range i \<longleftrightarrow> - (2 ^ 31) \<le> i \<and> i < 2 ^ 31"

lemma sint_word_of_int32: "int32_range i \<Longrightarrow> sint (word_of_int i :: int32) = i"
  by (simp add: int32_range_def signed_of_int signed_take_bit_int_eq_self)

lemma params_round_trip:
  assumes "0 \<notin> set (string_bytes name)" "length name \<le> sigNameLength" "int32_range pkl" "int32_range skl" "int32_range sl"
    "GenerateBytesFromParams name pkl skl sl paused = Inr b"
  shows "length b = totalLength" "GenerateParamsEncryptionSchemesFromBytes b = Inr (name, pkl, skl, sl, paused)"
proof -
  define f where "f = string_bytes name @ replicate (20 - length name) 0"
  have b: "b = f @ GetByteInt32 (word_of_int pkl) @ GetByteInt32 (word_of_int skl) @ GetByteInt32 (word_of_int sl) @ [BoolToByte paused]"
    using assms(2,6) by (simp add: GenerateBytesFromParams_def f_def)
  have f: "length f = 20" "read_name f = Inr name"
    using assms(1,2) read_name_padded by (simp_all add: f_def)
  show len: "length b = totalLength"
    by (simp add: b f)
  have le: "get_le (GetByteInt32 w) = w" for w :: int32
    by (simp add: GetByteInt32_def)
  show "GenerateParamsEncryptionSchemesFromBytes b = Inr (name, pkl, skl, sl, paused)"
    using len assms(3-5) unfolding GenerateParamsEncryptionSchemesFromBytes_def
    by (simp add: b f le sint_word_of_int32 nth_append BoolToByte_def)
qed

lemma params_canonical:
  assumes "GenerateParamsEncryptionSchemesFromBytes b = Inr (name, pkl, skl, sl, paused)" "length b = totalLength"
  shows "\<exists>c. GenerateBytesFromParams name pkl skl sl paused = Inr c \<and> take 32 c = take 32 b \<and> paused = (b ! 32 \<noteq> 0) \<and> length c = 33"
    "0 \<notin> set (string_bytes name)" "length name \<le> sigNameLength"
proof -
  have n: "read_name (take 20 b) = Inr name" and
    v: "pkl = sint (get_le (take 4 (drop 20 b)) :: int32)" "skl = sint (get_le (take 4 (drop 24 b)) :: int32)"
       "sl = sint (get_le (take 4 (drop 28 b)) :: int32)" "paused = (b ! 32 \<noteq> 0)"
    using assms by (auto simp: GenerateParamsEncryptionSchemesFromBytes_def bindR_eq_Inr Let_def)
  note nb = read_name_bytes [OF n]
  show "0 \<notin> set (string_bytes name)"
    by (rule nb(2))
  have "length (take 20 b) = length name + (length (take 20 b) - length name)"
    using arg_cong [OF nb(1), of length] by (simp add: min_def split: if_splits)
  then show len: "length name \<le> sigNameLength"
    using assms(2) by (simp add: min_def)
  have name: "string_bytes name @ replicate (20 - length name) 0 = take 20 b"
    using nb(1) assms(2) by (simp add: min_def)
  have put: "put_le 4 (get_le w :: int32) = w" if "length w = 4" for w
    using put_le_get_le [of w, where 'a = 32] that by simp
  have "take 32 b = take 20 b @ take 4 (drop 20 b) @ take 4 (drop 24 b) @ take 4 (drop 28 b)"
    using take_add [of 20 12 b] take_add [of 4 8 "drop 20 b"] take_add [of 4 4 "drop 24 b"] by simp
  then show "\<exists>c. GenerateBytesFromParams name pkl skl sl paused = Inr c \<and> take 32 c = take 32 b \<and> paused = (b ! 32 \<noteq> 0) \<and> length c = 33"
    using len name assms(2) v by (simp add: GenerateBytesFromParams_def GetByteInt32_def put)
qed

lemma parse_config_bytes:
  assumes "parse_config lib b = Inr c" "parse_config lib b' = Inr c'" "ce_SigName c = ce_SigName c'"
  shows "take 32 b = take 32 b'" "length b = 33" "ce_IsPaused c = (b ! 32 \<noteq> 0)"
proof -
  have p: "length d = 33 \<and> VerifyEncConfig lib e \<and> GenerateParamsEncryptionSchemesFromBytes d =
      Inr (ce_SigName e, ce_PubKeyLength e, ce_PrivateKeyLength e, ce_SignatureLength e, ce_IsPaused e)"
    if "parse_config lib d = Inr e" for d e
    using that by (auto simp: parse_config_def bindR_eq_Inr Let_def CreateEncryptionScheme_def split: if_splits)
  have v: "\<exists>d. lib (ce_SigName e) = Some d \<and> ce_PubKeyLength e = LengthPublicKey d \<and>
      ce_PrivateKeyLength e = LengthSecretKey d \<and> ce_SignatureLength e = MaxLengthSignature d"
    if "VerifyEncConfig lib e" for e
    using that by (auto simp: VerifyEncConfig_def split: option.splits if_splits)
  note c = p [OF assms(1)] and c' = p [OF assms(2)]
  have eq: "ce_PubKeyLength c = ce_PubKeyLength c'" "ce_PrivateKeyLength c = ce_PrivateKeyLength c'" "ce_SignatureLength c = ce_SignatureLength c'"
    using v [of c] v [of c'] c c' assms(3) by auto
  have g: "\<exists>x. GenerateBytesFromParams (ce_SigName e) (ce_PubKeyLength e) (ce_PrivateKeyLength e) (ce_SignatureLength e) (ce_IsPaused e) = Inr x \<and>
      take 32 x = take 32 d \<and> ce_IsPaused e = (d ! 32 \<noteq> 0)" if "parse_config lib d = Inr e" for d e
    using params_canonical(1) p [OF that] by blast
  have u: "take 32 x = take 32 y" if "GenerateBytesFromParams n k s l q = Inr x" "GenerateBytesFromParams n k s l r = Inr y" for n k s l q r x y
    using that by (auto simp: GenerateBytesFromParams_def split: if_splits)
  show "take 32 b = take 32 b'"
    using g [OF assms(1)] g [OF assms(2)] eq assms(3) u by metis
  show "length b = 33" "ce_IsPaused c = (b ! 32 \<noteq> 0)"
    using c g [OF assms(1)] by blast+
qed

lemma config_round_trip:
  assumes "0 \<notin> set (string_bytes (ce_SigName c))" "ce_SigName c \<noteq> ''''" "length (ce_SigName c) \<le> sigNameLength"
    "int32_range (ce_PubKeyLength c)" "int32_range (ce_PrivateKeyLength c)" "int32_range (ce_SignatureLength c)" "VerifyEncConfig lib c"
    "GenerateBytesFromParams (ce_SigName c) (ce_PubKeyLength c) (ce_PrivateKeyLength c) (ce_SignatureLength c) (ce_IsPaused c) = Inr b"
  shows "parse_config lib b = Inr c"
  using params_round_trip [OF assms(1,3,4,5,6,8)] assms(2,7)
  by (cases c) (simp add: parse_config_def CreateEncryptionScheme_def Let_def)

subsection \<open>The cache is transparent\<close>

definition cache_valid :: "SigLibrary \<Rightarrow> EncCache \<Rightarrow> bool" where
  "cache_valid lib cache \<longleftrightarrow> (\<forall>b c. map_of cache b = Some c \<longrightarrow> parse_config lib b = Inr c)"

lemma cached_config:
  assumes "cache_valid lib cache"
  shows "fst (oqs_FromBytesToEncryptionConfig lib bb cache) = parse_config lib bb"
    "cache_valid lib (snd (oqs_FromBytesToEncryptionConfig lib bb cache))"
proof -
  have "parse_config lib bb = Inl (Errorf ''encryption config must be 33 bytes'')" if "length bb \<noteq> 33"
    using that by (simp add: parse_config_def)
  then show "fst (oqs_FromBytesToEncryptionConfig lib bb cache) = parse_config lib bb"
    "cache_valid lib (snd (oqs_FromBytesToEncryptionConfig lib bb cache))"
    using assms by (auto simp: oqs_FromBytesToEncryptionConfig_def cache_valid_def split: option.splits sum.splits)
qed

text \<open>Only valid configurations are kept, and every key has the length of a configuration.\<close>

lemma cache_keys:
  "cache_valid lib cache \<Longrightarrow> map_of cache b = Some c \<Longrightarrow> length b = totalLength \<and> VerifyEncConfig lib c"
  by (auto simp: cache_valid_def parse_config_def bindR_eq_Inr Let_def split: if_splits dest!: spec)

end
