(* ===== verification/Block_Codec.thy ===== *)
theory Block_Codec
  imports Schemes Pool_Store
begin

text \<open>
  Blocks (\<open>blocks/baseBlock.go\<close>, \<open>blocks/Block.go\<close>): the header, the body and the list of transaction hashes,
  their wire format, the hashes that tie them together, the header signature, and the store of blocks by
  hash and by height.

  Decoders return \<open>Inl\<close> of an ordinary error where the source returns one, and of a panic where it would
  slice out of range; \<open>no_panic_Block\<close> shows that no bytes reach one of the latter. \<open>nil\<close> and the empty
  slice are both the empty list.
\<close>

subsection \<open>Data\<close>

record BaseHeader =
  bh_PreviousHash :: bytes
  bh_Difficulty :: int32
  bh_Height :: int64
  bh_DelegatedAccount :: Address
  bh_OperatorAccount :: Address
  bh_RootMerkleTree :: bytes
  bh_BodyHash :: bytes
  bh_StateRoot :: bytes
  bh_Encryption1 :: bytes
  bh_Encryption2 :: bytes
  bh_Signature :: Signature
  bh_SignatureMessage :: bytes

record BaseBlock =
  bb_BaseHeader :: BaseHeader
  bb_BlockHeaderHash :: bytes
  bb_BlockTimeStamp :: int64
  bb_RewardPercentage :: int16
  bb_Supply :: int64
  bb_PriceOracle :: int64
  bb_RandOracle :: int64
  bb_PriceOracleData :: bytes
  bb_RandOracleData :: bytes
  bb_OracleProofs :: "bytes list"
  bb_RandReveal :: bytes
  bb_RandCommit :: bytes
  bb_RandMix :: bytes

record Block =
  bl_BaseBlock :: BaseBlock
  bl_TransactionsHashes :: "bytes list"
  bl_BlockHash :: bytes
  bl_BlockFee :: int64

definition GetHeader :: "Block \<Rightarrow> BaseHeader" where
  "GetHeader tb = bb_BaseHeader (bl_BaseBlock tb)"

definition block_height :: "Block \<Rightarrow> int64" where
  "block_height tb = bh_Height (GetHeader tb)"

abbreviation (input) MaxOracleProofs :: int where "MaxOracleProofs \<equiv> 255"
abbreviation (input) MaxOracleProofSize :: nat where "MaxOracleProofSize \<equiv> 1048576"
abbreviation (input) MaxOracleProofBytes :: nat where "MaxOracleProofBytes \<equiv> 16777216"
abbreviation (input) baseHeaderFixedBytes :: nat where "baseHeaderFixedBytes \<equiv> 181"

subsection \<open>A list of byte strings\<close>

definition bytesSliceToBytes :: "bytes list \<Rightarrow> bytes" where
  "bytesSliceToBytes its = GetByteInt32 (word_of_nat (length its)) @ concat (map BytesToLenAndBytes its)"

fun read_items :: "nat \<Rightarrow> nat \<Rightarrow> bytes \<Rightarrow> (bytes list \<times> bytes) res" where
  "read_items 0 n0 b = Inr ([], b)"
| "read_items (Suc n) n0 b =
    (if length b < 4 then Inl (Errorf ''not enough bytes for item length'')
     else
       let itemLen = unat (get_be (take 4 b) :: int32) in
       if itemLen > MaxOracleProofSize then Inl (Errorf ''byte-slice item length is invalid'')
       else if n0 + itemLen > MaxOracleProofBytes then Inl (Errorf ''byte-slice payload exceeds limit'')
       else bindR (BytesWithLenToBytes b) (\<lambda>(it, b).
         bindR (read_items n (n0 + itemLen) b) (\<lambda>(its, b). Inr (it # its, b))))"

definition bytesSliceFromBytes :: "bytes \<Rightarrow> (bytes list \<times> bytes) res" where
  "bytesSliceFromBytes b =
    (if length b < 4 then Inl (Errorf ''not enough bytes to decode byte-slice length'')
     else
       bindR (bindR (sliceR 0 4 b) GetInt32FromByte) (\<lambda>n. bindR (tailR 4 b) (\<lambda>b.
       if sint n < 0 then Inl (Errorf ''negative byte-slice count'')
       else if sint n > MaxOracleProofs then Inl (Errorf ''byte-slice count exceeds limit'')
       else if sint n > int (length b) div 4 then Inl (Errorf ''byte-slice count cannot fit'')
       else read_items (nat (sint n)) 0 b)))"

subsection \<open>The header\<close>

definition header_fields :: "BaseHeader \<Rightarrow> bytes" where
  "header_fields b =
     bh_PreviousHash b @ GetByteInt32 (bh_Difficulty b) @ GetByteInt64 (bh_Height b)
     @ addr_ByteValue (bh_DelegatedAccount b) @ Address_GetBytesWithPrimary (bh_OperatorAccount b)
     @ bh_RootMerkleTree b @ bh_BodyHash b @ bh_StateRoot b"

definition BaseHeader_GetBytesWithoutSignature :: "BaseHeader \<Rightarrow> bytes" where
  "BaseHeader_GetBytesWithoutSignature b =
     header_fields b @ BytesToLenAndBytes (bh_Encryption1 b) @ BytesToLenAndBytes (bh_Encryption2 b)"

definition BaseHeader_GetBytes :: "BaseHeader \<Rightarrow> bytes" where
  "BaseHeader_GetBytes b =
     header_fields b @ BytesToLenAndBytes (bh_Encryption1 b) @ BytesToLenAndBytes (bh_Encryption2 b)
     @ BytesToLenAndBytes (bh_SignatureMessage b) @ BytesToLenAndBytes (sig_ByteValue (bh_Signature b))"

definition BaseHeader_GetFromBytes :: "bytes \<Rightarrow> (BaseHeader \<times> bytes) res" where
  "BaseHeader_GetFromBytes b =
    (if length b < baseHeaderFixedBytes then Inl (Errorf ''not enough bytes to decode BaseHeader'')
     else
       bindR (sliceR 0 32 b) (\<lambda>previous.
       bindR (bindR (sliceR 32 36 b) GetInt32FromByte) (\<lambda>difficulty.
       bindR (int64At 36 b) (\<lambda>height.
       bindR (bindR (sliceR 44 64 b) BytesToAddress) (\<lambda>delegated.
       bindR (bindR (sliceR 64 85 b) BytesToAddress) (\<lambda>operator.
       bindR (sliceR 85 117 b) (\<lambda>root. bindR (sliceR 117 149 b) (\<lambda>body. bindR (sliceR 149 181 b) (\<lambda>state.
       bindR (tailR 181 b) (\<lambda>b.
       bindR (BytesWithLenToBytes b) (\<lambda>(enc1, b).
       bindR (BytesWithLenToBytes b) (\<lambda>(enc2, b).
       bindR (BytesWithLenToBytes b) (\<lambda>(msg, b).
       bindR (BytesWithLenToBytes b) (\<lambda>(sig, b).
       bindR (Signature_Init sig operator) (\<lambda>signature.
         Inr (\<lparr>bh_PreviousHash = GetHashFromBytes previous, bh_Difficulty = difficulty, bh_Height = height,
           bh_DelegatedAccount = delegated, bh_OperatorAccount = operator, bh_RootMerkleTree = GetHashFromBytes root,
           bh_BodyHash = GetHashFromBytes body, bh_StateRoot = GetHashFromBytes state, bh_Encryption1 = enc1,
           bh_Encryption2 = enc2, bh_Signature = signature, bh_SignatureMessage = msg\<rparr>, b))))))))))))))))"

definition BaseHeader_CalcHash :: "(bytes \<Rightarrow> bytes) \<Rightarrow> BaseHeader \<Rightarrow> bytes" where
  "BaseHeader_CalcHash H256 b = GetHashFromBytes (H256 (BaseHeader_GetBytes b))"

subsection \<open>The body\<close>

definition randaoBytes :: "BaseBlock \<Rightarrow> bytes" where
  "randaoBytes bb = BytesToLenAndBytes (bb_RandReveal bb) @ bb_RandCommit bb @ bb_RandMix bb"

definition bodyBytes :: "BaseBlock \<Rightarrow> bytes" where
  "bodyBytes bb =
     GetByteInt64 (bb_BlockTimeStamp bb) @ GetByteInt16 (bb_RewardPercentage bb) @ GetByteInt64 (bb_Supply bb)
     @ GetByteInt64 (bb_PriceOracle bb) @ GetByteInt64 (bb_RandOracle bb)
     @ BytesToLenAndBytes (bb_PriceOracleData bb) @ BytesToLenAndBytes (bb_RandOracleData bb)
     @ bytesSliceToBytes (bb_OracleProofs bb) @ randaoBytes bb"

definition BaseBlock_GetBytes :: "BaseBlock \<Rightarrow> bytes" where
  "BaseBlock_GetBytes bb =
     BaseHeader_GetBytes (bb_BaseHeader bb) @ bb_BlockHeaderHash bb
     @ GetByteInt64 (bb_BlockTimeStamp bb) @ GetByteInt16 (bb_RewardPercentage bb) @ GetByteInt64 (bb_Supply bb)
     @ GetByteInt64 (bb_PriceOracle bb) @ GetByteInt64 (bb_RandOracle bb)
     @ BytesToLenAndBytes (bb_PriceOracleData bb) @ BytesToLenAndBytes (bb_RandOracleData bb)
     @ bytesSliceToBytes (bb_OracleProofs bb) @ randaoBytes bb"

definition BaseBlock_GetFromBytes :: "bytes \<Rightarrow> (BaseBlock \<times> bytes) res" where
  "BaseBlock_GetFromBytes b =
    (if length b < baseHeaderFixedBytes + 44 + 16 then Inl (Errorf ''not enough bytes to decode BaseBlock'')
     else
       bindR (BaseHeader_GetFromBytes b) (\<lambda>(header, b).
       if length b < 66 then Inl (Errorf ''not enough bytes for BaseBlock fixed fields after header'')
       else
         bindR (sliceR 0 32 b) (\<lambda>hh. bindR (int64At 32 b) (\<lambda>time.
         bindR (bindR (sliceR 40 42 b) GetInt16FromByte) (\<lambda>perc.
         bindR (int64At 42 b) (\<lambda>supl. bindR (int64At 50 b) (\<lambda>price. bindR (int64At 58 b) (\<lambda>rand.
         bindR (tailR 66 b) (\<lambda>b.
         bindR (BytesWithLenToBytes b) (\<lambda>(pdata, b).
         bindR (BytesWithLenToBytes b) (\<lambda>(rdata, b).
         bindR (bytesSliceFromBytes b) (\<lambda>(proofs, b).
         bindR (BytesWithLenToBytes b) (\<lambda>(reveal, b).
         if length b < 2 * HashLength then Inl (Errorf ''not enough bytes for the RANDAO commitment and mix'')
         else
           bindR (sliceR 0 32 b) (\<lambda>commit. bindR (sliceR 32 64 b) (\<lambda>mix. bindR (tailR 64 b) (\<lambda>b.
             Inr (\<lparr>bb_BaseHeader = header, bb_BlockHeaderHash = GetHashFromBytes hh, bb_BlockTimeStamp = time,
               bb_RewardPercentage = perc, bb_Supply = supl, bb_PriceOracle = price, bb_RandOracle = rand,
               bb_PriceOracleData = pdata, bb_RandOracleData = rdata, bb_OracleProofs = proofs, bb_RandReveal = reveal,
               bb_RandCommit = GetHashFromBytes commit, bb_RandMix = GetHashFromBytes mix\<rparr>, b)))))))))))))))))"

definition CalcBodyHash :: "(bytes \<Rightarrow> bytes) \<Rightarrow> BaseBlock \<Rightarrow> bytes" where
  "CalcBodyHash H256 bb = GetHashFromBytes (H256 (bodyBytes bb))"

subsection \<open>The block\<close>

definition Block_GetBytes :: "Block \<Rightarrow> bytes" where
  "Block_GetBytes tb =
     BaseBlock_GetBytes (bl_BaseBlock tb) @ bl_BlockHash tb @ GetByteInt64 (bl_BlockFee tb)
     @ concat (bl_TransactionsHashes tb)"

definition Block_GetFromBytes :: "Block \<Rightarrow> bytes \<Rightarrow> Block res" where
  "Block_GetFromBytes tb b =
    bindR (BaseBlock_GetFromBytes b) (\<lambda>(base, b).
    if length b < 40 then Inl (Errorf ''not enough bytes for block hash and fee'')
    else
      bindR (sliceR 0 32 b) (\<lambda>hash. bindR (tailR 32 b) (\<lambda>b. bindR (int64At 0 b) (\<lambda>fee. bindR (tailR 8 b) (\<lambda>b.
      if length b mod 32 \<noteq> 0 then Inl (Errorf ''wrongly decompile block'')
      else bindR (readN 32 (length b div 32) b) (\<lambda>(hs, _).
        Inr \<lparr>bl_BaseBlock = base, bl_TransactionsHashes = bl_TransactionsHashes tb @ map GetHashFromBytes hs,
          bl_BlockHash = GetHashFromBytes hash, bl_BlockFee = fee\<rparr>))))))"

definition GetBytesForHash :: "Block \<Rightarrow> bytes" where
  "GetBytesForHash tb = BaseBlock_GetBytes (bl_BaseBlock tb)"

definition CalcBlockHash :: "(bytes \<Rightarrow> bytes) \<Rightarrow> Block \<Rightarrow> bytes" where
  "CalcBlockHash H256 tb = GetHashFromBytes (H256 (GetBytesForHash tb))"

subsection \<open>The header signature\<close>

definition header_key :: "KeyRegistry \<Rightarrow> Oqs \<Rightarrow> SigNames \<Rightarrow> Address \<Rightarrow> bool \<Rightarrow> PubKey res" where
  "header_key reg oqs sn a primary =
    (case (case oqs_Length oqs (signingSchemeName primary sn) of
             None \<Rightarrow> Inl (Errorf ''unknown scheme'')
           | Some expLen \<Rightarrow> LoadPubKeyWithPrimaryOfLengthAsOf reg a primary (int expLen) NoHeightLimit) of
       Inr pk \<Rightarrow> Inr pk
     | Inl _ \<Rightarrow> LoadPubKeyWithPrimaryAsOf reg a primary NoHeightLimit)"

definition BaseHeader_Verify :: "Chain \<Rightarrow> SigNames \<Rightarrow> BaseHeader \<Rightarrow> bool res" where
  "BaseHeader_Verify ch sn bh =
    (let msg = BaseHeader_GetBytesWithoutSignature bh; sig = sig_ByteValue (bh_Signature bh) in
     if msg \<noteq> bh_SignatureMessage bh then Inr False
     else bindR (indexR sig 0) (\<lambda>flag.
       case header_key (ch_Keys ch) (ch_Oqs ch) sn (bh_OperatorAccount bh) (flag = 0) of
         Inl _ \<Rightarrow> Inr False
       | Inr pk \<Rightarrow> Inr (wallet_Verify (ch_Oqs ch) (cr_H256 (ch_Crypto ch) msg) sig (pk_ByteValue pk) sn)))"

definition GetSigNames :: "SigLibrary \<Rightarrow> EncryptionState \<Rightarrow> Block \<Rightarrow> SigNames res" where
  "GetSigNames lib st bl =
    bindR (FromBytesToEncryptionConfig lib st (bh_Encryption1 (GetHeader bl)) True) (\<lambda>enc1.
    bindR (FromBytesToEncryptionConfig lib st (bh_Encryption2 (GetHeader bl)) False) (\<lambda>enc2.
      Inr \<lparr>sn_Name = ce_SigName enc1, sn_Name2 = ce_SigName enc2, sn_Paused = ce_IsPaused enc1, sn_Paused2 = \<not> ce_IsPaused enc1\<rparr>))"

definition verifyBlockHeaderSignature :: "SigLibrary \<Rightarrow> Chain \<Rightarrow> Block \<Rightarrow> Block \<Rightarrow> err option" where
  "verifyBlockHeaderSignature lib ch newBlock lastBlock =
    (case GetSigNames lib (cr_enc (ch_Crypto ch)) lastBlock of
       Inl e \<Rightarrow> Some e
     | Inr sn \<Rightarrow>
         (case BaseHeader_Verify ch sn (GetHeader newBlock) of
            Inl e \<Rightarrow> Some e
          | Inr ok \<Rightarrow> if ok then None else Some (Errorf ''header fails to verify'')))"

subsection \<open>The store of blocks\<close>

abbreviation (input) BlocksDBPrefix :: bytes where "BlocksDBPrefix \<equiv> string_bytes ''BI''"
abbreviation (input) BlockByHeightDBPrefix :: bytes where "BlockByHeightDBPrefix \<equiv> string_bytes ''BH''"

definition zero_BaseHeader :: BaseHeader where
  "zero_BaseHeader = \<lparr>bh_PreviousHash = EmptyHash, bh_Difficulty = 0, bh_Height = 0, bh_DelegatedAccount = zero_Address,
     bh_OperatorAccount = zero_Address, bh_RootMerkleTree = EmptyHash, bh_BodyHash = EmptyHash, bh_StateRoot = EmptyHash,
     bh_Encryption1 = [], bh_Encryption2 = [], bh_Signature = zero_Signature, bh_SignatureMessage = []\<rparr>"

definition zero_Block :: Block where
  "zero_Block = \<lparr>bl_BaseBlock = \<lparr>bb_BaseHeader = zero_BaseHeader, bb_BlockHeaderHash = EmptyHash, bb_BlockTimeStamp = 0,
       bb_RewardPercentage = 0, bb_Supply = 0, bb_PriceOracle = 0, bb_RandOracle = 0, bb_PriceOracleData = [],
       bb_RandOracleData = [], bb_OracleProofs = [], bb_RandReveal = [], bb_RandCommit = EmptyHash, bb_RandMix = EmptyHash\<rparr>,
     bl_TransactionsHashes = [], bl_BlockHash = EmptyHash, bl_BlockFee = 0\<rparr>"

definition StoreBlock :: "Block \<Rightarrow> DB \<Rightarrow> DB" where
  "StoreBlock bl db =
     mput (BlockByHeightDBPrefix @ GetByteInt64 (block_height bl)) (bl_BlockHash bl)
       (mput (BlocksDBPrefix @ bl_BlockHash bl) (Block_GetBytes bl) db)"

definition LoadHashOfBlock :: "DB \<Rightarrow> int64 \<Rightarrow> bytes res" where
  "LoadHashOfBlock db height =
    (case map_of db (BlockByHeightDBPrefix @ GetByteInt64 height) of
       None \<Rightarrow> Inl (Errorf ''key not found'') | Some hb \<Rightarrow> Inr hb)"

definition LoadBlock :: "DB \<Rightarrow> int64 \<Rightarrow> Block res" where
  "LoadBlock db height =
    bindR (LoadHashOfBlock db height) (\<lambda>hb.
      case map_of db (BlocksDBPrefix @ hb) of
        None \<Rightarrow> Inl (Errorf ''key not found'')
      | Some abl \<Rightarrow> Block_GetFromBytes zero_Block abl)"

definition RemoveBlockFromDB :: "int64 \<Rightarrow> PoolState cmd" where
  "RemoveBlockFromDB height s =
    (let s = (case LoadBlock (ps_DB s) height of
                Inl _ \<Rightarrow> s
              | Inr bl \<Rightarrow> fold UnmarkTxIncluded (bl_TransactionsHashes bl) s) in
     case LoadHashOfBlock (ps_DB s) height of
       Inl e \<Rightarrow> (Some e, s)
     | Inr hb \<Rightarrow> (None, s\<lparr>ps_DB := mdel (BlockByHeightDBPrefix @ GetByteInt64 height) (mdel (BlocksDBPrefix @ hb) (ps_DB s))\<rparr>))"

definition LastHeightStoredInBlocks :: "DB \<Rightarrow> (err option \<times> int64) option" where
  "LastHeightStoredInBlocks db =
     LastContiguousHeight (\<lambda>h. Inr (map_of db (BlockByHeightDBPrefix @ GetByteInt64 h) \<noteq> None))"

subsection \<open>The codec\<close>

lemma read_items_round_trip:
  "\<forall>x \<in> set its. length x \<le> MaxOracleProofSize \<Longrightarrow> n0 + sum_list (map length its) \<le> MaxOracleProofBytes \<Longrightarrow>
   read_items (length its) n0 (concat (map BytesToLenAndBytes its) @ rest) = Inr (its, rest)"
proof (induction its arbitrary: n0)
  case (Cons x its)
  have "unat (get_be (take 4 (BytesToLenAndBytes x @ r)) :: int32) = length x" for r
    using Cons.prems(1) by (simp add: BytesToLenAndBytes_def unsigned_of_nat take_bit_nat_eq_self)
  then show ?case
    using Cons by simp
qed simp

lemma bytesSlice_round_trip [codec_simps]:
  assumes "length its \<le> 255" "\<forall>x \<in> set its. length x \<le> MaxOracleProofSize" "sum_list (map length its) \<le> MaxOracleProofBytes"
  shows "bytesSliceFromBytes (bytesSliceToBytes its @ rest) = Inr (its, rest)"
proof -
  let ?c = "concat (map BytesToLenAndBytes its)"
  have n: "sint (word_of_nat (length its) :: int32) = int (length its)"
    using assms(1) by simp
  have "4 * length its \<le> length ?c"
    by (induction its) auto
  then have "length its \<le> (length ?c + length rest) div 4"
    by linarith
  then show ?thesis
    using assms(1) read_items_round_trip [OF assms(2), of 0 rest] assms(3)
    by (simp add: bytesSliceFromBytes_def bytesSliceToBytes_def n)
qed

definition wf_BaseHeader :: "BaseHeader \<Rightarrow> bool" where
  "wf_BaseHeader b \<longleftrightarrow>
     length (bh_PreviousHash b) = HashLength \<and> length (bh_RootMerkleTree b) = HashLength \<and> length (bh_BodyHash b) = HashLength \<and>
     length (bh_StateRoot b) = HashLength \<and> wf_Address (bh_DelegatedAccount b) \<and> addr_Primary (bh_DelegatedAccount b) \<and>
     wf_Address (bh_OperatorAccount b) \<and> length (bh_Encryption1 b) < 2 ^ 32 \<and> length (bh_Encryption2 b) < 2 ^ 32 \<and>
     length (bh_SignatureMessage b) < 2 ^ 32 \<and>
     Signature_Init (sig_ByteValue (bh_Signature b)) (bh_OperatorAccount b) = Inr (bh_Signature b)"

definition wf_body :: "BaseBlock \<Rightarrow> bool" where
  "wf_body bb \<longleftrightarrow>
     length (bb_PriceOracleData bb) < 2 ^ 32 \<and> length (bb_RandOracleData bb) < 2 ^ 32 \<and> length (bb_OracleProofs bb) \<le> 255 \<and>
     (\<forall>x \<in> set (bb_OracleProofs bb). length x \<le> MaxOracleProofSize) \<and> sum_list (map length (bb_OracleProofs bb)) \<le> MaxOracleProofBytes \<and>
     length (bb_RandReveal bb) < 2 ^ 32 \<and> length (bb_RandCommit bb) = HashLength \<and> length (bb_RandMix bb) = HashLength"

definition wf_BaseBlock :: "BaseBlock \<Rightarrow> bool" where
  "wf_BaseBlock bb \<longleftrightarrow> wf_BaseHeader (bb_BaseHeader bb) \<and> length (bb_BlockHeaderHash bb) = HashLength \<and> wf_body bb"

definition wf_Block :: "Block \<Rightarrow> bool" where
  "wf_Block tb \<longleftrightarrow> wf_BaseBlock (bl_BaseBlock tb) \<and> length (bl_BlockHash tb) = HashLength \<and>
     (\<forall>h \<in> set (bl_TransactionsHashes tb). length h = HashLength)"

lemma hash_full: "length h = HashLength \<Longrightarrow> GetHashFromBytes h = h"
  by (simp add: GetHashFromBytes_def EmptyHash_def)

lemma length_header_fields: "wf_BaseHeader b \<Longrightarrow> length (header_fields b) = 181"
  by (simp add: header_fields_def wf_BaseHeader_def wf_Address_def length_AddressWithPrimary)

lemma header_fields_read:
  fixes rest :: bytes
  assumes "wf_BaseHeader b"
  defines "d \<equiv> header_fields b @ rest"
  shows "sliceR 0 32 d = Inr (bh_PreviousHash b)" "sliceR 32 36 d = Inr (GetByteInt32 (bh_Difficulty b))"
    "int64At 36 d = Inr (bh_Height b)" "sliceR 44 64 d = Inr (addr_ByteValue (bh_DelegatedAccount b))"
    "sliceR 64 85 d = Inr (Address_GetBytesWithPrimary (bh_OperatorAccount b))" "sliceR 85 117 d = Inr (bh_RootMerkleTree b)"
    "sliceR 117 149 d = Inr (bh_BodyHash b)" "sliceR 149 181 d = Inr (bh_StateRoot b)" "tailR 181 d = Inr rest" "\<not> length d < 181"
proof -
  have len: "length (bh_PreviousHash b) = 32" "length (bh_RootMerkleTree b) = 32" "length (bh_BodyHash b) = 32" "length (bh_StateRoot b) = 32"
      "length (addr_ByteValue (bh_DelegatedAccount b)) = 20" "length (Address_GetBytesWithPrimary (bh_OperatorAccount b)) = 21"
    using assms(1) by (simp_all add: wf_BaseHeader_def wf_Address_def length_AddressWithPrimary)
  show "int64At 36 d = Inr (bh_Height b)"
    using int64At_app [of "bh_PreviousHash b @ GetByteInt32 (bh_Difficulty b)" 36 "bh_Height b"] len
    by (simp add: d_def header_fields_def)
  show "sliceR 0 32 d = Inr (bh_PreviousHash b)" "sliceR 32 36 d = Inr (GetByteInt32 (bh_Difficulty b))"
    "sliceR 44 64 d = Inr (addr_ByteValue (bh_DelegatedAccount b))"
    "sliceR 64 85 d = Inr (Address_GetBytesWithPrimary (bh_OperatorAccount b))" "sliceR 85 117 d = Inr (bh_RootMerkleTree b)"
    "sliceR 117 149 d = Inr (bh_BodyHash b)" "sliceR 149 181 d = Inr (bh_StateRoot b)" "tailR 181 d = Inr rest" "\<not> length d < 181"
    using len by (simp_all add: d_def header_fields_def)
qed

lemma BaseHeader_round_trip [codec_simps]:
  assumes "wf_BaseHeader b"
  shows "BaseHeader_GetFromBytes (BaseHeader_GetBytes b @ rest) = Inr (b, rest)"
proof -
  let ?s = "sig_ByteValue (bh_Signature b)"
  define r3 where "r3 = BytesToLenAndBytes ?s @ rest"
  define r2 where "r2 = BytesToLenAndBytes (bh_SignatureMessage b) @ r3"
  define r1 where "r1 = BytesToLenAndBytes (bh_Encryption2 b) @ r2"
  define r where "r = BytesToLenAndBytes (bh_Encryption1 b) @ r1"
  have b: "BaseHeader_GetBytes b @ rest = header_fields b @ r"
    by (simp add: BaseHeader_GetBytes_def r_def r1_def r2_def r3_def)
  have wf: "length (bh_Encryption1 b) < 2 ^ 32" "length (bh_Encryption2 b) < 2 ^ 32" "length (bh_SignatureMessage b) < 2 ^ 32"
      "Signature_Init ?s (bh_OperatorAccount b) = Inr (bh_Signature b)"
    using assms by (simp_all add: wf_BaseHeader_def)
  have s: "length ?s < 2 ^ 32"
    using Signature_Init_length [OF wf(4)] by simp
  have rd: "BytesWithLenToBytes r = Inr (bh_Encryption1 b, r1)" "BytesWithLenToBytes r1 = Inr (bh_Encryption2 b, r2)"
      "BytesWithLenToBytes r2 = Inr (bh_SignatureMessage b, r3)" "BytesWithLenToBytes r3 = Inr (?s, rest)"
    unfolding r_def r1_def r2_def r3_def using wf s by simp_all
  have ad: "BytesToAddress (addr_ByteValue (bh_DelegatedAccount b)) = Inr (bh_DelegatedAccount b)"
      "BytesToAddress (Address_GetBytesWithPrimary (bh_OperatorAccount b)) = Inr (bh_OperatorAccount b)"
    using assms BytesToAddress_plain by (simp_all add: wf_BaseHeader_def)
  have hs: "GetHashFromBytes (bh_PreviousHash b) = bh_PreviousHash b" "GetHashFromBytes (bh_RootMerkleTree b) = bh_RootMerkleTree b"
      "GetHashFromBytes (bh_BodyHash b) = bh_BodyHash b" "GetHashFromBytes (bh_StateRoot b) = bh_StateRoot b"
    using assms by (simp_all add: wf_BaseHeader_def hash_full)
  note f = header_fields_read [OF assms, of r]
  show ?thesis
    unfolding b BaseHeader_GetFromBytes_def if_not_P [OF f(10)] f(1-9) bindR_simps ad rd hs wf(4)
      GetInt32FromByte_exact prod.case by simp
qed

lemma body_split: "BaseBlock_GetBytes bb = BaseHeader_GetBytes (bb_BaseHeader bb) @ bb_BlockHeaderHash bb @ bodyBytes bb"
  by (simp add: BaseBlock_GetBytes_def bodyBytes_def)

lemma body_fields_read:
  fixes rest :: bytes and t s pr ra :: int64 and p :: int16
  assumes "length hh = 32"
  defines "d \<equiv> hh @ GetByteInt64 t @ GetByteInt16 p @ GetByteInt64 s @ GetByteInt64 pr @ GetByteInt64 ra @ rest"
  shows "sliceR 0 32 d = Inr hh" "int64At 32 d = Inr t" "sliceR 40 42 d = Inr (GetByteInt16 p)" "int64At 42 d = Inr s"
    "int64At 50 d = Inr pr" "int64At 58 d = Inr ra" "tailR 66 d = Inr rest" "\<not> length d < 66"
proof -
  show "int64At 32 d = Inr t"
    using int64At_app [of hh 32 t] assms(1) by (simp add: d_def)
  show "int64At 42 d = Inr s"
    using int64At_app [of "hh @ GetByteInt64 t @ GetByteInt16 p" 42 s] assms(1) by (simp add: d_def)
  show "int64At 50 d = Inr pr"
    using int64At_app [of "hh @ GetByteInt64 t @ GetByteInt16 p @ GetByteInt64 s" 50 pr] assms(1) by (simp add: d_def)
  show "int64At 58 d = Inr ra"
    using int64At_app [of "hh @ GetByteInt64 t @ GetByteInt16 p @ GetByteInt64 s @ GetByteInt64 pr" 58 ra] assms(1) by (simp add: d_def)
  show "sliceR 0 32 d = Inr hh" "sliceR 40 42 d = Inr (GetByteInt16 p)" "tailR 66 d = Inr rest" "\<not> length d < 66"
    using assms(1) by (simp_all add: d_def)
qed


lemma BaseBlock_round_trip [codec_simps]:
  assumes "wf_BaseBlock bb"
  shows "BaseBlock_GetFromBytes (BaseBlock_GetBytes bb @ rest) = Inr (bb, rest)"
proof -
  define r4 where "r4 = bb_RandCommit bb @ bb_RandMix bb @ rest"
  define r3 where "r3 = BytesToLenAndBytes (bb_RandReveal bb) @ r4"
  define r2 where "r2 = bytesSliceToBytes (bb_OracleProofs bb) @ r3"
  define r1 where "r1 = BytesToLenAndBytes (bb_RandOracleData bb) @ r2"
  define r where "r = BytesToLenAndBytes (bb_PriceOracleData bb) @ r1"
  define d where "d = bb_BlockHeaderHash bb @ GetByteInt64 (bb_BlockTimeStamp bb) @ GetByteInt16 (bb_RewardPercentage bb)
    @ GetByteInt64 (bb_Supply bb) @ GetByteInt64 (bb_PriceOracle bb) @ GetByteInt64 (bb_RandOracle bb) @ r"
  have b: "BaseBlock_GetBytes bb @ rest = BaseHeader_GetBytes (bb_BaseHeader bb) @ d"
    by (simp add: BaseBlock_GetBytes_def randaoBytes_def d_def r_def r1_def r2_def r3_def r4_def)
  have wf: "wf_BaseHeader (bb_BaseHeader bb)" "length (bb_BlockHeaderHash bb) = 32" "length (bb_RandCommit bb) = 32"
      "length (bb_RandMix bb) = 32"
    using assms by (simp_all add: wf_BaseBlock_def wf_body_def)
  have rd: "BytesWithLenToBytes r = Inr (bb_PriceOracleData bb, r1)" "BytesWithLenToBytes r1 = Inr (bb_RandOracleData bb, r2)"
      "bytesSliceFromBytes r2 = Inr (bb_OracleProofs bb, r3)" "BytesWithLenToBytes r3 = Inr (bb_RandReveal bb, r4)"
    unfolding r_def r1_def r2_def r3_def using assms by (simp_all add: wf_BaseBlock_def wf_body_def bytesSlice_round_trip)
  have tl: "\<not> length r4 < 2 * 32" "sliceR 0 32 r4 = Inr (bb_RandCommit bb)" "sliceR 32 64 r4 = Inr (bb_RandMix bb)" "tailR 64 r4 = Inr rest"
    using wf(3,4) by (simp_all add: r4_def)
  have hs: "GetHashFromBytes (bb_BlockHeaderHash bb) = bb_BlockHeaderHash bb" "GetHashFromBytes (bb_RandCommit bb) = bb_RandCommit bb"
      "GetHashFromBytes (bb_RandMix bb) = bb_RandMix bb"
    using wf by (simp_all add: hash_full)
  note f = body_fields_read [OF wf(2), of "bb_BlockTimeStamp bb" "bb_RewardPercentage bb" "bb_Supply bb" "bb_PriceOracle bb"
      "bb_RandOracle bb" r, folded d_def]
  have len: "\<not> length (BaseHeader_GetBytes (bb_BaseHeader bb) @ d) < 181 + 44 + 16"
  proof -
    have "197 \<le> length (BaseHeader_GetBytes (bb_BaseHeader bb))"
      using length_header_fields [OF wf(1)] by (simp add: BaseHeader_GetBytes_def)
    then show ?thesis
      using f(8) by simp
  qed
  show ?thesis
    unfolding b BaseBlock_GetFromBytes_def if_not_P [OF len] BaseHeader_round_trip [OF wf(1)] bindR_simps prod.case
      if_not_P [OF f(8)] f(1-7) rd GetInt16FromByte_exact if_not_P [OF tl(1)] tl(2-4) hs by simp
qed

lemma Block_round_trip [codec_simps]:
  assumes "wf_Block bl"
  shows "Block_GetFromBytes (tb\<lparr>bl_TransactionsHashes := []\<rparr>) (Block_GetBytes bl) = Inr bl"
proof -
  define c where "c = concat (bl_TransactionsHashes bl)"
  define d where "d = GetByteInt64 (bl_BlockFee bl) @ c"
  have wf: "wf_BaseBlock (bl_BaseBlock bl)" "length (bl_BlockHash bl) = 32" "\<forall>h \<in> set (bl_TransactionsHashes bl). length h = 32"
    using assms by (simp_all add: wf_Block_def)
  have b: "Block_GetBytes bl = BaseBlock_GetBytes (bl_BaseBlock bl) @ bl_BlockHash bl @ d"
    by (simp add: Block_GetBytes_def d_def c_def)
  have c: "length c = 32 * length (bl_TransactionsHashes bl)"
    unfolding c_def using length_concat_const [OF wf(3)] by (simp add: mult.commute)
  have rd: "\<not> length (bl_BlockHash bl @ d) < 40" "sliceR 0 32 (bl_BlockHash bl @ d) = Inr (bl_BlockHash bl)"
      "tailR 32 (bl_BlockHash bl @ d) = Inr d" "int64At 0 d = Inr (bl_BlockFee bl)" "tailR 8 d = Inr c" "\<not> length c mod 32 \<noteq> 0"
    using wf(2) c by (simp_all add: d_def)
  have h: "readN 32 (length c div 32) c = Inr (bl_TransactionsHashes bl, [])"
    using readN_concat [OF wf(3), of "length c div 32" "[]"] c by (simp add: c_def)
  have m: "map GetHashFromBytes (bl_TransactionsHashes bl) = bl_TransactionsHashes bl"
    using wf(3) by (intro map_idI) (simp add: hash_full)
  show ?thesis
    unfolding b Block_GetFromBytes_def BaseBlock_round_trip [OF wf(1)] bindR_simps prod.case if_not_P [OF rd(1)] rd(2-5)
      if_not_P [OF rd(6)] h m hash_full [OF wf(2)] by simp
qed


lemmas Block_round_trip_zero = Block_round_trip [where tb = zero_Block, unfolded zero_Block_def, simplified, folded zero_Block_def]

subsection \<open>The decoder never panics\<close>

lemma no_panic_read_items: "no_panic (read_items n n0 b)"
  by (induction n n0 b rule: read_items.induct)
    (auto simp: Let_def intro!: no_panic_bindR no_panic_BytesWithLen split: prod.splits)

lemma no_panic_bytesSlice: "no_panic (bytesSliceFromBytes b)"
  unfolding bytesSliceFromBytes_def
  by (auto intro!: no_panic_bindR no_panic_read_items simp: GetInt32FromByte_def)

lemma no_panic_BaseHeader: "no_panic (BaseHeader_GetFromBytes b)"
  unfolding BaseHeader_GetFromBytes_def
  by (auto intro!: no_panic_bindR no_panic_Address no_panic_int64At no_panic_BytesWithLen no_panic_keys
      simp: GetInt32FromByte_def split: prod.splits)

lemma no_panic_BaseBlock: "no_panic (BaseBlock_GetFromBytes b)"
  unfolding BaseBlock_GetFromBytes_def
  by (auto intro!: no_panic_bindR no_panic_BaseHeader no_panic_int64At no_panic_BytesWithLen no_panic_bytesSlice
      simp: GetInt16FromByte_def split: prod.splits)

lemma no_panic_Block: "no_panic (Block_GetFromBytes tb b)"
  unfolding Block_GetFromBytes_def
  by (auto intro!: no_panic_bindR no_panic_BaseBlock no_panic_int64At no_panic_readN dest: tailR_Inr split: prod.splits)
    arith

text \<open>A header that was read carries a signature of at least one byte, so the check of the signature reads
  its first byte safely.\<close>

lemma decoded_header_signature:
  assumes "BaseHeader_GetFromBytes b = Inr (h, rest)"
  shows "0 < length (sig_ByteValue (bh_Signature h))"
  using assms by (auto simp: BaseHeader_GetFromBytes_def bindR_eq_Inr split: if_splits prod.splits dest!: Signature_Init_length)

lemma decoded_block_signature:
  assumes "Block_GetFromBytes tb b = Inr bl"
  shows "0 < length (sig_ByteValue (bh_Signature (GetHeader bl)))"
proof -
  from assms obtain base r where base: "BaseBlock_GetFromBytes b = Inr (base, r)" and bl: "bl_BaseBlock bl = base"
    by (auto simp: Block_GetFromBytes_def bindR_eq_Inr split: if_splits prod.splits)
  from base obtain h s where "BaseHeader_GetFromBytes b = Inr (h, s)" "bb_BaseHeader base = h"
    by (auto simp: BaseBlock_GetFromBytes_def bindR_eq_Inr split: if_splits prod.splits)
  then show ?thesis
    using decoded_header_signature bl by (simp add: GetHeader_def)
qed

lemma no_panic_header_check:
  "no_panic (bindR (Block_GetFromBytes tb b) (\<lambda>bl. BaseHeader_Verify ch sn (GetHeader bl)))"
proof (rule no_panic_bindR [OF no_panic_Block])
  fix bl
  assume "Block_GetFromBytes tb b = Inr bl"
  from decoded_block_signature [OF this] show "no_panic (BaseHeader_Verify ch sn (GetHeader bl))"
    by (auto simp: BaseHeader_Verify_def Let_def split: sum.splits)
qed


subsection \<open>The hashed bytes determine the block\<close>

lemma Inr_unique: "r = Inr a \<Longrightarrow> r = Inr b \<Longrightarrow> a = b"
  by simp

lemma header_message_inject:
  assumes "wf_BaseHeader b" "wf_BaseHeader b'" "BaseHeader_GetBytesWithoutSignature b = BaseHeader_GetBytesWithoutSignature b'"
  shows "b' = b\<lparr>bh_Signature := bh_Signature b', bh_SignatureMessage := bh_SignatureMessage b'\<rparr>"
proof -
  have f: "header_fields b = header_fields b'" and
      r: "BytesToLenAndBytes (bh_Encryption1 b) @ BytesToLenAndBytes (bh_Encryption2 b)
        = BytesToLenAndBytes (bh_Encryption1 b') @ BytesToLenAndBytes (bh_Encryption2 b')"
    using assms by (simp_all add: BaseHeader_GetBytesWithoutSignature_def append_eq_same_length length_header_fields)
  have "[bh_Encryption1 b, bh_Encryption2 b] = [bh_Encryption1 b', bh_Encryption2 b']"
    by (rule concat_BytesToLenAndBytes_inject) (use assms r in \<open>auto simp: wf_BaseHeader_def\<close>)
  note e = this
  note d = header_fields_read [OF assms(1), of "[]", unfolded f] and d' = header_fields_read [OF assms(2), of "[]"]
  have "GetByteInt32 (bh_Difficulty b) = GetByteInt32 (bh_Difficulty b')"
    by (rule Inr_unique [OF d(2) d'(2)])
  then have diff: "bh_Difficulty b = bh_Difficulty b'"
    by (metis GetInt32FromByte_exact sum.inject(2))
  note eq = diff Inr_unique [OF d(1) d'(1)] Inr_unique [OF d(3) d'(3)] Inr_unique [OF d(4) d'(4)] Inr_unique [OF d(5) d'(5)]
    Inr_unique [OF d(6) d'(6)] Inr_unique [OF d(7) d'(7)] Inr_unique [OF d(8) d'(8)]
  have del: "bh_DelegatedAccount b = bh_DelegatedAccount b'"
    by (rule Address.equality) (use eq(4) assms in \<open>simp_all add: wf_BaseHeader_def\<close>)
  have oper: "bh_OperatorAccount b = bh_OperatorAccount b'"
    using eq(5) Address_round_trip assms by (metis sum.inject(2) wf_BaseHeader_def)
  show ?thesis
    by (rule BaseHeader.equality) (use eq del oper e in simp_all)
qed

lemma BaseBlock_GetBytes_inject:
  assumes "wf_BaseBlock a" "wf_BaseBlock b" "BaseBlock_GetBytes a = BaseBlock_GetBytes b"
  shows "a = b"
  using BaseBlock_round_trip [OF assms(1), of "[]"] BaseBlock_round_trip [OF assms(2), of "[]"] assms(3) by simp

lemma bodyBytes_inject:
  assumes "wf_body a" "wf_body b" "bodyBytes a = bodyBytes b"
  shows "b = a\<lparr>bb_BaseHeader := bb_BaseHeader b, bb_BlockHeaderHash := bb_BlockHeaderHash b\<rparr>"
proof -
  define h where "h = zero_BaseHeader\<lparr>bh_DelegatedAccount := zero_Address\<lparr>addr_Primary := True\<rparr>,
    bh_Signature := \<lparr>sig_ByteValue = [0], sig_Address = zero_Address, sig_Primary = True\<rparr>\<rparr>"
  have wfh: "wf_BaseHeader h"
    by (simp add: h_def zero_BaseHeader_def wf_BaseHeader_def zero_Address_def wf_Address_def EmptyHash_def Signature_Init_def)
  define fill where "fill x = x\<lparr>bb_BaseHeader := h, bb_BlockHeaderHash := EmptyHash\<rparr>" for x :: BaseBlock
  have wf: "wf_BaseBlock (fill x)" if "wf_body x" for x
    using that wfh by (simp add: fill_def wf_BaseBlock_def wf_body_def EmptyHash_def)
  have "BaseBlock_GetBytes (fill x) = BaseHeader_GetBytes h @ EmptyHash @ bodyBytes x" for x
    unfolding body_split by (simp add: fill_def bodyBytes_def randaoBytes_def)
  then have "fill a = fill b"
    using BaseBlock_GetBytes_inject [OF wf [OF assms(1)] wf [OF assms(2)]] assms(3) by simp
  then show ?thesis
    by (cases a, cases b) (simp add: fill_def)
qed


subsection \<open>Storing and removing blocks\<close>

lemma block_prefixes:
  "string_bytes ''BH'' @ a \<noteq> string_bytes ''BI'' @ b" "string_bytes ''BI'' @ b \<noteq> string_bytes ''BH'' @ a"
  "string_bytes ''IX'' @ c \<noteq> string_bytes ''BI'' @ b" "string_bytes ''IX'' @ c \<noteq> string_bytes ''BH'' @ a"
  "string_bytes ''BI'' @ b \<noteq> string_bytes ''IX'' @ c" "string_bytes ''BH'' @ a \<noteq> string_bytes ''IX'' @ c"
  by (simp_all add: string_bytes_def)

lemma unmark_all:
  "map_of (ps_DB (fold UnmarkTxIncluded hs s)) k = (if \<exists>h \<in> set hs. k = IncludedTxDBPrefix @ h then None else map_of (ps_DB s) k)"
  by (induction hs arbitrary: s) (auto simp: UnmarkTxIncluded_def map_of_mdel)

lemma StoreBlock_lookup:
  "LoadHashOfBlock (StoreBlock bl db) h = (if h = block_height bl then Inr (bl_BlockHash bl) else LoadHashOfBlock db h)"
  "map_of (StoreBlock bl db) (BlocksDBPrefix @ x) = (if x = bl_BlockHash bl then Some (Block_GetBytes bl) else map_of db (BlocksDBPrefix @ x))"
  by (simp_all add: LoadHashOfBlock_def StoreBlock_def block_prefixes)

lemma LoadBlock_stored: "wf_Block bl \<Longrightarrow> LoadBlock (StoreBlock bl db) (block_height bl) = Inr bl"
  by (simp add: LoadBlock_def StoreBlock_lookup Block_round_trip_zero)

text \<open>C40: A stored block is found again and a removed one leaves nothing behind. Storing a well-formed block and
  loading its height returns the block and leaves the hashes of all other heights as they were. Removing
  the height then succeeds: the height has no block, no transaction of the block counts as included any
  more, and every other height loads what it loaded before, unless it names the hash of the removed block.\<close>

theorem stored_block_found_and_removed:
  assumes "wf_Block bl" "ps_DB s = StoreBlock bl db"
  shows "LoadBlock (StoreBlock bl db) (block_height bl) = Inr bl \<and>
    (\<forall>h. h \<noteq> block_height bl \<longrightarrow> LoadHashOfBlock (StoreBlock bl db) h = LoadHashOfBlock db h) \<and>
    (\<exists>t. RemoveBlockFromDB (block_height bl) s = (None, t) \<and> LoadBlock (ps_DB t) (block_height bl) = Inl (Errorf ''key not found'') \<and>
       (\<forall>x \<in> set (bl_TransactionsHashes bl). IncludedTxHeight t x = None) \<and>
       (\<forall>h. h \<noteq> block_height bl \<and> LoadHashOfBlock db h \<noteq> Inr (bl_BlockHash bl) \<longrightarrow> LoadBlock (ps_DB t) h = LoadBlock db h))"
proof -
  define u where "u = fold UnmarkTxIncluded (bl_TransactionsHashes bl) s"
  define t where "t = u\<lparr>ps_DB := mdel (BlockByHeightDBPrefix @ GetByteInt64 (block_height bl)) (mdel (BlocksDBPrefix @ bl_BlockHash bl) (ps_DB u))\<rparr>"
  note ld = LoadBlock_stored [OF assms(1), of db]
  have u: "LoadHashOfBlock (ps_DB u) h = LoadHashOfBlock (StoreBlock bl db) h" "map_of (ps_DB u) (BlocksDBPrefix @ x) = map_of (StoreBlock bl db) (BlocksDBPrefix @ x)" for h x
    by (simp_all add: u_def LoadHashOfBlock_def unmark_all assms(2) block_prefixes)
  have rm: "RemoveBlockFromDB (block_height bl) s = (None, t)"
    by (simp add: RemoveBlockFromDB_def Let_def assms(2) ld u_def [symmetric] u StoreBlock_lookup t_def)
  have th: "LoadHashOfBlock (ps_DB t) h = (if h = block_height bl then Inl (Errorf ''key not found'') else LoadHashOfBlock db h)" for h
    using u(1) [of h, unfolded StoreBlock_lookup] by (simp add: t_def LoadHashOfBlock_def map_of_mdel block_prefixes split: if_splits)
  have tb: "map_of (ps_DB t) (BlocksDBPrefix @ x) = (if x = bl_BlockHash bl then None else map_of db (BlocksDBPrefix @ x))" for x
    using u(2) [of x, unfolded StoreBlock_lookup] by (simp add: t_def map_of_mdel block_prefixes)
  have inc: "IncludedTxHeight t x = None" if "x \<in> set (bl_TransactionsHashes bl)" for x
  proof -
    have "map_of (ps_DB t) (IncludedTxDBPrefix @ x) = None"
      using that by (auto simp: t_def map_of_mdel u_def unmark_all block_prefixes)
    then show ?thesis
      by (simp add: IncludedTxHeight_def)
  qed
  have other: "LoadBlock (ps_DB t) h = LoadBlock db h" if "h \<noteq> block_height bl" "LoadHashOfBlock db h \<noteq> Inr (bl_BlockHash bl)" for h
    using that by (cases "LoadHashOfBlock db h") (simp_all add: LoadBlock_def th tb)
  have "LoadBlock (ps_DB t) (block_height bl) = Inl (Errorf ''key not found'')"
    by (simp add: LoadBlock_def th)
  then show ?thesis
    using ld rm inc other by (simp add: StoreBlock_lookup)
qed

definition sample_block :: Block where
  "sample_block = zero_Block\<lparr>bl_BaseBlock := (bl_BaseBlock zero_Block)\<lparr>bb_BaseHeader := zero_BaseHeader\<lparr>bh_Height := 7,
       bh_DelegatedAccount := sample_addr 3, bh_OperatorAccount := sample_addr 4,
       bh_Signature := \<lparr>sig_ByteValue = [0, 1], sig_Address = sample_addr 4, sig_Primary = True\<rparr>\<rparr>, bb_BlockTimeStamp := 100\<rparr>,
     bl_TransactionsHashes := [replicate 32 9], bl_BlockHash := replicate 32 8\<rparr>"

lemma sample_block_wf: "wf_Block sample_block"
  by (simp add: sample_block_def zero_Block_def zero_BaseHeader_def wf_Block_def wf_BaseBlock_def wf_BaseHeader_def wf_body_def
      EmptyHash_def wf_Address_def sample_addr_def Signature_Init_def)

theorem stored_block_found_and_removed_witness:
  "LoadBlock (StoreBlock sample_block []) 7 = Inr sample_block \<and>
   (\<exists>t. RemoveBlockFromDB 7 (sample_pools\<lparr>ps_DB := StoreBlock sample_block []\<rparr>) = (None, t) \<and> LoadBlock (ps_DB t) 7 = Inl (Errorf ''key not found''))"
proof -
  have "block_height sample_block = 7"
    by (simp add: sample_block_def zero_Block_def block_height_def GetHeader_def)
  with stored_block_found_and_removed [OF sample_block_wf, of "sample_pools\<lparr>ps_DB := StoreBlock sample_block []\<rparr>" "[]"] show ?thesis
    by auto
qed

end
