(* ===== verification/Oracles.thy ===== *)
theory Oracles
  imports Block_Codec
begin

text \<open>
  The price oracle: the submissions a node keeps (\<open>oracles/oraclesDefinition.go\<close>), the price data of a block
  and the price derived from it, and the signed proofs that back the data (\<open>blocks/oracleProofs.go\<close>).

  The two Go maps of the package are the fields of \<open>OracleState\<close>; \<open>uint8\<close> keys are words. The staking state
  the price check reads is an argument.
\<close>

subsection \<open>Submissions\<close>

record PriceOracle =
  po_Price :: int64
  po_Height :: int64
  po_Staked :: int64

record oracleProof =
  op_height :: int64
  op_txBytes :: bytes

record OracleState =
  PriceOracles :: "(uint8, PriceOracle) gomap"
  oracleProofs :: "(uint8, oracleProof) gomap"

definition SaveOracleProof :: "Address \<Rightarrow> int64 \<Rightarrow> bytes \<Rightarrow> OracleState cmd" where
  "SaveOracleProof delegatedAccount height txBytes st =
    (let i = GetIDFromDelegatedAccountAddress delegatedAccount in
     if sint i \<le> 0 \<or> sint i \<ge> 256 then (Some (Errorf ''delegated account is invalid''), st)
     else
       let k = ucast i :: uint8 in
       if (case map_of (oracleProofs st) k of None \<Rightarrow> True | Some p \<Rightarrow> sint (op_height p) < sint height)
       then (None, st\<lparr>oracleProofs := mput k \<lparr>op_height = height, op_txBytes = txBytes\<rparr> (oracleProofs st)\<rparr>)
       else (None, st))"

definition fresh :: "int64 \<Rightarrow> int64 \<Rightarrow> bool" where
  "fresh submitted height \<longleftrightarrow> sint submitted \<le> sint height \<and> sint height \<le> sint (submitted + OraclesHeightDistance)"

definition GenerateOracleProofs :: "int64 \<Rightarrow> OracleState \<Rightarrow> bytes list" where
  "GenerateOracleProofs height st =
    (let ids = sort_key unat (map fst (filter (\<lambda>(k, p). fresh (op_height p) height) (oracleProofs st)))
     in map (\<lambda>k. op_txBytes (the (map_of (oracleProofs st) k))) ids)"

definition SavePriceOracle :: "int64 \<Rightarrow> int64 \<Rightarrow> Address \<Rightarrow> int64 \<Rightarrow> OracleState cmd" where
  "SavePriceOracle price height delegatedAccount staked st =
    (let i = GetIDFromDelegatedAccountAddress delegatedAccount in
     if sint i \<le> 0 \<or> sint i \<ge> 256 then (Some (Errorf ''delegated account is invalid''), st)
     else
       let k = ucast i :: uint8 in
       if (case map_of (PriceOracles st) k of None \<Rightarrow> True | Some po \<Rightarrow> sint (po_Height po) < sint height)
       then (None, st\<lparr>PriceOracles := mput k \<lparr>po_Price = price, po_Height = height, po_Staked = staked\<rparr> (PriceOracles st)\<rparr>)
       else (Some (Errorf ''invalid height in price oracle''), st))"

definition DropSubmissionsAbove :: "int64 \<Rightarrow> OracleState \<Rightarrow> OracleState" where
  "DropSubmissionsAbove height st =
     st\<lparr>PriceOracles := filter (\<lambda>(k, po). \<not> sint (po_Height po) > sint height) (PriceOracles st),
        oracleProofs := filter (\<lambda>(k, p). \<not> sint (op_height p) > sint height) (oracleProofs st)\<rparr>"

subsection \<open>Price data\<close>

definition price_entry :: "uint8 \<Rightarrow> int64 \<Rightarrow> int64 \<Rightarrow> bytes" where
  "price_entry k height price = k # GetByteInt64 height @ GetByteInt64 price"

definition GeneratePriceData :: "int64 \<Rightarrow> OracleState \<Rightarrow> bytes \<times> int64 list \<times> int64" where
  "GeneratePriceData height st =
    (let ids = sort_key unat (map fst (PriceOracles st));
         pos = filter (\<lambda>(k, po). fresh (po_Height po) height \<and> sint (po_Price po) > 0)
                 (map (\<lambda>k. (k, the (map_of (PriceOracles st) k))) ids)
     in (concat (map (\<lambda>(k, po). price_entry k (po_Height po) (po_Price po)) pos),
         map (\<lambda>(k, po). po_Price po) pos,
         foldl (\<lambda>t (k, po). t + po_Staked po) 0 pos))"

fun parse_entries :: "StakingState \<Rightarrow> nat \<Rightarrow> int \<Rightarrow> bytes \<Rightarrow> (uint8, PriceOracle) gomap \<times> int64 list \<times> int64
    \<Rightarrow> ((uint8, PriceOracle) gomap \<times> int64 list \<times> int64) res" where
  "parse_entries s 0 prevID d acc = Inr acc"
| "parse_entries s (Suc n) prevID d (m, prices, allStaked) =
    bindR (indexR d 0) (\<lambda>k.
    if int (unat k) \<le> prevID then Inl (Errorf ''priceData delegated ids must be strictly ascending'')
    else
      bindR (int64At 1 d) (\<lambda>height. bindR (int64At 9 d) (\<lambda>price.
      if sint price \<le> 0 then Inl (Errorf ''priceData entry has non-positive price'')
      else
        let (_, staked, _) = GetStakedInDelegatedAccount s (unat k) in
        parse_entries s n (int (unat k)) (drop 17 d)
          (mput k \<lparr>po_Price = price, po_Height = height, po_Staked = staked\<rparr> m, prices @ [price], allStaked + staked))))"

definition ParsePriceData :: "StakingState \<Rightarrow> bytes \<Rightarrow> ((uint8, PriceOracle) gomap \<times> int64 list \<times> int64) res" where
  "ParsePriceData s priceData =
    (if length priceData mod 17 \<noteq> 0 then Inl (Errorf ''invalid priceData length'')
     else parse_entries s (length priceData div 17) (-1) priceData ([], [], 0))"

definition Median :: "int64 list \<Rightarrow> int64 res" where
  "Median prices =
    (let mid = length prices div 2 in
     if length prices mod 2 = 0 then
       bindR (indexR prices (mid - 1)) (\<lambda>a. bindR (indexR prices mid) (\<lambda>b. Inr (a + go_div (b - a) 2)))
     else indexR prices mid)"

definition trim :: "int64 list \<Rightarrow> int64 list" where
  "trim prices = (if length prices > 2 then butlast (tl (sort_key sint prices)) else prices)"

definition enough_stake :: "int64 \<Rightarrow> int64 \<Rightarrow> bool" where
  "enough_stake staked totalStaked \<longleftrightarrow> \<not> sint staked \<le> sint (go_div (2 * totalStaked) 3)"

definition VerifyPriceOracle :: "StakingState \<Rightarrow> int64 \<Rightarrow> int64 \<Rightarrow> bytes \<Rightarrow> int64 \<Rightarrow> bool res" where
  "VerifyPriceOracle s totalStaked priceBlock priceData fallback =
    (case ParsePriceData s priceData of
       Inl _ \<Rightarrow> Inr False
     | Inr (_, prices, staked) \<Rightarrow>
         if \<not> enough_stake staked totalStaked then Inr (priceBlock = fallback)
         else
           let prices = trim prices in
           if length prices = 0 then Inr False
           else bindR (Median prices) (\<lambda>price. Inr (price = priceBlock)))"

definition CalculatePriceOracle :: "int64 \<Rightarrow> int64 \<Rightarrow> OracleState \<Rightarrow> int64 res \<times> bytes" where
  "CalculatePriceOracle height totalStaked st =
    (let (priceData, prices, staked) = GeneratePriceData height st in
     if \<not> enough_stake staked totalStaked
     then (Inl (Errorf ''in price, there is not enough staked value for 2/3''), priceData)
     else
       let prices = trim prices in
       if length prices = 0
       then (Inl (Errorf ''not enough prices propositions after removing min and max''), priceData)
       else (Median prices, priceData))"

definition PriceFromData :: "StakingState \<Rightarrow> bytes \<Rightarrow> int64 \<Rightarrow> int64 res" where
  "PriceFromData s priceData totalStaked =
     bindR (ParsePriceData s priceData) (\<lambda>(_, prices, staked).
       if \<not> enough_stake staked totalStaked
       then Inl (Errorf ''in price, there is not enough staked value for 2/3'')
       else
         let prices = trim prices in
         if length prices = 0 then Inl (Errorf ''not enough prices propositions after removing min and max'')
         else Median prices)"

subsection \<open>Proofs\<close>

record oracleSubmission =
  os_height :: int64
  os_price :: int64

abbreviation (input) oracleOptDataMinLen :: nat where "oracleOptDataMinLen \<equiv> 56"

type_synonym verifiedDecoder = "bytes \<Rightarrow> Transaction res"

definition extractOracleSubmission :: "Transaction \<Rightarrow> (uint8 \<times> oracleSubmission) res" where
  "extractOracleSubmission tx =
    (case IntDelegatedAccountFromAddress (Recipient (tx_TxData tx)) of
       Inl _ \<Rightarrow> Inl (Errorf ''oracle proof recipient is not a delegated account'')
     | Inr n \<Rightarrow>
         if n \<le> 0 \<or> n \<ge> 256 then Inl (Errorf ''oracle proof recipient is not a delegated account'')
         else if Amount (tx_TxData tx) \<noteq> 0 then Inl (Errorf ''oracle nonce transaction must have zero amount'')
         else if length (OptData (tx_TxData tx)) < oracleOptDataMinLen then Inl (Errorf ''oracle nonce OptData too short'')
         else bindR (int64At 40 (OptData (tx_TxData tx))) (\<lambda>price.
           Inr (word_of_int n, \<lparr>os_height = tx_Height tx, os_price = price\<rparr>)))"

definition encodeOracleData :: "(uint8, oracleSubmission) gomap \<Rightarrow> bytes" where
  "encodeOracleData subs =
     concat (map (\<lambda>k. let sub = the (map_of subs k) in
         if sint (os_price sub) > 0 then price_entry k (os_height sub) (os_price sub) else [])
       (sort_key unat (map fst subs)))"

fun collect_submissions :: "(Transaction \<Rightarrow> err option) \<Rightarrow> verifiedDecoder \<Rightarrow> bytes list \<Rightarrow> (uint8, oracleSubmission) gomap
    \<Rightarrow> (uint8, oracleSubmission) gomap res" where
  "collect_submissions chk decode [] subs = Inr subs"
| "collect_submissions chk decode (pb # proofs) subs =
    bindR (decode pb) (\<lambda>tx.
    case chk tx of
      Some e \<Rightarrow> Inl e
    | None \<Rightarrow>
        bindR (extractOracleSubmission tx) (\<lambda>(k, sub).
        if map_of subs k \<noteq> None then Inl (Errorf ''duplicate oracle proof for delegated id'')
        else collect_submissions chk decode proofs (mput k sub subs)))"

definition matchOracleData :: "StakingState \<Rightarrow> (uint8, oracleSubmission) gomap \<Rightarrow> bytes \<Rightarrow> err option" where
  "matchOracleData s subs priceData =
    (case ParsePriceData s priceData of
       Inl e \<Rightarrow> Some e
     | Inr (priceMap, _, _) \<Rightarrow>
         if \<exists>(k, po) \<in> set priceMap. map_of subs k = None then Some (Errorf ''price entry has no signed proof'')
         else if \<exists>(k, po) \<in> set priceMap. (case map_of subs k of None \<Rightarrow> True
                   | Some sub \<Rightarrow> os_height sub \<noteq> po_Height po \<or> os_price sub \<noteq> po_Price po)
         then Some (Errorf ''price entry does not match its signed proof'')
         else None)"

definition freshness :: "int64 \<Rightarrow> Transaction \<Rightarrow> err option" where
  "freshness blockHeight tx =
    (if sint (tx_Height tx) > sint blockHeight \<or> sint blockHeight > sint (tx_Height tx + OraclesHeightDistance)
     then Some (Errorf ''oracle proof height not fresh for block'') else None)"

definition authenticateOracleProofs :: "StakingState \<Rightarrow> int64 \<Rightarrow> bytes list \<Rightarrow> bytes \<Rightarrow> verifiedDecoder \<Rightarrow> err option" where
  "authenticateOracleProofs s blockHeight proofs priceData decode =
    (case collect_submissions (freshness blockHeight) decode proofs [] of
       Inl e \<Rightarrow> Some e
     | Inr subs \<Rightarrow>
         (case matchOracleData s subs priceData of
            Some e \<Rightarrow> Some e
          | None \<Rightarrow>
              if priceData \<noteq> encodeOracleData subs
              then Some (Errorf ''oracle data is not exactly the values of the embedded proofs'')
              else None))"

definition oracleDataFromProofs :: "bytes list \<Rightarrow> verifiedDecoder \<Rightarrow> bytes res" where
  "oracleDataFromProofs proofs decode =
     bindR (collect_submissions (\<lambda>_. None) decode proofs []) (\<lambda>subs. Inr (encodeOracleData subs))"

text \<open>The decoder of the block check: the proof has to verify under the schemes of its own height. The
  cache of resolved configurations lives for one block and does not change a result.\<close>

definition sigNamesAtProofHeight :: "SigLibrary \<Rightarrow> EncryptionState \<Rightarrow> DB \<Rightarrow> int64 \<Rightarrow> Block \<Rightarrow> Block \<Rightarrow> SigNames res" where
  "sigNamesAtProofHeight lib enc db height newBlock lastBlock =
    (if sint height \<ge> sint (block_height newBlock) then GetSigNames lib enc newBlock
     else if height = block_height lastBlock then GetSigNames lib enc lastBlock
     else case LoadBlock db height of
         Inr b \<Rightarrow> GetSigNames lib enc b
       | Inl _ \<Rightarrow> GetSigNames lib enc lastBlock)"

definition historicalProofPauseFlags :: "SigNames \<Rightarrow> SigNames" where
  "historicalProofPauseFlags sn = sn\<lparr>sn_Paused := False, sn_Paused2 := False\<rparr>"

definition proof_decoder :: "SigLibrary \<Rightarrow> Chain \<Rightarrow> DB \<Rightarrow> Block \<Rightarrow> Block \<Rightarrow> verifiedDecoder" where
  "proof_decoder lib ch db newBlock lastBlock pb =
    (case Transaction_GetFromBytes (cr_enc (ch_Crypto ch)) (cr_H160 (ch_Crypto ch)) pb of
       Inl e \<Rightarrow> Inl e
     | Inr (tx, _) \<Rightarrow>
         (case sigNamesAtProofHeight lib (cr_enc (ch_Crypto ch)) db (tx_Height tx) newBlock lastBlock of
            Inl e \<Rightarrow> Inl e
          | Inr sn \<Rightarrow>
              bindR (VerifyNonce ch (historicalProofPauseFlags sn) tx) (\<lambda>ok.
                if ok then Inr tx else Inl (Errorf ''oracle proof signature verification failed''))))"

definition AuthenticateOracleProofs :: "SigLibrary \<Rightarrow> Chain \<Rightarrow> StakingState \<Rightarrow> DB \<Rightarrow> Block \<Rightarrow> Block \<Rightarrow> err option" where
  "AuthenticateOracleProofs lib ch s db newBlock lastBlock =
     authenticateOracleProofs s (block_height newBlock) (bb_OracleProofs (bl_BaseBlock newBlock))
       (bb_PriceOracleData (bl_BaseBlock newBlock)) (proof_decoder lib ch db newBlock lastBlock)"

definition decodeProof :: "Crypto \<Rightarrow> verifiedDecoder" where
  "decodeProof cr pb =
    (case Transaction_GetFromBytes (cr_enc cr) (cr_H160 cr) pb of
       Inl e \<Rightarrow> Inl e
     | Inr (tx, rest) \<Rightarrow> if length rest \<noteq> 0 then Inl (Errorf ''oracle proof has trailing bytes'') else Inr tx)"

definition OracleDataFromProofs :: "Crypto \<Rightarrow> bytes list \<Rightarrow> bytes res" where
  "OracleDataFromProofs cr proofs = oracleDataFromProofs proofs (decodeProof cr)"

fun authorizeOracleProofSigners :: "bytes list \<Rightarrow> verifiedDecoder \<Rightarrow> (int \<Rightarrow> Address \<Rightarrow> bool) \<Rightarrow> err option" where
  "authorizeOracleProofSigners [] decode authorize = None"
| "authorizeOracleProofSigners (pb # proofs) decode authorize =
    (case decode pb of
       Inl e \<Rightarrow> Some e
     | Inr tx \<Rightarrow>
         (case extractOracleSubmission tx of
            Inl e \<Rightarrow> Some e
          | Inr (k, _) \<Rightarrow>
              if \<not> authorize (int (unat k)) (GetSenderAddress tx)
              then Some (Errorf ''oracle proof signer is not the authorized operator for delegated id'')
              else authorizeOracleProofSigners proofs decode authorize))"

definition AuthorizeOracleProofSigners :: "Crypto \<Rightarrow> StakingState \<Rightarrow> bytes list \<Rightarrow> err option" where
  "AuthorizeOracleProofSigners cr s proofs = authorizeOracleProofSigners proofs (decodeProof cr) (IsTop128StakingNode s)"

definition filterAuthorizedOracleProofs :: "bytes list \<Rightarrow> verifiedDecoder \<Rightarrow> (int \<Rightarrow> Address \<Rightarrow> bool) \<Rightarrow> bytes list" where
  "filterAuthorizedOracleProofs proofs decode authorize =
     filter (\<lambda>pb. case decode pb of
         Inl _ \<Rightarrow> False
       | Inr tx \<Rightarrow>
           (case extractOracleSubmission tx of
              Inl _ \<Rightarrow> False
            | Inr (k, _) \<Rightarrow> authorize (int (unat k)) (GetSenderAddress tx))) proofs"

definition AuthorizedOracleProofs :: "Crypto \<Rightarrow> StakingState \<Rightarrow> bytes list \<Rightarrow> bytes list" where
  "AuthorizedOracleProofs cr s proofs = filterAuthorizedOracleProofs proofs (decodeProof cr) (IsTop128StakingNode s)"

subsection \<open>The median\<close>

lemma go_half_between:
  fixes a b :: int64
  assumes "0 < sint a" "0 < sint b"
  shows "min (sint a) (sint b) \<le> sint (a + go_div (b - a) 2)" "sint (a + go_div (b - a) 2) \<le> max (sint a) (sint b)"
proof -
  have d: "sint (b - a) = sint b - sint a"
    using assms sint_range64 [of a] sint_range64 [of b] by (intro sint_diff64) auto
  have two: "sint (2 :: int64) = 2"
    by simp
  define q where "q = (sint b - sint a) sdiv 2"
  have q: "min 0 (sint b - sint a) \<le> q" "q \<le> max 0 (sint b - sint a)"
    by (auto simp: q_def signed_divide_int_def sgn_if)
  have g: "sint (go_div (b - a) 2 :: int64) = q"
    using q assms sint_range64 [of a] sint_range64 [of b]
    by (auto simp: go_div_def d two q_def [symmetric] signed_of_int signed_take_bit_int_eq_self)
  have "sint (a + go_div (b - a) 2) = sint a + q"
    unfolding g [symmetric] by (rule sint_add64) (use q g assms sint_range64 [of a] sint_range64 [of b] in auto)
  then show "min (sint a) (sint b) \<le> sint (a + go_div (b - a) 2)" "sint (a + go_div (b - a) 2) \<le> max (sint a) (sint b)"
    using q by auto
qed

text \<open>In a sorted list with fewer than half of the elements below \<open>lo\<close> and fewer than half above \<open>hi\<close>, the
  middle is between them.\<close>

lemma sorted_middle_ge:
  assumes "sorted (map f xs)" "i < length xs" "length (filter (\<lambda>x. f x < lo) xs) \<le> i"
  shows "(lo :: int) \<le> f (xs ! i)"
proof (rule ccontr)
  assume "\<not> lo \<le> f (xs ! i)"
  then have "\<forall>j \<le> i. f (xs ! j) < lo"
    using sorted_nth_mono [OF assms(1)] assms(2) by fastforce
  then have "{..i} \<subseteq> {j. j < length xs \<and> f (xs ! j) < lo}"
    using assms(2) by auto
  then have "card {..i} \<le> card {j. j < length xs \<and> f (xs ! j) < lo}"
    by (rule card_mono [rotated]) simp
  then show False
    using assms(3) by (simp add: length_filter_conv_card)
qed


lemma sorted_middle_le:
  assumes "sorted (map f xs)" "i < length xs" "length (filter (\<lambda>x. hi < f x) xs) < length xs - i"
  shows "f (xs ! i) \<le> (hi :: int)"
proof (rule ccontr)
  assume "\<not> f (xs ! i) \<le> hi"
  then have "\<forall>j \<in> {i..<length xs}. hi < f (xs ! j)"
    using sorted_nth_mono [OF assms(1), of i] assms(2) by fastforce
  then have "{i..<length xs} \<subseteq> {j. j < length xs \<and> hi < f (xs ! j)}"
    by auto
  then have "card {i..<length xs} \<le> card {j. j < length xs \<and> hi < f (xs ! j)}"
    by (rule card_mono [rotated]) simp
  then show False
    using assms(3) by (simp add: length_filter_conv_card)
qed

lemma length_filter_sort: "length (filter P (sort_key f xs)) = length (filter P xs)"
  by (metis mset_filter mset_sort size_mset)

lemma few_outside:
  assumes "length ps < 2 * length (filter (\<lambda>p. lo \<le> f p \<and> f p \<le> hi) ps)"
  shows "2 * length (filter (\<lambda>p. f p < (lo :: int)) ps) < length ps" "2 * length (filter (\<lambda>p. hi < f p) ps) < length ps"
proof -
  let ?P = "\<lambda>p. lo \<le> f p \<and> f p \<le> hi"
  have sum: "length (filter ?P ps) + length (filter (\<lambda>p. \<not> ?P p) ps) = length ps"
    by (rule sum_length_filter_compl)
  have "length (filter (\<lambda>p. f p < lo) ps) \<le> length (filter (\<lambda>p. \<not> ?P p) ps)"
    "length (filter (\<lambda>p. hi < f p) ps) \<le> length (filter (\<lambda>p. \<not> ?P p) ps)"
    by (induction ps) auto
  then show "2 * length (filter (\<lambda>p. f p < lo) ps) < length ps" "2 * length (filter (\<lambda>p. hi < f p) ps) < length ps"
    using sum assms by linarith+
qed

text \<open>The median of the trimmed list is taken at the middle of the sorted list.\<close>

lemma trim_middle:
  assumes "2 < length ps"
  defines "xs \<equiv> sort_key sint ps" and "n \<equiv> length ps"
  shows "length (trim ps) = n - 2" "\<And>j. j < n - 2 \<Longrightarrow> trim ps ! j = xs ! Suc j"
  using assms(1) by (simp_all add: trim_def xs_def n_def nth_butlast nth_tl)

lemma median_in_range:
  assumes "length ps < 2 * length (filter (\<lambda>p. lo \<le> sint p \<and> sint p \<le> hi) ps)" "\<forall>p \<in> set ps. 0 < sint p"
  shows "\<exists>m. Median (trim ps) = Inr m \<and> lo \<le> sint m \<and> sint m \<le> hi"
proof (cases "2 < length ps")
  case True
  define xs where "xs = sort_key sint ps"
  define n where "n = length ps"
  note few = few_outside [OF assms(1), folded n_def]
  have xs: "sorted (map sint xs)" "length xs = n" "set xs = set ps"
    "2 * length (filter (\<lambda>p. sint p < lo) xs) < n" "2 * length (filter (\<lambda>p. hi < sint p) xs) < n"
    using few by (simp_all add: xs_def n_def length_filter_sort)
  have mid: "lo \<le> sint (xs ! i) \<and> sint (xs ! i) \<le> hi" if "n \<le> 2 * Suc i" "2 * i \<le> n" "i < n" for i
    using that xs(4,5) sorted_middle_ge [OF xs(1), of i lo] sorted_middle_le [OF xs(1), of i hi] by (auto simp: xs(2))
  have tr: "length (trim ps) = n - 2" "\<And>j. j < n - 2 \<Longrightarrow> trim ps ! j = xs ! Suc j"
    using trim_middle [OF True] by (simp_all add: xs_def n_def)
  show ?thesis
  proof (cases "even n")
    case even: True
    have "n = 2 * (n div 2 - 2) + 4"
      using even True unfolding n_def by presburger
    then obtain k where k: "n = 2 * k + 4" ..
    have "(n - 2) div 2 = Suc k" "(n - 2) mod 2 = 0"
      using k by simp_all
    moreover have "trim ps ! k = xs ! Suc k" "trim ps ! Suc k = xs ! Suc (Suc k)" "k < n - 2" "Suc k < n - 2"
      using tr(2) k by simp_all
    ultimately have m: "Median (trim ps) = Inr (xs ! Suc k + go_div (xs ! Suc (Suc k) - xs ! Suc k) 2)"
      by (simp add: Median_def tr(1))
    have pos: "0 < sint (xs ! Suc k)" "0 < sint (xs ! Suc (Suc k))"
      using assms(2) xs(2,3) k nth_mem [of "Suc k" xs] nth_mem [of "Suc (Suc k)" xs] by auto
    show ?thesis
      using m go_half_between [OF pos] mid [of "Suc k"] mid [of "Suc (Suc k)"] k by auto
  next
    case odd: False
    have "n = 2 * (n div 2 - 1) + 3"
      using odd True unfolding n_def by presburger
    then obtain k where k: "n = 2 * k + 3" ..
    have "(n - 2) div 2 = k" "(n - 2) mod 2 \<noteq> 0"
      using k by simp_all
    then have "Median (trim ps) = Inr (xs ! Suc k)"
      using tr k by (simp add: Median_def)
    then show ?thesis
      using mid [of "Suc k"] k by auto
  qed
next
  case False
  then consider "ps = []" | p where "ps = [p]" | p q where "ps = [p, q]"
    by (cases ps rule: remdups_adj.cases) (auto simp: not_less)
  then show ?thesis
  proof cases
    case 3
    then show ?thesis
      using assms go_half_between [of p q] by (auto simp: trim_def Median_def split: if_splits)
  qed (use assms in \<open>auto simp: trim_def Median_def split: if_splits\<close>)
qed


subsection \<open>Price data is a list of entries\<close>

type_synonym entry = "uint8 \<times> int64 \<times> int64"

definition entries_bytes :: "entry list \<Rightarrow> bytes" where
  "entries_bytes es = concat (map (\<lambda>(k, h, p). price_entry k h p) es)"

definition entries_ok :: "int \<Rightarrow> entry list \<Rightarrow> bool" where
  "entries_ok prev es \<longleftrightarrow> (\<forall>(k, h, p) \<in> set es. prev < uint k \<and> 0 < sint p) \<and> sorted_wrt (<) (map (uint \<circ> fst) es)"

definition stake_of_id :: "StakingState \<Rightarrow> uint8 \<Rightarrow> int64" where
  "stake_of_id s k = fst (snd (GetStakedInDelegatedAccount s (unat k)))"

definition entry_oracle :: "StakingState \<Rightarrow> entry \<Rightarrow> uint8 \<times> PriceOracle" where
  "entry_oracle s = (\<lambda>(k, h, p). (k, \<lparr>po_Price = p, po_Height = h, po_Staked = stake_of_id s k\<rparr>))"

lemma length_price_entry [simp]: "length (price_entry k h p) = 17"
  by (simp add: price_entry_def)

lemma length_entries_bytes [simp]: "length (entries_bytes es) = 17 * length es"
  by (induction es) (auto simp: entries_bytes_def)

lemma price_entry_read [simp]:
  "indexR (price_entry k h p @ r) 0 = Inr k" "int64At 1 (price_entry k h p @ r) = Inr h" "int64At 9 (price_entry k h p @ r) = Inr p"
  "drop 17 (price_entry k h p @ r) = r"
  using int64At_app [of "[k]" 1 h "GetByteInt64 p @ r"] int64At_app [of "k # GetByteInt64 h" 9 p r] by (simp_all add: price_entry_def)

lemma entries_ok_Cons:
  "entries_ok prev ((k, h, p) # es) \<longleftrightarrow> prev < uint k \<and> 0 < sint p \<and> entries_ok (uint k) es"
  by (fastforce simp: entries_ok_def)

lemma entry_keys_distinct: "entries_ok prev es \<Longrightarrow> distinct (map fst es)"
  by (auto simp: entries_ok_def strict_sorted_iff distinct_map comp_def intro: inj_on_imageI2)

lemma parse_entries_spec:
  "length d = 17 * n \<Longrightarrow> parse_entries s n prev d (m, ps, st) = Inr r \<longleftrightarrow>
    (\<exists>es. d = entries_bytes es \<and> entries_ok prev es \<and>
       r = (fold (\<lambda>e. case entry_oracle s e of (k, po) \<Rightarrow> mput k po) es m, ps @ map (snd \<circ> snd) es,
            st + sum_list (map (stake_of_id s \<circ> fst) es)))"
proof (induction n arbitrary: prev d m ps st)
  case 0
  have "[] = entries_bytes es \<longleftrightarrow> es = []" for es
    using length_entries_bytes [of es] by (metis length_0_conv mult_eq_0_iff zero_neq_numeral)
  then show ?case
    using 0 by (simp add: entries_ok_def) blast
next
  case (Suc n)
  define k where "k = d ! 0"
  define h where "h = (get_le (take 8 (drop 1 d)) :: int64)"
  define p where "p = (get_le (take 8 (drop 9 d)) :: int64)"
  have len: "17 \<le> length d" "length (drop 17 d) = 17 * n"
    using Suc.prems by simp_all
  have rd: "indexR d 0 = Inr k" "int64At 1 d = Inr h" "int64At 9 d = Inr p"
    using len(1) by (auto simp: k_def h_def p_def int64At_def GetInt64FromByte_def indexR_def)
  have put: "put_le 8 (get_le w :: int64) = w" if "length w = 8" for w
    using put_le_get_le [of w, where 'a = 64] that by simp
  have e: "take 17 d = price_entry k h p"
  proof -
    have "take 17 d = take 1 d @ take 8 (drop 1 d) @ take 8 (drop 9 d)"
      using take_add [of 1 16 d] take_add [of 8 8 "drop 1 d"] by simp
    moreover have "take 1 d = [k]"
      using len by (cases d) (simp_all add: k_def)
    ultimately show ?thesis
      using len by (simp add: price_entry_def h_def p_def GetByteInt64_def put)
  qed
  have d: "d = price_entry k h p @ drop 17 d"
    unfolding e [symmetric] by simp
  have split: "d = entries_bytes es \<longleftrightarrow> (\<exists>es'. es = (k, h, p) # es' \<and> drop 17 d = entries_bytes es')" for es
  proof
    assume d': "d = entries_bytes es"
    then obtain k' h' p' es' where es: "es = (k', h', p') # es'"
      using len(1) by (cases es) (auto simp: entries_bytes_def)
    then have "d = price_entry k' h' p' @ entries_bytes es'"
      using d' by (simp add: entries_bytes_def)
    then show "\<exists>es'. es = (k, h, p) # es' \<and> drop 17 d = entries_bytes es'"
      using rd es by (metis Inr_unique price_entry_read)
  next
    assume "\<exists>es'. es = (k, h, p) # es' \<and> drop 17 d = entries_bytes es'"
    then show "d = entries_bytes es"
      using d by (auto simp: entries_bytes_def)
  qed
  have st: "GetStakedInDelegatedAccount s (unat k) = (a, stake_of_id s k, b)" if "GetStakedInDelegatedAccount s (unat k) = (a, c, b)" for a b c
    using that by (simp add: stake_of_id_def)
  obtain a c b where g: "GetStakedInDelegatedAccount s (unat k) = (a, c, b)"
    by (metis prod_cases3)
  show ?case
    unfolding parse_entries.simps rd bindR_simps st [OF g] Let_def prod.case
    using Suc.IH [OF len(2)] by (auto simp: split entries_ok_Cons entry_oracle_def add.assoc)
qed


lemma fold_entries:
  "distinct (map fst m @ map fst es) \<Longrightarrow> fold (\<lambda>e. case entry_oracle s e of (k, po) \<Rightarrow> mput k po) es m = m @ map (entry_oracle s) es"
proof (induction es arbitrary: m)
  case (Cons e es)
  obtain k h p where e: "e = (k, h, p)"
    by (metis prod_cases3)
  have "k \<notin> fst ` set m"
    using Cons.prems by (auto simp: e)
  then have "mput k v m = m @ [(k, v)]" for v
    by (rule mput_append)
  then show ?case
    using Cons by (simp add: e entry_oracle_def)
qed simp

lemma ParsePriceData_spec:
  "ParsePriceData s d = Inr (m, ps, st) \<longleftrightarrow>
    (\<exists>es. d = entries_bytes es \<and> entries_ok (-1) es \<and> m = map (entry_oracle s) es \<and> ps = map (snd \<circ> snd) es \<and>
       st = sum_list (map (stake_of_id s \<circ> fst) es))"
proof (cases "length d mod 17 = 0")
  case True
  then have "length d = 17 * (length d div 17)"
    by presburger
  from parse_entries_spec [OF this] True show ?thesis
    using fold_entries [of "[]"] entry_keys_distinct by (auto simp: ParsePriceData_def)
next
  case False
  then show ?thesis
    by (auto simp: ParsePriceData_def)
qed

lemma ParsePriceData_positive: "ParsePriceData s d = Inr (m, ps, st) \<Longrightarrow> \<forall>p \<in> set ps. 0 < sint p"
  by (fastforce simp: ParsePriceData_spec entries_ok_def)

subsection \<open>What the proofs say\<close>

definition proves :: "(Transaction \<Rightarrow> err option) \<Rightarrow> verifiedDecoder \<Rightarrow> bytes \<Rightarrow> uint8 \<times> oracleSubmission \<Rightarrow> bool" where
  "proves chk decode pb e \<longleftrightarrow> (\<exists>tx. decode pb = Inr tx \<and> chk tx = None \<and> extractOracleSubmission tx = Inr e)"

lemma collect_submissions_spec:
  "collect_submissions chk decode proofs subs = Inr r \<Longrightarrow> wf_map subs \<Longrightarrow>
    \<exists>ts. list_all2 (proves chk decode) proofs ts \<and> r = subs @ ts \<and> wf_map r"
proof (induction chk decode proofs subs arbitrary: r rule: collect_submissions.induct)
  case (2 chk decode pb proofs subs)
  from 2(2) obtain tx k sub where t: "decode pb = Inr tx" "chk tx = None" "extractOracleSubmission tx = Inr (k, sub)"
      "map_of subs k = None" "collect_submissions chk decode proofs (mput k sub subs) = Inr r"
    by (auto simp: bindR_eq_Inr split: option.splits if_splits)
  have app: "mput k sub subs = subs @ [(k, sub)]"
    using t(4) by (intro mput_append) (simp add: map_of_eq_None_iff)
  have "wf_map (mput k sub subs)"
    using 2(3) by simp
  moreover have "\<not> map_of subs k \<noteq> None"
    using t(4) by simp
  ultimately obtain ts where "list_all2 (proves chk decode) proofs ts" "r = mput k sub subs @ ts" "wf_map r"
    using 2(1) [OF t(2) _ t(5)] by blast
  then have "list_all2 (proves chk decode) (pb # proofs) ((k, sub) # ts)" "r = subs @ (k, sub) # ts" "wf_map r"
    using t(1-3) app by (auto simp: proves_def)
  then show ?case by blast
qed simp

lemma extract_meaning:
  assumes "extractOracleSubmission tx = Inr (k, sub)"
  shows "delegated_id (Recipient (tx_TxData tx)) = uint k" "os_height sub = tx_Height tx" "Amount (tx_TxData tx) = 0"
    "int64At 40 (OptData (tx_TxData tx)) = Inr (os_price sub)" "0 < uint k"
proof -
  from assms obtain n where n: "IntDelegatedAccountFromAddress (Recipient (tx_TxData tx)) = Inr n" "0 < n" "n < 256" "k = word_of_int n"
      "os_height sub = tx_Height tx" "Amount (tx_TxData tx) = 0" "int64At 40 (OptData (tx_TxData tx)) = Inr (os_price sub)"
    by (auto simp: extractOracleSubmission_def bindR_eq_Inr split: sum.splits if_splits)
  then have "uint k = n"
    by (simp add: unsigned_of_int take_bit_int_eq_self)
  then show "delegated_id (Recipient (tx_TxData tx)) = uint k" "os_height sub = tx_Height tx" "Amount (tx_TxData tx) = 0"
    "int64At 40 (OptData (tx_TxData tx)) = Inr (os_price sub)" "0 < uint k"
    using n by (simp_all add: delegated_id_def)
qed

lemma accepted_entries:
  assumes "authenticateOracleProofs s h proofs d decode = None" "ParsePriceData s d = Inr (m, ps, st)"
  obtains ts where "list_all2 (proves (freshness h) decode) proofs ts" "wf_map ts" "d = encodeOracleData ts"
    "\<forall>(k, po) \<in> set m. \<exists>sub. (k, sub) \<in> set ts \<and> os_height sub = po_Height po \<and> os_price sub = po_Price po"
proof -
  from assms(1) obtain ts where c: "collect_submissions (freshness h) decode proofs [] = Inr ts" and
      mt: "matchOracleData s ts d = None" and enc: "d = encodeOracleData ts"
    by (auto simp: authenticateOracleProofs_def split: sum.splits option.splits if_splits)
  from collect_submissions_spec [OF c] have ts: "list_all2 (proves (freshness h) decode) proofs ts" "wf_map ts"
    by auto
  have "\<forall>(k, po) \<in> set m. \<exists>sub. (k, sub) \<in> set ts \<and> os_height sub = po_Height po \<and> os_price sub = po_Price po"
    using mt assms(2) by (fastforce simp: matchOracleData_def split: if_splits option.splits dest: map_of_SomeD)
  then show ?thesis
    using that ts enc by blast
qed


lemma entries_bytes_inject: "entries_bytes es = entries_bytes es' \<Longrightarrow> es = es'"
proof (induction es arbitrary: es')
  case Nil
  have "17 * length es' = 0"
    unfolding length_entries_bytes [symmetric] Nil [symmetric] by simp
  then show ?case
    by simp
next
  case (Cons e es)
  obtain k h p where e: "e = (k, h, p)"
    by (metis prod_cases3)
  have "17 * length es' = 17 * Suc (length es)"
    unfolding length_entries_bytes [symmetric] Cons.prems [symmetric] by simp
  then have "length es' = Suc (length es)"
    by (metis mult_cancel1 zero_neq_numeral)
  then obtain k' h' p' es'' where es': "es' = (k', h', p') # es''"
    by (cases es') auto
  have eq: "price_entry k h p @ entries_bytes es = price_entry k' h' p' @ entries_bytes es''"
    using Cons.prems by (simp add: e es' entries_bytes_def)
  have "k = k'" "h = h'" "p = p'" "entries_bytes es = entries_bytes es''"
    using arg_cong [OF eq, of "\<lambda>d. indexR d 0"] arg_cong [OF eq, of "int64At 1"] arg_cong [OF eq, of "int64At 9"]
      arg_cong [OF eq, of "drop 17"] unfolding price_entry_read by simp_all
  then show ?case
    using Cons.IH by (simp add: e es')
qed

definition submission_entry :: "uint8 \<times> oracleSubmission \<Rightarrow> entry" where
  "submission_entry = (\<lambda>(k, sub). (k, os_height sub, os_price sub))"

lemma encode_entries:
  assumes "wf_map ts"
  obtains es where "encodeOracleData ts = entries_bytes es"
    "set es = submission_entry ` {e \<in> set ts. 0 < sint (os_price (snd e))}"
proof -
  define l where "l = map (\<lambda>k. (k, the (map_of ts k))) (sort_key unat (map fst ts))"
  define es where "es = map submission_entry (filter (\<lambda>e. 0 < sint (os_price (snd e))) l)"
  have "concat (map (\<lambda>k. let sub = g k in if sint (os_price sub) > 0 then price_entry k (os_height sub) (os_price sub) else []) ks)
      = entries_bytes (map submission_entry (filter (\<lambda>e. 0 < sint (os_price (snd e))) (map (\<lambda>k. (k, g k)) ks)))" for g ks
    by (induction ks) (simp_all add: entries_bytes_def submission_entry_def Let_def)
  from this [of "\<lambda>k. the (map_of ts k)"] have "encodeOracleData ts = entries_bytes es"
    unfolding encodeOracleData_def es_def l_def .
  moreover have "set l = set ts"
    unfolding l_def using sorted_pairs_mset [OF assms, of unat] by (rule mset_eq_setD)
  then have "set es = submission_entry ` {e \<in> set ts. 0 < sint (os_price (snd e))}"
    by (simp add: es_def)
  ultimately show ?thesis
    by (rule that)
qed

lemma signers_authorised:
  "authorizeOracleProofSigners proofs decode authorize = None \<longleftrightarrow>
   (\<forall>pb \<in> set proofs. \<exists>tx k sub. decode pb = Inr tx \<and> extractOracleSubmission tx = Inr (k, sub) \<and> authorize (int (unat k)) (GetSenderAddress tx))"
proof (induction proofs)
  case (Cons pb proofs)
  show ?case
  proof (cases "decode pb")
    case (Inr tx)
    then show ?thesis
      using Cons by (cases "extractOracleSubmission tx") (auto simp del: of_nat_unat split: if_splits)
  qed simp
qed simp

lemma decodeProof_same:
  assumes "decodeProof cr pb = Inr tx" "Transaction_GetFromBytes (cr_enc cr) (cr_H160 cr) pb = Inr (tx', r)"
  shows "tx' = tx"
  using assms by (simp add: decodeProof_def split: if_splits)

end
