(* ===== verification/Randao.thy ===== *)
theory Randao
  imports Block_Codec
begin

text \<open>
  The randomness of the chain (\<open>blocks/randao.go\<close>): every block mixes in one seed, which its producer committed
  to in the last block it produced, and commits to the next one. The hash function is the argument \<open>H\<close>.
\<close>

subsection \<open>The accumulator\<close>

definition domainHash :: "(bytes \<Rightarrow> bytes) \<Rightarrow> string \<Rightarrow> bytes list \<Rightarrow> bytes" where
  "domainHash H domain parts =
     GetHashFromBytes (H (BytesToLenAndBytes (string_bytes domain) @ concat (map BytesToLenAndBytes parts)))"

abbreviation (input) randaoMixDomain :: string where "randaoMixDomain \<equiv> ''QWID-RANDAO-mix-v1''"
abbreviation (input) randaoCommitDomain :: string where "randaoCommitDomain \<equiv> ''QWID-RANDAO-commit-v1''"
abbreviation (input) randaoRandDomain :: string where "randaoRandDomain \<equiv> ''QWID-RAND-v1''"
abbreviation (input) randaoSeedLength :: nat where "randaoSeedLength \<equiv> HashLength"

definition RandaoCommitment :: "(bytes \<Rightarrow> bytes) \<Rightarrow> bytes \<Rightarrow> bytes" where
  "RandaoCommitment H seed = domainHash H randaoCommitDomain [seed]"

definition parentMix :: "Block \<Rightarrow> bytes" where
  "parentMix par = (if block_height par = 0 then bl_BlockHash par else bb_RandMix (bl_BaseBlock par))"

definition mixHash :: "(bytes \<Rightarrow> bytes) \<Rightarrow> bytes \<Rightarrow> int64 \<Rightarrow> bytes \<Rightarrow> bytes" where
  "mixHash H prev height reveal = domainHash H randaoMixDomain [prev, GetByteInt64 height, reveal]"

definition randFromMix :: "(bytes \<Rightarrow> bytes) \<Rightarrow> bytes \<Rightarrow> int64" where
  "randFromMix H mix = drop_bit 1 (get_be (take 8 (domainHash H randaoRandDomain [mix])) :: 64 word)"

definition RandaoFields :: "(bytes \<Rightarrow> bytes) \<Rightarrow> Block \<Rightarrow> int64 \<Rightarrow> bytes \<Rightarrow> bytes \<Rightarrow> bytes \<times> bytes \<times> int64" where
  "RandaoFields H par height reveal nextSeed =
    (let mix = mixHash H (parentMix par) height reveal in (RandaoCommitment H nextSeed, mix, randFromMix H mix))"

definition RevealDue :: "int64 \<Rightarrow> int64 \<Rightarrow> bool" where
  "RevealDue commitHeight height \<longleftrightarrow> sint commitHeight > 0 \<and> sint (height - commitHeight) \<le> sint RandaoCommitExpiry"

subsection \<open>The checks\<close>

definition verifyRandaoStateless :: "(bytes \<Rightarrow> bytes) \<Rightarrow> Block \<Rightarrow> Block \<Rightarrow> err option" where
  "verifyRandaoStateless H newBlock lastBlock =
    (let bb = bl_BaseBlock newBlock in
     if block_height newBlock = 0 then None
     else if length (bb_RandReveal bb) \<noteq> 0 \<and> length (bb_RandReveal bb) \<noteq> randaoSeedLength
     then Some (Errorf ''RANDAO reveal has the wrong length'')
     else if bb_RandCommit bb = EmptyHash then Some (Errorf ''block carries no RANDAO commitment'')
     else if length (bb_RandOracleData bb) \<noteq> 0 then Some (Errorf ''rand oracle data must be empty, RAND comes from RANDAO'')
     else if bb_RandMix bb \<noteq> mixHash H (parentMix lastBlock) (block_height newBlock) (bb_RandReveal bb)
     then Some (Errorf ''RANDAO mix does not follow from the parent and the reveal'')
     else if bb_RandOracle bb \<noteq> randFromMix H (bb_RandMix bb) then Some (Errorf ''rand oracle is not derived from the RANDAO mix'')
     else None)"

definition verifyRandaoReveal :: "(bytes \<Rightarrow> bytes) \<Rightarrow> StakingState \<Rightarrow> Block \<Rightarrow> err option" where
  "verifyRandaoReveal H s newBlock =
    (let height = block_height newBlock; n = mustDelegatedAccountID (bh_DelegatedAccount (GetHeader newBlock)) in
     if height = 0 then None
     else if n < 1 \<or> n > 255 then Some (Errorf ''wrong delegated account for RANDAO'')
     else
       let (commit, commitHeight) = GetRandCommit s (nat n) (addr_ByteValue (bh_OperatorAccount (GetHeader newBlock)));
           reveal = bb_RandReveal (bl_BaseBlock newBlock) in
       if \<not> RevealDue commitHeight height then
         (if length reveal \<noteq> 0 then Some (Errorf ''RANDAO reveal without a live commitment'') else None)
       else if length reveal = 0 then Some (Errorf ''operator committed and must reveal'')
       else if RandaoCommitment H reveal \<noteq> commit then Some (Errorf ''RANDAO reveal does not open the operator's commitment'')
       else None)"

definition applyRandaoCommit :: "Block \<Rightarrow> StakingState cmd" where
  "applyRandaoCommit block s =
    (let height = block_height block; n = mustDelegatedAccountID (bh_DelegatedAccount (GetHeader block)) in
     if height = 0 then (None, s)
     else if n < 1 \<or> n > 255 then (Some (Errorf ''wrong delegated account for RANDAO''), s)
     else SetRandCommit (nat n) (addr_ByteValue (bh_OperatorAccount (GetHeader block))) (bb_RandCommit (bl_BaseBlock block)) height s)"

subsection \<open>What they guarantee\<close>

definition operator_of :: "Block \<Rightarrow> nat \<times> bytes" where
  "operator_of b = (nat (mustDelegatedAccountID (bh_DelegatedAccount (GetHeader b))), addr_ByteValue (bh_OperatorAccount (GetHeader b)))"

definition live_commitment :: "StakingState \<Rightarrow> Block \<Rightarrow> bytes option" where
  "live_commitment s b =
    (let (commit, commitHeight) = GetRandCommit s (fst (operator_of b)) (snd (operator_of b)) in
     if RevealDue commitHeight (block_height b) then Some commit else None)"

lemma drop_bit_sint_nonneg: "0 \<le> sint (drop_bit 1 (w :: 64 word))"
proof -
  have "\<not> bit (drop_bit 1 w) 63"
    using bit_imp_le_length [of w 64] by (auto simp: bit_drop_bit_eq)
  then show ?thesis
    by (simp add: sint_uint not_le [symmetric] signed_take_bit_negative_iff bit_simps)
qed

lemma stateless_mix:
  assumes "verifyRandaoStateless H b par = None" "block_height b \<noteq> 0"
  shows "bb_RandMix (bl_BaseBlock b) = mixHash H (parentMix par) (block_height b) (bb_RandReveal (bl_BaseBlock b))"
    "bb_RandOracle (bl_BaseBlock b) = randFromMix H (bb_RandMix (bl_BaseBlock b))" "0 \<le> sint (bb_RandOracle (bl_BaseBlock b))"
  using assms drop_bit_sint_nonneg by (auto simp: verifyRandaoStateless_def randFromMix_def Let_def split: if_splits)

lemma reveal_opens:
  assumes "verifyRandaoReveal H s b = None" "block_height b \<noteq> 0"
  shows "case live_commitment s b of None \<Rightarrow> bb_RandReveal (bl_BaseBlock b) = []
    | Some c \<Rightarrow> bb_RandReveal (bl_BaseBlock b) \<noteq> [] \<and> RandaoCommitment H (bb_RandReveal (bl_BaseBlock b)) = c"
  using assms by (auto simp: verifyRandaoReveal_def live_commitment_def operator_of_def Let_def split_def split: if_splits)

lemma live_commitment_cong:
  "operator_of b = operator_of b' \<Longrightarrow> block_height b = block_height b' \<Longrightarrow> live_commitment s b = live_commitment s b'"
  by (simp add: live_commitment_def)

lemma applied_commitment:
  assumes "applyRandaoCommit b s = (None, s')" "operator_of b' = operator_of b" "0 < sint (block_height b)"
    "sint (block_height b' - block_height b) \<le> sint RandaoCommitExpiry"
  shows "live_commitment s' b' = Some (bb_RandCommit (bl_BaseBlock b))"
proof -
  have "block_height b \<noteq> 0"
    using assms(3) by auto
  then have "SetRandCommit (fst (operator_of b)) (snd (operator_of b)) (bb_RandCommit (bl_BaseBlock b)) (block_height b) s = (None, s')"
    using assms(1) by (auto simp: applyRandaoCommit_def operator_of_def Let_def split: if_splits)
  then have "GetRandCommit s' (fst (operator_of b)) (snd (operator_of b)) = (bb_RandCommit (bl_BaseBlock b), block_height b)"
    by (auto simp: SetRandCommit_def GetRandCommit_def gomap_simps split: option.splits)
  then show ?thesis
    using assms(2-4) by (simp add: live_commitment_def RevealDue_def)
qed

text \<open>C22: A producer cannot choose the randomness. Any two blocks of the same operator that pass the checks at
  the same height on the same parent and staking state carry the same mix and the same RAND, which is
  not negative, as long as the commitments of their reveals collide only when the reveals are equal.
  And the commitment in an applied block is the one the operator's later blocks have to open until it
  expires.\<close>

theorem producer_cannot_grind:
  fixes b b' par :: Block
  assumes "verifyRandaoStateless H b par = None" "verifyRandaoReveal H s b = None" "verifyRandaoStateless H b' par = None"
    "verifyRandaoReveal H s b' = None" "operator_of b = operator_of b'" "block_height b = block_height b'" "0 < sint (block_height b)"
    "RandaoCommitment H (bb_RandReveal (bl_BaseBlock b)) = RandaoCommitment H (bb_RandReveal (bl_BaseBlock b')) \<Longrightarrow>
       bb_RandReveal (bl_BaseBlock b) = bb_RandReveal (bl_BaseBlock b')"
  shows "bb_RandMix (bl_BaseBlock b) = bb_RandMix (bl_BaseBlock b') \<and> bb_RandOracle (bl_BaseBlock b) = bb_RandOracle (bl_BaseBlock b') \<and>
    0 \<le> sint (bb_RandOracle (bl_BaseBlock b)) \<and>
    (\<forall>s' c. applyRandaoCommit b s = (None, s') \<and> operator_of c = operator_of b \<and>
       sint (block_height c - block_height b) \<le> sint RandaoCommitExpiry \<and> block_height c \<noteq> 0 \<and> verifyRandaoReveal H s' c = None \<longrightarrow>
       RandaoCommitment H (bb_RandReveal (bl_BaseBlock c)) = bb_RandCommit (bl_BaseBlock b))"
proof -
  have h: "block_height b \<noteq> 0" "block_height b' \<noteq> 0"
    using assms(6,7) by auto
  have "bb_RandReveal (bl_BaseBlock b) = bb_RandReveal (bl_BaseBlock b')"
    using reveal_opens [OF assms(2) h(1)] reveal_opens [OF assms(4) h(2)] assms(8) live_commitment_cong [OF assms(5,6), of s]
    by (auto split: option.splits)
  then have mix: "bb_RandMix (bl_BaseBlock b) = bb_RandMix (bl_BaseBlock b')"
    unfolding stateless_mix(1) [OF assms(1) h(1)] stateless_mix(1) [OF assms(3) h(2)] assms(6) by simp
  have "RandaoCommitment H (bb_RandReveal (bl_BaseBlock c)) = bb_RandCommit (bl_BaseBlock b)"
    if "applyRandaoCommit b s = (None, s')" "operator_of c = operator_of b" "sint (block_height c - block_height b) \<le> sint RandaoCommitExpiry"
      "block_height c \<noteq> 0" "verifyRandaoReveal H s' c = None" for s' c
    using reveal_opens [OF that(5,4)] applied_commitment [OF that(1,2) assms(7) that(3)] by simp
  then show ?thesis
    using mix stateless_mix(2) [OF assms(1) h(1)] stateless_mix(2) [OF assms(3) h(2)] stateless_mix(3) [OF assms(1) h(1)] by metis
qed

text \<open>The operator of delegated account 3 committed at height 5 and produces a block at height 9.\<close>

definition sample_delegate :: Address where
  "sample_delegate = \<lparr>addr_ByteValue = [0, 3] @ replicate 18 0, addr_Primary = True\<rparr>"

lemma sample_delegate_id: "IntDelegatedAccountFromAddress sample_delegate = Inr 3" "delegated_id sample_delegate = 3"
proof -
  have g: "get_be [0, 3 :: byte] = (3 :: int16)" and p: "put_be 2 (3 :: int16) = [0, 3]"
    by code_simp+
  have "GetDelegatedAccountAddress 3 = Inr sample_delegate"
    by (simp add: GetDelegatedAccountAddress_def Address_Init_def p sample_delegate_def)
  moreover have "take 2 (addr_ByteValue sample_delegate) = [0, 3]" "drop 2 (addr_ByteValue sample_delegate) = replicate 18 0"
    by (simp_all add: sample_delegate_def)
  ultimately show "IntDelegatedAccountFromAddress sample_delegate = Inr 3" "delegated_id sample_delegate = 3"
    by (simp_all add: delegated_id_def IntDelegatedAccountFromAddress_def g)
qed

definition sample_randao_state :: StakingState where
  "sample_randao_state = sample_shards [(replicate 20 7, zero_StakingAccount\<lparr>sa_Address := replicate 20 7, RandCommit := replicate 32 9, RandCommitHeight := 5\<rparr>)]"

definition sample_randao_block :: "bytes \<Rightarrow> Block" where
  "sample_randao_block commit = zero_Block\<lparr>bl_BaseBlock := (bl_BaseBlock zero_Block)\<lparr>bb_BaseHeader := zero_BaseHeader\<lparr>bh_Height := 9,
       bh_DelegatedAccount := sample_delegate, bh_OperatorAccount := sample_addr 7\<rparr>, bb_RandReveal := replicate 32 6, bb_RandCommit := commit,
     bb_RandMix := replicate 32 9, bb_RandOracle := randFromMix (\<lambda>_. replicate 32 9) (replicate 32 9)\<rparr>\<rparr>"

lemma sample_randao_accepted:
  assumes "commit \<noteq> EmptyHash"
  shows "verifyRandaoStateless (\<lambda>_. replicate 32 9) (sample_randao_block commit) sample_block = None"
    "verifyRandaoReveal (\<lambda>_. replicate 32 9) sample_randao_state (sample_randao_block commit) = None"
proof -
  have d: "domainHash (\<lambda>_. replicate 32 9) domain parts = replicate 32 9" for domain parts
    by (simp add: domainHash_def GetHashFromBytes_def Hash_Set_def EmptyHash_def)
  show "verifyRandaoStateless (\<lambda>_. replicate 32 9) (sample_randao_block commit) sample_block = None"
    using assms by (simp add: verifyRandaoStateless_def sample_randao_block_def zero_Block_def block_height_def GetHeader_def mixHash_def d zero_BaseHeader_def)
  show "verifyRandaoReveal (\<lambda>_. replicate 32 9) sample_randao_state (sample_randao_block commit) = None"
    by (simp add: verifyRandaoReveal_def sample_randao_block_def zero_Block_def block_height_def GetHeader_def zero_BaseHeader_def mustDelegatedAccountID_def
        sample_delegate_id GetRandCommit_def sample_randao_state_def sample_shards_def sample_addr_def RevealDue_def RandaoCommitment_def d)
qed

theorem producer_cannot_grind_witness:
  "bb_RandMix (bl_BaseBlock (sample_randao_block (replicate 32 1))) = bb_RandMix (bl_BaseBlock (sample_randao_block (replicate 32 2))) \<and>
   0 \<le> sint (bb_RandOracle (bl_BaseBlock (sample_randao_block (replicate 32 1))))"
proof -
  have "replicate 32 (1 :: byte) \<noteq> EmptyHash" "replicate 32 (2 :: byte) \<noteq> EmptyHash"
    by (simp_all add: EmptyHash_def)
  note a = this [THEN sample_randao_accepted(1)] and r = this [THEN sample_randao_accepted(2)]
  have f: "operator_of (sample_randao_block c) = operator_of (sample_randao_block c')" "block_height (sample_randao_block c) = 9"
    "bb_RandReveal (bl_BaseBlock (sample_randao_block c)) = replicate 32 6" for c c'
    by (simp_all add: operator_of_def sample_randao_block_def block_height_def GetHeader_def)
  have h: "block_height (sample_randao_block (replicate 32 1)) = block_height (sample_randao_block (replicate 32 2))"
    "0 < sint (block_height (sample_randao_block (replicate 32 1)))"
    by (simp_all add: f(2))
  have "bb_RandReveal (bl_BaseBlock (sample_randao_block (replicate 32 1))) = bb_RandReveal (bl_BaseBlock (sample_randao_block (replicate 32 2)))"
    by (simp add: f(3))
  from producer_cannot_grind [OF a(1) r(1) a(2) r(2) f(1) h this] show ?thesis
    by blast
qed

end
