(* ===== verification/Oracle_Data.thy ===== *)
theory Oracle_Data
  imports Oracles Randao
begin

text \<open>
  What an accepted block says about the price: its price data is exactly what the current operators signed
  (\<open>AuthenticateOracleProofs\<close> and \<open>AuthorizeOracleProofSigners\<close>), and its price is the median of that data or
  the price of the parent (\<open>VerifyPriceOracle\<close>).
\<close>

subsection \<open>The share of the stake\<close>

lemma sdiv_pos3: "0 \<le> (a :: int) \<Longrightarrow> a sdiv 3 = a div 3"
  by (simp add: signed_divide_int_def sgn_if)

lemma enough_stake_meaning:
  assumes "0 \<le> sint tot" "2 * sint tot < 2 ^ 63"
  shows "enough_stake staked tot \<longleftrightarrow> 2 * sint tot < 3 * sint staked"
proof -
  have m: "sint (2 * tot) = 2 * sint tot"
    using sint_mult64 [of 2 tot] assms by simp
  have "sint (go_div (2 * tot) 3) = 2 * sint tot div 3"
    using assms by (simp add: go_div_def m sdiv_pos3 signed_of_int signed_take_bit_int_eq_self)
  then show ?thesis
    by (simp add: enough_stake_def not_le) presburger
qed

subsection \<open>The price\<close>

lemma Median_total:
  assumes "ps \<noteq> []"
  shows "\<exists>m. Median ps = Inr m"
proof -
  have "length ps div 2 < length ps" "length ps div 2 - 1 < length ps"
    using assms by (simp_all add: div_less_dividend less_imp_diff_less)
  then show ?thesis
    by (simp add: Median_def Let_def indexR_def)
qed

lemma VerifyPriceOracle_meaning:
  assumes "ParsePriceData s d = Inr (m, ps, st)"
  shows "VerifyPriceOracle s tot price d fallback = Inr True \<longleftrightarrow>
    (if enough_stake st tot then PriceFromData s d tot = Inr price else price = fallback)"
proof (cases "enough_stake st tot \<and> trim ps \<noteq> []")
  case True
  then obtain q where "Median (trim ps) = Inr q"
    using Median_total by blast
  then show ?thesis
    using True assms by (auto simp: VerifyPriceOracle_def PriceFromData_def)
next
  case False
  then show ?thesis
    using assms by (auto simp: VerifyPriceOracle_def PriceFromData_def)
qed

lemma VerifyPriceOracle_total: "\<exists>b. VerifyPriceOracle s tot price d fallback = Inr b"
proof (cases "ParsePriceData s d")
  case (Inr r)
  obtain m ps st where r: "r = (m, ps, st)"
    by (metis prod_cases3)
  show ?thesis
    using Median_total [of "trim ps"] Inr by (auto simp: VerifyPriceOracle_def Let_def r)
qed (auto simp: VerifyPriceOracle_def)

lemma PriceFromData_robust:
  assumes "ParsePriceData s d = Inr (m, ps, st)" "PriceFromData s d tot = Inr price"
    "length ps < 2 * length (filter (\<lambda>p. lo \<le> sint p \<and> sint p \<le> hi) ps)"
  shows "lo \<le> sint price \<and> sint price \<le> hi"
  using assms(2) median_in_range [OF assms(3) ParsePriceData_positive [OF assms(1)]]
  by (auto simp: PriceFromData_def assms(1) Let_def split: if_splits)

text \<open>C20: No minority can set the price. The check always ends in a verdict; a block whose price data does not
  parse is refused; when the data carries more than two thirds of the stake the accepted price is the
  one every producer derives from it, and it lies between \<open>lo\<close> and \<open>hi\<close> whenever more than half of the
  submitted prices do; with less stake behind it only the parent's price is accepted.\<close>

theorem price_is_robust:
  fixes tot price fallback :: int64 and s :: StakingState and d :: bytes
  assumes "0 \<le> sint tot" "2 * sint tot < 2 ^ 63"
  defines "verdict \<equiv> VerifyPriceOracle s tot price d fallback"
  shows "(\<exists>b. verdict = Inr b) \<and> (PriceFromData s d tot = Inr price \<longrightarrow> verdict = Inr True) \<and>
    (verdict = Inr True \<longrightarrow>
      (\<exists>m ps st. ParsePriceData s d = Inr (m, ps, st) \<and>
        (if 2 * sint tot < 3 * sint st
         then PriceFromData s d tot = Inr price \<and>
           (\<forall>lo hi. length ps < 2 * length (filter (\<lambda>p. lo \<le> sint p \<and> sint p \<le> hi) ps) \<longrightarrow> lo \<le> sint price \<and> sint price \<le> hi)
         else price = fallback)))"
proof (cases "ParsePriceData s d")
  case (Inr r)
  obtain m ps st where r: "r = (m, ps, st)"
    by (metis prod_cases3)
  note p = Inr [unfolded r]
  have "enough_stake st tot" if "PriceFromData s d tot = Inr price"
    using that by (auto simp: PriceFromData_def p split: if_splits)
  then show ?thesis
    using VerifyPriceOracle_meaning [OF p, of tot price fallback] PriceFromData_robust [OF p]
      VerifyPriceOracle_total [of s tot price d fallback]
    unfolding enough_stake_meaning [OF assms(1,2)] verdict_def p by (cases "2 * sint tot < 3 * sint st") auto
next
  case (Inl e)
  then show ?thesis
    by (auto simp: verdict_def VerifyPriceOracle_def PriceFromData_def)
qed

text \<open>One operator with all the stake submits the price 50 at height 70.\<close>

definition sample_stake :: StakingState where
  "sample_stake = sample_shards [(replicate 20 7, zero_StakingAccount\<lparr>sa_Address := replicate 20 7, StakedBalance := 200000000000000, OperationalAccount := True,
     StakingDetails := [(5, [\<lparr>sd_Amount = 200000000000000, sd_Reward = 0, sd_LastUpdated = 0\<rparr>])]\<rparr>)]"

lemma sample_parse:
  "ParsePriceData sample_stake (price_entry 3 70 50) = Inr ([(3, \<lparr>po_Price = 50, po_Height = 70, po_Staked = 200000000000000\<rparr>)], [50], 200000000000000)"
proof -
  have "GetStakedInDelegatedAccount sample_stake 3 = ([(200000000000000, replicate 20 7)], 200000000000000, (200000000000000, replicate 20 7))"
    by (simp add: GetStakedInDelegatedAccount_def sample_stake_def sample_shards_def keep_better_def better_def)
  then have "stake_of_id sample_stake 3 = 200000000000000"
    by (simp add: stake_of_id_def)
  then show ?thesis
    unfolding ParsePriceData_spec by (intro exI [of _ "[(3, 70, 50)]"]) (simp add: entries_bytes_def entries_ok_def entry_oracle_def)
qed

theorem price_is_robust_witness:
  "VerifyPriceOracle sample_stake 200000000000000 50 (price_entry 3 70 50) 40 = Inr True"
proof -
  have "PriceFromData sample_stake (price_entry 3 70 50) 200000000000000 = Inr 50"
    unfolding PriceFromData_def sample_parse by (simp add: enough_stake_meaning trim_def Median_def)
  then show ?thesis
    using price_is_robust [where s = sample_stake and tot = 200000000000000 and d = "price_entry 3 70 50" and price = 50 and fallback = 40] by simp
qed

subsection \<open>Where the data comes from\<close>

text \<open>A proof of the block is the signed nonce of an operator: the decoder accepted it, it is fresh and it names
  the delegated account \<open>k\<close>, the height and the price, and its sender is the operator of that account.\<close>

definition signed_by_operator :: "SigLibrary \<Rightarrow> Chain \<Rightarrow> StakingState \<Rightarrow> DB \<Rightarrow> Block \<Rightarrow> Block \<Rightarrow> bytes \<Rightarrow> entry \<Rightarrow> bool" where
  "signed_by_operator lib ch s db newBlock lastBlock pb e \<longleftrightarrow>
    (\<exists>tx sub. proof_decoder lib ch db newBlock lastBlock pb = Inr tx \<and> freshness (block_height newBlock) tx = None \<and>
       extractOracleSubmission tx = Inr (fst e, sub) \<and> submission_entry (fst e, sub) = e \<and>
       IsTop128StakingNode s (uint (fst e)) (GetSenderAddress tx))"

lemma proof_decoder_decodes:
  assumes "proof_decoder lib ch db nb lb pb = Inr tx" "decodeProof (ch_Crypto ch) pb = Inr tx'"
  shows "tx' = tx"
proof -
  from assms(1) obtain r where "Transaction_GetFromBytes (cr_enc (ch_Crypto ch)) (cr_H160 (ch_Crypto ch)) pb = Inr (tx, r)"
    by (auto simp: proof_decoder_def bindR_eq_Inr split: sum.splits if_splits)
  from decodeProof_same [OF assms(2) this] show ?thesis ..
qed

lemma proof_signed_by_operator:
  assumes "proves (freshness (block_height nb)) (proof_decoder lib ch db nb lb) pb e"
    "AuthorizeOracleProofSigners (ch_Crypto ch) s proofs = None" "pb \<in> set proofs"
  shows "signed_by_operator lib ch s db nb lb pb (submission_entry e)"
proof -
  obtain k sub where e: "e = (k, sub)"
    by (cases e)
  from assms(1) obtain tx where tx: "proof_decoder lib ch db nb lb pb = Inr tx" "freshness (block_height nb) tx = None"
      "extractOracleSubmission tx = Inr (k, sub)"
    by (auto simp: proves_def e)
  from assms(2,3) obtain tx' k' sub' where t: "decodeProof (ch_Crypto ch) pb = Inr tx'" "extractOracleSubmission tx' = Inr (k', sub')"
      "IsTop128StakingNode s (int (unat k')) (GetSenderAddress tx')"
    unfolding AuthorizeOracleProofSigners_def signers_authorised by blast
  have "tx' = tx"
    using tx(1) t(1) by (rule proof_decoder_decodes)
  then show ?thesis
    using tx t by (auto simp: signed_by_operator_def e submission_entry_def)
qed


text \<open>The operator's nonce and a block that embeds it.\<close>

definition sample_nonce :: Transaction where
  "sample_nonce = sample_tx\<lparr>tx_TxData := (tx_TxData sample_tx)\<lparr>Recipient := sample_delegate,
     Amount := 0, OptData := replicate 40 0 @ GetByteInt64 50 @ replicate 8 0\<rparr>, tx_Height := 70\<rparr>"

definition sample_priced_block :: Block where
  "sample_priced_block = sample_block\<lparr>bl_BaseBlock := (bl_BaseBlock sample_block)\<lparr>bb_OracleProofs := [Transaction_GetBytes sample_nonce],
     bb_PriceOracleData := price_entry 3 70 50,
     bb_BaseHeader := (bb_BaseHeader (bl_BaseBlock sample_block))\<lparr>bh_Height := 70\<rparr>\<rparr>\<rparr>"

lemma sample_nonce_wf: "wf_Transaction sample_enc H160 sample_nonce"
  using sample_tx_wf [of H160]
  by (simp add: wf_Transaction_def sample_nonce_def sample_tx_def wf_TxData_def sample_addr_def wf_Address_def
      zero_TxData_def zero_PubKey_def zero_Address_def TxData_body_def Address_GetBytesWithPrimary_def sample_delegate_def)

lemma sample_nonce_id: "IntDelegatedAccountFromAddress (Recipient (tx_TxData sample_nonce)) = Inr 3" "delegated_id (Recipient (tx_TxData sample_nonce)) = 3"
  by (simp_all add: sample_nonce_def sample_delegate_id)

lemma sample_nonce_verified: "VerifyNonce (sample_chain sample_registry) (historicalProofPauseFlags sample_sn) sample_nonce = Inr True"
proof -
  let ?ch = "sample_chain sample_registry" and ?sn = "historicalProofPauseFlags sample_sn"
  have tx: "OptData (tx_TxData sample_nonce) = replicate 40 0 @ GetByteInt64 50 @ replicate 8 0" "Pubkey (tx_TxData sample_nonce) = zero_PubKey"
    "td_LockedAmount (tx_TxData sample_nonce) = 0" "GetSenderAddress sample_nonce = sample_addr 7" "EscrowTransactionsDelay (tx_TxData sample_nonce) = 0"
    "td_MultiSignNumber (tx_TxData sample_nonce) = 0" "sig_ByteValue (tx_Signature sample_nonce) = [0, 1, 2]" "tx_Hash sample_nonce = replicate 32 9"
    "ChainID (tx_TxParam sample_nonce) = 23" "Amount (tx_TxData sample_nonce) = 0" "addr_ByteValue (Recipient (tx_TxData sample_nonce)) = 0 # 3 # replicate 18 0"
    by (simp_all add: sample_nonce_def sample_tx_def zero_TxData_def GetSenderAddress_def sample_delegate_def)
  have kinds: "\<not> IsRecoveryReveal sample_nonce" "\<not> IsRecoveryBind sample_nonce"
    by (auto simp: IsRecoveryReveal_def IsRecoveryBind_def tx recoveryAddress_def dest!: arg_cong [where f = hd])
  have "rules_ok ?ch txKindNonce NoHeightLimit sample_nonce"
    by (simp add: rules_ok_def Let_def kind_ok_def tx sample_nonce_id kinds lock_ok_def policy_ok_def dex_ok_def) (simp add: sample_chain_def)
  moreover have "HashMatchesBody (cr_H256 sample_crypto) sample_nonce"
    by (simp add: HashMatchesBody_def tx GetHashFromBytes_def Hash_Set_def EmptyHash_def sample_crypto_def)
  moreover have "sender_key ?ch ?sn NoHeightLimit sample_nonce True = Inr (sample_key (sample_addr 7))"
    by (simp add: sender_key_def sample_chain_def sample_oqs_def signingSchemeName_def sample_sn_def historicalProofPauseFlags_def LoadPubKeyWithPrimaryOfLengthAsOf_def
        LoadAddressesAsOf_def LoadAddresses_def sample_registry_def empty_registry_def tx sample_addr_def RegisteredAsOf_def RegistrationHeight_def mget_def LoadPubKey_def sample_key_def)
  moreover have "wallet_Verify sample_oqs (replicate 32 9) [0, 1, 2] (pk_ByteValue (sample_key (sample_addr 7))) ?sn"
    by (simp add: wallet_Verify_def sample_sn_def sample_oqs_def oqs_check_def sample_key_def historicalProofPauseFlags_def)
  ultimately show ?thesis
    by (simp add: VerifyNonce_def verify_def kinds tx zero_PubKey_def) (simp add: sample_chain_def)
qed

lemma sample_nonce_decoded:
  "Transaction_GetFromBytes sample_enc H160 (Transaction_GetBytes sample_nonce) = Inr (sample_nonce, [])"
  using Transaction_round_trip [OF sample_nonce_wf, of H160 "[]"] by simp

lemma sample_nonce_submission: "extractOracleSubmission sample_nonce = Inr (3, \<lparr>os_height = 70, os_price = 50\<rparr>)"
proof -
  have "int64At 40 (OptData (tx_TxData sample_nonce)) = Inr 50"
    using int64At_app [of "replicate 40 0" 40 50 "replicate 8 0"] by (simp add: sample_nonce_def)
  moreover have "Amount (tx_TxData sample_nonce) = 0" "length (OptData (tx_TxData sample_nonce)) = 56" "tx_Height sample_nonce = 70"
    by (simp_all add: sample_nonce_def)
  ultimately show ?thesis
    by (simp add: extractOracleSubmission_def sample_nonce_id)
qed

lemma sample_totals: "delegatedTotalsLocked sample_stake j = (if j = 3 then 200000000000000 else 0)"
  by (simp add: delegatedTotalsLocked_def sample_stake_def sample_shards_def zero_StakingAccountsType_def)

lemma sample_eligible: "eligibleOperatorLocked sample_stake (delegatedTotalsLocked sample_stake) 3 = (replicate 20 7, True)"
proof -
  have "\<not> ahead sample_stake (delegatedTotalsLocked sample_stake) 3 j" if "j \<noteq> 3" for j
    using that by (simp add: ahead_def sample_totals)
  then have "stake_rank sample_stake (delegatedTotalsLocked sample_stake) 3 = 1"
    by (auto simp: stake_rank_def filter_empty_conv)
  moreover have "candidates (AllStakingAccounts (sample_stake 3)) = [(200000000000000, 0, replicate 20 7)]"
    by (simp add: candidates_def sample_stake_def sample_shards_def zero_StakingAccount_def)
  ultimately show ?thesis
    by (simp add: eligibleOperatorLocked_def sample_totals keep_better_def better_def)
qed

lemma sample_operator: "IsTop128StakingNode sample_stake 3 (sample_addr 7)"
  by (simp add: IsTop128StakingNode_def sample_eligible sample_addr_def)


end
