(* ===== verification/Governance.thy ===== *)
theory Governance
  imports Oracle_Data
begin

text \<open>
  Changing a signature scheme: the votes a node collects (\<open>voting/votingEncryptionSchemes.go\<close>), the votes a
  block carries in its own proofs and the rules a change has to satisfy (\<open>blocks/encryptionVote.go\<close> and
  \<open>checkPauseLeavesRegisteredKey\<close> of \<open>blocks/processBlock.go\<close>), and what a block that changes a scheme does
  to the node (\<open>blocks/processEncryption.go\<close>).

  The functions a Go function receives as arguments are arguments here too. The list of a Go map stands for
  one order of its iteration.
\<close>

subsection \<open>Votes a node has seen\<close>

record Votes =
  vt_Values :: bytes
  vt_Height :: int64
  vt_Staked :: int64

record VotingState =
  VotesEncryption1 :: "(uint8, Votes) gomap"
  VotesEncryption2 :: "(uint8, Votes) gomap"
  AfterReset :: bool

definition save_vote :: "bytes \<Rightarrow> int64 \<Rightarrow> Address \<Rightarrow> int64 \<Rightarrow> (uint8, Votes) gomap cmd" where
  "save_vote v height delegatedAccount staked m =
    (if length v = 0 then (None, m)
     else
       let i = GetIDFromDelegatedAccountAddress delegatedAccount in
       if sint i < 1 \<or> sint i \<ge> 256 then (Some (Errorf ''delegated account is invalid''), m)
       else
         let k = ucast i :: uint8 in
         if (case map_of m k of None \<Rightarrow> True | Some po \<Rightarrow> sint (vt_Height po) < sint height)
         then (None, mput k \<lparr>vt_Values = v, vt_Height = height, vt_Staked = staked\<rparr> m)
         else (Some (Errorf ''invalid height in voting''), m))"

definition SaveVotesEncryption1 :: "bytes \<Rightarrow> int64 \<Rightarrow> Address \<Rightarrow> int64 \<Rightarrow> VotingState cmd" where
  "SaveVotesEncryption1 v height delegatedAccount staked st =
    (let (e, m) = save_vote v height delegatedAccount staked (VotesEncryption1 st) in (e, st\<lparr>VotesEncryption1 := m\<rparr>))"

definition SaveVotesEncryption2 :: "bytes \<Rightarrow> int64 \<Rightarrow> Address \<Rightarrow> int64 \<Rightarrow> VotingState cmd" where
  "SaveVotesEncryption2 v height delegatedAccount staked st =
    (let (e, m) = save_vote v height delegatedAccount staked (VotesEncryption2 st) in (e, st\<lparr>VotesEncryption2 := m\<rparr>))"

definition ResetLastVoting :: "VotingState \<Rightarrow> VotingState" where
  "ResetLastVoting st =
     (foldl (\<lambda>st i. st\<lparr>VotesEncryption1 := mdel (word_of_nat i) (VotesEncryption1 st),
                        VotesEncryption2 := mdel (word_of_nat i) (VotesEncryption2 st)\<rparr>) st [0..<256])\<lparr>AfterReset := True\<rparr>"

definition live_vote :: "int64 \<Rightarrow> Votes \<Rightarrow> bool" where
  "live_vote height po \<longleftrightarrow> sint height \<le> sint (vt_Height po + VotingHeightDistance) \<and> length (vt_Values po) > 0"

definition generate_data :: "int64 \<Rightarrow> (uint8, Votes) gomap \<Rightarrow> (bytes \<times> bytes list \<times> int64) \<times> (uint8, Votes) gomap" where
  "generate_data height m =
    (let kept = filter (\<lambda>(k, po). live_vote height po) m in
     ((concat (map (\<lambda>(k, po). k # GetByteInt64 (vt_Height po) @ BytesToLenAndBytes (vt_Values po)) kept),
       map (\<lambda>(k, po). vt_Values po) kept,
       foldl (\<lambda>t (k, po). t + vt_Staked po) 0 kept), kept))"

definition GenerateEncryption1Data :: "int64 \<Rightarrow> VotingState \<Rightarrow> (bytes \<times> bytes list \<times> int64) \<times> VotingState" where
  "GenerateEncryption1Data height st =
    (let (r, m) = generate_data height (VotesEncryption1 st) in (r, st\<lparr>VotesEncryption1 := m\<rparr>))"

definition GenerateEncryption2Data :: "int64 \<Rightarrow> VotingState \<Rightarrow> (bytes \<times> bytes list \<times> int64) \<times> VotingState" where
  "GenerateEncryption2Data height st =
    (let (r, m) = generate_data height (VotesEncryption2 st) in (r, st\<lparr>VotesEncryption2 := m\<rparr>))"

definition stakedForValue :: "int64 \<Rightarrow> bytes \<Rightarrow> (uint8, Votes) gomap \<Rightarrow> int64 \<times> (uint8, Votes) gomap" where
  "stakedForValue height want m =
    (let kept = filter (\<lambda>(k, po). live_vote height po) m in
     (foldl (\<lambda>t (k, po). if vt_Values po = want then t + vt_Staked po else t) 0 kept, kept))"

definition staked_in_slot :: "int64 \<Rightarrow> bool \<Rightarrow> bytes \<Rightarrow> VotingState \<Rightarrow> int64 \<times> VotingState" where
  "staked_in_slot height primary want st =
    (if primary then let (t, m) = stakedForValue height want (VotesEncryption1 st) in (t, st\<lparr>VotesEncryption1 := m\<rparr>)
     else let (t, m) = stakedForValue height want (VotesEncryption2 st) in (t, st\<lparr>VotesEncryption2 := m\<rparr>))"

definition VerifyEncryptionForPausing :: "int64 \<Rightarrow> int64 \<Rightarrow> bool \<Rightarrow> bytes \<Rightarrow> VotingState \<Rightarrow> bool \<times> VotingState" where
  "VerifyEncryptionForPausing height totalStaked primary want st =
    (let (staked, st) = staked_in_slot height primary want st in
     (\<not> (sint staked \<le> 0 \<or> sint totalStaked \<le> 0) \<and> \<not> sint (staked * 3) < sint totalStaked, st))"

definition VerifyEncryptionForReplacing :: "int64 \<Rightarrow> int64 \<Rightarrow> bool \<Rightarrow> bytes \<Rightarrow> VotingState \<Rightarrow> bool \<times> VotingState" where
  "VerifyEncryptionForReplacing height totalStaked primary want st =
    (let (staked, st) = staked_in_slot height primary want st in
     (\<not> (sint staked \<le> 0 \<or> sint totalStaked \<le> 0) \<and> \<not> sint (staked * 3) < sint (totalStaked * 2), st))"

definition DropVotesAbove :: "int64 \<Rightarrow> VotingState \<Rightarrow> VotingState" where
  "DropVotesAbove height st =
     st\<lparr>VotesEncryption1 := filter (\<lambda>(k, v). \<not> sint (vt_Height v) > sint height) (VotesEncryption1 st),
        VotesEncryption2 := filter (\<lambda>(k, v). \<not> sint (vt_Height v) > sint height) (VotesEncryption2 st)\<rparr>"

subsection \<open>Votes of a block\<close>

definition proofVotes :: "Transaction \<Rightarrow> (bytes \<times> bytes) res" where
  "proofVotes tx =
    (let opt = OptData (tx_TxData tx) in
     if length opt < oracleOptDataMinLen then Inl (Errorf ''nonce carries no vote data'')
     else
       bindR (BytesWithLenToBytes (drop oracleOptDataMinLen opt)) (\<lambda>(vote1, rest).
       bindR (BytesWithLenToBytes rest) (\<lambda>(vote2, _). Inr (vote1, vote2))))"

fun tallyEncryptionVotes :: "bytes list \<Rightarrow> bool \<Rightarrow> bytes \<Rightarrow> verifiedDecoder \<Rightarrow> (int \<Rightarrow> int64) \<Rightarrow> uint8 list \<Rightarrow> int64 \<Rightarrow> int64 res" where
  "tallyEncryptionVotes [] primary want decode stakeOf seen staked = Inr staked"
| "tallyEncryptionVotes (pb # proofs) primary want decode stakeOf seen staked =
    bindR (decode pb) (\<lambda>tx.
    bindR (extractOracleSubmission tx) (\<lambda>(k, _).
    if k \<in> set seen then tallyEncryptionVotes proofs primary want decode stakeOf seen staked
    else
      case proofVotes tx of
        Inl _ \<Rightarrow> tallyEncryptionVotes proofs primary want decode stakeOf (k # seen) staked
      | Inr (v1, v2) \<Rightarrow>
          let v = (if primary then v1 else v2) in
          tallyEncryptionVotes proofs primary want decode stakeOf (k # seen)
            (if length v > 0 \<and> v = want then staked + stakeOf (int (unat k)) else staked)))"

definition pauses :: "ConfigEnc \<Rightarrow> ConfigEnc \<Rightarrow> bool" where
  "pauses cur nxt \<longleftrightarrow> ce_SigName nxt = ce_SigName cur \<and> ce_IsPaused nxt \<and> \<not> ce_IsPaused cur"

definition voteThresholdMet :: "ConfigEnc \<Rightarrow> ConfigEnc \<Rightarrow> int64 \<Rightarrow> int64 \<Rightarrow> bool" where
  "voteThresholdMet par nxt staked tot =
    (if sint staked \<le> 0 \<or> sint tot \<le> 0 then False
     else if pauses par nxt then sint (staked * 3) \<ge> sint tot
     else sint (staked * 3) \<ge> sint (tot * 2))"

definition parentSlotConfig :: "SigLibrary \<Rightarrow> EncryptionState \<Rightarrow> Block \<Rightarrow> bool \<Rightarrow> ConfigEnc res" where
  "parentSlotConfig lib enc par primary =
    (let h = GetHeader par in
     if primary then FromBytesToEncryptionConfig lib enc (bh_Encryption1 h) True
     else
       bindR (FromBytesToEncryptionConfig lib enc (bh_Encryption2 h) False) (\<lambda>cfg.
       bindR (GetSigNames lib enc par) (\<lambda>sn. Inr (cfg\<lparr>ce_IsPaused := sn_Paused2 sn\<rparr>))))"

definition header_slot :: "Block \<Rightarrow> bool \<Rightarrow> bytes" where
  "header_slot b primary = (if primary then bh_Encryption1 (GetHeader b) else bh_Encryption2 (GetHeader b))"

definition checkEncryptionChangeShape :: "SigLibrary \<Rightarrow> EncryptionState \<Rightarrow> bytes \<Rightarrow> Block \<Rightarrow> bool \<Rightarrow> bool res" where
  "checkEncryptionChangeShape lib enc newBytes par primary =
    (if newBytes = header_slot par primary then Inr False
     else
       bindR (parse_config lib newBytes) (\<lambda>nxt.
       if \<not> VerifyEncConfig lib nxt then Inl (Errorf ''encryption config does not match the scheme'')
       else
         bindR (parentSlotConfig lib enc par primary) (\<lambda>cur.
         if ce_SigName nxt = ce_SigName cur \<and> ce_IsPaused nxt = ce_IsPaused cur then Inr False
         else
           bindR (parentSlotConfig lib enc par (\<not> primary)) (\<lambda>other.
           if ce_SigName nxt = ce_SigName other then Inl (Errorf ''both slots cannot hold the scheme'')
           else if ce_SigName nxt \<noteq> ce_SigName cur \<and> \<not> ce_IsPaused cur then Inl (Errorf ''pause the scheme before replacing it'')
           else if ce_SigName nxt \<noteq> ce_SigName cur \<and> \<not> ce_IsPaused nxt then Inl (Errorf ''replacement scheme has to start paused'')
           else Inr True))))"

definition encryptionChangeAuthorised :: "SigLibrary \<Rightarrow> EncryptionState \<Rightarrow> bytes list \<Rightarrow> Block \<Rightarrow> bytes \<Rightarrow> bool \<Rightarrow> int64 \<Rightarrow> verifiedDecoder
    \<Rightarrow> (int \<Rightarrow> int64) \<Rightarrow> err option" where
  "encryptionChangeAuthorised lib enc proofs par want primary tot decode stakeOf =
    (case parse_config lib want of
       Inl e \<Rightarrow> Some e
     | Inr nxt \<Rightarrow>
         (case parentSlotConfig lib enc par primary of
            Inl e \<Rightarrow> Some e
          | Inr cur \<Rightarrow>
              (case tallyEncryptionVotes proofs primary want decode stakeOf [] 0 of
                 Inl e \<Rightarrow> Some e
               | Inr staked \<Rightarrow>
                   if \<not> voteThresholdMet cur nxt staked tot then Some (Errorf ''not enough stake votes'') else None)))"

definition isUnpause :: "ConfigEnc \<Rightarrow> ConfigEnc \<Rightarrow> bool" where
  "isUnpause cur nxt \<longleftrightarrow> ce_SigName nxt = ce_SigName cur \<and> ce_IsPaused cur \<and> \<not> ce_IsPaused nxt"

definition stake_with_keys :: "(int \<Rightarrow> int64 \<times> Address) \<Rightarrow> (Address \<Rightarrow> bool \<Rightarrow> int \<Rightarrow> bool) \<Rightarrow> bool \<Rightarrow> int \<Rightarrow> int64" where
  "stake_with_keys stakeAndOperator hasKey primary keyLen =
     foldl (\<lambda>withKeys i. let (staked, op) = stakeAndOperator i in
         if sint staked > 0 \<and> hasKey op primary keyLen then withKeys + staked else withKeys) 0 [1..255]"

definition checkUnpauseKeyQuorum :: "SigLibrary \<Rightarrow> EncryptionState \<Rightarrow> bytes \<Rightarrow> Block \<Rightarrow> bool \<Rightarrow> int64 \<Rightarrow> (int \<Rightarrow> int64 \<times> Address)
    \<Rightarrow> (Address \<Rightarrow> bool \<Rightarrow> int \<Rightarrow> bool) \<Rightarrow> err option" where
  "checkUnpauseKeyQuorum lib enc want par primary tot stakeAndOperator hasKey =
    (case parse_config lib want of
       Inl e \<Rightarrow> Some e
     | Inr nxt \<Rightarrow>
         (case parentSlotConfig lib enc par primary of
            Inl e \<Rightarrow> Some e
          | Inr cur \<Rightarrow>
              if \<not> isUnpause cur nxt then None
              else if sint tot \<le> 0 then Some (Errorf ''refusing to un-pause: nothing is staked'')
              else if sint (stake_with_keys stakeAndOperator hasKey primary (ce_PubKeyLength nxt) * 3) < sint (tot * 2)
              then Some (Errorf ''refusing to un-pause: two thirds have to hold a key of it'')
              else None))"

definition stakeAndOperatorOfDelegated :: "StakingState \<Rightarrow> int \<Rightarrow> int64 \<times> Address" where
  "stakeAndOperatorOfDelegated s i =
    (if \<not> IsEligibleDelegatedAccount s i then (0, zero_Address)
     else
       let (_, staked, (_, op)) = GetStakedInDelegatedAccount s (nat i) in
       (staked, case Address_Init zero_Address op of Inl _ \<Rightarrow> zero_Address | Inr a \<Rightarrow> a))"

definition operatorHasKeyAsOf :: "KeyRegistry \<Rightarrow> int64 \<Rightarrow> Address \<Rightarrow> bool \<Rightarrow> int \<Rightarrow> bool" where
  "operatorHasKeyAsOf reg asOf op primary keyLen =
    (case LoadPubKeyWithPrimaryOfLengthAsOf reg op primary keyLen asOf of Inl _ \<Rightarrow> False | Inr _ \<Rightarrow> True)"

definition stakeOfDelegated :: "StakingState \<Rightarrow> int \<Rightarrow> int64" where
  "stakeOfDelegated s i = (let (_, staked, _) = GetStakedInDelegatedAccount s (nat i) in staked)"

fun first_error :: "('a \<Rightarrow> err option) \<Rightarrow> 'a list \<Rightarrow> err option" where
  "first_error f [] = None"
| "first_error f (x # xs) = (case f x of Some e \<Rightarrow> Some e | None \<Rightarrow> first_error f xs)"

definition verify_slot_votes :: "SigLibrary \<Rightarrow> Chain \<Rightarrow> StakingState \<Rightarrow> Block \<Rightarrow> Block \<Rightarrow> bool \<Rightarrow> err option" where
  "verify_slot_votes lib ch s newBlock lastBlock primary =
    (let want = header_slot newBlock primary; enc = cr_enc (ch_Crypto ch); tot = GetStakedInEligibleDelegatedAccounts s in
     case checkEncryptionChangeShape lib enc want lastBlock primary of
       Inl e \<Rightarrow> Some e
     | Inr changed \<Rightarrow>
         if \<not> changed then None
         else
           (case encryptionChangeAuthorised lib enc (bb_OracleProofs (bl_BaseBlock newBlock)) lastBlock want primary tot
               (decodeProof (ch_Crypto ch)) (stakeOfDelegated s) of
              Some e \<Rightarrow> Some e
            | None \<Rightarrow> checkUnpauseKeyQuorum lib enc want lastBlock primary tot (stakeAndOperatorOfDelegated s)
                (operatorHasKeyAsOf (ch_Keys ch) (block_height lastBlock))))"

definition VerifyEncryptionVotes :: "SigLibrary \<Rightarrow> Chain \<Rightarrow> StakingState \<Rightarrow> Block \<Rightarrow> Block \<Rightarrow> err option" where
  "VerifyEncryptionVotes lib ch s newBlock lastBlock = first_error (verify_slot_votes lib ch s newBlock lastBlock) [True, False]"

definition checkPauseLeavesRegisteredKey :: "SigLibrary \<Rightarrow> Chain \<Rightarrow> Address \<Rightarrow> Block \<Rightarrow> bytes \<Rightarrow> bool \<Rightarrow> err option" where
  "checkPauseLeavesRegisteredKey lib ch op lastBlock slot primary =
    (let enc = cr_enc (ch_Crypto ch) in
     case parse_config lib slot of
       Inl e \<Rightarrow> Some e
     | Inr nxt \<Rightarrow>
         (case parentSlotConfig lib enc lastBlock primary of
            Inl e \<Rightarrow> Some e
          | Inr cur \<Rightarrow>
              if isUnpause cur nxt then
                (case LoadPubKeyWithPrimaryOfLengthAsOf (ch_Keys ch) op primary (ce_PubKeyLength nxt) (block_height lastBlock) of
                   Inl _ \<Rightarrow> Some (Errorf ''refusing to un-pause: operator has no registered key of it'')
                 | Inr _ \<Rightarrow> None)
              else if \<not> pauses cur nxt then None
              else
                (case parentSlotConfig lib enc lastBlock (\<not> primary) of
                   Inl e \<Rightarrow> Some e
                 | Inr becomesActive \<Rightarrow>
                     (case LoadPubKeyWithPrimaryOfLengthAsOf (ch_Keys ch) op (\<not> primary) (ce_PubKeyLength becomesActive) NoHeightLimit of
                        Inl _ \<Rightarrow> Some (Errorf ''refusing to pause: operator has no registered key of the other scheme'')
                      | Inr _ \<Rightarrow> None))))"

abbreviation errNoChange :: err where "errNoChange \<equiv> Errorf ''no change from the parent's config''"

definition EncryptionChangeRefusal :: "SigLibrary \<Rightarrow> Chain \<Rightarrow> StakingState \<Rightarrow> bytes list \<Rightarrow> Block \<Rightarrow> bytes \<Rightarrow> bool \<Rightarrow> Address \<Rightarrow> err option" where
  "EncryptionChangeRefusal lib ch s proofs lastBlock want primary operator =
    (let enc = cr_enc (ch_Crypto ch); tot = GetStakedInEligibleDelegatedAccounts s in
     case checkEncryptionChangeShape lib enc want lastBlock primary of
       Inl e \<Rightarrow> Some e
     | Inr changed \<Rightarrow>
         if \<not> changed then Some errNoChange
         else
           (case checkPauseLeavesRegisteredKey lib ch operator lastBlock want primary of
              Some e \<Rightarrow> Some e
            | None \<Rightarrow>
                (case encryptionChangeAuthorised lib enc proofs lastBlock want primary tot (decodeProof (ch_Crypto ch)) (stakeOfDelegated s) of
                   Some e \<Rightarrow> Some e
                 | None \<Rightarrow> checkUnpauseKeyQuorum lib enc want lastBlock primary tot (stakeAndOperatorOfDelegated s)
                     (operatorHasKeyAsOf (ch_Keys ch) (block_height lastBlock)))))"

definition EncryptionChangeAuthorised :: "SigLibrary \<Rightarrow> Chain \<Rightarrow> StakingState \<Rightarrow> bytes list \<Rightarrow> Block \<Rightarrow> bytes \<Rightarrow> bool \<Rightarrow> Address \<Rightarrow> bool" where
  "EncryptionChangeAuthorised lib ch s proofs lastBlock want primary operator \<longleftrightarrow>
     EncryptionChangeRefusal lib ch s proofs lastBlock want primary operator = None"

definition IsNoChange :: "err option \<Rightarrow> bool" where
  "IsNoChange e \<longleftrightarrow> e = Some errNoChange"

subsection \<open>Applying a change\<close>

text \<open>The node's state a scheme change touches. What adopting the scheme does to the wallet file is an argument:
  it ends with an error or without one.\<close>

record SchemeState =
  ss_Pool :: TransactionPool
  ss_Enc :: EncryptionState
  ss_Votes :: VotingState

definition adopt_slot :: "SigLibrary \<Rightarrow> (string \<Rightarrow> bool \<Rightarrow> int64 \<Rightarrow> err option) \<Rightarrow> Block \<Rightarrow> Block \<Rightarrow> bool \<Rightarrow> SchemeState \<Rightarrow> err list \<times> SchemeState" where
  "adopt_slot lib wallet block lastBlock primary st =
    (if header_slot block primary = header_slot lastBlock primary then ([], st)
     else
       case FromBytesToEncryptionConfig lib (ss_Enc st) (header_slot block primary) primary of
         Inl e \<Rightarrow> ([e], st)
       | Inr enc \<Rightarrow>
           let st = st\<lparr>ss_Enc := SetVoteEncryption lib (header_slot block primary) primary (ss_Enc st), ss_Votes := ResetLastVoting (ss_Votes st)\<rparr> in
           (case wallet (ce_SigName enc) primary (block_height block) of None \<Rightarrow> [] | Some e \<Rightarrow> [e], st))"

definition ProcessBlockEncryption :: "SigLibrary \<Rightarrow> (string \<Rightarrow> bool \<Rightarrow> int64 \<Rightarrow> err option) \<Rightarrow> Block \<Rightarrow> Block \<Rightarrow> SchemeState \<Rightarrow> err list \<times> SchemeState" where
  "ProcessBlockEncryption lib wallet block lastBlock st =
    (if sint (block_height lastBlock) < 3 then ([], st)
     else
       let schemeChanged = (header_slot block True \<noteq> header_slot lastBlock True \<or> header_slot block False \<noteq> header_slot lastBlock False);
           st = (if schemeChanged then st\<lparr>ss_Pool := snd (Clear (ss_Pool st))\<rparr> else st);
           (errs, st) = adopt_slot lib wallet block lastBlock True st;
           (errs2, st) = adopt_slot lib wallet block lastBlock False st
       in (errs @ errs2, st))"

definition SetEncryptionFromBlock :: "SigLibrary \<Rightarrow> DB \<Rightarrow> int64 \<Rightarrow> EncryptionState cmd" where
  "SetEncryptionFromBlock lib db height st =
    (case LoadBlock db height of
       Inl e \<Rightarrow> (Some e, st)
     | Inr block \<Rightarrow>
         (case FromBytesToEncryptionConfig lib st (bh_Encryption1 (GetHeader block)) True of
            Inl e \<Rightarrow> (Some e, st)
          | Inr enc1 \<Rightarrow>
              let st = SetEncryption st (ce_SigName enc1) (ce_PubKeyLength enc1) (ce_PrivateKeyLength enc1) (ce_SignatureLength enc1) (ce_IsPaused enc1) True in
              (case FromBytesToEncryptionConfig lib st (bh_Encryption2 (GetHeader block)) False of
                 Inl e \<Rightarrow> (Some e, st)
               | Inr enc2 \<Rightarrow>
                   (None, SetEncryption st (ce_SigName enc2) (ce_PubKeyLength enc2) (ce_PrivateKeyLength enc2) (ce_SignatureLength enc2) (ce_IsPaused enc2) False))))"

definition schemeBroken :: "SigLibrary \<Rightarrow> Block \<Rightarrow> Block \<Rightarrow> bool" where
  "schemeBroken lib newBlock lastBlock =
    (let nh = GetHeader newBlock; lh = GetHeader lastBlock;
         broken1 = (bh_Encryption1 nh \<noteq> bh_Encryption1 lh \<and>
           (case (parse_config lib (bh_Encryption1 lh), parse_config lib (bh_Encryption1 nh)) of
              (Inr cur, Inr nxt) \<Rightarrow> pauses cur nxt | _ \<Rightarrow> True));
         broken2 = (bh_Encryption2 nh \<noteq> bh_Encryption2 lh \<and>
           (case (parse_config lib (bh_Encryption2 lh), parse_config lib (bh_Encryption2 nh)) of
              (Inr cur, Inr nxt) \<Rightarrow> ce_SigName nxt \<noteq> ce_SigName cur | _ \<Rightarrow> True))
     in broken1 \<or> broken2)"

definition applyRecoveryMaintenance :: "SigLibrary \<Rightarrow> Block \<Rightarrow> Block \<Rightarrow> AccountsType \<Rightarrow> AccountsType" where
  "applyRecoveryMaintenance lib newBlock lastBlock at =
    (let h = block_height newBlock; at = snd (PruneRecoveryBinds h at) in
     if schemeBroken lib newBlock lastBlock then snd (VoidPendingRecoveryCommits h at) else at)"

subsection \<open>Counting votes\<close>

definition vote_of :: "bool \<Rightarrow> Transaction \<Rightarrow> bytes" where
  "vote_of primary tx = (case proofVotes tx of Inl _ \<Rightarrow> [] | Inr (v1, v2) \<Rightarrow> if primary then v1 else v2)"

definition votes_for :: "bytes list \<Rightarrow> bool \<Rightarrow> bytes \<Rightarrow> verifiedDecoder \<Rightarrow> uint8 \<Rightarrow> bool" where
  "votes_for proofs primary want decode k \<longleftrightarrow> want \<noteq> [] \<and>
    (\<exists>pb \<in> set proofs. \<exists>tx sub. decode pb = Inr tx \<and> extractOracleSubmission tx = Inr (k, sub) \<and> vote_of primary tx = want)"

lemma votes_for_Cons: "votes_for proofs primary want decode k \<Longrightarrow> votes_for (pb # proofs) primary want decode k"
  by (auto simp: votes_for_def)

lemma tally_step:
  assumes "decode pb = Inr tx" "extractOracleSubmission tx = Inr (k, sub)"
  shows "tallyEncryptionVotes (pb # proofs) primary want decode stakeOf seen staked =
    (if k \<in> set seen then tallyEncryptionVotes proofs primary want decode stakeOf seen staked
     else tallyEncryptionVotes proofs primary want decode stakeOf (k # seen)
       (if vote_of primary tx \<noteq> [] \<and> vote_of primary tx = want then staked + stakeOf (int (unat k)) else staked))"
  using assms by (auto simp: vote_of_def Let_def split: sum.split)

lemma vote_of_votes:
  assumes "decode pb = Inr tx" "extractOracleSubmission tx = Inr (k, sub)" "vote_of primary tx \<noteq> []" "vote_of primary tx = want"
  shows "votes_for (pb # proofs) primary want decode k"
  using assms unfolding votes_for_def by auto

lemma tally_votes:
  "tallyEncryptionVotes proofs primary want decode stakeOf seen staked = Inr r \<Longrightarrow>
    \<exists>ks. distinct ks \<and> set ks \<inter> set seen = {} \<and> (\<forall>k \<in> set ks. votes_for proofs primary want decode k) \<and>
      r = staked + sum_list (map (\<lambda>k. stakeOf (int (unat k))) ks)"
proof (induction proofs arbitrary: seen staked)
  case Nil
  then show ?case
    by (intro exI [of _ "[]"]) simp
next
  case (Cons pb proofs)
  from Cons.prems obtain tx k sub where t: "decode pb = Inr tx" "extractOracleSubmission tx = Inr (k, sub)"
    by (auto simp: bindR_eq_Inr)
  note step = Cons.prems [unfolded tally_step [where decode = decode and pb = pb, OF t]]
  show ?case
  proof (cases "k \<in> set seen")
    case True
    obtain ks where "distinct ks" "set ks \<inter> set seen = {}" "\<forall>k \<in> set ks. votes_for proofs primary want decode k"
        "r = staked + sum_list (map (\<lambda>k. stakeOf (int (unat k))) ks)"
      using Cons.IH [OF step [unfolded if_P [OF True]]] by blast
    then show ?thesis
      using votes_for_Cons by (intro exI [of _ ks]) auto
  next
    case False
    define vote where "vote \<longleftrightarrow> vote_of primary tx \<noteq> [] \<and> vote_of primary tx = want"
    obtain ks where ks: "distinct ks" "set ks \<inter> set (k # seen) = {}" "\<forall>k \<in> set ks. votes_for proofs primary want decode k"
        "r = (if vote then staked + stakeOf (int (unat k)) else staked) + sum_list (map (\<lambda>k. stakeOf (int (unat k))) ks)"
      using Cons.IH [OF step [unfolded if_not_P [OF False], folded vote_def]] by blast
    show ?thesis
    proof (cases vote)
      case True
      have "votes_for (pb # proofs) primary want decode k"
        using vote_of_votes [where decode = decode and pb = pb, OF t] True unfolding vote_def by blast
      then show ?thesis
        using ks False True votes_for_Cons by (intro exI [of _ "k # ks"]) (auto simp: algebra_simps)
    next
      case no: False
      then show ?thesis
        using ks votes_for_Cons by (intro exI [of _ ks]) auto
    qed
  qed
qed

subsection \<open>Shares of the stake\<close>

text \<open>No shard has a negative total and together they stay within the supply; the ledger keeps this.\<close>

definition stakes_bounded :: "StakingState \<Rightarrow> bool" where
  "stakes_bounded s \<longleftrightarrow> (\<forall>j < NumShards. 0 \<le> sint (delegatedTotalsLocked s j)) \<and>
     (\<Sum>j < NumShards. sint (delegatedTotalsLocked s j)) \<le> sint MaxTotalSupply"

definition shard_stake :: "StakingState \<Rightarrow> nat \<Rightarrow> int" where
  "shard_stake s j = sint (delegatedTotalsLocked s j)"

definition eligible_stake :: "StakingState \<Rightarrow> int" where
  "eligible_stake s = (\<Sum>j \<in> {j. 0 < j \<and> j < NumShards \<and> IsEligibleDelegatedAccount s (int j)}. shard_stake s j)"

lemma stakeOfDelegated_total: "stakeOfDelegated s (int j) = delegatedTotalsLocked s j"
  by (simp add: stakeOfDelegated_def GetStakedInDelegatedAccount_def delegatedTotalsLocked_def split_def Let_def)

lemma shard_stake_sum:
  assumes "stakes_bounded s" "J \<subseteq> {..< NumShards}"
  shows "0 \<le> (\<Sum>j \<in> J. shard_stake s j)" "(\<Sum>j \<in> J. shard_stake s j) \<le> sint MaxTotalSupply"
proof -
  have nonneg: "0 \<le> shard_stake s j" if "j < NumShards" for j
    using assms(1) that by (simp add: stakes_bounded_def shard_stake_def)
  then show "0 \<le> (\<Sum>j \<in> J. shard_stake s j)"
    using assms(2) by (intro sum_nonneg) auto
  have "(\<Sum>j \<in> J. shard_stake s j) \<le> (\<Sum>j < NumShards. shard_stake s j)"
    using assms(2) nonneg by (intro sum_mono2) auto
  then show "(\<Sum>j \<in> J. shard_stake s j) \<le> sint MaxTotalSupply"
    using assms(1) by (simp add: stakes_bounded_def shard_stake_def)
qed

text \<open>A sum of the machine words of different shards does not wrap.\<close>

lemma sint_shard_sum:
  assumes "stakes_bounded s" "distinct js" "set js \<subseteq> {..< NumShards}"
  shows "sint (sum_list (map (delegatedTotalsLocked s) js)) = (\<Sum>j \<in> set js. shard_stake s j)"
  using assms(2,3)
proof (induction js)
  case (Cons j js)
  then have sub: "set js \<subseteq> {..< NumShards}" "set (j # js) \<subseteq> {..< NumShards}"
    by auto
  have IH: "sint (sum_list (map (delegatedTotalsLocked s) js)) = (\<Sum>j \<in> set js. shard_stake s j)"
    using Cons by auto
  have split: "(\<Sum>i \<in> set (j # js). shard_stake s i) = shard_stake s j + (\<Sum>i \<in> set js. shard_stake s i)"
    using Cons.prems by simp
  have "sint (delegatedTotalsLocked s j + sum_list (map (delegatedTotalsLocked s) js))
      = sint (delegatedTotalsLocked s j) + sint (sum_list (map (delegatedTotalsLocked s) js))"
    using shard_stake_sum [OF assms(1) sub(2)] unfolding split by (intro sint_add64) (simp_all add: IH shard_stake_def)
  then show ?case
    using split IH by (simp add: shard_stake_def)
qed simp

lemma eligible_total_list:
  "GetStakedInEligibleDelegatedAccounts s =
    sum_list (map (delegatedTotalsLocked s) (filter (\<lambda>j. snd (eligibleOperatorLocked s (delegatedTotalsLocked s) j)) [1..<NumShards]))"
proof -
  have "foldl (\<lambda>t j. if P j then t + f j else t) (x :: int64) js = x + sum_list (map f (filter P js))" for P and f :: "nat \<Rightarrow> int64" and js x
    by (induction js arbitrary: x) (simp_all add: add.assoc)
  then show ?thesis
    unfolding GetStakedInEligibleDelegatedAccounts_def by simp
qed

lemma sint_eligible_total:
  assumes "stakes_bounded s"
  shows "sint (GetStakedInEligibleDelegatedAccounts s) = eligible_stake s" "0 \<le> eligible_stake s" "eligible_stake s \<le> sint MaxTotalSupply"
proof -
  define js where "js = filter (\<lambda>j. snd (eligibleOperatorLocked s (delegatedTotalsLocked s) j)) [1..<NumShards]"
  have js: "set js = {j. 0 < j \<and> j < NumShards \<and> IsEligibleDelegatedAccount s (int j)}" "distinct js" "set js \<subseteq> {..< NumShards}"
    by (auto simp: js_def IsEligibleDelegatedAccount_def)
  show "sint (GetStakedInEligibleDelegatedAccounts s) = eligible_stake s"
    unfolding eligible_total_list js_def [symmetric] eligible_stake_def js(1) [symmetric] by (rule sint_shard_sum [OF assms js(2,3)])
  show "0 \<le> eligible_stake s" "eligible_stake s \<le> sint MaxTotalSupply"
    unfolding eligible_stake_def js(1) [symmetric] using shard_stake_sum [OF assms js(3)] by auto
qed

lemma threshold_meaning:
  assumes "0 \<le> sint staked" "sint staked \<le> sint MaxTotalSupply" "0 \<le> sint tot" "sint tot \<le> sint MaxTotalSupply"
  shows "voteThresholdMet cur nxt staked tot \<longleftrightarrow>
    0 < sint staked \<and> 0 < sint tot \<and> (if pauses cur nxt then sint tot \<le> 3 * sint staked else 2 * sint tot \<le> 3 * sint staked)"
proof -
  have "sint (staked * 3) = 3 * sint staked" "sint (tot * 2) = 2 * sint tot"
    using assms sint_mult64 [of staked 3] sint_mult64 [of tot 2] by simp_all
  then show ?thesis
    by (auto simp: voteThresholdMet_def)
qed

subsection \<open>Changes need votes\<close>

lemma change_shape:
  assumes "checkEncryptionChangeShape lib enc slot par primary = Inr changed" "slot \<noteq> header_slot par primary"
    "parse_config lib slot = Inr nxt" "parentSlotConfig lib enc par primary = Inr cur"
  shows "changed \<longleftrightarrow> ce_SigName nxt \<noteq> ce_SigName cur \<or> ce_IsPaused nxt \<noteq> ce_IsPaused cur"
    "changed \<Longrightarrow> ce_SigName nxt \<noteq> ce_SigName cur \<Longrightarrow> ce_IsPaused cur \<and> ce_IsPaused nxt"
    "changed \<Longrightarrow> \<exists>other. parentSlotConfig lib enc par (\<not> primary) = Inr other \<and> ce_SigName nxt \<noteq> ce_SigName other"
  using assms by (auto simp: checkEncryptionChangeShape_def bindR_eq_Inr split: if_splits)

lemma authorised_votes:
  assumes "encryptionChangeAuthorised lib enc proofs par want primary tot decode (stakeOfDelegated s) = None" "stakes_bounded s"
    "parse_config lib want = Inr nxt" "parentSlotConfig lib enc par primary = Inr cur" "tot = GetStakedInEligibleDelegatedAccounts s"
  shows "\<exists>V. (\<forall>k \<in> V. votes_for proofs primary want decode k) \<and>
    (if pauses cur nxt then eligible_stake s \<le> 3 * (\<Sum>k \<in> V. shard_stake s (unat k)) else 2 * eligible_stake s \<le> 3 * (\<Sum>k \<in> V. shard_stake s (unat k))) \<and>
    0 < eligible_stake s"
proof -
  from assms(1,3,4) obtain staked where t: "tallyEncryptionVotes proofs primary want decode (stakeOfDelegated s) [] 0 = Inr staked"
      "voteThresholdMet cur nxt staked tot"
    by (auto simp: encryptionChangeAuthorised_def split: sum.splits if_splits)
  from tally_votes [OF t(1)] obtain ks where ks: "distinct ks" "\<forall>k \<in> set ks. votes_for proofs primary want decode k"
      "staked = sum_list (map (\<lambda>k. stakeOfDelegated s (int (unat k))) ks)"
    by auto
  define js where "js = map unat ks"
  have "unat k < 2 ^ LENGTH(8)" for k :: uint8
    by (rule unsigned_less)
  moreover have inj: "inj_on (unat :: uint8 \<Rightarrow> nat) A" for A
    by (simp add: inj_on_def word_unat_eq_iff)
  ultimately have js: "distinct js" "set js \<subseteq> {..< NumShards}"
    using ks(1) by (auto simp: js_def distinct_map)
  have "staked = sum_list (map (delegatedTotalsLocked s) js)"
    unfolding ks(3) js_def stakeOfDelegated_total by (simp add: comp_def)
  then have st: "sint staked = (\<Sum>j \<in> set js. shard_stake s j)"
    using sint_shard_sum [OF assms(2) js] by simp
  have sum: "(\<Sum>j \<in> set js. shard_stake s j) = (\<Sum>k \<in> set ks. shard_stake s (unat k))"
    unfolding js_def set_map by (subst sum.reindex [OF inj]) simp
  have b: "0 \<le> sint staked" "sint staked \<le> sint MaxTotalSupply" "0 \<le> sint tot" "sint tot \<le> sint MaxTotalSupply"
    using shard_stake_sum [OF assms(2) js(2)] sint_eligible_total [OF assms(2)] unfolding st assms(5) by simp_all
  have "0 < sint tot \<and> (if pauses cur nxt then sint tot \<le> 3 * sint staked else 2 * sint tot \<le> 3 * sint staked)"
    using t(2) unfolding threshold_meaning [OF b] by blast
  then have "0 < eligible_stake s \<and> (if pauses cur nxt then eligible_stake s \<le> 3 * (\<Sum>k \<in> set ks. shard_stake s (unat k))
      else 2 * eligible_stake s \<le> 3 * (\<Sum>k \<in> set ks. shard_stake s (unat k)))"
    unfolding st sum assms(5) sint_eligible_total(1) [OF assms(2)] .
  then show ?thesis
    using ks(2) by blast
qed

lemma slot_votes:
  assumes "VerifyEncryptionVotes lib ch s newBlock lastBlock = None"
  shows "verify_slot_votes lib ch s newBlock lastBlock primary = None"
  using assms by (cases primary) (auto simp: VerifyEncryptionVotes_def split: option.splits)


lemma sample_stake_bounded: "stakes_bounded sample_stake" "eligible_stake sample_stake = 200000000000000"
proof -
  have "(\<Sum>j < NumShards. sint (delegatedTotalsLocked sample_stake j)) = (\<Sum>j < NumShards. if j = 3 then 200000000000000 else 0)"
    by (rule sum.cong) (simp_all add: sample_totals)
  then show "stakes_bounded sample_stake"
    by (simp add: stakes_bounded_def sample_totals)
  have "IsEligibleDelegatedAccount sample_stake (int j) \<longleftrightarrow> j = 3" for j
    using sample_eligible by (auto simp: IsEligibleDelegatedAccount_def eligibleOperatorLocked_def sample_totals split: if_splits)
  then have "{j. 0 < j \<and> j < NumShards \<and> IsEligibleDelegatedAccount sample_stake (int j)} = {3}"
    by auto
  then show "eligible_stake sample_stake = 200000000000000"
    by (simp add: eligible_stake_def shard_stake_def sample_totals)
qed

text \<open>The operator of all the stake votes to pause the primary scheme, and a block carries the vote.\<close>

definition sample_library :: SigLibrary where
  "sample_library name = (if name = ''Falcon-512'' then Some \<lparr>LengthPublicKey = 897, LengthSecretKey = 1281, MaxLengthSignature = 752,
     GenerateKeyPair = Some (replicate 897 1)\<rparr> else None)"

definition sample_pause :: bytes where
  "sample_pause = string_bytes ''Falcon-512'' @ replicate 10 0 @ GetByteInt32 897 @ GetByteInt32 1281 @ GetByteInt32 752 @ [1]"

lemma sample_pause_parsed:
  "parse_config sample_library sample_pause =
    Inr \<lparr>ce_PubKeyLength = 897, ce_PrivateKeyLength = 1281, ce_SignatureLength = 752, ce_SigName = ''Falcon-512'', ce_IsPaused = True\<rparr>"
  by (rule config_round_trip) (simp_all add: string_bytes_def int32_range_def VerifyEncConfig_def sample_library_def
      GenerateBytesFromParams_def sample_pause_def BoolToByte_def)

definition sample_vote :: Transaction where
  "sample_vote = sample_nonce\<lparr>tx_TxData := (tx_TxData sample_nonce)\<lparr>OptData := replicate 56 0 @ BytesToLenAndBytes sample_pause @ BytesToLenAndBytes []\<rparr>\<rparr>"

definition sample_pausing_block :: Block where
  "sample_pausing_block = sample_block\<lparr>bl_BaseBlock := (bl_BaseBlock sample_block)\<lparr>bb_OracleProofs := [Transaction_GetBytes sample_vote],
     bb_BaseHeader := (bb_BaseHeader (bl_BaseBlock sample_block))\<lparr>bh_Encryption1 := sample_pause\<rparr>\<rparr>\<rparr>"

lemma length_sample_pause: "length sample_pause = 33"
  by (simp add: sample_pause_def)

lemma sample_vote_wf: "wf_Transaction sample_enc H160 sample_vote"
  using sample_nonce_wf [of H160] length_sample_pause
  by (simp add: wf_Transaction_def sample_vote_def sample_nonce_def sample_tx_def wf_TxData_def sample_addr_def wf_Address_def
      zero_TxData_def zero_PubKey_def zero_Address_def TxData_body_def Address_GetBytesWithPrimary_def sample_delegate_def)

lemma sample_vote_read:
  "decodeProof sample_crypto (Transaction_GetBytes sample_vote) = Inr sample_vote"
  "\<exists>sub. extractOracleSubmission sample_vote = Inr (3, sub)" "proofVotes sample_vote = Inr (sample_pause, [])"
  "GetSenderAddress sample_vote = sample_addr 7"
proof -
  show "decodeProof sample_crypto (Transaction_GetBytes sample_vote) = Inr sample_vote"
    using Transaction_round_trip [OF sample_vote_wf, of "cr_H160 sample_crypto" "[]"] by (simp add: decodeProof_def sample_crypto_def)
  have opt: "OptData (tx_TxData sample_vote) = replicate 56 0 @ BytesToLenAndBytes sample_pause @ BytesToLenAndBytes []"
    by (simp add: sample_vote_def)
  have "IntDelegatedAccountFromAddress (Recipient (tx_TxData sample_vote)) = Inr 3" "Amount (tx_TxData sample_vote) = 0"
    using sample_nonce_id by (simp_all add: sample_vote_def sample_nonce_def)
  then show "\<exists>sub. extractOracleSubmission sample_vote = Inr (3, sub)"
    using int64At_total [of 40 "OptData (tx_TxData sample_vote)"] by (auto simp: extractOracleSubmission_def opt)
  show "proofVotes sample_vote = Inr (sample_pause, [])"
    using length_sample_pause BytesWithLen_round_trip [of "[]" "[]"] by (simp add: proofVotes_def opt BytesWithLen_round_trip)
  show "GetSenderAddress sample_vote = sample_addr 7"
    by (simp add: sample_vote_def sample_nonce_def sample_tx_def GetSenderAddress_def)
qed

definition sample_falcon :: "bool \<Rightarrow> ConfigEnc" where
  "sample_falcon paused = \<lparr>ce_PubKeyLength = 897, ce_PrivateKeyLength = 1281, ce_SignatureLength = 752, ce_SigName = ''Falcon-512'', ce_IsPaused = paused\<rparr>"

lemma sample_slots:
  "header_slot sample_pausing_block True = sample_pause" "header_slot sample_pausing_block False = []" "header_slot sample_block p = []"
  "bb_OracleProofs (bl_BaseBlock sample_pausing_block) = [Transaction_GetBytes sample_vote]" "sample_pause \<noteq> []"
  using length_sample_pause
  by (auto simp: header_slot_def sample_pausing_block_def sample_block_def zero_Block_def zero_BaseHeader_def GetHeader_def)

lemma sample_configs:
  "parse_config sample_library sample_pause = Inr (sample_falcon True)"
  "parentSlotConfig sample_library sample_enc sample_block True = Inr (sample_falcon False)"
  "\<exists>other. parentSlotConfig sample_library sample_enc sample_block False = Inr other \<and> ce_SigName other = ''MAYO-5''"
proof -
  show "parse_config sample_library sample_pause = Inr (sample_falcon True)"
    by (simp add: sample_pause_parsed sample_falcon_def)
  have enc: "FromBytesToEncryptionConfig sample_library sample_enc [] True = Inr (sample_falcon False)"
      "\<exists>c. FromBytesToEncryptionConfig sample_library sample_enc [] False = Inr c \<and> ce_SigName c = ''MAYO-5''"
    by (simp_all add: FromBytesToEncryptionConfig_def CreateEncryptionScheme_def sample_enc_def sample_falcon_def PubKeyLength_def PrivateKeyLength_def
        SignatureLength_def IsPaused_def Let_def)
  have hd: "bh_Encryption1 (GetHeader sample_block) = []" "bh_Encryption2 (GetHeader sample_block) = []"
    using sample_slots(3) [of True] sample_slots(3) [of False] by (simp_all add: header_slot_def)
  show "parentSlotConfig sample_library sample_enc sample_block True = Inr (sample_falcon False)"
    by (simp add: parentSlotConfig_def hd enc(1))
  show "\<exists>other. parentSlotConfig sample_library sample_enc sample_block False = Inr other \<and> ce_SigName other = ''MAYO-5''"
    using enc by (auto simp: parentSlotConfig_def hd GetSigNames_def)
qed

lemma sample_authorised:
  "encryptionChangeAuthorised sample_library sample_enc [Transaction_GetBytes sample_vote] sample_block sample_pause True
     (GetStakedInEligibleDelegatedAccounts sample_stake) (decodeProof sample_crypto) (stakeOfDelegated sample_stake) = None"
proof -
  obtain sub where "extractOracleSubmission sample_vote = Inr (3, sub)"
    using sample_vote_read(2) by blast
  then have tally: "tallyEncryptionVotes [Transaction_GetBytes sample_vote] True sample_pause (decodeProof sample_crypto) (stakeOfDelegated sample_stake) [] 0
      = Inr 200000000000000"
    using sample_slots(5) stakeOfDelegated_total [of sample_stake 3] by (simp add: sample_vote_read sample_totals)
  have "voteThresholdMet (sample_falcon False) (sample_falcon True) 200000000000000 (GetStakedInEligibleDelegatedAccounts sample_stake)"
    using sint_eligible_total [OF sample_stake_bounded(1)] by (subst threshold_meaning) (simp_all add: sample_stake_bounded(2))
  then show ?thesis
    unfolding encryptionChangeAuthorised_def sample_configs tally sum.case by simp
qed

lemma sample_pausing_verified:
  "VerifyEncryptionVotes sample_library (sample_chain sample_registry) sample_stake sample_pausing_block sample_block = None"
  "AuthorizeOracleProofSigners sample_crypto sample_stake [Transaction_GetBytes sample_vote] = None"
proof -
  have cr: "ch_Crypto (sample_chain sample_registry) = sample_crypto" "cr_enc sample_crypto = sample_enc"
    by (simp_all add: sample_chain_def sample_crypto_def)
  obtain other where "parentSlotConfig sample_library sample_enc sample_block False = Inr other" "ce_SigName other = ''MAYO-5''"
    using sample_configs(3) by blast
  then have "checkEncryptionChangeShape sample_library sample_enc sample_pause sample_block True = Inr True"
    by (simp add: checkEncryptionChangeShape_def sample_slots sample_configs) (simp add: sample_falcon_def VerifyEncConfig_def sample_library_def)
  moreover have "checkUnpauseKeyQuorum sample_library sample_enc sample_pause sample_block True tot f g = None" for tot f g
    by (simp add: checkUnpauseKeyQuorum_def sample_configs) (simp add: isUnpause_def sample_falcon_def)
  ultimately show "VerifyEncryptionVotes sample_library (sample_chain sample_registry) sample_stake sample_pausing_block sample_block = None"
    by (simp add: VerifyEncryptionVotes_def verify_slot_votes_def sample_slots cr sample_authorised checkEncryptionChangeShape_def)
  show "AuthorizeOracleProofSigners sample_crypto sample_stake [Transaction_GetBytes sample_vote] = None"
    using sample_vote_read sample_operator by (auto simp: AuthorizeOracleProofSigners_def signers_authorised)
qed


subsection \<open>The producer's own check\<close>

text \<open>What a producer may put into its header passes the validators' checks of that slot: the shape, the votes,
  the quorum of keys and the key of the producer.\<close>

lemma producer_check_suffices:
  assumes "EncryptionChangeRefusal lib ch s (bb_OracleProofs (bl_BaseBlock newBlock)) lastBlock (header_slot newBlock primary) primary op = None"
  shows "verify_slot_votes lib ch s newBlock lastBlock primary = None"
    "checkPauseLeavesRegisteredKey lib ch op lastBlock (header_slot newBlock primary) primary = None"
    "checkEncryptionChangeShape lib (cr_enc (ch_Crypto ch)) (header_slot newBlock primary) lastBlock primary = Inr True"
  using assms by (auto simp: EncryptionChangeRefusal_def verify_slot_votes_def Let_def split: sum.splits if_splits option.splits)

subsection \<open>Another encoding of the same configuration\<close>

text \<open>Every non-zero last byte of a slot says that the scheme is paused. Writing another one is no change to the
  vote check, and \<open>ProcessBlockEncryption\<close> compares the bytes: the producer of a single block empties the
  main pool of every node and drops the votes they collected.\<close>

lemma parse_config_flag:
  assumes "parse_config lib b = Inr c" "ce_IsPaused c" "x \<noteq> 0"
  shows "parse_config lib (b[32 := x]) = Inr c"
proof -
  have len: "length b = 33"
    using assms(1) by (auto simp: parse_config_def split: if_splits)
  have "b ! 32 \<noteq> 0"
    using assms(1,2) by (auto simp: parse_config_def bindR_eq_Inr Let_def CreateEncryptionScheme_def GenerateParamsEncryptionSchemesFromBytes_def split: if_splits)
  then have "GenerateParamsEncryptionSchemesFromBytes (b[32 := x]) = GenerateParamsEncryptionSchemesFromBytes b"
    using assms(3) len by (simp add: GenerateParamsEncryptionSchemesFromBytes_def drop_update_swap)
  then show ?thesis
    using assms(1) len by (simp add: parse_config_def)
qed

lemma ResetLastVoting_empty: "VotesEncryption1 (ResetLastVoting st) = []" "VotesEncryption2 (ResetLastVoting st) = []"
proof -
  have f: "VotesEncryption1 (foldl (\<lambda>st i. st\<lparr>VotesEncryption1 := mdel (word_of_nat i) (VotesEncryption1 st),
                        VotesEncryption2 := mdel (word_of_nat i) (VotesEncryption2 st)\<rparr>) st is) = filter (\<lambda>e. fst e \<notin> word_of_nat ` set is) (VotesEncryption1 st) \<and>
      VotesEncryption2 (foldl (\<lambda>st i. st\<lparr>VotesEncryption1 := mdel (word_of_nat i) (VotesEncryption1 st),
                        VotesEncryption2 := mdel (word_of_nat i) (VotesEncryption2 st)\<rparr>) st is) = filter (\<lambda>e. fst e \<notin> word_of_nat ` set is) (VotesEncryption2 st)" for "is"
    by (induction "is" arbitrary: st) (auto simp: AList.delete_eq split_def filter_filter conj_commute intro: filter_cong)
  have "k \<in> word_of_nat ` set [0..<256]" for k :: uint8
  proof -
    have "unat k < 2 ^ LENGTH(8)"
      by (rule unsigned_less)
    then show ?thesis
      by (intro image_eqI [of _ _ "unat k"]) simp_all
  qed
  then show "VotesEncryption1 (ResetLastVoting st) = []" "VotesEncryption2 (ResetLastVoting st) = []"
    using f [of "[0..<256]"] by (simp_all add: ResetLastVoting_def)
qed

lemma reencoded_slot_flushes_pool:
  assumes "parse_config lib (header_slot lastBlock primary) = Inr c" "ce_IsPaused c" "x \<noteq> 0" "header_slot newBlock primary = (header_slot lastBlock primary)[32 := x]"
    "header_slot newBlock primary \<noteq> header_slot lastBlock primary" "parentSlotConfig lib (cr_enc (ch_Crypto ch)) lastBlock primary = Inr cur"
    "ce_SigName cur = ce_SigName c" "ce_IsPaused cur" "\<not> sint (block_height lastBlock) < 3" "VerifyEncConfig lib c"
  shows "verify_slot_votes lib ch s newBlock lastBlock primary = None"
    "transactions (ss_Pool (snd (ProcessBlockEncryption lib wallet newBlock lastBlock st))) = []"
proof -
  have p: "parse_config lib (header_slot newBlock primary) = Inr c"
    using parse_config_flag [OF assms(1-3)] assms(4) by simp
  then show "verify_slot_votes lib ch s newBlock lastBlock primary = None"
    using assms by (simp add: verify_slot_votes_def checkEncryptionChangeShape_def)
  have ne: "header_slot newBlock True \<noteq> header_slot lastBlock True \<or> header_slot newBlock False \<noteq> header_slot lastBlock False"
    using assms(5) by (cases primary) auto
  have keeps: "ss_Pool (snd (adopt_slot lib wallet newBlock lastBlock q st)) = ss_Pool st" for q st
    by (simp add: adopt_slot_def Let_def split: sum.split)
  show "transactions (ss_Pool (snd (ProcessBlockEncryption lib wallet newBlock lastBlock st))) = []"
    using assms(9) ne keeps by (simp add: ProcessBlockEncryption_def Let_def split_def Clear_def)
qed

end
