(* ===== verification/Block_Rules.thy ===== *)
theory Block_Rules
  imports Governance
begin

text \<open>
  The checks of a received block that come before its transactions are applied (\<open>CheckBaseBlock\<close> and
  \<open>VerifyStakeDependent\<close> of \<open>blocks/processBlock.go\<close>, the difficulty of \<open>blocks/proofOfSynergy.go\<close>), and what a
  chain of blocks that passed them commits to.

  The wall clock is the argument \<open>currTime\<close>. \<open>validProof\<close> is an argument too: it compares floating-point
  logarithms of the header hash.
\<close>

subsection \<open>Time and difficulty\<close>

abbreviation (input) MaxBlockTimeInterval :: int64 where "MaxBlockTimeInterval \<equiv> 2000"
abbreviation (input) DifficultyChange :: int32 where "DifficultyChange \<equiv> 10"

definition validateBlockTimestamp :: "int64 \<Rightarrow> Block \<Rightarrow> Block \<Rightarrow> bool \<Rightarrow> err option" where
  "validateBlockTimestamp currTime newBlock lastBlock shouldCheck =
    (let blockTime = bb_BlockTimeStamp (bl_BaseBlock newBlock); lastTime = bb_BlockTimeStamp (bl_BaseBlock lastBlock) in
     if sint (block_height newBlock) < 2 then None
     else if sint blockTime \<le> sint lastTime then Some (Errorf ''timestamp must increase'')
     else if shouldCheck \<and> sint blockTime > sint (currTime + MaxBlockForwardInTime) then Some (Errorf ''timestamp too far in future'')
     else if sint blockTime > sint (lastTime + MaxBlockTimeInterval) \<and> sint blockTime > sint (currTime + MaxBlockForwardInTime)
     then Some (Errorf ''timestamp progression too large'')
     else None)"

text \<open>The interval is compared with the floating-point numbers 13.3 and 10 / 1.33; the conversion of the interval
  is monotone and exact near them, so the comparisons are those of integers.\<close>

definition AdjustDifficulty :: "int32 \<Rightarrow> int64 \<Rightarrow> int32" where
  "AdjustDifficulty lastDifficulty interval =
    (let d = (if 10 * sint interval > 133 then lastDifficulty - DifficultyChange
              else if 133 * sint interval < 1000 then lastDifficulty + DifficultyChange
              else lastDifficulty);
         d = (if sint d < 1 then 1 else d)
     in if sint d > 65280 then 65280 else d)"

definition ValidDifficulty :: "int32 \<Rightarrow> int32 \<Rightarrow> int64 \<Rightarrow> int64 \<Rightarrow> bool" where
  "ValidDifficulty newDifficulty lastDifficulty lastTimeStamp newTimeStamp \<longleftrightarrow>
     newDifficulty = AdjustDifficulty lastDifficulty (newTimeStamp - lastTimeStamp)"

subsection \<open>The checks\<close>

definition validateBlockTxHashes :: "bytes list \<Rightarrow> err option" where
  "validateBlockTxHashes txs =
    (if int (length txs) > sint MaxTransactionsPerBlock then Some (Errorf ''block has too many transactions'')
     else if \<not> distinct (map GetHashFromBytes txs) then Some (Errorf ''block includes a transaction more than once'')
     else None)"

definition VerifyStakeDependent :: "SigLibrary \<Rightarrow> Chain \<Rightarrow> StakingState \<Rightarrow> Block \<Rightarrow> Block \<Rightarrow> err option" where
  "VerifyStakeDependent lib ch s newBlock lastBlock =
    (let bb = bl_BaseBlock newBlock; h = GetHeader newBlock in
     if sint (block_height newBlock) > 0 \<and> \<not> IsTop128StakingNode s (mustDelegatedAccountID (bh_DelegatedAccount h)) (bh_OperatorAccount h)
     then Some (Errorf ''block producer is not an eligible top-128 staking node'')
     else
       case AuthorizeOracleProofSigners (ch_Crypto ch) s (bb_OracleProofs bb) of
         Some e \<Rightarrow> Some e
       | None \<Rightarrow>
           (case VerifyEncryptionVotes lib ch s newBlock lastBlock of
              Some e \<Rightarrow> Some e
            | None \<Rightarrow>
                (case VerifyPriceOracle s (GetStakedInEligibleDelegatedAccounts s) (bb_PriceOracle bb) (bb_PriceOracleData bb)
                    (bb_PriceOracle (bl_BaseBlock lastBlock)) of
                   Inl e \<Rightarrow> Some e
                 | Inr ok \<Rightarrow>
                     if \<not> ok then Some (Errorf ''price oracle check fails'')
                     else verifyRandaoReveal (cr_H256 (ch_Crypto ch)) s newBlock)))"

definition check_slot :: "SigLibrary \<Rightarrow> Chain \<Rightarrow> Block \<Rightarrow> Block \<Rightarrow> bool \<Rightarrow> err option" where
  "check_slot lib ch newBlock lastBlock primary =
    (case checkEncryptionChangeShape lib (cr_enc (ch_Crypto ch)) (header_slot newBlock primary) lastBlock primary of
       Inl e \<Rightarrow> Some e
     | Inr changed \<Rightarrow>
         if changed then checkPauseLeavesRegisteredKey lib ch (bh_OperatorAccount (GetHeader newBlock)) lastBlock (header_slot newBlock primary) primary
         else None)"

definition check_hashes :: "(bytes \<Rightarrow> bytes) \<Rightarrow> (bytes \<Rightarrow> int32 \<Rightarrow> bool) \<Rightarrow> Block \<Rightarrow> Block \<Rightarrow> err option" where
  "check_hashes H validProof newBlock lastBlock =
    (let bb = bl_BaseBlock newBlock; h = GetHeader newBlock in
     if sint (block_height newBlock) > 0 \<and> bl_BlockHash lastBlock \<noteq> bh_PreviousHash h
     then Some (Errorf ''last block hash not match to one stored in new block'')
     else if \<not> validProof (bb_BlockHeaderHash bb) (bh_Difficulty h) then Some (Errorf ''proof of synergy fails of block'')
     else if CalcBlockHash H newBlock \<noteq> bl_BlockHash newBlock then Some (Errorf ''wrong hash of block'')
     else if BaseHeader_CalcHash H h \<noteq> bb_BlockHeaderHash bb then Some (Errorf ''block header hash does not match the header'')
     else if CalcBodyHash H bb \<noteq> bh_BodyHash h then Some (Errorf ''block body does not match the signed body hash'')
     else None)"

text \<open>The checks of \<open>CheckBaseBlock\<close> in their order; the first one that fails decides.\<close>

definition base_checks :: "SigLibrary \<Rightarrow> Chain \<Rightarrow> (bytes \<Rightarrow> int32 \<Rightarrow> bool) \<Rightarrow> StakingState \<Rightarrow> DB \<Rightarrow> int64 \<Rightarrow> Block \<Rightarrow> Block \<Rightarrow> bool \<Rightarrow> MerkleTree \<Rightarrow> err option list" where
  "base_checks lib ch validProof s db currTime newBlock lastBlock forceShouldCheck merkleTrie =
    (let bb = bl_BaseBlock newBlock; h = GetHeader newBlock; H = cr_H256 (ch_Crypto ch) in
     [if sint (bb_Supply bb) > sint MaxTotalSupply then Some (Errorf ''supply is too high'') else None,
      if sint (bb_RewardPercentage bb) < 0 \<or> sint (bb_RewardPercentage bb) > 500 then Some (Errorf ''reward percentage outside 0..500'') else None,
      validateBlockTxHashes (bl_TransactionsHashes newBlock),
      check_hashes H validProof newBlock lastBlock,
      verifyRandaoStateless H newBlock lastBlock,
      if sint (block_height newBlock) > 0 \<and> GetRootHash merkleTrie \<noteq> bh_RootMerkleTree h then Some (Errorf ''root merkleTrie hash check fails'') else None,
      AuthenticateOracleProofs lib ch s db newBlock lastBlock,
      if length (bh_Encryption1 h) = 0 \<or> length (bh_Encryption2 h) = 0 then Some (Errorf ''encryption opt data should be always present in block'') else None,
      validateBlockTimestamp currTime newBlock lastBlock forceShouldCheck,
      if sint (block_height newBlock) > 0 \<and> \<not> ValidDifficulty (bh_Difficulty h) (bh_Difficulty (GetHeader lastBlock))
           (bb_BlockTimeStamp (bl_BaseBlock lastBlock)) (bb_BlockTimeStamp bb)
      then Some (Errorf ''declared difficulty does not match expected difficulty'') else None,
      check_slot lib ch newBlock lastBlock True,
      check_slot lib ch newBlock lastBlock False])"

definition CheckBaseBlock :: "SigLibrary \<Rightarrow> Chain \<Rightarrow> (bytes \<Rightarrow> int32 \<Rightarrow> bool) \<Rightarrow> StakingState \<Rightarrow> DB \<Rightarrow> int64 \<Rightarrow> Block \<Rightarrow> Block \<Rightarrow> bool \<Rightarrow> MerkleTree res" where
  "CheckBaseBlock lib ch validProof s db currTime newBlock lastBlock forceShouldCheck =
    (let merkleTrie = BuildMerkleTree (cr_H256 (ch_Crypto ch)) (bl_TransactionsHashes newBlock) in
     case first_error id (base_checks lib ch validProof s db currTime newBlock lastBlock forceShouldCheck merkleTrie) of
       Some e \<Rightarrow> Inl e
     | None \<Rightarrow> Inr merkleTrie)"

subsection \<open>What an accepted block satisfies\<close>

lemma first_error_None: "first_error f xs = None \<longleftrightarrow> (\<forall>x \<in> set xs. f x = None)"
  by (induction xs) (auto split: option.split)

lemma CheckBaseBlock_accepts:
  assumes "CheckBaseBlock lib ch validProof s db currTime b par force = Inr tree"
  shows "sint (bb_Supply (bl_BaseBlock b)) \<le> sint MaxTotalSupply"
    "0 \<le> sint (bb_RewardPercentage (bl_BaseBlock b)) \<and> sint (bb_RewardPercentage (bl_BaseBlock b)) \<le> 500"
    "validateBlockTxHashes (bl_TransactionsHashes b) = None" "check_hashes (cr_H256 (ch_Crypto ch)) validProof b par = None"
    "verifyRandaoStateless (cr_H256 (ch_Crypto ch)) b par = None"
    "0 < sint (block_height b) \<longrightarrow> GetRootHash tree = bh_RootMerkleTree (GetHeader b)"
    "AuthenticateOracleProofs lib ch s db b par = None" "validateBlockTimestamp currTime b par force = None"
    "0 < sint (block_height b) \<longrightarrow> ValidDifficulty (bh_Difficulty (GetHeader b)) (bh_Difficulty (GetHeader par))
       (bb_BlockTimeStamp (bl_BaseBlock par)) (bb_BlockTimeStamp (bl_BaseBlock b))"
    "check_slot lib ch b par primary = None" "tree = BuildMerkleTree (cr_H256 (ch_Crypto ch)) (bl_TransactionsHashes b)"
proof -
  have all: "\<forall>e \<in> set (base_checks lib ch validProof s db currTime b par force tree). e = None"
      and tree: "tree = BuildMerkleTree (cr_H256 (ch_Crypto ch)) (bl_TransactionsHashes b)"
    using assms by (auto simp: CheckBaseBlock_def Let_def first_error_None split: option.splits)
  show "tree = BuildMerkleTree (cr_H256 (ch_Crypto ch)) (bl_TransactionsHashes b)"
    by (rule tree)
  note all' = all [unfolded base_checks_def Let_def list.set ball_simps]
  show "sint (bb_Supply (bl_BaseBlock b)) \<le> sint MaxTotalSupply"
    "0 \<le> sint (bb_RewardPercentage (bl_BaseBlock b)) \<and> sint (bb_RewardPercentage (bl_BaseBlock b)) \<le> 500"
    "validateBlockTxHashes (bl_TransactionsHashes b) = None" "check_hashes (cr_H256 (ch_Crypto ch)) validProof b par = None"
    "verifyRandaoStateless (cr_H256 (ch_Crypto ch)) b par = None"
    "0 < sint (block_height b) \<longrightarrow> GetRootHash tree = bh_RootMerkleTree (GetHeader b)"
    "AuthenticateOracleProofs lib ch s db b par = None" "validateBlockTimestamp currTime b par force = None"
    "0 < sint (block_height b) \<longrightarrow> ValidDifficulty (bh_Difficulty (GetHeader b)) (bh_Difficulty (GetHeader par))
       (bb_BlockTimeStamp (bl_BaseBlock par)) (bb_BlockTimeStamp (bl_BaseBlock b))"
    using all' by (simp_all split: if_splits)
  show "check_slot lib ch b par primary = None"
    using all' by (cases primary) simp_all
qed

lemma check_hashes_accepts:
  assumes "check_hashes H validProof b par = None"
  shows "0 < sint (block_height b) \<Longrightarrow> bh_PreviousHash (GetHeader b) = bl_BlockHash par"
    "validProof (bb_BlockHeaderHash (bl_BaseBlock b)) (bh_Difficulty (GetHeader b))" "bl_BlockHash b = CalcBlockHash H b"
    "bb_BlockHeaderHash (bl_BaseBlock b) = BaseHeader_CalcHash H (GetHeader b)" "bh_BodyHash (GetHeader b) = CalcBodyHash H (bl_BaseBlock b)"
  using assms by (auto simp: check_hashes_def Let_def split: if_splits)

lemma AdjustDifficulty_bounds:
  assumes "1 \<le> sint d" "sint d \<le> 65280"
  shows "1 \<le> sint (AdjustDifficulty d i)" "sint (AdjustDifficulty d i) \<le> 65280" "\<bar>sint (AdjustDifficulty d i) - sint d\<bar> \<le> 10"
proof -
  have "sint (d + 10) = sint d + 10" "sint (d - 10) = sint d - 10"
    using assms by (simp_all add: sint_word_ariths signed_take_bit_int_eq_self)
  then show "1 \<le> sint (AdjustDifficulty d i)" "sint (AdjustDifficulty d i) \<le> 65280" "\<bar>sint (AdjustDifficulty d i) - sint d\<bar> \<le> 10"
    using assms by (auto simp: AdjustDifficulty_def Let_def)
qed

text \<open>The fee a block carries is an input of the supply check of the next block and of no hash: changing it
  does not change the verdict.\<close>

lemma fee_not_committed:
  "CheckBaseBlock lib ch validProof s db currTime (b\<lparr>bl_BlockFee := fee\<rparr>) par force = CheckBaseBlock lib ch validProof s db currTime b par force"
proof -
  have f: "GetHeader (b\<lparr>bl_BlockFee := fee\<rparr>) = GetHeader b" "block_height (b\<lparr>bl_BlockFee := fee\<rparr>) = block_height b"
    by (simp_all add: GetHeader_def block_height_def)
  have n: "GetSigNames lib enc (b\<lparr>bl_BlockFee := fee\<rparr>) = GetSigNames lib enc b" for enc
    by (simp add: GetSigNames_def f)
  have g: "sigNamesAtProofHeight lib enc db h (b\<lparr>bl_BlockFee := fee\<rparr>) par = sigNamesAtProofHeight lib enc db h b par" for enc h
    by (simp add: sigNamesAtProofHeight_def f n)
  have d: "proof_decoder lib ch db (b\<lparr>bl_BlockFee := fee\<rparr>) par = proof_decoder lib ch db b par"
    by (rule ext) (simp only: proof_decoder_def g)
  have parts: "check_hashes H validProof (b\<lparr>bl_BlockFee := fee\<rparr>) par = check_hashes H validProof b par"
    "verifyRandaoStateless H (b\<lparr>bl_BlockFee := fee\<rparr>) par = verifyRandaoStateless H b par"
    "AuthenticateOracleProofs lib ch s db (b\<lparr>bl_BlockFee := fee\<rparr>) par = AuthenticateOracleProofs lib ch s db b par"
    "validateBlockTimestamp currTime (b\<lparr>bl_BlockFee := fee\<rparr>) par force = validateBlockTimestamp currTime b par force"
    for H
    by (simp_all add: check_hashes_def CalcBlockHash_def GetBytesForHash_def verifyRandaoStateless_def AuthenticateOracleProofs_def d
        validateBlockTimestamp_def f Let_def)
  have slot: "check_slot lib ch (b\<lparr>bl_BlockFee := fee\<rparr>) par p = check_slot lib ch b par p" for p
    unfolding check_slot_def header_slot_def f ..
  show ?thesis
    unfolding CheckBaseBlock_def base_checks_def parts slot f by simp
qed

subsection \<open>Chains\<close>

text \<open>A chain, newest block first: it starts with a genesis block checked against itself (\<open>InitGenesis\<close>), and the
  services accept a block on top of their tip when its height is the next one and \<open>CheckBaseBlock\<close> passes.
  The state each check saw may be any. \<open>wf_Block\<close> says that the fields have the lengths of their Go types.\<close>

inductive valid_chain :: "(bytes \<Rightarrow> bytes) \<Rightarrow> Block \<Rightarrow> Block list \<Rightarrow> bool" for H g where
  start: "CheckBaseBlock lib ch validProof s db currTime g g force = Inr tree \<Longrightarrow> cr_H256 (ch_Crypto ch) = H \<Longrightarrow> wf_Block g \<Longrightarrow>
    block_height g = 0 \<Longrightarrow> valid_chain H g [g]"
| extend: "valid_chain H g (par # c) \<Longrightarrow> CheckBaseBlock lib ch validProof s db currTime b par force = Inr tree \<Longrightarrow>
    cr_H256 (ch_Crypto ch) = H \<Longrightarrow> wf_Block b \<Longrightarrow> block_height b = block_height par + 1 \<Longrightarrow> valid_chain H g (b # par # c)"

inductive_cases valid_chain_ConsE: "valid_chain H g (b # par # c)"

lemma chain_height: "valid_chain H g c \<Longrightarrow> c \<noteq> [] \<and> block_height (hd c) = of_nat (length c - 1)"
  by (induction rule: valid_chain.induct) (simp_all add: algebra_simps)

lemma chain_positive:
  assumes "valid_chain H g (b # par # c)" "length (b # par # c) \<le> 2 ^ 62"
  shows "0 < sint (block_height b)"
proof -
  have "block_height b = of_nat (length (par # c))"
    using chain_height [OF assms(1)] by simp
  then show ?thesis
    using assms(2) sint_of_nat_id64 [of "length (par # c)"] by simp
qed

lemma chain_hash: "valid_chain H g c \<Longrightarrow> b \<in> set c \<Longrightarrow> wf_Block b \<and> bl_BlockHash b = CalcBlockHash H b"
proof (induction rule: valid_chain.induct)
  case (start lib ch validProof s db currTime force tree)
  then show ?case
    using check_hashes_accepts(3) [OF CheckBaseBlock_accepts(4) [OF start(1)]] by simp
next
  case (extend par c lib ch validProof s db currTime b' force tree)
  then show ?case
    using check_hashes_accepts(3) [OF CheckBaseBlock_accepts(4) [OF extend(2)]] by auto
qed

lemma chain_link:
  assumes "valid_chain H g (b # par # c)" "length (b # par # c) \<le> 2 ^ 62"
  shows "bh_PreviousHash (GetHeader b) = bl_BlockHash par" "GetRootHash (BuildMerkleTree H (bl_TransactionsHashes b)) = bh_RootMerkleTree (GetHeader b)"
    "valid_chain H g (par # c)"
  using assms(1) chain_positive [OF assms]
  by (auto elim!: valid_chain_ConsE dest: check_hashes_accepts(1) [OF CheckBaseBlock_accepts(4)] CheckBaseBlock_accepts(6,11))

subsection \<open>What the tip commits to\<close>

definition hashed_inputs :: "(bytes \<Rightarrow> bytes) \<Rightarrow> Block \<Rightarrow> bytes set" where
  "hashed_inputs H b = insert (GetBytesForHash b) (if bl_TransactionsHashes b = [] then {} else set (hash_inputs H (spec_tree (bl_TransactionsHashes b))))"

definition without_fee :: "Block \<Rightarrow> Block" where
  "without_fee b = b\<lparr>bl_BlockFee := 0\<rparr>"

lemma full_hash: "length h = HashLength \<Longrightarrow> GetHashFromBytes h = h"
  by (simp add: GetHashFromBytes_def Hash_Set_def EmptyHash_def)

lemma same_hash_same_base:
  assumes "\<And>x. length (H x) = HashLength" "inj_on H (hashed_inputs H b \<union> hashed_inputs H b')" "wf_Block b" "wf_Block b'"
    "CalcBlockHash H b = CalcBlockHash H b'"
  shows "bl_BaseBlock b = bl_BaseBlock b'"
proof -
  have "H (GetBytesForHash b) = H (GetBytesForHash b')"
    using assms(5) by (simp add: CalcBlockHash_def full_hash assms(1))
  then have "GetBytesForHash b = GetBytesForHash b'"
    by (rule inj_onD [OF assms(2)]) (simp_all add: hashed_inputs_def)
  then show ?thesis
    using assms(3,4) by (auto simp: GetBytesForHash_def wf_Block_def intro: BaseBlock_GetBytes_inject)
qed

lemma root_of_list:
  assumes "xs \<noteq> []"
  shows "\<exists>a \<in> set (hash_inputs H (spec_tree xs)). GetRootHash (BuildMerkleTree H xs) = H a"
proof -
  have "\<exists>a \<in> set (hash_inputs H t). Data (node_of H t) = H a" for t
    by (cases t) (simp_all add: NewMerkleLeaf_def NewMerkleNode_def)
  then show ?thesis
    using NewMerkleTree_spec [OF assms, of H] by (simp add: GetRootHash_def BuildMerkleTree_def)
qed

lemma same_root_same_list:
  assumes "\<And>x. length (H x) = HashLength" "inj_on H (hashed_inputs H b \<union> hashed_inputs H b')"
    "\<forall>x \<in> hashed_inputs H b \<union> hashed_inputs H b'. H x \<noteq> EmptyHash"
    "GetRootHash (BuildMerkleTree H (bl_TransactionsHashes b)) = GetRootHash (BuildMerkleTree H (bl_TransactionsHashes b'))"
  shows "bl_TransactionsHashes b = bl_TransactionsHashes b'"
proof -
  let ?xs = "bl_TransactionsHashes b" and ?ys = "bl_TransactionsHashes b'"
  have e: "GetRootHash (BuildMerkleTree H []) = EmptyHash"
    by (simp add: GetRootHash_def BuildMerkleTree_def NewMerkleTree_def merkle_levels.simps)
  consider "?xs = []" "?ys = []" | "?xs = []" "?ys \<noteq> []" | "?xs \<noteq> []" "?ys = []" | "?xs \<noteq> []" "?ys \<noteq> []"
    by blast
  then show ?thesis
  proof cases
    case 2
    then show ?thesis
      using root_of_list [of ?ys H] assms(3,4) e by (auto simp: hashed_inputs_def)
  next
    case 3
    then show ?thesis
      using root_of_list [of ?xs H] assms(3,4) e by (auto simp: hashed_inputs_def)
  next
    case 4
    show ?thesis
    proof (rule ccontr)
      assume "?xs \<noteq> ?ys"
      from merkle_root_commits [OF assms(1) 4 this assms(4)] show False
        using assms(2) 4 by (auto simp: hashed_inputs_def dest: inj_onD)
    qed
  qed simp
qed

lemma tip_fixes_history_aux:
  assumes "\<And>x. length (H x) = HashLength"
  shows "valid_chain H g c \<Longrightarrow> valid_chain H g c' \<Longrightarrow> length c \<le> 2 ^ 62 \<Longrightarrow> length c' \<le> 2 ^ 62 \<Longrightarrow>
    bl_BlockHash (hd c) = bl_BlockHash (hd c') \<Longrightarrow> inj_on H (\<Union> (hashed_inputs H ` (set c \<union> set c'))) \<Longrightarrow>
    \<forall>x \<in> \<Union> (hashed_inputs H ` (set c \<union> set c')). H x \<noteq> EmptyHash \<Longrightarrow> map without_fee c = map without_fee c'"
proof (induction c arbitrary: c')
  case Nil
  then show ?case using chain_height by blast
next
  case (Cons b c)
  obtain b' d where c': "c' = b' # d"
    using chain_height [OF Cons.prems(2)] by (cases c') auto
  have inj: "inj_on H (hashed_inputs H b \<union> hashed_inputs H b')"
    using Cons.prems(6) by (rule inj_on_subset) (auto simp: c')
  have wf: "wf_Block b" "wf_Block b'" "CalcBlockHash H b = CalcBlockHash H b'"
    using chain_hash [OF Cons.prems(1), of b] chain_hash [OF Cons.prems(2), of b'] Cons.prems(5) by (simp_all add: c')
  have base: "bl_BaseBlock b = bl_BaseBlock b'"
    by (rule same_hash_same_base [OF assms inj wf])
  then have hdr: "GetHeader b = GetHeader b'" and ht: "block_height b = block_height b'"
    by (simp_all add: GetHeader_def block_height_def)
  have h0: "block_height x = 0" if "valid_chain H g [x]" for x
    using chain_height [OF that] by simp
  consider "c = []" "d = []" | "c = []" "d \<noteq> []" | "c \<noteq> []" "d = []" | par e par' e' where "c = par # e" "d = par' # e'"
    by (cases c; cases d) auto
  then show ?case
  proof cases
    case 1
    then have "b = g" "b' = g"
      using Cons.prems(1,2) by (auto simp: c' elim: valid_chain.cases)
    then show ?thesis by (simp add: 1 c')
  next
    case 2
    then obtain par' e' where "d = par' # e'" by (cases d) auto
    then show ?thesis
      using chain_positive [of H g b' par' e'] Cons.prems(1,2,4) h0 [of b] ht by (simp add: c' 2)
  next
    case 3
    then obtain par e where "c = par # e" by (cases c) auto
    then show ?thesis
      using chain_positive [of H g b par e] Cons.prems(1-3) h0 [of b'] ht by (simp add: c' 3)
  next
    case (4 par e par' e')
    note l = chain_link [OF Cons.prems(1) [unfolded 4] Cons.prems(3) [unfolded 4]]
    note l' = chain_link [OF Cons.prems(2) [unfolded c' 4] Cons.prems(4) [unfolded c' 4]]
    have zero: "\<forall>x \<in> hashed_inputs H b \<union> hashed_inputs H b'. H x \<noteq> EmptyHash"
      using Cons.prems(7) by (auto simp: c')
    have txs: "bl_TransactionsHashes b = bl_TransactionsHashes b'"
      by (rule same_root_same_list [OF assms inj zero]) (simp add: l(2) l'(2) hdr)
    have "bl_BlockHash (hd c) = bl_BlockHash (hd d)"
      using l(1) l'(1) by (simp add: 4 hdr)
    moreover have "inj_on H (\<Union> (hashed_inputs H ` (set c \<union> set d)))"
      by (rule inj_on_subset [OF Cons.prems(6)]) (auto simp: c')
    ultimately have "map without_fee c = map without_fee d"
      using Cons.prems(3,4,7) l(3) l'(3) by (intro Cons.IH) (auto simp: c' 4)
    moreover have "without_fee b = without_fee b'"
      using base txs Cons.prems(5) by (simp add: c' without_fee_def)
    ultimately show ?thesis
      by (simp add: c')
  qed
qed

text \<open>C4: The hash of the tip fixes the history. Two chains over the same genesis block whose tips have the same
  hash agree in every block, transaction lists included and in everything but the fee field, provided
  the hash function, whose values have 32 bytes and are never zero on these inputs, has no collision
  among the inputs hashed for the two chains.\<close>

theorem tip_fixes_history:
  fixes c c' :: "Block list"
  assumes "\<And>x. length (H x) = HashLength" "valid_chain H g c" "valid_chain H g c'" "length c \<le> 2 ^ 62" "length c' \<le> 2 ^ 62"
    "bl_BlockHash (hd c) = bl_BlockHash (hd c')" "inj_on H (\<Union> (hashed_inputs H ` (set c \<union> set c')))"
    "\<forall>x \<in> \<Union> (hashed_inputs H ` (set c \<union> set c')). H x \<noteq> EmptyHash"
  shows "map (\<lambda>b. b\<lparr>bl_BlockFee := 0\<rparr>) c = map (\<lambda>b. b\<lparr>bl_BlockFee := 0\<rparr>) c'"
  using tip_fixes_history_aux [OF assms] by (simp add: without_fee_def [abs_def])

text \<open>A genesis block and a successor, under a hash function that tells them apart.\<close>

definition sample_H :: "bytes \<Rightarrow> bytes" where
  "sample_H x = replicate 32 (if length x < 600 then 1 else 2)"

definition sample_live :: bytes where
  "sample_live = string_bytes ''Falcon-512'' @ replicate 10 0 @ GetByteInt32 897 @ GetByteInt32 1281 @ GetByteInt32 752 @ [0]"

lemma length_sample_live [simp]: "length sample_live = 33" "sample_live \<noteq> []"
  by (simp_all add: sample_live_def string_bytes_def)

definition sample_genesis :: Block where
  "sample_genesis = zero_Block\<lparr>bl_BaseBlock := (bl_BaseBlock zero_Block)\<lparr>bb_BaseHeader := zero_BaseHeader\<lparr>bh_DelegatedAccount := sample_addr 3,
       bh_OperatorAccount := sample_addr 7, bh_Difficulty := 10, bh_BodyHash := replicate 32 1, bh_Encryption1 := sample_live, bh_Encryption2 := sample_live,
       bh_Signature := \<lparr>sig_ByteValue = [0, 1, 2], sig_Address = sample_addr 7, sig_Primary = True\<rparr>\<rparr>,
     bb_BlockHeaderHash := replicate 32 1\<rparr>, bl_BlockHash := replicate 32 1\<rparr>"

definition sample_header :: BaseHeader where
  "sample_header = (GetHeader sample_genesis)\<lparr>bh_Height := 1, bh_PreviousHash := replicate 32 1\<rparr>"

definition sample_successor :: "int64 \<Rightarrow> Block" where
  "sample_successor fee = sample_genesis\<lparr>bl_BaseBlock := (bl_BaseBlock sample_genesis)\<lparr>
       bb_BaseHeader := sample_header\<lparr>bh_SignatureMessage := BaseHeader_GetBytesWithoutSignature sample_header\<rparr>,
     bb_BlockTimeStamp := 10, bb_RandReveal := replicate 32 6, bb_RandCommit := replicate 32 1,
     bb_RandMix := replicate 32 1, bb_RandOracle := randFromMix sample_H (replicate 32 1)\<rparr>, bl_BlockHash := replicate 32 2, bl_BlockFee := fee\<rparr>"

lemmas sample_genesis_defs = sample_header_def sample_genesis_def zero_Block_def zero_BaseHeader_def GetHeader_def block_height_def sample_addr_def

lemma sample_blocks_wf: "wf_Block sample_genesis" "wf_Block (sample_successor fee)"
  by (simp_all add: sample_successor_def sample_genesis_defs wf_Block_def wf_BaseBlock_def wf_BaseHeader_def wf_body_def
      EmptyHash_def wf_Address_def Signature_Init_def BaseHeader_GetBytesWithoutSignature_def header_fields_def Address_GetBytesWithPrimary_def)

lemma sample_message: "length (BaseHeader_GetBytesWithoutSignature sample_header) = 255"
  by (simp add: BaseHeader_GetBytesWithoutSignature_def header_fields_def sample_genesis_defs EmptyHash_def Address_GetBytesWithPrimary_def)

lemma sample_lengths:
  "length (GetBytesForHash sample_genesis) = 412" "length (GetBytesForHash (sample_successor fee)) = 699"
  "length (BaseHeader_GetBytes (GetHeader sample_genesis)) = 266" "length (BaseHeader_GetBytes (GetHeader (sample_successor fee))) = 521"
  "length (bodyBytes (bl_BaseBlock sample_genesis)) = 114" "length (bodyBytes (bl_BaseBlock (sample_successor fee))) = 146"
  unfolding sample_successor_def
  by (simp_all add: GetBytesForHash_def BaseBlock_GetBytes_def BaseHeader_GetBytes_def header_fields_def bodyBytes_def randaoBytes_def bytesSliceToBytes_def
      GetHeader_def sample_message)
    (simp_all add: sample_genesis_defs EmptyHash_def Address_GetBytesWithPrimary_def)

definition sample_node :: Chain where
  "sample_node = (sample_chain sample_registry)\<lparr>ch_Crypto := sample_crypto\<lparr>cr_H256 := sample_H\<rparr>\<rparr>"

lemma sample_checked:
  "CheckBaseBlock sample_library sample_node (\<lambda>_ _. True) sample_stake [] 100 sample_genesis sample_genesis True = Inr \<lparr>Root = [], TxHashes = []\<rparr>"
  "CheckBaseBlock sample_library sample_node (\<lambda>_ _. True) sample_stake [] 100 (sample_successor fee) sample_genesis True = Inr \<lparr>Root = [], TxHashes = []\<rparr>"
proof -
  have H: "cr_H256 (ch_Crypto sample_node) = sample_H"
    by (simp add: sample_node_def)
  have full: "GetHashFromBytes (sample_H x) = sample_H x" for x
    by (rule full_hash) (simp add: sample_H_def)
  have hashes: "CalcBlockHash sample_H sample_genesis = replicate 32 1" "CalcBlockHash sample_H (sample_successor fee) = replicate 32 2"
    "BaseHeader_CalcHash sample_H (GetHeader sample_genesis) = replicate 32 1" "BaseHeader_CalcHash sample_H (GetHeader (sample_successor fee)) = replicate 32 1"
    "CalcBodyHash sample_H (bl_BaseBlock sample_genesis) = replicate 32 1" "CalcBodyHash sample_H (bl_BaseBlock (sample_successor fee)) = replicate 32 1"
    unfolding CalcBlockHash_def BaseHeader_CalcHash_def CalcBodyHash_def full by (simp_all add: sample_H_def sample_lengths)
  have mix: "mixHash sample_H (parentMix sample_genesis) 1 (replicate 32 6) = replicate 32 1"
    unfolding mixHash_def domainHash_def full by (simp add: sample_H_def parentMix_def sample_genesis_defs string_bytes_def)
  have tree: "BuildMerkleTree sample_H [] = \<lparr>Root = [], TxHashes = []\<rparr>"
    by (simp add: BuildMerkleTree_def NewMerkleTree_def merkle_levels.simps)
  have prices: "AuthenticateOracleProofs sample_library sample_node sample_stake [] b par = None"
    if "bb_OracleProofs (bl_BaseBlock b) = []" "bb_PriceOracleData (bl_BaseBlock b) = []" for b par
    by (simp add: that AuthenticateOracleProofs_def authenticateOracleProofs_def matchOracleData_def ParsePriceData_def encodeOracleData_def)
  have slots: "check_slot sample_library sample_node b sample_genesis p = None" if "b = sample_genesis \<or> b = sample_successor fee" for b p
    using that by (auto simp: check_slot_def checkEncryptionChangeShape_def header_slot_def sample_successor_def sample_genesis_defs)
  have valid: "validateBlockTxHashes [] = None" "validateBlockTimestamp 100 sample_genesis sample_genesis True = None"
    "validateBlockTimestamp 100 (sample_successor fee) sample_genesis True = None" "verifyRandaoStateless sample_H sample_genesis sample_genesis = None"
    by (simp_all add: validateBlockTxHashes_def validateBlockTimestamp_def verifyRandaoStateless_def sample_successor_def sample_genesis_defs)
  have randao: "verifyRandaoStateless sample_H (sample_successor fee) sample_genesis = None"
    using mix by (simp add: verifyRandaoStateless_def sample_successor_def sample_genesis_defs EmptyHash_def)
  have ch: "check_hashes sample_H (\<lambda>_ _. True) sample_genesis sample_genesis = None" "check_hashes sample_H (\<lambda>_ _. True) (sample_successor fee) sample_genesis = None"
    unfolding check_hashes_def Let_def hashes by (simp_all add: sample_successor_def sample_genesis_defs)
  have p: "AuthenticateOracleProofs sample_library sample_node sample_stake [] sample_genesis sample_genesis = None"
    "AuthenticateOracleProofs sample_library sample_node sample_stake [] (sample_successor fee) sample_genesis = None"
    by (rule prices; simp add: sample_successor_def sample_genesis_defs)+
  have diff: "ValidDifficulty 10 10 0 10"
    by (simp add: ValidDifficulty_def AdjustDifficulty_def)
  show "CheckBaseBlock sample_library sample_node (\<lambda>_ _. True) sample_stake [] 100 sample_genesis sample_genesis True = Inr \<lparr>Root = [], TxHashes = []\<rparr>"
    unfolding CheckBaseBlock_def base_checks_def H
    by (simp add: ch valid tree p slots) (simp add: sample_genesis_defs tree valid GetRootHash_def)
  show "CheckBaseBlock sample_library sample_node (\<lambda>_ _. True) sample_stake [] 100 (sample_successor fee) sample_genesis True = Inr \<lparr>Root = [], TxHashes = []\<rparr>"
    unfolding CheckBaseBlock_def base_checks_def H
    by (simp add: ch valid randao tree p slots) (simp add: sample_successor_def sample_genesis_defs tree valid diff GetRootHash_def)
qed

theorem tip_fixes_history_witness:
  "valid_chain sample_H sample_genesis [sample_successor 5, sample_genesis] \<and>
   map (\<lambda>b. b\<lparr>bl_BlockFee := 0\<rparr>) [sample_successor 5, sample_genesis] = map (\<lambda>b. b\<lparr>bl_BlockFee := 0\<rparr>) [sample_successor 7, sample_genesis]"
proof -
  have H: "cr_H256 (ch_Crypto sample_node) = sample_H" and h: "block_height sample_genesis = 0" "block_height (sample_successor fee) = 1" for fee
    by (simp_all add: sample_node_def sample_successor_def sample_genesis_defs)
  have c: "valid_chain sample_H sample_genesis [sample_successor fee, sample_genesis]" for fee
    using extend [OF start [OF sample_checked(1) H sample_blocks_wf(1) h(1)] sample_checked(2) H sample_blocks_wf(2)] h by simp
  have inputs: "hashed_inputs sample_H sample_genesis = {GetBytesForHash sample_genesis}"
    "hashed_inputs sample_H (sample_successor fee) = {GetBytesForHash (sample_successor 0)}" for fee
    by (simp_all add: hashed_inputs_def GetBytesForHash_def sample_successor_def sample_genesis_defs)
  have vals: "sample_H (GetBytesForHash sample_genesis) = replicate 32 1" "sample_H (GetBytesForHash (sample_successor fee)) = replicate 32 2" for fee
    by (simp_all add: sample_H_def sample_lengths)
  have "map (\<lambda>b. b\<lparr>bl_BlockFee := 0\<rparr>) [sample_successor 5, sample_genesis] = map (\<lambda>b. b\<lparr>bl_BlockFee := 0\<rparr>) [sample_successor 7, sample_genesis]"
  proof (rule tip_fixes_history [OF _ c [of 5] c [of 7]])
    show "inj_on sample_H (\<Union> (hashed_inputs sample_H ` (set [sample_successor 5, sample_genesis] \<union> set [sample_successor 7, sample_genesis])))"
      by (auto simp: inputs vals inj_on_def)
    show "\<forall>x \<in> \<Union> (hashed_inputs sample_H ` (set [sample_successor 5, sample_genesis] \<union> set [sample_successor 7, sample_genesis])). sample_H x \<noteq> EmptyHash"
      by (simp add: inputs vals EmptyHash_def)
  qed (simp_all add: sample_H_def sample_successor_def)
  then show ?thesis
    using c by blast
qed

subsection \<open>What the producer's signature commits to\<close>

lemma header_signed_message:
  assumes "verifyBlockHeaderSignature lib ch b par = None"
  shows "bh_SignatureMessage (GetHeader b) = BaseHeader_GetBytesWithoutSignature (GetHeader b)"
  using assms by (auto simp: verifyBlockHeaderSignature_def BaseHeader_Verify_def Let_def split: sum.splits if_splits)

text \<open>C12: The producer's signature covers the whole block. Two blocks above genesis that pass the base check and the
  check of the header signature, and whose signed messages are equal, have the same body, the same
  transactions and the same header up to the signature itself, unless the hash function collides on
  the bodies or on the inputs of the transaction trees.\<close>

theorem signed_header_commits:
  fixes b b' :: Block
  assumes "\<And>x. length (H x) = HashLength" "wf_Block b" "wf_Block b'" "0 < sint (block_height b)" "0 < sint (block_height b')"
    "CheckBaseBlock lib ch validProof s db currTime b par force = Inr tree" "cr_H256 (ch_Crypto ch) = H" "verifyBlockHeaderSignature lib ch b par = None"
    "CheckBaseBlock lib' ch' validProof' s' db' currTime' b' par' force' = Inr tree'" "cr_H256 (ch_Crypto ch') = H" "verifyBlockHeaderSignature lib' ch' b' par' = None"
    "bh_SignatureMessage (GetHeader b) = bh_SignatureMessage (GetHeader b')"
    "inj_on H {bodyBytes (bl_BaseBlock b), bodyBytes (bl_BaseBlock b')}" "inj_on H (hashed_inputs H b \<union> hashed_inputs H b')"
    "\<forall>x \<in> hashed_inputs H b \<union> hashed_inputs H b'. H x \<noteq> EmptyHash"
  shows "bl_TransactionsHashes b = bl_TransactionsHashes b' \<and> bodyBytes (bl_BaseBlock b) = bodyBytes (bl_BaseBlock b') \<and>
    bb_Supply (bl_BaseBlock b) = bb_Supply (bl_BaseBlock b') \<and> bb_OracleProofs (bl_BaseBlock b) = bb_OracleProofs (bl_BaseBlock b') \<and>
    GetHeader b' = (GetHeader b)\<lparr>bh_Signature := bh_Signature (GetHeader b')\<rparr>"
proof -
  let ?bb = "bl_BaseBlock b" and ?bb' = "bl_BaseBlock b'"
  have wf: "wf_BaseHeader (GetHeader b)" "wf_BaseHeader (GetHeader b')" "wf_body ?bb" "wf_body ?bb'"
    using assms(2,3) by (simp_all add: wf_Block_def wf_BaseBlock_def GetHeader_def)
  have msg: "BaseHeader_GetBytesWithoutSignature (GetHeader b) = BaseHeader_GetBytesWithoutSignature (GetHeader b')"
    using header_signed_message [OF assms(8)] header_signed_message [OF assms(11)] assms(12) by simp
  note hdr = header_message_inject [OF wf(1,2) msg]
  have h: "GetHeader b' = (GetHeader b)\<lparr>bh_Signature := bh_Signature (GetHeader b')\<rparr>"
    using hdr assms(12) by (metis BaseHeader.surjective BaseHeader.update_convs(11,12))
  have body: "bh_BodyHash (GetHeader b) = H (bodyBytes ?bb)" "bh_BodyHash (GetHeader b') = H (bodyBytes ?bb')"
    using check_hashes_accepts(5) [OF CheckBaseBlock_accepts(4) [OF assms(6)]] check_hashes_accepts(5) [OF CheckBaseBlock_accepts(4) [OF assms(9)]]
    by (simp_all add: CalcBodyHash_def assms(7,10) full_hash assms(1))
  have "bh_BodyHash (GetHeader b) = bh_BodyHash (GetHeader b')" "bh_RootMerkleTree (GetHeader b) = bh_RootMerkleTree (GetHeader b')"
    using arg_cong [OF h, of bh_BodyHash] arg_cong [OF h, of bh_RootMerkleTree] by simp_all
  then have eq: "bodyBytes ?bb = bodyBytes ?bb'"
    using assms(13) unfolding body by (auto dest: inj_onD)
  have txs: "bl_TransactionsHashes b = bl_TransactionsHashes b'"
    using CheckBaseBlock_accepts(6,11) [OF assms(6)] CheckBaseBlock_accepts(6,11) [OF assms(9)] assms(4,5,7,10) \<open>bh_RootMerkleTree (GetHeader b) = bh_RootMerkleTree (GetHeader b')\<close>
    by (intro same_root_same_list [OF assms(1,14,15)]) simp
  have "bb_Supply ?bb = bb_Supply ?bb'" "bb_OracleProofs ?bb = bb_OracleProofs ?bb'"
    by (subst bodyBytes_inject [OF wf(3,4) eq], simp)+
  then show ?thesis
    using txs eq h by blast
qed

lemma sample_live_parsed: "parse_config sample_library sample_live = Inr (sample_falcon False)"
  by (rule config_round_trip) (simp_all add: string_bytes_def int32_range_def VerifyEncConfig_def sample_library_def
      GenerateBytesFromParams_def sample_live_def sample_falcon_def BoolToByte_def)

lemma sample_signed: "verifyBlockHeaderSignature sample_library sample_node (sample_successor fee) sample_genesis = None"
proof -
  have "bh_Encryption1 (GetHeader sample_genesis) = sample_live" "bh_Encryption2 (GetHeader sample_genesis) = sample_live"
    by (simp_all add: sample_genesis_defs)
  then have names: "GetSigNames sample_library enc sample_genesis = Inr \<lparr>sn_Name = ''Falcon-512'', sn_Name2 = ''Falcon-512'', sn_Paused = False, sn_Paused2 = True\<rparr>" for enc
    by (simp add: GetSigNames_def FromBytesToEncryptionConfig_def sample_live_parsed) (simp add: sample_falcon_def)
  have msg: "BaseHeader_GetBytesWithoutSignature (GetHeader (sample_successor fee)) = bh_SignatureMessage (GetHeader (sample_successor fee))"
    by (simp add: sample_successor_def GetHeader_def BaseHeader_GetBytesWithoutSignature_def header_fields_def)
  have hdr: "bh_OperatorAccount (GetHeader (sample_successor fee)) = sample_addr 7" "sig_ByteValue (bh_Signature (GetHeader (sample_successor fee))) = [0, 1, 2]"
    by (simp_all add: sample_successor_def sample_genesis_defs)
  have key: "header_key sample_registry sample_oqs \<lparr>sn_Name = ''Falcon-512'', sn_Name2 = ''Falcon-512'', sn_Paused = False, sn_Paused2 = True\<rparr> (sample_addr 7) True
      = Inr (sample_key (sample_addr 7))"
    by (simp add: header_key_def sample_oqs_def signingSchemeName_def LoadPubKeyWithPrimaryOfLengthAsOf_def LoadAddressesAsOf_def
        LoadAddresses_def sample_registry_def empty_registry_def sample_addr_def RegisteredAsOf_def RegistrationHeight_def mget_def LoadPubKey_def sample_key_def)
  have node: "ch_Keys sample_node = sample_registry" "ch_Oqs sample_node = sample_oqs" "cr_H256 (ch_Crypto sample_node) = sample_H"
    by (simp_all add: sample_node_def sample_chain_def)
  show ?thesis
    by (simp add: verifyBlockHeaderSignature_def names BaseHeader_Verify_def msg hdr key node)
      (simp add: wallet_Verify_def oqs_check_def sample_oqs_def sample_key_def sample_H_def)
qed

theorem signed_header_commits_witness:
  "bl_TransactionsHashes (sample_successor 5) = bl_TransactionsHashes (sample_successor 7) \<and>
   GetHeader (sample_successor 7) = (GetHeader (sample_successor 5))\<lparr>bh_Signature := bh_Signature (GetHeader (sample_successor 7))\<rparr>"
proof -
  have H: "cr_H256 (ch_Crypto sample_node) = sample_H" and h: "0 < sint (block_height (sample_successor fee))" for fee
    by (simp_all add: sample_node_def sample_successor_def sample_genesis_defs)
  have len: "length (sample_H x) = HashLength" for x
    by (simp add: sample_H_def)
  have same: "GetHeader (sample_successor fee) = GetHeader (sample_successor 0)" "bl_BaseBlock (sample_successor fee) = bl_BaseBlock (sample_successor 0)"
    "hashed_inputs sample_H (sample_successor fee) = {GetBytesForHash (sample_successor 0)}" for fee
    by (simp_all add: sample_successor_def GetHeader_def hashed_inputs_def GetBytesForHash_def sample_genesis_def zero_Block_def)
  have "sample_H (GetBytesForHash (sample_successor 0)) \<noteq> EmptyHash"
    by (simp add: sample_H_def sample_lengths EmptyHash_def)
  then show ?thesis
    using signed_header_commits [OF len sample_blocks_wf(2) sample_blocks_wf(2) h h sample_checked(2) H sample_signed sample_checked(2) H sample_signed, of 5 7]
    unfolding same [of 5] same [of 7] by simp
qed

end
