(* ===== verification/State_Root.thy ===== *)
theory State_Root
  imports Block_Rules
begin

text \<open>
  The root of the state (\<open>blocks/stateRoot.go\<close>): the consensus state written field by field in a
  canonical order and hashed. A block carries the root of the state it is built on, and a restart
  accepts a stored state only with its root.

  The exchange and the virtual machine are not modelled; the bytes of their two sections are an
  argument.
\<close>

subsection \<open>The writer\<close>

definition rw_i64 :: "int64 \<Rightarrow> bytes" where
  "rw_i64 v = GetByteInt64 v"

definition rw_bytes :: "bytes \<Rightarrow> bytes" where
  "rw_bytes b = rw_i64 (word_of_nat (length b)) @ b"

definition rw_section :: "string \<Rightarrow> bytes" where
  "rw_section s = rw_bytes (string_bytes s)"

definition rw_bool :: "bool \<Rightarrow> bytes" where
  "rw_bool v = (if v then rw_i64 1 else rw_i64 0)"

definition rw_i64s :: "int64 list \<Rightarrow> bytes" where
  "rw_i64s vs = rw_i64 (word_of_nat (length vs)) @ concat (map rw_i64 vs)"

definition sortedAddrKeys :: "(bytes, 'v) gomap \<Rightarrow> bytes list" where
  "sortedAddrKeys m = sort (map fst m)"

definition sorted_entries :: "(bytes, 'v) gomap \<Rightarrow> (bytes \<times> 'v) list" where
  "sorted_entries m = map (\<lambda>k. (k, the (map_of m k))) (sortedAddrKeys m)"

subsection \<open>The root\<close>

definition root_account :: "bytes \<times> Account \<Rightarrow> bytes" where
  "root_account = (\<lambda>(k, a).
     rw_bytes k @ rw_i64 (acc_Balance a) @ rw_i64 (acc_TransactionDelay a) @ rw_i64 (ucast (acc_MultiSignNumber a))
     @ rw_i64 (word_of_nat (length (acc_MultiSignAddresses a))) @ concat (map rw_bytes (acc_MultiSignAddresses a))
     @ rw_bytes (acc_RecoveryCommit a) @ rw_bytes (acc_RecoveryPendingCommit a) @ rw_i64 (acc_RecoveryPendingHeight a)
     @ rw_bytes (acc_SpareCommit a) @ rw_bytes (acc_SparePendingCommit a))"

definition root_bind :: "bytes \<times> RecoveryBind \<Rightarrow> bytes" where
  "root_bind = (\<lambda>(k, b). rw_bytes k @ rw_bytes (rb_Identity b) @ rw_bytes (rb_Payload b) @ rw_i64 (rb_Height b))"

definition root_staking_account :: "bytes \<times> StakingAccount \<Rightarrow> bytes" where
  "root_staking_account = (\<lambda>(k, sa).
     rw_bytes k @ rw_i64 (StakedBalance sa) @ rw_i64 (StakingRewards sa) @ rw_i64s (LockedAmount sa)
     @ rw_i64s (ReleasePerBlock sa) @ rw_i64s (LockedInitBlock sa) @ rw_bytes (sa_DelegatedAccount sa)
     @ rw_bool (OperationalAccount sa) @ rw_i64 (OperationalSince sa) @ rw_i64 (LastStakeHeight sa)
     @ rw_bytes (RandCommit sa) @ rw_i64 (RandCommitHeight sa))"

definition root_shard :: "StakingState \<Rightarrow> nat \<Rightarrow> bytes" where
  "root_shard s i =
    (let all = AllStakingAccounts (s i) in
     if all = [] then [] else rw_i64 (word_of_nat i) @ concat (map root_staking_account (sorted_entries all)))"

definition state_bytes :: "AccountsType \<Rightarrow> StakingState \<Rightarrow> bytes \<Rightarrow> bytes" where
  "state_bytes at s vm =
     rw_section ''accounts'' @ concat (map root_account (sorted_entries (AllAccounts at)))
     @ rw_section ''recovery-binds'' @ concat (map root_bind (sorted_binds (RecoveryBinds at)))
     @ rw_section ''staking'' @ concat (map (root_shard s) [0..<NumShards]) @ vm"

definition ComputeStateRoot :: "(bytes \<Rightarrow> bytes) \<Rightarrow> AccountsType \<Rightarrow> StakingState \<Rightarrow> bytes \<Rightarrow> bytes" where
  "ComputeStateRoot H at s vm = GetHashFromBytes (H (state_bytes at s vm))"

definition VerifyStateRoot :: "(bytes \<Rightarrow> bytes) \<Rightarrow> AccountsType \<Rightarrow> StakingState \<Rightarrow> bytes \<Rightarrow> Block \<Rightarrow> err option" where
  "VerifyStateRoot H at s vm block =
    (if block_height block = 0 then None
     else if ComputeStateRoot H at s vm \<noteq> bh_StateRoot (GetHeader block) then Some (Errorf ''state root does not match our state'')
     else None)"

abbreviation (input) StateCommitDBPrefix :: bytes where "StateCommitDBPrefix \<equiv> string_bytes ''SC''"

definition stateCommitKey :: "int64 \<Rightarrow> bytes" where
  "stateCommitKey height = StateCommitDBPrefix @ GetByteInt64 height"

definition StoreStateCommit :: "(bytes \<Rightarrow> bytes) \<Rightarrow> int64 \<Rightarrow> AccountsType \<Rightarrow> StakingState \<Rightarrow> bytes \<Rightarrow> DB \<Rightarrow> DB" where
  "StoreStateCommit H height at s vm db = mput (stateCommitKey height) (ComputeStateRoot H at s vm) db"

definition VerifyStateCommit :: "(bytes \<Rightarrow> bytes) \<Rightarrow> int64 \<Rightarrow> AccountsType \<Rightarrow> StakingState \<Rightarrow> bytes \<Rightarrow> DB \<Rightarrow> err option" where
  "VerifyStateCommit H height at s vm db =
    (case map_of db (stateCommitKey height) of
       None \<Rightarrow> Some (Errorf ''height was never committed (no state commit marker)'')
     | Some want \<Rightarrow>
         if length want \<noteq> HashLength then Some (Errorf ''height was never committed (no state commit marker)'')
         else if ComputeStateRoot H at s vm \<noteq> want then Some (Errorf ''stored state does not match its commit marker'')
         else None)"

subsection \<open>The bytes determine the state\<close>

text \<open>An encoding that can be read off the front of a byte string, up to what \<open>view\<close> keeps.\<close>

locale self_delimiting =
  fixes enc :: "'a \<Rightarrow> bytes" and view :: "'a \<Rightarrow> 'b" and good :: "'a \<Rightarrow> bool"
  assumes front: "good x \<Longrightarrow> good y \<Longrightarrow> enc x @ r = enc y @ s \<Longrightarrow> view x = view y \<and> r = s"
begin

lemma same_length:
  assumes "length xs = length ys" "\<forall>x \<in> set xs. good x" "\<forall>y \<in> set ys. good y" "concat (map enc xs) @ r = concat (map enc ys) @ s"
  shows "map view xs = map view ys \<and> r = s"
  using assms
proof (induction xs ys rule: list_induct2)
  case (Cons x xs y ys)
  then have "enc x @ (concat (map enc xs) @ r) = enc y @ (concat (map enc ys) @ s)"
    by simp
  from front [OF _ _ this] Cons show ?case
    by simp
qed simp

text \<open>Lists of any length, when what follows cannot be mistaken for one more element.\<close>

lemma followed:
  assumes "\<forall>x \<in> set xs. good x" "\<forall>y \<in> set ys. good y" "concat (map enc xs) @ r = concat (map enc ys) @ s"
    "\<And>x u. good x \<Longrightarrow> enc x @ u \<noteq> r \<and> enc x @ u \<noteq> s"
  shows "map view xs = map view ys \<and> r = s"
  using assms(1-3)
proof (induction xs arbitrary: ys)
  case Nil
  then show ?case
    using assms(4) by (cases ys) auto
next
  case (Cons x xs)
  show ?case
  proof (cases ys)
    case Nil
    then show ?thesis
      using Cons.prems assms(4) [of x] by auto
  next
    case (Cons y ys')
    then have "enc x @ (concat (map enc xs) @ r) = enc y @ (concat (map enc ys') @ s)"
      using Cons.prems(3) by simp
    from front [OF _ _ this] Cons.IH [of ys'] Cons.prems Cons show ?thesis
      by simp
  qed
qed

end

lemma rw_i64_append [simp]: "rw_i64 u @ r = rw_i64 v @ s \<longleftrightarrow> u = v \<and> r = s"
  by (simp add: rw_i64_def append_eq_append_conv)

lemma length_rw_i64 [simp]: "length (rw_i64 v) = 8"
  by (simp add: rw_i64_def)

lemma word_of_nat_eq64: "m < 2 ^ 63 \<Longrightarrow> n < 2 ^ 63 \<Longrightarrow> (word_of_nat m :: int64) = word_of_nat n \<longleftrightarrow> m = n"
  by (auto simp: word_unat_eq_iff unsigned_of_nat take_bit_nat_eq_self)

lemma rw_bytes_append:
  assumes "length b < 2 ^ 63" "length c < 2 ^ 63"
  shows "rw_bytes b @ r = rw_bytes c @ s \<longleftrightarrow> b = c \<and> r = s"
  using assms by (auto simp: rw_bytes_def word_of_nat_eq64 append_eq_append_conv)

text \<open>Fields with a fixed length.\<close>

lemma rw_field [simp]:
  assumes "length b = n" "length c = n"
  shows "rw_bytes b @ r = rw_bytes c @ s \<longleftrightarrow> b = c \<and> r = s"
  using assms by (auto simp: rw_bytes_def append_eq_append_conv)

interpretation words: self_delimiting rw_i64 id "\<lambda>_. True"
  by unfold_locales simp

interpretation addresses: self_delimiting rw_bytes id "\<lambda>b. length b = AddressLength"
  by unfold_locales (metis rw_field id_apply)

lemma rw_i64s_append:
  assumes "length u < 2 ^ 63" "length v < 2 ^ 63" "rw_i64s u @ r = rw_i64s v @ s"
  shows "u = v \<and> r = s"
proof -
  from assms(3) have "length u = length v" "concat (map rw_i64 u) @ r = concat (map rw_i64 v) @ s"
    using assms(1,2) by (simp_all add: rw_i64s_def word_of_nat_eq64)
  from words.same_length [OF this(1) _ _ this(2)] show ?thesis
    by simp
qed

lemma rw_bool_append [simp]: "rw_bool u @ r = rw_bool v @ s \<longleftrightarrow> u = v \<and> r = s"
  by (auto simp: rw_bool_def rw_i64_def)

lemma ucast_up_eq:
  assumes "(ucast (u :: uint8) :: int64) = ucast v"
  shows "u = v"
proof -
  have rt: "(ucast (ucast w :: int64) :: uint8) = w" for w :: uint8
    by (rule bit_word_eqI) (simp add: bit_unsigned_iff)
  show ?thesis
    using arg_cong [OF assms, of "ucast :: int64 \<Rightarrow> uint8"] by (simp only: rt)
qed

text \<open>What the root covers of an account and of a staking account: everything but the histories and the
  address, which is the key.\<close>

definition account_view :: "bytes \<times> Account \<Rightarrow> bytes \<times> Account" where
  "account_view = (\<lambda>(k, a). (k, a\<lparr>acc_Address := [], acc_TransactionsSender := [], acc_TransactionsRecipient := [],
     acc_SentCount := 0, acc_ReceivedCount := 0\<rparr>))"

definition staking_view :: "bytes \<times> StakingAccount \<Rightarrow> bytes \<times> StakingAccount" where
  "staking_view = (\<lambda>(k, sa). (k, sa\<lparr>sa_Address := [], StakingDetails := []\<rparr>))"

definition root_ok_account :: "bytes \<times> Account \<Rightarrow> bool" where
  "root_ok_account = (\<lambda>(k, a). length k = AddressLength \<and> wf_Account a)"

definition root_ok_staking :: "bytes \<times> StakingAccount \<Rightarrow> bool" where
  "root_ok_staking = (\<lambda>(k, sa). length k = AddressLength \<and> wf_StakingAccount sa)"

interpretation accounts_root: self_delimiting root_account account_view root_ok_account
proof
  fix x y :: "bytes \<times> Account" and r s :: bytes
  assume ok: "root_ok_account x" "root_ok_account y" and eq: "root_account x @ r = root_account y @ s"
  obtain k a l b where xy: "x = (k, a)" "y = (l, b)" by fastforce
  let ?ma = "acc_MultiSignAddresses a" and ?mb = "acc_MultiSignAddresses b"
  have wf: "length k = AddressLength" "length l = AddressLength" "wf_Account a" "wf_Account b"
    using ok by (simp_all add: root_ok_account_def xy)
  note e = eq [unfolded xy root_account_def prod.case append_assoc]
  from e have 1: "k = l" "acc_Balance a = acc_Balance b" "acc_TransactionDelay a = acc_TransactionDelay b"
      "ucast (acc_MultiSignNumber a) = (ucast (acc_MultiSignNumber b) :: int64)" "length ?ma = length ?mb"
    using wf by (simp_all add: word_of_nat_eq64 wf_Account_def)
  obtain ra rb where r: "concat (map rw_bytes ?ma) @ ra = concat (map rw_bytes ?mb) @ rb"
      "ra = rw_bytes (acc_RecoveryCommit a) @ rw_bytes (acc_RecoveryPendingCommit a) @ rw_i64 (acc_RecoveryPendingHeight a)
        @ rw_bytes (acc_SpareCommit a) @ rw_bytes (acc_SparePendingCommit a) @ r"
      "rb = rw_bytes (acc_RecoveryCommit b) @ rw_bytes (acc_RecoveryPendingCommit b) @ rw_i64 (acc_RecoveryPendingHeight b)
        @ rw_bytes (acc_SpareCommit b) @ rw_bytes (acc_SparePendingCommit b) @ s"
    using e wf by simp
  have 2: "?ma = ?mb" "ra = rb"
    using addresses.same_length [OF 1(5) _ _ r(1)] wf by (simp_all add: wf_Account_def)
  have 3: "acc_RecoveryCommit a = acc_RecoveryCommit b" "acc_RecoveryPendingCommit a = acc_RecoveryPendingCommit b"
      "acc_RecoveryPendingHeight a = acc_RecoveryPendingHeight b" "acc_SpareCommit a = acc_SpareCommit b"
      "acc_SparePendingCommit a = acc_SparePendingCommit b" "r = s"
    using 2(2) wf by (simp_all add: r(2,3) wf_Account_def)
  have 4: "acc_MultiSignNumber a = acc_MultiSignNumber b"
    using 1(4) by (rule ucast_up_eq)
  show "account_view x = account_view y \<and> r = s"
    using 1 2 3 4 by (simp add: xy account_view_def)
qed


interpretation binds_root: self_delimiting root_bind id wf_bind
proof
  fix x y :: "bytes \<times> RecoveryBind" and r s :: bytes
  assume "wf_bind x" "wf_bind y" "root_bind x @ r = root_bind y @ s"
  then show "id x = id y \<and> r = s"
    by (cases x; cases y) (simp add: wf_bind_def root_bind_def)
qed

interpretation staking_root: self_delimiting root_staking_account staking_view root_ok_staking
proof
  fix x y :: "bytes \<times> StakingAccount" and r s :: bytes
  assume ok: "root_ok_staking x" "root_ok_staking y" and eq: "root_staking_account x @ r = root_staking_account y @ s"
  obtain k a l b where xy: "x = (k, a)" "y = (l, b)" by fastforce
  have wf: "length k = AddressLength" "length l = AddressLength" "wf_StakingAccount a" "wf_StakingAccount b"
    using ok by (simp_all add: root_ok_staking_def xy)
  have lock: "length (LockedAmount c) < 2 ^ 63" "length (ReleasePerBlock c) < 2 ^ 63" "length (LockedInitBlock c) < 2 ^ 63"
      "length (sa_DelegatedAccount c) = AddressLength" "length (RandCommit c) = HashLength" if "wf_StakingAccount c" for c
    using that by (simp_all add: wf_StakingAccount_def wf_locks_def)
  note e = eq [unfolded xy root_staking_account_def prod.case append_assoc]
  define t where "t c = rw_bytes (sa_DelegatedAccount c) @ rw_bool (OperationalAccount c) @ rw_i64 (OperationalSince c) @ rw_i64 (LastStakeHeight c)
     @ rw_bytes (RandCommit c) @ rw_i64 (RandCommitHeight c)" for c :: StakingAccount
  from e have 1: "k = l" "StakedBalance a = StakedBalance b" "StakingRewards a = StakingRewards b"
      and e1: "rw_i64s (LockedAmount a) @ rw_i64s (ReleasePerBlock a) @ rw_i64s (LockedInitBlock a) @ t a @ r =
        rw_i64s (LockedAmount b) @ rw_i64s (ReleasePerBlock b) @ rw_i64s (LockedInitBlock b) @ t b @ s"
    using wf(1,2) by (simp_all add: t_def)
  note 2 = rw_i64s_append [OF lock(1) [OF wf(3)] lock(1) [OF wf(4)] e1]
  note 3 = rw_i64s_append [OF lock(2) [OF wf(3)] lock(2) [OF wf(4)] conjunct2 [OF 2]]
  note 4 = rw_i64s_append [OF lock(3) [OF wf(3)] lock(3) [OF wf(4)] conjunct2 [OF 3]]
  have 5: "sa_DelegatedAccount a = sa_DelegatedAccount b" "OperationalAccount a = OperationalAccount b" "OperationalSince a = OperationalSince b"
      "LastStakeHeight a = LastStakeHeight b" "RandCommit a = RandCommit b" "RandCommitHeight a = RandCommitHeight b" "r = s"
    using conjunct2 [OF 4] lock(4,5) [OF wf(3)] lock(4,5) [OF wf(4)] by (simp_all add: t_def)
  show "staking_view x = staking_view y \<and> r = s"
    unfolding xy staking_view_def prod.case
    using 1 conjunct1 [OF 2] conjunct1 [OF 3] conjunct1 [OF 4] 5 by simp
qed

lemma sorted_entries_facts:
  assumes "wf_map m"
  shows "set (sorted_entries m) = set m" "length (sorted_entries m) = length m" "map_of (sorted_entries m) = map_of m"
    "map fst (sorted_entries m) = sort (map fst m)"
proof -
  have ms: "mset (sorted_entries m) = mset m"
    using sorted_pairs_mset [OF assms, of "\<lambda>x. x"] by (simp add: sorted_entries_def sortedAddrKeys_def)
  show k: "map fst (sorted_entries m) = sort (map fst m)"
    by (simp add: sorted_entries_def sortedAddrKeys_def comp_def)
  show "set (sorted_entries m) = set m" "length (sorted_entries m) = length m"
    using mset_eq_setD [OF ms] mset_eq_length [OF ms] by simp_all
  moreover have "distinct (map fst (sorted_entries m))"
    using assms by (simp add: k)
  ultimately show "map_of (sorted_entries m) = map_of m"
    using assms by (intro map_of_inject_set [THEN iffD2]) simp_all
qed


lemma view_lookup:
  assumes "wf_map m" "wf_map m'" "map f (sorted_entries m) = map f (sorted_entries m')" "\<And>k v. fst (f (k, v)) = k"
  shows "map_option (\<lambda>v. f (k, v)) (map_of m k) = map_option (\<lambda>v. f (k, v)) (map_of m' k)"
proof -
  have "map_option (\<lambda>v. f (k, v)) (map_of n k) = map_option (\<lambda>w. (k, w)) (map_of (map f n) k)" for n
    using assms(4) by (induction n) (auto simp: prod_eq_iff)
  then show ?thesis
    using assms(3) sorted_entries_facts(3) [OF assms(1)] sorted_entries_facts(3) [OF assms(2)] by metis
qed

lemma root_shard_front:
  assumes "wf_shard (s i)" "wf_shard (s' i)" "length (AllStakingAccounts (s i)) = length (AllStakingAccounts (s' i))"
    "root_shard s i @ r = root_shard s' i @ r'"
  shows "map staking_view (sorted_entries (AllStakingAccounts (s i))) = map staking_view (sorted_entries (AllStakingAccounts (s' i))) \<and> r = r'"
proof (cases "AllStakingAccounts (s i) = []")
  case True
  then show ?thesis
    using assms(3,4) by (simp add: root_shard_def)
next
  case False
  have wf: "wf_map (AllStakingAccounts (s i))" "wf_map (AllStakingAccounts (s' i))"
    using assms(1,2) by (simp_all add: wf_shard_def)
  have "AllStakingAccounts (s' i) \<noteq> []"
    using False assms(3) by auto
  then have "concat (map root_staking_account (sorted_entries (AllStakingAccounts (s i)))) @ r =
      concat (map root_staking_account (sorted_entries (AllStakingAccounts (s' i)))) @ r'"
    using assms(4) False by (simp add: root_shard_def Let_def)
  moreover have "root_ok_staking x" if "x \<in> set (AllStakingAccounts (s i)) \<or> x \<in> set (AllStakingAccounts (s' i))" for x
    using assms(1,2) that by (auto simp: wf_shard_def root_ok_staking_def)
  ultimately show ?thesis
    using staking_root.same_length [of "sorted_entries (AllStakingAccounts (s i))" "sorted_entries (AllStakingAccounts (s' i))"]
      sorted_entries_facts(1,2) [OF wf(1)] sorted_entries_facts(1,2) [OF wf(2)] assms(3) by simp
qed

lemma root_shards_front:
  assumes "\<forall>i \<in> set is. wf_shard (s i) \<and> wf_shard (s' i) \<and> length (AllStakingAccounts (s i)) = length (AllStakingAccounts (s' i))"
    "concat (map (root_shard s) is) @ r = concat (map (root_shard s') is) @ r'"
  shows "(\<forall>i \<in> set is. map staking_view (sorted_entries (AllStakingAccounts (s i))) =
      map staking_view (sorted_entries (AllStakingAccounts (s' i)))) \<and> r = r'"
  using assms
proof (induction "is")
  case (Cons i "is")
  then show ?case
    using root_shard_front [of s i s' "concat (map (root_shard s) is) @ r" "concat (map (root_shard s') is) @ r'"] by simp
qed simp

text \<open>The name of the next section cannot be taken for one more account or bind.\<close>

lemma section_apart:
  "root_ok_account x \<Longrightarrow> root_account x @ u \<noteq> rw_section ''recovery-binds'' @ r"
  "wf_bind y \<Longrightarrow> root_bind y @ u \<noteq> rw_section ''staking'' @ r"
  by (cases x; cases y; simp add: root_ok_account_def wf_bind_def root_account_def root_bind_def rw_section_def rw_bytes_def string_bytes_def)+

lemma state_bytes_inject:
  assumes "wf_AccountsType at" "wf_AccountsType at'" "state_bytes at s vm = state_bytes at' s' vm'"
  shows "map account_view (sorted_entries (AllAccounts at)) = map account_view (sorted_entries (AllAccounts at'))"
    "sorted_binds (RecoveryBinds at) = sorted_binds (RecoveryBinds at')"
    "concat (map (root_shard s) [0..<NumShards]) @ vm = concat (map (root_shard s') [0..<NumShards]) @ vm'"
proof -
  have wf: "wf_map (AllAccounts at)" "wf_map (AllAccounts at')" "wf_map (RecoveryBinds at)" "wf_map (RecoveryBinds at')"
    using assms(1,2) by (simp_all add: wf_AccountsType_def)
  have acc: "\<forall>x \<in> set (sorted_entries (AllAccounts at)). root_ok_account x" "\<forall>x \<in> set (sorted_entries (AllAccounts at')). root_ok_account x"
    using assms(1,2) sorted_entries_facts(1) [OF wf(1)] sorted_entries_facts(1) [OF wf(2)] by (auto simp: wf_AccountsType_def root_ok_account_def)
  have bnd: "\<forall>x \<in> set (sorted_binds (RecoveryBinds at)). wf_bind x" "\<forall>x \<in> set (sorted_binds (RecoveryBinds at')). wf_bind x"
    using assms(1,2) sorted_binds_facts(2) [OF wf(3)] sorted_binds_facts(2) [OF wf(4)] by (auto simp: wf_AccountsType_def)
  define q where "q t v = concat (map (root_shard t) [0..<NumShards]) @ v" for t v
  define p where "p a t v = concat (map root_bind (sorted_binds (RecoveryBinds a))) @ rw_section ''staking'' @ q t v" for a :: AccountsType and t v
  have e: "concat (map root_account (sorted_entries (AllAccounts at))) @ rw_section ''recovery-binds'' @ p at s vm =
      concat (map root_account (sorted_entries (AllAccounts at'))) @ rw_section ''recovery-binds'' @ p at' s' vm'"
    using assms(3) unfolding state_bytes_def p_def q_def by simp
  from accounts_root.followed [OF acc e] section_apart(1)
  have 1: "map account_view (sorted_entries (AllAccounts at)) = map account_view (sorted_entries (AllAccounts at'))" and "p at s vm = p at' s' vm'"
    by simp_all
  from binds_root.followed [OF bnd this(2) [unfolded p_def]] section_apart(2)
  have "sorted_binds (RecoveryBinds at) = sorted_binds (RecoveryBinds at')" "q s vm = q s' vm'"
    by simp_all
  with 1 show "map account_view (sorted_entries (AllAccounts at)) = map account_view (sorted_entries (AllAccounts at'))"
    "sorted_binds (RecoveryBinds at) = sorted_binds (RecoveryBinds at')"
    "concat (map (root_shard s) [0..<NumShards]) @ vm = concat (map (root_shard s') [0..<NumShards]) @ vm'"
    by (simp_all only: q_def)
qed


text \<open>C5: Nodes that accept the same block hold the same state. If two nodes check the state root of the same block
  and both accept it, then, unless the hash function collides on their two states, they have the same
  accounts in everything but the transaction histories and the same recovery binds; and if their
  delegated accounts have equal numbers of staking accounts, they have the same staking accounts in
  everything but the detail logs, and the same exchange and contract state. (The bytes carry no count
  of the staking accounts of a delegated account.)\<close>

theorem state_root_commits:
  fixes b :: Block
  assumes "VerifyStateRoot H at s vm b = None" "VerifyStateRoot H at' s' vm' b = None" "block_height b \<noteq> 0" "\<And>x. length (H x) = HashLength"
    "inj_on H {state_bytes at s vm, state_bytes at' s' vm'}" "wf_AccountsType at" "wf_AccountsType at'"
    "\<forall>i < NumShards. wf_shard (s i) \<and> wf_shard (s' i)"
  shows "map_option (\<lambda>a. account_view (k, a)) (map_of (AllAccounts at) k) = map_option (\<lambda>a. account_view (k, a)) (map_of (AllAccounts at') k) \<and>
    map_of (RecoveryBinds at) = map_of (RecoveryBinds at') \<and>
    ((\<forall>i < NumShards. length (AllStakingAccounts (s i)) = length (AllStakingAccounts (s' i))) \<longrightarrow> vm = vm' \<and>
      (\<forall>i < NumShards. map_option (\<lambda>a. staking_view (k, a)) (map_of (AllStakingAccounts (s i)) k) =
        map_option (\<lambda>a. staking_view (k, a)) (map_of (AllStakingAccounts (s' i)) k)))"
proof -
  have "H (state_bytes at s vm) = H (state_bytes at' s' vm')"
    using assms(1-4) by (simp add: VerifyStateRoot_def ComputeStateRoot_def GetHashFromBytes_def EmptyHash_def split: if_splits)
  then have "state_bytes at s vm = state_bytes at' s' vm'"
    by (rule inj_onD [OF assms(5)]) (simp_all only: insertI1 insertI2)
  note inj = state_bytes_inject [OF assms(6,7) this]
  have wf: "wf_map (AllAccounts at)" "wf_map (AllAccounts at')" "wf_map (RecoveryBinds at)" "wf_map (RecoveryBinds at')"
    using assms(6,7) by (simp_all add: wf_AccountsType_def)
  show ?thesis
  proof (intro conjI impI)
    show "map_option (\<lambda>a. account_view (k, a)) (map_of (AllAccounts at) k) = map_option (\<lambda>a. account_view (k, a)) (map_of (AllAccounts at') k)"
      by (rule view_lookup [OF wf(1,2) inj(1)]) (simp add: account_view_def)
    show "map_of (RecoveryBinds at) = map_of (RecoveryBinds at')"
      using sorted_binds_facts(4) [OF wf(3)] sorted_binds_facts(4) [OF wf(4)] inj(2) by simp
    assume "\<forall>i < NumShards. length (AllStakingAccounts (s i)) = length (AllStakingAccounts (s' i))"
    then have sh: "(\<forall>i \<in> set [0..<NumShards]. map staking_view (sorted_entries (AllStakingAccounts (s i))) =
        map staking_view (sorted_entries (AllStakingAccounts (s' i)))) \<and> vm = vm'"
      using assms(8) by (intro root_shards_front [OF _ inj(3)]) (unfold set_upt, auto)
    then show "vm = vm'" by (rule conjunct2)
    show "\<forall>i < NumShards. map_option (\<lambda>a. staking_view (k, a)) (map_of (AllStakingAccounts (s i)) k) =
        map_option (\<lambda>a. staking_view (k, a)) (map_of (AllStakingAccounts (s' i)) k)"
    proof (intro allI impI)
      fix i :: nat assume i: "i < NumShards"
      have m: "wf_map (AllStakingAccounts (s i))" "wf_map (AllStakingAccounts (s' i))"
        using assms(8) i by (simp_all add: wf_shard_def)
      show "map_option (\<lambda>a. staking_view (k, a)) (map_of (AllStakingAccounts (s i)) k) =
          map_option (\<lambda>a. staking_view (k, a)) (map_of (AllStakingAccounts (s' i)) k)"
      proof (rule view_lookup [OF m])
        show "map staking_view (sorted_entries (AllStakingAccounts (s i))) = map staking_view (sorted_entries (AllStakingAccounts (s' i)))"
          using conjunct1 [OF sh, unfolded set_upt] i by auto
      qed (simp add: staking_view_def)
    qed
  qed
qed


text \<open>Two nodes that differ in a transaction counter and in a log of staking details.\<close>

definition sample_root_accounts :: "int64 \<Rightarrow> AccountsType" where
  "sample_root_accounts n = \<lparr>AllAccounts = [(replicate 20 1, zero_Account\<lparr>acc_Address := replicate 20 1, acc_Balance := 5, acc_SentCount := n\<rparr>)],
     RecoveryBinds = [], at_Height = 0\<rparr>"

definition sample_root_staking :: "(int64, StakingDetail list) gomap \<Rightarrow> StakingState" where
  "sample_root_staking ds = (\<lambda>i. if i = 3 then
     zero_StakingAccountsType\<lparr>AllStakingAccounts := [(replicate 20 1, zero_StakingAccount\<lparr>sa_Address := replicate 20 1, StakedBalance := 9, StakingDetails := ds\<rparr>)]\<rparr>
     else zero_StakingAccountsType)"

definition sample_rooted_block :: Block where
  "sample_rooted_block = zero_Block\<lparr>bl_BaseBlock := (bl_BaseBlock zero_Block)\<lparr>bb_BaseHeader := zero_BaseHeader\<lparr>bh_Height := 1,
     bh_StateRoot := replicate 32 1\<rparr>\<rparr>\<rparr>"

lemma sample_roots_agree:
  "state_bytes (sample_root_accounts n) (sample_root_staking ds) vm = state_bytes (sample_root_accounts m) (sample_root_staking es) vm"
proof -
  have "root_shard (sample_root_staking ds) = root_shard (sample_root_staking es)"
    by (simp add: fun_eq_iff root_shard_def sample_root_staking_def sorted_entries_def sortedAddrKeys_def root_staking_account_def
        zero_StakingAccount_def)
  then show ?thesis
    unfolding state_bytes_def
    by (simp add: sample_root_accounts_def sorted_entries_def sortedAddrKeys_def root_account_def zero_Account_def del: upt.simps)
qed

theorem state_root_commits_witness:
  "VerifyStateRoot (\<lambda>x. replicate 32 1) (sample_root_accounts 0) (sample_root_staking []) [] sample_rooted_block = None \<and>
   map_option (\<lambda>a. staking_view (replicate 20 1, a)) (map_of (AllStakingAccounts (sample_root_staking [] 3)) (replicate 20 1)) =
   map_option (\<lambda>a. staking_view (replicate 20 1, a)) (map_of (AllStakingAccounts (sample_root_staking [(7, [])] 3)) (replicate 20 1))"
proof -
  have v: "VerifyStateRoot (\<lambda>x. replicate 32 1) (sample_root_accounts n) (sample_root_staking ds) [] sample_rooted_block = None"
      and h: "block_height sample_rooted_block \<noteq> 0" for n ds
    by (simp_all add: VerifyStateRoot_def ComputeStateRoot_def GetHashFromBytes_def EmptyHash_def sample_rooted_block_def zero_Block_def
        zero_BaseHeader_def GetHeader_def block_height_def)
  have a: "wf_AccountsType (sample_root_accounts n)" for n
    by (simp add: wf_AccountsType_def sample_root_accounts_def wf_Account_def zero_Account_def Account_Marshal_def)
  have sh: "\<forall>i < 256. wf_shard (sample_root_staking [] i) \<and> wf_shard (sample_root_staking [(7, [])] i)"
      and len: "\<forall>i < 256. length (AllStakingAccounts (sample_root_staking [] i)) = length (AllStakingAccounts (sample_root_staking [(7, [])] i))"
    by (simp_all add: wf_shard_def sample_root_staking_def zero_StakingAccountsType_def wf_StakingAccount_def zero_StakingAccount_def
        wf_locks_def StakingAccount_Marshal_def locks_def sorted_details_def marshal_details_def)
  show ?thesis
    using state_root_commits [OF v v h _ _ a a sh, of 0 0 "replicate 20 1"] v len sample_roots_agree [of 0 "[]" "[]" 0 "[(7, [])]"] by simp
qed

end
