(* ===== verification/Reward_Curve.thy ===== *)
theory Reward_Curve
  imports Common
begin

text \<open>
  The block reward (\<open>account/reward.go\<close>): a fixed share of the coins not yet issued, computed with
  the 128-bit primitives of \<open>math/bits\<close>. The ratio in units of \<open>10^-10\<close> comes from the genesis
  configuration and is an argument.
\<close>

definition getRemainingSupply :: "int64 \<Rightarrow> int64" where
  "getRemainingSupply supply = MaxTotalSupply - supply"

text \<open>\<open>bits.Mul64\<close>, \<open>bits.Add64\<close> and \<open>bits.Div64\<close>: the high and low halves of the product, sum
  with carry, and the quotient, which panics for a zero divisor or when it does not fit.\<close>

definition Mul64 :: "int64 \<Rightarrow> int64 \<Rightarrow> int64 \<times> int64" where
  "Mul64 x y = (word_of_int (uint x * uint y div 2 ^ 64), word_of_int (uint x * uint y))"

definition Add64 :: "int64 \<Rightarrow> int64 \<Rightarrow> int64 \<Rightarrow> int64 \<times> int64" where
  "Add64 x y carry = (x + y + carry, word_of_int ((uint x + uint y + uint carry) div 2 ^ 64))"

definition Div64 :: "int64 \<Rightarrow> int64 \<Rightarrow> int64 \<Rightarrow> (int64 \<times> int64) res" where
  "Div64 hi lo y =
    (if y = 0 then Inl (Panic ''integer divide by zero'')
     else if uint y \<le> uint hi then Inl (Panic ''integer overflow'')
     else Inr (word_of_int ((uint hi * 2 ^ 64 + uint lo) div uint y),
               word_of_int ((uint hi * 2 ^ 64 + uint lo) mod uint y)))"

definition GetReward :: "int64 \<Rightarrow> int64 \<Rightarrow> int64 res" where
  "GetReward ratioPerE10 supply =
    (let remaining = getRemainingSupply supply in
     if sint remaining \<le> 0 \<or> sint ratioPerE10 \<le> 0 then Inr 0
     else
       let (hi, lo) = Mul64 remaining ratioPerE10;
           (lo, carry) = Add64 lo (10000000000 div 2) 0;
           hi = hi + carry
       in bindR (Div64 hi lo 10000000000) (\<lambda>(q, _). Inr q))"

subsection \<open>The 128-bit computation is exact\<close>

lemma uint_of_int_small: "0 \<le> x \<Longrightarrow> x < 2 ^ 64 \<Longrightarrow> uint (word_of_int x :: int64) = x"
  by (simp add: uint_word_of_int)

lemma uint_sint_nonneg: "0 \<le> sint (w :: int64) \<Longrightarrow> uint w = sint w"
  using sint_range64 [of w] by (simp add: uint_sint take_bit_int_eq_self)

text \<open>Adding a small number to a double word given by its halves.\<close>

lemma mul_add_halves:
  assumes "0 \<le> p" "p + c < 2 ^ 127" "0 \<le> c" "c < 2 ^ 64"
  defines "hi \<equiv> word_of_int (p div 2 ^ 64) :: int64" and "lo \<equiv> word_of_int p :: int64"
  shows "uint (hi + word_of_int ((uint lo + c) div 2 ^ 64)) * 2 ^ 64 + uint (lo + word_of_int c) = p + c"
proof -
  have lo: "uint lo = p mod 2 ^ 64"
    by (simp add: lo_def uint_word_of_int)
  have q: "p div 2 ^ 64 + (p mod 2 ^ 64 + c) div 2 ^ 64 = (p + c) div 2 ^ 64"
    using div_mult_self1 [of "2 ^ 64" "p mod 2 ^ 64 + c" "p div 2 ^ 64"]
    by (simp add: algebra_simps)
  have b: "0 \<le> (p + c) div 2 ^ 64" "(p + c) div 2 ^ 64 < 2 ^ 64"
    using assms by (auto simp: div_less_iff_less_mult pos_imp_zdiv_nonneg_iff)
  have h: "hi + word_of_int ((uint lo + c) div 2 ^ 64) = word_of_int ((p + c) div 2 ^ 64)"
    unfolding hi_def lo wi_hom_add q ..
  have l: "lo + word_of_int c = word_of_int (p + c)"
    by (simp only: lo_def wi_hom_add)
  show ?thesis
    unfolding h l uint_word_of_int using b by simp
qed

lemma GetReward_exact:
  assumes "0 \<le> sint supply" "sint supply < sint MaxTotalSupply" "0 < sint ratio" "sint ratio \<le> 10000000000"
  shows "\<exists>r. GetReward ratio supply = Inr r \<and>
     sint r = ((sint MaxTotalSupply - sint supply) * sint ratio + 5000000000) div 10000000000"
proof -
  define R where "R = sint MaxTotalSupply - sint supply"
  have R: "sint (getRemainingSupply supply) = R" "0 < R" "R \<le> 230000000000000000"
    using assms(1,2) sint_diff64 [of MaxTotalSupply "supply"] by (simp_all add: R_def getRemainingSupply_def)
  have uR: "uint (getRemainingSupply supply) = R" and uT: "uint ratio = sint ratio"
    using uint_sint_nonneg [of "getRemainingSupply supply"] uint_sint_nonneg [of ratio] R assms(3) by simp_all
  define p where "p = R * sint ratio"
  have p: "0 \<le> p" "p \<le> 2300000000000000000000000000"
    using mult_mono [of R 230000000000000000 "sint ratio" 10000000000] R assms(3,4)
    by (simp_all add: p_def)
  define hi lo :: int64
    where "hi = word_of_int (p div 2 ^ 64) + word_of_int ((uint (word_of_int p :: int64) + 5000000000) div 2 ^ 64)"
      and "lo = word_of_int p + word_of_int 5000000000"
  have tot: "uint hi * 18446744073709551616 + uint lo = p + 5000000000"
    using mul_add_halves [of p 5000000000] p by (simp add: hi_def lo_def)
  then have small: "uint hi < 10000000000"
    using p uint_ge_0 [of lo] by linarith
  have "GetReward ratio supply = bindR (Div64 hi lo 10000000000) (\<lambda>(q, _). Inr q)"
    using R(1,2) assms(3)
    by (simp add: GetReward_def Let_def Mul64_def Add64_def uR uT p_def [symmetric] hi_def lo_def)
  then have "GetReward ratio supply = Inr (word_of_int ((p + 5000000000) div 10000000000))"
    using small tot by (simp add: Div64_def)
  moreover have "0 \<le> (p + 5000000000) div 10000000000" "(p + 5000000000) div 10000000000 < 9223372036854775808"
    using p by linarith+
  ultimately show ?thesis
    by (simp add: p_def R_def signed_take_bit_int_eq_self signed_of_int)
qed

lemma GetReward_bounded:
  assumes "0 \<le> sint supply" "sint supply \<le> sint MaxTotalSupply" "0 < sint ratio" "sint ratio \<le> 10000000000"
  shows "\<exists>r. GetReward ratio supply = Inr r \<and> 0 \<le> sint r \<and> sint supply + sint r \<le> sint MaxTotalSupply"
proof (cases "sint supply = sint MaxTotalSupply")
  case True
  then have "supply = MaxTotalSupply"
    by (simp add: signed_word_eqI)
  then show ?thesis
    by (simp add: GetReward_def getRemainingSupply_def)
next
  case False
  define R where "R = sint MaxTotalSupply - sint supply"
  from False assms obtain r where r: "GetReward ratio supply = Inr r"
      "sint r = (R * sint ratio + 5000000000) div 10000000000"
    using GetReward_exact [of "supply" ratio] by (auto simp: R_def)
  have R: "0 < R"
    using assms(2) False by (simp add: R_def)
  then have "R * sint ratio \<le> R * 10000000000"
    using assms(4) by simp
  then have "(R * sint ratio + 5000000000) div 10000000000 \<le> R"
    by linarith
  moreover have "0 \<le> (R * sint ratio + 5000000000) div 10000000000"
    using R assms(3) by (simp add: pos_imp_zdiv_nonneg_iff)
  ultimately show ?thesis
    using r by (auto simp: R_def)
qed


subsection \<open>Properties of the reward\<close>

text \<open>C28: The block reward is the rounded share of the coins not yet issued, computed without overflow,
  and issuing it never takes the supply above the maximum.\<close>

theorem reward_exact_and_bounded:
  assumes "0 \<le> sint issued" "sint issued < sint MaxTotalSupply" "0 < sint ratio" "sint ratio \<le> 10000000000"
  shows "\<exists>r. GetReward ratio issued = Inr r \<and>
     sint r = ((sint MaxTotalSupply - sint issued) * sint ratio + 5000000000) div 10000000000 \<and>
     0 \<le> sint r \<and> sint issued + sint r \<le> sint MaxTotalSupply"
  using GetReward_exact [OF assms] GetReward_bounded [OF assms(1) less_imp_le [OF assms(2)] assms(3,4)]
  by auto

theorem reward_exact_and_bounded_witness:
  "\<exists>r. GetReward 800 23000000000000000 = Inr r \<and> sint r = 16560000000"
  using reward_exact_and_bounded [of 23000000000000000 800] by (auto simp del: sint_numeral)

end
