(* ===== verification/Block_Apply.thy ===== *)
theory Block_Apply
  imports State_Root Ledger_Supply Reward_Curve
begin

text \<open>
  Checking and applying the transactions of a block (\<open>blocks/processBlock.go\<close>): loading the bodies, the
  checks of every transaction and of the senders' running balances, the transfers, the distribution of
  the block reward, and the whole of \<open>CheckBlockAndTransferFunds\<close>.

  The state of a node is the ledger, the key registry, the scheme configuration and the votes. The
  evaluation of contracts by the virtual machine is an argument, and so are the root of the state and
  the adoption of a new scheme by the wallet. One reading of the clock, \<open>now\<close>, serves a whole block.
\<close>

subsection \<open>Bodies of a block\<close>

definition IsAllTransactions :: "Block \<Rightarrow> PoolState \<Rightarrow> bytes list" where
  "IsAllTransactions block s =
     filter (\<lambda>hash. \<not> HasTransaction (PoolTxEscrow s) hash \<and> \<not> HasTransaction (PoolTxMultiSign s) hash \<and>
       \<not> HasTransaction (PoolsTx s) hash \<and> \<not> CheckFromDBPoolTx (ps_DB s) TransactionPoolHashesDBPrefix hash \<and>
       \<not> CheckFromDBPoolTx (ps_DB s) TransactionDBPrefix hash) (bl_TransactionsHashes block)"

definition findTxInMemoryPools :: "bytes \<Rightarrow> PoolState \<Rightarrow> Transaction option" where
  "findTxInMemoryPools hash s =
    (case GetTransactionByHash (PoolsTx s) hash of
       Some tx \<Rightarrow> Some tx
     | None \<Rightarrow>
         case GetTransactionByHash (PoolTxEscrow s) hash of
           Some tx \<Rightarrow> Some tx
         | None \<Rightarrow> GetTransactionByHash (PoolTxMultiSign s) hash)"

definition verifyAgainstParent :: "SigLibrary \<Rightarrow> Chain \<Rightarrow> Block \<Rightarrow> Transaction \<Rightarrow> bool res" where
  "verifyAgainstParent lib ch lastBlock tx =
    (case GetSigNames lib (cr_enc (ch_Crypto ch)) lastBlock of
       Inl _ \<Rightarrow> Inr False
     | Inr sn \<Rightarrow> VerifyAsOf ch sn (block_height lastBlock) tx)"

fun verify_each :: "('a \<Rightarrow> bool res) \<Rightarrow> 'a list \<Rightarrow> bool list res" where
  "verify_each f [] = Inr []"
| "verify_each f (x # xs) = bindR (f x) (\<lambda>b. bindR (verify_each f xs) (\<lambda>bs. Inr (b # bs)))"

definition verifyBlockTransactions :: "SigLibrary \<Rightarrow> Chain \<Rightarrow> Block \<Rightarrow> Transaction list \<Rightarrow> bool list res" where
  "verifyBlockTransactions lib ch lastBlock txs =
    (case GetSigNames lib (cr_enc (ch_Crypto ch)) lastBlock of
       Inl _ \<Rightarrow> Inr (replicate (length txs) False)
     | Inr sn \<Rightarrow> verify_each (VerifyAsOf ch sn (block_height lastBlock)) txs)"

text \<open>A body that is not in the pool database is taken from the confirmed transactions, if it is not in a
  block already, or else from the rejected ones or the pools, if it verifies, and is stored.\<close>

definition recover_body :: "SigLibrary \<Rightarrow> Chain \<Rightarrow> Block \<Rightarrow> bytes \<Rightarrow> PoolState \<Rightarrow> Transaction res \<times> PoolState" where
  "recover_body lib ch lastBlock hash s =
    (let cr = ch_Crypto ch in
     case LoadFromDBPoolTx cr TransactionDBPrefix hash (ps_DB s) of
       (Inr tx, db) \<Rightarrow>
         (case CheckTransactionInDBAndInMarkleTrie hash (s\<lparr>ps_DB := db\<rparr>) of
            (Some e, s) \<Rightarrow> (Inl e, s) | (None, s) \<Rightarrow> (Inr tx, s))
     | (Inl _, db) \<Rightarrow>
         let (r, db) = LoadFromDBPoolTx cr BadTransactionDBPrefix hash db; s = s\<lparr>ps_DB := db\<rparr>;
             r = (case r of Inr tx \<Rightarrow> Inr tx
                  | Inl e \<Rightarrow> (case findTxInMemoryPools hash s of Some tx \<Rightarrow> Inr tx | None \<Rightarrow> Inl e)) in
         case r of
           Inl e \<Rightarrow> (Inl e, s)
         | Inr tx \<Rightarrow>
             (case verifyAgainstParent lib ch lastBlock tx of
                Inl e \<Rightarrow> (Inl e, s)
              | Inr ok \<Rightarrow>
                  if \<not> ok then (Inl (Errorf ''bad transaction failed validation''), s)
                  else case StoreToDBPoolTx TransactionDBPrefix tx (ps_DB s) of
                      (Some e, db) \<Rightarrow> (Inl e, s\<lparr>ps_DB := db\<rparr>)
                    | (None, db) \<Rightarrow> (Inr tx, s\<lparr>ps_DB := db\<rparr>)))"

definition load_block_tx :: "SigLibrary \<Rightarrow> Chain \<Rightarrow> Block \<Rightarrow> bytes \<Rightarrow> PoolState \<Rightarrow> Transaction res \<times> PoolState" where
  "load_block_tx lib ch lastBlock hash s =
    (let (r, s) =
       (case LoadFromDBPoolTx (ch_Crypto ch) TransactionPoolHashesDBPrefix hash (ps_DB s) of
          (Inr tx, db) \<Rightarrow> (Inr tx, s\<lparr>ps_DB := db\<rparr>)
        | (Inl _, db) \<Rightarrow>
            (case recover_body lib ch lastBlock hash (s\<lparr>ps_DB := RemoveTransactionFromDBbyHash TransactionPoolHashesDBPrefix hash db\<rparr>) of
               (Inl e, s) \<Rightarrow> (Inl e, s)
             | (Inr tx, s) \<Rightarrow>
                 (case StoreToDBPoolTx TransactionPoolHashesDBPrefix tx (ps_DB s) of
                    (Some e, db) \<Rightarrow> (Inl e, s\<lparr>ps_DB := db\<rparr>)
                  | (None, db) \<Rightarrow> (Inr tx, s\<lparr>ps_DB := db\<rparr>)))) in
     case r of
       Inl e \<Rightarrow> (Inl e, s)
     | Inr tx \<Rightarrow>
         (case CheckTransactionInDBAndInMarkleTrie hash s of
            (Some e, s) \<Rightarrow> (Inl e, s) | (None, s) \<Rightarrow> (Inr tx, s)))"

fun load_block_txs :: "SigLibrary \<Rightarrow> Chain \<Rightarrow> Block \<Rightarrow> bytes list \<Rightarrow> PoolState \<Rightarrow> Transaction list res \<times> PoolState" where
  "load_block_txs lib ch lastBlock [] s = (Inr [], s)"
| "load_block_txs lib ch lastBlock (hash # hashes) s =
    (case load_block_tx lib ch lastBlock hash s of
       (Inl e, s) \<Rightarrow> (Inl e, s)
     | (Inr tx, s) \<Rightarrow>
         (case load_block_txs lib ch lastBlock hashes s of
            (Inl e, s) \<Rightarrow> (Inl e, s) | (Inr txs, s) \<Rightarrow> (Inr (tx # txs), s)))"

subsection \<open>The checks of the transactions\<close>

text \<open>The variables of the loop of \<open>CheckBlockTransfers\<close>, with the ledger it removes bad transactions from.\<close>

record Tally =
  ta_accounts :: "(bytes, Account) gomap"
  ta_stakingAccounts :: "(bytes, StakingAccount) gomap"
  ta_totalFee :: int64
  ta_totalGas :: int64
  ta_badTxErr :: "err option"
  ta_ledger :: Ledger

definition bad_tx :: "Crypto \<Rightarrow> Transaction \<Rightarrow> string \<Rightarrow> Tally cmd" where
  "bad_tx cr tx msg t = (None,
     t\<lparr>ta_badTxErr := (case ta_badTxErr t of None \<Rightarrow> Some (Errorf msg) | Some e \<Rightarrow> Some e),
       ta_ledger := (ta_ledger t)\<lparr>lg_Pools := RemoveBadTransactionByHash cr (tx_Hash tx) (lg_Pools (ta_ledger t))\<rparr>\<rparr>)"

definition count_fee :: "Transaction \<Rightarrow> int64 \<Rightarrow> Tally cmd" where
  "count_fee tx fee t =
    (let t = t\<lparr>ta_totalFee := ta_totalFee t + fee\<rparr> in
     if sint (GasUsage tx) > 0 then
       if sint (GasUsage tx) > sint MaxGasUsage then (Some (Errorf ''transaction declares gas above the block maximum''), t)
       else
         let t = t\<lparr>ta_totalGas := ta_totalGas t + GasUsage tx\<rparr> in
         (if sint (ta_totalGas t) > sint MaxGasUsagePerBlock then Some (Errorf ''block exceeds the block gas limit'') else None, t)
     else (None, t))"

definition check_running_stake :: "KeyRegistry \<Rightarrow> Transaction \<Rightarrow> int64 \<Rightarrow> int64 \<Rightarrow> int \<Rightarrow> Tally \<Rightarrow> bool \<times> Tally" where
  "check_running_stake reg tx fee height n t =
    (let address = addr_ByteValue (GetSenderAddress tx);
         stakingAcc = GetStakingAccountByAddressBytes (lg_Staking (ta_ledger t)) address (n mod 256);
         stakingAcc = (if sa_Address stakingAcc \<noteq> address
           then stakingAcc\<lparr>sa_Address := address, sa_DelegatedAccount := addr_ByteValue (Recipient (tx_TxData tx))\<rparr> else stakingAcc);
         stakingAcc = (case map_of (ta_stakingAccounts t) (sa_Address stakingAcc) of Some a \<Rightarrow> a | None \<Rightarrow> stakingAcc);
         stakingAcc = stakingAcc\<lparr>StakedBalance := StakedBalance stakingAcc + Amount (tx_TxData tx), StakingRewards := StakingRewards stakingAcc + fee\<rparr>
     in (CheckStakingTransaction reg tx (StakedBalance stakingAcc) (StakingRewards stakingAcc) height (ta_ledger t),
         t\<lparr>ta_stakingAccounts := mput (sa_Address stakingAcc) stakingAcc (ta_stakingAccounts t)\<rparr>))"

definition check_funds :: "Crypto \<Rightarrow> Transaction \<Rightarrow> int64 \<Rightarrow> Tally cmd" where
  "check_funds cr tx fee t =
    (let d = tx_TxData tx; total_amount = fee + Amount d; address = addr_ByteValue (GetSenderAddress tx) in
     case GetAccountByAddressBytes (lg_Accounts (ta_ledger t)) address of
       None \<Rightarrow> bad_tx cr tx ''no account found in check block transafer: CheckBlockTransfers'' t
     | Some acc \<Rightarrow>
         if acc_Address acc \<noteq> address then bad_tx cr tx ''no account found in check block transafer: CheckBlockTransfers'' t
         else if MultiSignTx (tx_TxParam tx) \<noteq> ZerosHash \<and>
           (sint (Amount d) > 0 \<or> length (OptData d) > 0 \<or> sint (td_LockedAmount d) > 0 \<or> unat (td_MultiSignNumber d) > 0)
         then bad_tx cr tx ''transaction which confirms in multi signature account should have amount == 0'' t
         else
           let cur = (case map_of (ta_accounts t) (acc_Address acc) of Some a \<Rightarrow> a | None \<Rightarrow> acc) in
           if sint (acc_Balance cur - total_amount) < 0 then bad_tx cr tx ''not enough funds on account: CheckBlockTransfers'' t
           else (None, t\<lparr>ta_accounts := mput (acc_Address acc) (cur\<lparr>acc_Balance := acc_Balance cur - total_amount\<rparr>) (ta_accounts t)\<rparr>))"

definition check_stake_and_funds :: "Crypto \<Rightarrow> KeyRegistry \<Rightarrow> int64 \<Rightarrow> Transaction \<Rightarrow> int64 \<Rightarrow> Tally cmd" where
  "check_stake_and_funds cr reg height tx fee t =
    (case delegated_account tx of
       Inl e \<Rightarrow> (Some e, t)
     | Inr None \<Rightarrow> check_funds cr tx fee t
     | Inr (Some n) \<Rightarrow>
         if n < 512 then
           (case check_running_stake reg tx fee height n t of
              (ok, t) \<Rightarrow> if ok then check_funds cr tx fee t
                         else bad_tx cr tx ''staking transactions checking fails: CheckBlockTransfers'' t)
         else check_funds cr tx fee t)"

definition check_block_tx :: "Crypto \<Rightarrow> KeyRegistry \<Rightarrow> int64 \<Rightarrow> bool \<times> Transaction \<Rightarrow> Tally cmd" where
  "check_block_tx cr reg height = (\<lambda>(verified, tx) t.
     if \<not> verified then bad_tx cr tx ''transaction fails signature verification'' t
     else if \<not> TransactionHeightInWindow (tx_Height tx) height then bad_tx cr tx ''transaction height outside the window'' t
     else case CalcFee tx of
         Inl e \<Rightarrow> (Some e, t)
       | Inr fee \<Rightarrow>
           steps [
             count_fee tx fee,
             (\<lambda>t. (if CancellationTarget tx = None then None
                   else case validateEscrowCancellation tx height (ta_ledger t) of Inl e \<Rightarrow> Some e | Inr _ \<Rightarrow> None, t)),
             (\<lambda>t. (ValidateContractDeployment (lg_Accounts (ta_ledger t)) tx, t)),
             check_stake_and_funds cr reg height tx fee] t)"

definition GetBlockSupply :: "Block \<Rightarrow> int64" where
  "GetBlockSupply tb = bb_Supply (bl_BaseBlock tb)"

definition new_tally :: "Ledger \<Rightarrow> Tally" where
  "new_tally l = \<lparr>ta_accounts = [], ta_stakingAccounts = [], ta_totalFee = 0, ta_totalGas = 0, ta_badTxErr = None, ta_ledger = l\<rparr>"

definition CheckBlockTransfers :: "SigLibrary \<Rightarrow> Chain \<Rightarrow> int64 \<Rightarrow> Block \<Rightarrow> Block \<Rightarrow> Ledger \<Rightarrow> (int64 \<times> int64) res \<times> Ledger" where
  "CheckBlockTransfers lib ch ratio block lastBlock l =
    (let (r, p) = load_block_txs lib ch lastBlock (bl_TransactionsHashes block) (lg_Pools l); l = l\<lparr>lg_Pools := p\<rparr> in
     case r of
       Inl e \<Rightarrow> (Inl e, l)
     | Inr loaded \<Rightarrow>
         (case verifyBlockTransactions lib ch lastBlock loaded of
            Inl e \<Rightarrow> (Inl e, l)
          | Inr verified \<Rightarrow>
              (case steps (map (check_block_tx (ch_Crypto ch) (ch_Keys ch) (block_height block)) (zip verified loaded)) (new_tally l) of
                 (Some e, t) \<Rightarrow> (Inl e, ta_ledger t)
               | (None, t) \<Rightarrow>
                   (case ta_badTxErr t of
                      Some e \<Rightarrow> (Inl e, ta_ledger t)
                    | None \<Rightarrow>
                        (case GetReward ratio (GetBlockSupply lastBlock) of
                           Inl e \<Rightarrow> (Inl e, ta_ledger t)
                         | Inr reward \<Rightarrow>
                             if GetBlockSupply lastBlock + reward \<noteq> GetBlockSupply block
                             then (Inl (Errorf ''block supply checking fails: CheckBlockTransfers''), ta_ledger t)
                             else (Inr (reward, ta_totalFee t), ta_ledger t))))))"

subsection \<open>Transfers and reward\<close>

definition apply_block_tx :: "Crypto \<Rightarrow> bool \<Rightarrow> int64 \<Rightarrow> Block \<Rightarrow> bytes \<Rightarrow> Ledger cmd" where
  "apply_block_tx cr ok now block hash l =
    (case CheckTransactionInDBAndInMarkleTrie hash (lg_Pools l) of
       (Some e, p) \<Rightarrow> (Some e, l\<lparr>lg_Pools := p\<rparr>)
     | (None, p) \<Rightarrow>
         (case LoadFromDBPoolTx cr TransactionPoolHashesDBPrefix hash (ps_DB p) of
            (Inl e, db) \<Rightarrow> (Some e, l\<lparr>lg_Pools := p\<lparr>ps_DB := db\<rparr>\<rparr>)
          | (Inr tx, db) \<Rightarrow>
              (case steps [ProcessTransaction cr ok now tx (block_height block) (bb_BlockTimeStamp (bl_BaseBlock block)),
                           ProcessTransactionsMultiSign cr tx (block_height block)] (l\<lparr>lg_Pools := p\<lparr>ps_DB := db\<rparr>\<rparr>) of
                 (Some e, l) \<Rightarrow> (Some e, l\<lparr>lg_Pools := RemoveBadTransactionByHash cr (tx_Hash tx) (lg_Pools l)\<rparr>)
               | (None, l) \<Rightarrow> (None, l))))"

text \<open>The share of one staking account, computed with big integers.\<close>

definition user_reward :: "int64 \<Rightarrow> int64 \<Rightarrow> int64 \<Rightarrow> int64" where
  "user_reward reward balance tot = word_of_int (sint reward * sint balance div sint tot)"

text \<open>Paying the operator, the shares, and the operator again with the rest of the rounding.\<close>

definition pay_shares :: "int64 \<Rightarrow> int64 \<Rightarrow> int \<Rightarrow> bytes \<Rightarrow> int64 \<Rightarrow> (bytes \<times> int64) list \<Rightarrow> int64 \<Rightarrow> Ledger cmd" where
  "pay_shares now height n addr rewardOper shares rest =
    (let pay = (\<lambda>(a, r). on_staking (Reward now a r height n)) in
     steps (pay (addr, rewardOper) # map pay shares @
       [if sint rest > 0 then pay (addr, rest)
        else if sint rest < 0 then (\<lambda>l. (Some (Errorf ''this should not happen anytime: ProcessBlockTransfers''), l))
        else (\<lambda>l. (None, l))]))"

definition distribute_reward :: "int64 \<Rightarrow> Block \<Rightarrow> int64 \<Rightarrow> Ledger cmd" where
  "distribute_reward now block reward l =
    (let addr = addr_ByteValue (bh_OperatorAccount (GetHeader block));
         rewardPerc = bb_RewardPercentage (bl_BaseBlock block) in
     case IntDelegatedAccountFromAddress (bh_DelegatedAccount (GetHeader block)) of
       Inl _ \<Rightarrow> (Some (Errorf ''wrong delegated account in block: ProcessBlockTransfers''), l)
     | Inr n \<Rightarrow>
         if n < 1 \<or> n > 255 then (Some (Errorf ''wrong delegated account in block: ProcessBlockTransfers''), l)
         else
           let (staked, tot, _) = GetStakedInDelegatedAccount (lg_Staking l) (nat n) in
           if sint tot \<le> 0 then (Some (Errorf ''no staked amount in delegated account which was rewarded: ProcessBlockTransfers''), l)
           else if sint rewardPerc > 500 then (Some (Errorf ''reward has to be smaller than 50''), l)
           else
             let rewardOper = go_div (reward * scast rewardPerc) 1000;
                 reward = reward - rewardOper;
                 shares = map (\<lambda>(balance, a). (a, user_reward reward balance tot)) (filter (\<lambda>(balance, _). sint balance > 0) staked);
                 rest = reward - sum_list (map snd shares)
             in pay_shares now (block_height block) n addr rewardOper shares rest l)"

text \<open>Everything before the settlement of the escrow, and the whole; a failed settlement is only logged.\<close>

definition block_transfers :: "Crypto \<Rightarrow> bool \<Rightarrow> int64 \<Rightarrow> Block \<Rightarrow> int64 \<Rightarrow> Ledger cmd" where
  "block_transfers cr ok now block reward l =
     steps (map (apply_block_tx cr ok now block) (bl_TransactionsHashes block) @
         [distribute_reward now block reward, on_staking (applyRandaoCommit block)])
       (l\<lparr>lg_Pools := BeginPendingPoolJournal cr (block_height block) (lg_Pools l)\<rparr>)"

definition ProcessBlockTransfers :: "Crypto \<Rightarrow> bool \<Rightarrow> int64 \<Rightarrow> Block \<Rightarrow> int64 \<Rightarrow> Ledger cmd" where
  "ProcessBlockTransfers cr ok now block reward l =
    (let (e, l) = block_transfers cr ok now block reward l;
         l = (if e = None then snd (ProcessTransactionsEscrow cr (block_height block) l) else l)
     in (e, l\<lparr>lg_Pools := EndPendingPoolJournal (lg_Pools l)\<rparr>))"

definition RemoveAllTransactionsRelatedToBlock :: "Block \<Rightarrow> PoolState \<Rightarrow> PoolState" where
  "RemoveAllTransactionsRelatedToBlock newBlock s =
     fold (\<lambda>hash s. s\<lparr>PoolsTx := RemoveTransactionByHash hash (PoolsTx s),
       ps_DB := RemoveTransactionFromDBbyHash TransactionPoolHashesDBPrefix hash (ps_DB s)\<rparr>) (bl_TransactionsHashes newBlock) s"


subsection \<open>Applying a block\<close>

text \<open>The state of a node, and what applying a block takes from outside the model: the signature library,
  the crypto parameters, the reward ratio, the encoding of tree nodes, the bytes of the exchange and
  contract sections of the state root, contract evaluation, wallet adoption, whether the history
  database answers, and the clock.\<close>

record Node =
  nd_Ledger :: Ledger
  nd_Keys :: KeyRegistry
  nd_Enc :: EncryptionState
  nd_Votes :: VotingState

record Env =
  env_lib :: SigLibrary
  env_ch :: Chain
  env_ratio :: int64
  env_json :: "MerkleNode list \<Rightarrow> bytes"
  env_vm :: bytes
  env_evaluate :: "Block \<Rightarrow> Ledger \<Rightarrow> bool \<times> Ledger"
  env_wallet :: "string \<Rightarrow> bool \<Rightarrow> int64 \<Rightarrow> err option"
  env_history :: bool
  env_now :: int64

definition node_chain :: "Env \<Rightarrow> Node \<Rightarrow> Chain" where
  "node_chain env nd = (env_ch env)\<lparr>ch_Accounts := lg_Accounts (nd_Ledger nd), ch_Keys := nd_Keys nd,
     ch_Crypto := (ch_Crypto (env_ch env))\<lparr>cr_enc := nd_Enc nd\<rparr>\<rparr>"

text \<open>The checks that \<open>CheckBlockAndTransactions\<close> and \<open>CheckBlockAndTransferFunds\<close> begin with.\<close>

definition producer_checks :: "Env \<Rightarrow> Node \<Rightarrow> Block \<Rightarrow> Block \<Rightarrow> err option" where
  "producer_checks env nd newBlock lastBlock =
    (let ch = node_chain env nd; l = nd_Ledger nd in
     case verifyBlockHeaderSignature (env_lib env) ch newBlock lastBlock of
       Some e \<Rightarrow> Some e
     | None \<Rightarrow>
         case VerifyStateRoot (cr_H256 (ch_Crypto ch)) (lg_Accounts l) (lg_Staking l) (env_vm env) newBlock of
           Some e \<Rightarrow> Some e
         | None \<Rightarrow>
             case VerifyStakeDependent (env_lib env) ch (lg_Staking l) newBlock lastBlock of
               Some e \<Rightarrow> Some e
             | None \<Rightarrow>
                 (case IntDelegatedAccountFromAddress (bh_DelegatedAccount (GetHeader newBlock)) of
                    Inl _ \<Rightarrow> Some (Errorf ''wrong delegated account'')
                  | Inr n \<Rightarrow>
                      if n < 1 \<or> n > 255 then Some (Errorf ''wrong delegated account'')
                      else
                        let (_, sumStaked, (_, opAcc)) = GetStakedInDelegatedAccount (lg_Staking l) (nat n) in
                        if sint sumStaked < sint MinStakingForNode \<or> opAcc \<noteq> addr_ByteValue (bh_OperatorAccount (GetHeader newBlock))
                        then Some (Errorf ''not enough staked coins to be a node or not valid operetional account'') else None))"

definition checked_block :: "Env \<Rightarrow> Block \<Rightarrow> Block \<times> Node \<Rightarrow> int64 res \<times> Block \<times> Node" where
  "checked_block env lastBlock = (\<lambda>(newBlock, nd).
     case producer_checks env nd newBlock lastBlock of
       Some e \<Rightarrow> (Inl e, newBlock, nd)
     | None \<Rightarrow>
         (case CheckBlockTransfers (env_lib env) (node_chain env nd) (env_ratio env) newBlock lastBlock (nd_Ledger nd) of
            (Inl e, l) \<Rightarrow> (Inl e, newBlock, nd\<lparr>nd_Ledger := l\<rparr>)
          | (Inr (reward, totalFee), l) \<Rightarrow>
              let newBlock = newBlock\<lparr>bl_BlockFee := totalFee + bl_BlockFee lastBlock\<rparr> in
              (case env_evaluate env newBlock l of
                 (ok, l) \<Rightarrow> (if ok then Inr reward else Inl (Errorf ''evaluation of smart contracts in block fails''), newBlock, nd\<lparr>nd_Ledger := l\<rparr>))))"

definition CheckBlockAndTransactions :: "Env \<Rightarrow> Block \<Rightarrow> bool \<Rightarrow> (Block \<times> Node) cmd" where
  "CheckBlockAndTransactions env lastBlock checkFinal s =
    (case checked_block env lastBlock s of
       (Inl e, s) \<Rightarrow> (Some e, s)
     | (Inr reward, newBlock, nd) \<Rightarrow>
         let (staked, rewarded) = GetSupplyInStakedAccounts (lg_Staking (nd_Ledger nd)) in
         (if checkFinal \<and> GetSupplyInAccounts (lg_Accounts (nd_Ledger nd)) + staked + rewarded + bl_BlockFee lastBlock \<noteq> GetBlockSupply newBlock
          then Some (Errorf ''block supply checking fails vs account balances: CheckBlockAndTransactions'') else None, newBlock, nd))"

text \<open>The batch that moves the bodies of a block from the pool to the confirmed transactions; it reads the
  database as it was before the batch.\<close>

definition commit_block_txs :: "Block \<Rightarrow> PoolState \<Rightarrow> PoolState" where
  "commit_block_txs newBlock s =
    (let height = GetByteInt64 (block_height newBlock);
         found = filter (\<lambda>(_, b). b \<noteq> None \<and> b \<noteq> Some [])
           (map (\<lambda>h. (h, map_of (ps_DB s) (TransactionPoolHashesDBPrefix @ h))) (bl_TransactionsHashes newBlock));
         write = (\<lambda>(h, b) db. mdel (TransactionPoolHashesDBPrefix @ h)
           (mput (IncludedTxDBPrefix @ h) height (mput (TransactionDBPrefix @ h) (the b) db)))
     in s\<lparr>PoolsTx := fold (\<lambda>(h, _). RemoveTransactionByHash h) found (PoolsTx s), ps_DB := fold write found (ps_DB s)\<rparr>)"

definition adopt_encryption :: "Env \<Rightarrow> Block \<Rightarrow> Block \<Rightarrow> Node \<Rightarrow> Node" where
  "adopt_encryption env newBlock lastBlock nd =
    (let p = lg_Pools (nd_Ledger nd);
         st = snd (ProcessBlockEncryption (env_lib env) (env_wallet env) newBlock lastBlock
           \<lparr>ss_Pool = PoolsTx p, ss_Enc = nd_Enc nd, ss_Votes = nd_Votes nd\<rparr>)
     in nd\<lparr>nd_Ledger := (nd_Ledger nd)\<lparr>lg_Pools := p\<lparr>PoolsTx := ss_Pool st\<rparr>\<rparr>, nd_Enc := ss_Enc st, nd_Votes := ss_Votes st\<rparr>)"

definition prepare_transfers :: "Env \<Rightarrow> Block \<Rightarrow> MerkleTree \<Rightarrow> Block \<times> Node \<Rightarrow> int64 res \<times> Block \<times> Node" where
  "prepare_transfers env lastBlock tree s =
    (case checked_block env lastBlock s of
       (Inl e, s) \<Rightarrow> (Inl e, s)
     | (Inr reward, newBlock, nd) \<Rightarrow>
         let l = nd_Ledger nd; (staked, rewarded) = GetSupplyInStakedAccounts (lg_Staking l) in
         if GetSupplyInAccounts (lg_Accounts l) + staked + rewarded + reward + bl_BlockFee lastBlock \<noteq> GetBlockSupply newBlock
         then (Inl (Errorf ''block supply checking fails vs account balances: CheckBlockAndTransferFunds''), newBlock, nd)
         else
           let cr = ch_Crypto (node_chain env nd);
               (e, db, reg) = ProcessBlockPubKey cr (bl_TransactionsHashes newBlock) (block_height newBlock) (ps_DB (lg_Pools l), nd_Keys nd);
               db = (if e = None then StoreTree (env_json env) (block_height newBlock) tree db else db)
           in (case e of Some e \<Rightarrow> Inl e | None \<Rightarrow> Inr reward, newBlock,
               nd\<lparr>nd_Ledger := l\<lparr>lg_Pools := (lg_Pools l)\<lparr>ps_DB := db\<rparr>\<rparr>, nd_Keys := reg\<rparr>))"

definition CheckBlockAndTransferFunds :: "Env \<Rightarrow> Block \<Rightarrow> MerkleTree \<Rightarrow> (Block \<times> Node) cmd" where
  "CheckBlockAndTransferFunds env lastBlock tree s =
    (case prepare_transfers env lastBlock tree s of
       (Inl e, s) \<Rightarrow> (Some e, s)
     | (Inr reward, newBlock, nd) \<Rightarrow>
         (case ProcessBlockTransfers (ch_Crypto (node_chain env nd)) (env_history env) (env_now env) newBlock reward (nd_Ledger nd) of
            (Some e, l) \<Rightarrow> (Some e, newBlock, nd\<lparr>nd_Ledger := l\<rparr>)
          | (None, l) \<Rightarrow>
              let l = l\<lparr>lg_Accounts := applyRecoveryMaintenance (env_lib env) newBlock lastBlock (lg_Accounts l),
                   lg_Pools := RemoveAllTransactionsRelatedToBlock newBlock (commit_block_txs newBlock (lg_Pools l))\<rparr>
              in (None, newBlock, adopt_encryption env newBlock lastBlock (nd\<lparr>nd_Ledger := l\<rparr>))))"

end
