(* ===== verification/Block_Supply.thy ===== *)
theory Block_Supply
  imports Block_Apply
begin

text \<open>
  What applying the transactions of a block does to the ledger: which bodies survive in the pool database
  until they are applied, how the transfers and the distribution of the reward move the sum of all
  coins, that the settlement of the escrow loses nothing, and what loading bodies leaves alone.
\<close>

subsection \<open>The bodies in the pool database\<close>

text \<open>Applying transactions writes under other prefixes: the body of a transaction in the pool database
  stays as it is or disappears.\<close>

definition shrinks :: "DB \<Rightarrow> DB \<Rightarrow> bool" where
  "shrinks db db' \<longleftrightarrow> (\<forall>h. map_of db' (TransactionPoolHashesDBPrefix @ h) = None \<or>
     map_of db' (TransactionPoolHashesDBPrefix @ h) = map_of db (TransactionPoolHashesDBPrefix @ h))"

lemma shrinks_refl [simp, intro]: "shrinks db db"
  by (simp add: shrinks_def)

lemma shrinks_trans [trans]: "shrinks db db' \<Longrightarrow> shrinks db' db'' \<Longrightarrow> shrinks db db''"
  unfolding shrinks_def by metis

lemma shrinks_mput: "take 2 k \<noteq> TransactionPoolHashesDBPrefix \<Longrightarrow> shrinks db db' \<Longrightarrow> shrinks db (mput k v db')"
  by (auto simp: shrinks_def string_bytes_def)

lemma shrinks_mdel: "shrinks db db' \<Longrightarrow> shrinks db (mdel k db')"
  by (auto simp: shrinks_def delete_conv')

lemma shrinks_Load: "shrinks db (snd (LoadFromDBPoolTx cr prefix h db))"
  by (simp add: LoadFromDBPoolTx_def Let_def shrinks_mdel [OF shrinks_refl] split: option.split sum.split prod.split)

lemma shrinks_Store:
  assumes "take 2 prefix \<noteq> TransactionPoolHashesDBPrefix" "length prefix = 2" "shrinks db db'"
  shows "shrinks db (snd (StoreToDBPoolTx prefix tx db'))"
  using assms by (auto simp: StoreToDBPoolTx_def Let_def intro: shrinks_mput)

abbreviation pool_shrinks :: "(PoolState \<Rightarrow> PoolState) \<Rightarrow> bool" where
  "pool_shrinks f \<equiv> \<forall>p. shrinks (ps_DB p) (ps_DB (f p))"

lemma journal_shrinks: "shrinks (ps_DB p) (ps_DB (journalPendingChange pool kind tx p))"
  by (auto simp: journalPendingChange_def Let_def pendingJournalPrefix_def string_bytes_def intro!: shrinks_mput)

lemma pending_shrinks:
  "shrinks (ps_DB p) (ps_DB (snd (AddEscrowTransaction tx p)))" "shrinks (ps_DB p) (ps_DB (RemoveEscrowTransaction h p))"
  "shrinks (ps_DB p) (ps_DB (snd (AddMultiSignTransaction tx p)))" "shrinks (ps_DB p) (ps_DB (RemoveMultiSignTransaction h p))"
proof -
  have j: "shrinks (ps_DB p) (ps_DB (journalPendingChange pool kind tx (p\<lparr>PoolTxEscrow := q\<rparr>)))"
      "shrinks (ps_DB p) (ps_DB (journalPendingChange pool kind tx (p\<lparr>PoolTxMultiSign := q\<rparr>)))" for pool kind tx q
    using journal_shrinks [of "p\<lparr>PoolTxEscrow := q\<rparr>"] journal_shrinks [of "p\<lparr>PoolTxMultiSign := q\<rparr>"] by simp_all
  show "shrinks (ps_DB p) (ps_DB (snd (AddEscrowTransaction tx p)))" "shrinks (ps_DB p) (ps_DB (snd (AddMultiSignTransaction tx p)))"
    by (auto simp: AddEscrowTransaction_def AddMultiSignTransaction_def Let_def string_bytes_def intro!: shrinks_Store j split: prod.split)
  show "shrinks (ps_DB p) (ps_DB (RemoveEscrowTransaction h p))" "shrinks (ps_DB p) (ps_DB (RemoveMultiSignTransaction h p))"
    by (auto simp: RemoveEscrowTransaction_def RemoveMultiSignTransaction_def Let_def RemoveTransactionFromDBbyHash_def
        intro!: shrinks_mdel journal_shrinks split: option.split)
qed

lemma markVoided_shrinks: "shrinks (ps_DB p) (ps_DB (markVoided h height reason p))"
  by (auto simp: markVoided_def string_bytes_def intro!: shrinks_mput)

lemma removal_shrinks:
  "shrinks (ps_DB p) (ps_DB (RemoveFromAllPools h p))" "ps_DB (BanInAllPools h p) = ps_DB p"
  "shrinks (ps_DB p) (ps_DB (RemoveDuplicateTransactionByHash h p))" "shrinks (ps_DB p) (ps_DB (snd (CheckTransactionInDBAndInMarkleTrie h p)))"
proof -
  show r: "shrinks (ps_DB q) (ps_DB (RemoveFromAllPools h q))" for q
    using pending_shrinks(2) [of "q\<lparr>PoolsTx := RemoveTransactionByHash h (PoolsTx q)\<rparr>" h] by (simp add: RemoveFromAllPools_def Let_def)
  show b: "ps_DB (BanInAllPools h q) = ps_DB q" for q
    by (simp add: BanInAllPools_def)
  show d: "shrinks (ps_DB q) (ps_DB (RemoveDuplicateTransactionByHash h q))" for q
    using r [of q] by (simp add: RemoveDuplicateTransactionByHash_def Let_def b RemoveTransactionFromDBbyHash_def shrinks_mdel)
  show "shrinks (ps_DB p) (ps_DB (snd (CheckTransactionInDBAndInMarkleTrie h p)))"
    using d by (simp add: CheckTransactionInDBAndInMarkleTrie_def split: option.split)
qed

lemma bad_shrinks: "shrinks (ps_DB p) (ps_DB (RemoveBadTransactionByHash cr h p))"
proof -
  define q where "q = RemoveFromAllPools h p"
  obtain r db where r: "LoadFromDBPoolTx cr TransactionPoolHashesDBPrefix h (ps_DB q) = (r, db)" by fastforce
  obtain r' db' where r': "(case r of Inr tx \<Rightarrow> (Inr tx, db) | Inl _ \<Rightarrow> LoadFromDBPoolTx cr TransactionDBPrefix h db) = (r', db')" by fastforce
  have "shrinks (ps_DB p) (ps_DB q)"
    by (simp add: q_def removal_shrinks)
  also have "shrinks (ps_DB q) db"
    using shrinks_Load [of "ps_DB q" cr TransactionPoolHashesDBPrefix h] r by simp
  also have "shrinks db db'"
    using r' shrinks_Load [of db cr TransactionDBPrefix h] by (cases r) auto
  finally have s: "shrinks (ps_DB p) db'" .
  define db'' where "db'' = RemoveTransactionFromDBbyHash TransactionPoolHashesDBPrefix h
    (case r' of Inr tx \<Rightarrow> if length (Transaction_GetBytes tx) > 0 then snd (StoreToDBPoolTx BadTransactionDBPrefix tx db') else db' | Inl _ \<Rightarrow> db')"
  have "shrinks (ps_DB p) db''"
    unfolding db''_def RemoveTransactionFromDBbyHash_def
    by (rule shrinks_mdel) (auto intro!: shrinks_Store s simp: string_bytes_def split: sum.split)
  moreover have "RemoveBadTransactionByHash cr h p = BanInAllPools h (snd (CheckTransactionInDBAndInMarkleTrie h (q\<lparr>ps_DB := db''\<rparr>)))"
    unfolding RemoveBadTransactionByHash_def Let_def q_def [symmetric] r prod.case r' db''_def ..
  ultimately show ?thesis
    using shrinks_trans [OF _ removal_shrinks(4) [of "q\<lparr>ps_DB := db''\<rparr>" h], of "ps_DB p"] by (simp add: removal_shrinks(2))
qed


text \<open>The same for commands of the ledger.\<close>

definition lshrinks :: "Ledger cmd \<Rightarrow> bool" where
  "lshrinks c \<longleftrightarrow> (\<forall>l. shrinks (ps_DB (lg_Pools l)) (ps_DB (lg_Pools (snd (c l)))))"

named_theorems shrinks_intros

lemma lshrinks_plain [shrinks_intros]:
  "lshrinks (\<lambda>l. (e, l))" "lshrinks (on_accounts f)" "lshrinks (on_staking g)"
  "(\<And>p. shrinks (ps_DB p) (ps_DB (q p))) \<Longrightarrow> lshrinks (on_pools q)"
  by (simp_all add: lshrinks_def on_accounts_def on_staking_def on_pools_def split_beta)

lemma lshrinks_then: "lshrinks c \<Longrightarrow> lshrinks c' \<Longrightarrow> lshrinks (then_ok c c')"
  unfolding lshrinks_def
proof (intro allI)
  fix l
  assume c: "\<forall>l. shrinks (ps_DB (lg_Pools l)) (ps_DB (lg_Pools (snd (c l))))" and c': "\<forall>l. shrinks (ps_DB (lg_Pools l)) (ps_DB (lg_Pools (snd (c' l))))"
  obtain r m where m: "c l = (r, m)" by fastforce
  show "shrinks (ps_DB (lg_Pools l)) (ps_DB (lg_Pools (snd (then_ok c c' l))))"
    using spec [OF c, of l] shrinks_trans [OF _ spec [OF c', of m]] by (cases r) (simp_all add: then_ok_def m)
qed

lemma lshrinks_steps [shrinks_intros]: "(\<And>c. c \<in> set cs \<Longrightarrow> lshrinks c) \<Longrightarrow> lshrinks (steps cs)"
proof (induction cs)
  case Nil
  then show ?case by (simp add: lshrinks_def)
next
  case (Cons c cs)
  have "steps (c # cs) = then_ok c (steps cs)"
    by (simp add: fun_eq_iff)
  then show ?case
    using lshrinks_then [of c "steps cs"] Cons by simp
qed

lemma lshrinksD: "lshrinks c \<Longrightarrow> shrinks (ps_DB (lg_Pools l)) (ps_DB (lg_Pools (snd (c l))))"
  by (simp add: lshrinks_def)

lemma history_shrinks: "shrinks (ps_DB (lg_Pools l)) (ps_DB (lg_Pools (history_sender ok a h l)))"
  "shrinks (ps_DB (lg_Pools l)) (ps_DB (lg_Pools (history_recipient ok a h l)))"
proof -
  have "shrinks db (snd (AddTransactionsSender ok a h (at, db)))" "shrinks db (snd (AddTransactionsRecipient ok a h (at, db)))" for at db
    by (simp_all add: AddTransactionsSender_def AddTransactionsRecipient_def Let_def appendTxHistory_def txHistoryKey_def string_bytes_def shrinks_mput)
  then show "shrinks (ps_DB (lg_Pools l)) (ps_DB (lg_Pools (history_sender ok a h l)))"
    "shrinks (ps_DB (lg_Pools l)) (ps_DB (lg_Pools (history_recipient ok a h l)))"
    by (simp_all add: history_sender_def history_recipient_def split_beta)
qed

lemma history_lshrinks [shrinks_intros]: "lshrinks (\<lambda>l. (None, history_sender ok a h l))"
  by (simp add: lshrinks_def history_shrinks)

lemma settleCommitment_lshrinks [shrinks_intros]: "lshrinks (settleCommitment tx h)"
  by (simp add: settleCommitment_def split_beta shrinks_intros)


lemma pools_lshrinks [shrinks_intros]:
  "lshrinks (on_pools (\<lambda>p. snd (AddEscrowTransaction tx p)))" "lshrinks (on_pools (RemoveEscrowTransaction h))"
  "lshrinks (on_pools (\<lambda>p. snd (AddMultiSignTransaction tx p)))" "lshrinks (on_pools (RemoveMultiSignTransaction h))"
  "lshrinks (on_pools (\<lambda>p. p\<lparr>PoolTxEscrow := f p\<rparr>))" "lshrinks (on_pools (markVoided h height reason))"
  by (rule lshrinks_plain(4), simp add: pending_shrinks markVoided_shrinks)+

lemma two_lshrinks: "lshrinks c \<Longrightarrow> lshrinks c' \<Longrightarrow> lshrinks (steps [c, c'])"
  by (rule lshrinks_steps) auto

lemma process_lshrinks:
  "lshrinks (process_staking tx fee h t n)" "lshrinks (process_reward now tx fee h n)" "lshrinks (process_transfer tx fee h)"
  "lshrinks (process_cancellation tx th fee h)"
proof -
  show "lshrinks (process_staking tx fee h t n)"
    unfolding process_staking_def Let_def by (auto intro!: shrinks_intros simp del: steps.simps)
  have "lshrinks (steps [on_staking (WithdrawReward now a amount h d), on_accounts (AddBalance b x)])" for a amount d b x
    by (auto intro!: shrinks_intros simp del: steps.simps)
  then show "lshrinks (process_reward now tx fee h n)"
    unfolding lshrinks_def process_reward_def Let_def by (simp del: steps.simps)
  have "lshrinks (steps [on_accounts (AddBalance a x), on_pools (RemoveEscrowTransaction th),
      on_pools (\<lambda>p. p\<lparr>PoolTxEscrow := BanTransactionByHash th (PoolTxEscrow p)\<rparr>), on_pools (markVoided th h r)])" for a x r
    by (auto intro!: shrinks_intros simp del: steps.simps)
  then show "lshrinks (process_cancellation tx th fee h)"
    unfolding lshrinks_def process_cancellation_def by (simp del: steps.simps split: sum.split)
  have "lshrinks (steps [c, on_accounts f, on_accounts g])" if "lshrinks c" for c f g
    using that by (auto intro!: shrinks_intros simp del: steps.simps)
  moreover have "lshrinks (steps [if b then on_pools (\<lambda>p. snd (AddMultiSignTransaction tx p)) else (\<lambda>l. (None, l)),
      if b' then (\<lambda>l. (None, l)) else steps [on_accounts f, on_accounts g]])" for b b' f g
    by (auto intro!: two_lshrinks shrinks_intros simp del: steps.simps)
  ultimately show "lshrinks (process_transfer tx fee h)"
    unfolding lshrinks_def [of "process_transfer tx fee h"] process_transfer_def Let_def
    by (auto intro!: lshrinksD shrinks_intros simp del: steps.simps split: option.split)
qed

lemma processRecovery_shrinks:
  assumes "processRecoveryTransaction cr ok tx height fee l = Some r"
  shows "shrinks (ps_DB (lg_Pools l)) (ps_DB (lg_Pools (snd r)))"
proof -
  let ?hist = "\<lambda>a l. (None :: err option, history_sender ok a (tx_Hash tx) l)"
  have h: "shrinks (ps_DB (lg_Pools l)) (ps_DB (lg_Pools (snd (steps [?hist a, on_accounts f, on_accounts g, on_accounts k] l))))"
    "lshrinks c \<Longrightarrow> shrinks (ps_DB (lg_Pools l)) (ps_DB (lg_Pools (snd (steps [?hist a, c, on_accounts g] l))))" for a c f g k
    by (rule lshrinksD, auto intro!: shrinks_intros simp del: steps.simps)+
  have b: "shrinks (ps_DB (lg_Pools l)) (ps_DB (lg_Pools (snd (on_accounts f ((history_sender ok a x l)\<lparr>lg_Accounts := at\<rparr>)))))" for f a x at
    using history_shrinks(1) [of l ok a x] by (simp add: on_accounts_def split_beta)
  show ?thesis
    using assms unfolding processRecoveryTransaction_def Let_def
    by (auto simp del: steps.simps intro!: h b shrinks_intros split: if_splits sum.splits option.splits)
qed

lemma ProcessTransaction_lshrinks: "lshrinks (ProcessTransaction cr ok now tx h t)"
  unfolding lshrinks_def
proof
  fix l :: Ledger
  define s where "s = history_recipient ok (addr_ByteValue (Recipient (tx_TxData tx))) (tx_Hash tx)
    (history_sender ok (addr_ByteValue (GetSenderAddress tx)) (tx_Hash tx) l)"
  have s: "shrinks (ps_DB (lg_Pools l)) (ps_DB (lg_Pools s))"
    unfolding s_def by (rule shrinks_trans [OF history_shrinks(1) history_shrinks(2)])
  have d: "lshrinks (process_delegated now tx fee h t n)" for fee n
    unfolding process_delegated_def by (auto intro: process_lshrinks lshrinks_plain)
  show "shrinks (ps_DB (lg_Pools l)) (ps_DB (lg_Pools (snd (ProcessTransaction cr ok now tx h t l))))"
    unfolding ProcessTransaction_def Let_def s_def [symmetric]
    using s shrinks_trans [OF s lshrinksD] d process_lshrinks
    by (auto dest: processRecovery_shrinks split: sum.split option.split)
qed


lemma settle_lshrinks: "lshrinks (move_settled cr tx)" "lshrinks (settle_multisign cr tx acc h)"
proof -
  show m: "lshrinks (move_settled cr tx)"
    unfolding lshrinks_def move_settled_def
    by (auto simp: on_accounts_def bad_shrinks split_beta split: prod.split option.split)
  show "lshrinks (settle_multisign cr tx acc h)"
    unfolding lshrinks_def settle_multisign_def
    by (auto intro!: lshrinksD [OF two_lshrinks] shrinks_intros m simp del: steps.simps split: sum.split option.split)
qed

lemma drop_group_shrinks:
  assumes "\<And>h p. shrinks (ps_DB p) (ps_DB (mark h p))"
  shows "shrinks (ps_DB p) (ps_DB (drop_group txs mark p))"
  unfolding drop_group_def
proof (induction txs arbitrary: p)
  case (Cons t txs)
  show ?case
    using shrinks_trans [OF shrinks_trans [OF pending_shrinks(4) assms] Cons] by simp
qed simp

lemma loadMultiSignMainTx_shrinks: "shrinks db (snd (loadMultiSignMainTx cr h db))"
proof -
  obtain r db' where r: "LoadFromDBPoolTx cr TransactionDBPrefix h db = (r, db')" by fastforce
  have "shrinks db db'"
    using shrinks_Load [of db cr TransactionDBPrefix h] r by simp
  then show ?thesis
    using shrinks_trans [OF _ shrinks_Load [of db' cr TransactionPoolHashesDBPrefix h]]
    by (cases r) (simp_all add: loadMultiSignMainTx_def r)
qed

lemma find_main_shrinks: "shrinks (ps_DB p) (ps_DB (snd (find_main cr h txs p)))"
proof (cases "find (\<lambda>t. tx_Hash t = h) txs")
  case None
  obtain r db where r: "loadMultiSignMainTx cr h (ps_DB p) = (r, db)" by fastforce
  have "shrinks (ps_DB p) db"
    using loadMultiSignMainTx_shrinks [of "ps_DB p" cr h] r by simp
  then show ?thesis
    using shrinks_trans [OF _ pending_shrinks(3) [of "p\<lparr>ps_DB := db\<rparr>"], of "ps_DB p"] by (cases r) (simp_all add: find_main_def None r)
qed (simp add: find_main_def)

lemma ProcessTransactionsMultiSign_lshrinks: "lshrinks (ProcessTransactionsMultiSign cr tx h)"
  unfolding lshrinks_def
proof
  fix l :: Ledger
  define txs where "txs = PeekTransactions (PoolTxMultiSign (lg_Pools l)) MaxTransactionInPool (int64_of_hash (MultiSignTx (tx_TxParam tx)))"
  obtain main p where p: "find_main cr (MultiSignTx (tx_TxParam tx)) txs (lg_Pools l) = (main, p)" by fastforce
  have s: "shrinks (ps_DB (lg_Pools l)) (ps_DB p)"
    using find_main_shrinks [of "lg_Pools l" cr _ txs] p by (metis snd_conv)
  have d: "shrinks (ps_DB (lg_Pools l)) (ps_DB (drop_group txs (\<lambda>_ p. p) p))"
      "shrinks (ps_DB (lg_Pools l)) (ps_DB (drop_group txs (\<lambda>x. markVoided x h r) p))" for r
    by (rule shrinks_trans [OF s drop_group_shrinks], simp add: markVoided_shrinks)+
  have m: "shrinks (ps_DB (lg_Pools l)) (ps_DB (lg_Pools (snd (settle_multisign cr t acc h (l\<lparr>lg_Pools := p\<rparr>)))))" for t acc
    using shrinks_trans [OF s] lshrinksD [OF settle_lshrinks(2), of "l\<lparr>lg_Pools := p\<rparr>"] by simp
  show "shrinks (ps_DB (lg_Pools l)) (ps_DB (lg_Pools (snd (ProcessTransactionsMultiSign cr tx h l))))"
    unfolding ProcessTransactionsMultiSign_def Let_def txs_def [symmetric] p prod.case
    using s d m by (simp split: option.split)
qed

subsection \<open>Applying one transaction of a block\<close>

text \<open>The fee a body pays, and what it adds to the coins.\<close>

definition fee_of :: "Transaction \<Rightarrow> int64" where
  "fee_of tx = (case CalcFee tx of Inl _ \<Rightarrow> 0 | Inr fee \<Rightarrow> fee)"

definition paid :: "Transaction \<Rightarrow> int64" where
  "paid tx = (if reward_deposit tx then 0 else fee_of tx)"

abbreviation pool_body :: "Crypto \<Rightarrow> bytes \<Rightarrow> DB \<Rightarrow> Transaction res" where
  "pool_body cr h db \<equiv> fst (LoadFromDBPoolTx cr TransactionPoolHashesDBPrefix h db)"

text \<open>The ledger is in order and its pool database has lost at most some bodies since \<open>db\<close>.\<close>

definition carries :: "DB \<Rightarrow> Ledger \<Rightarrow> bool" where
  "carries db l \<longleftrightarrow> ledger_ok l \<and> shrinks db (ps_DB (lg_Pools l))"

lemma pool_body_shrinks:
  assumes "shrinks db db'" "LoadFromDBPoolTx cr TransactionPoolHashesDBPrefix h db' = (Inr tx, db'')"
  shows "pool_body cr h db = Inr tx \<and> db'' = db'"
proof (cases "map_of db' (TransactionPoolHashesDBPrefix @ h)")
  case None
  then show ?thesis
    using assms(2) by (simp add: LoadFromDBPoolTx_def)
next
  case (Some bt)
  then have "map_of db (TransactionPoolHashesDBPrefix @ h) = Some bt"
    using assms(1) by (auto simp: shrinks_def dest: spec [of _ h])
  with Some show ?thesis
    using assms(2) by (auto simp: LoadFromDBPoolTx_def Let_def split: sum.splits if_splits)
qed

lemma effect_carries:
  assumes "lshrinks c" "effect ledger_ok coins d l (c l)" "carries db l"
  shows "effect (carries db) coins d l (c l)"
  using assms shrinks_trans [OF _ lshrinksD [OF assms(1)]] by (simp add: effect_def carries_def)

lemma changes_carries: "lshrinks c \<Longrightarrow> shifts d c \<Longrightarrow> changes (carries db) coins d c"
  using effect_carries unfolding changes_effect by (auto simp: carries_def)

lemma effect_then:
  assumes "effect I q d s (c s)" "\<And>s'. I s' \<Longrightarrow> effect I q e s' (c' s')"
  shows "effect I q (d + e) s (steps [c, c'] s)"
proof -
  obtain r t where t: "c s = (r, t)" by fastforce
  obtain r' u where u: "c' t = (r', u)" by fastforce
  show ?thesis
    using assms(1) assms(2) [of t] by (cases r; cases r') (auto simp: t u effect_def then_ok_def)
qed

lemma ProcessTransaction_pays:
  assumes "ledger_ok l"
  shows "effect ledger_ok coins (- paid tx) l (ProcessTransaction cr ok now tx h t l)"
proof (cases "CalcFee tx")
  case (Inl e)
  show ?thesis
    unfolding ProcessTransaction_def Inl sum.case by (rule effect_fail) (rule assms)
next
  case (Inr fee)
  then show ?thesis
    using ProcessTransaction_effect [OF assms Inr, of cr ok now h t] by (cases "reward_deposit tx") (simp_all add: paid_def fee_of_def)
qed

lemma apply_block_tx_changes:
  assumes "pool_body cr h db = Inr tx"
  shows "changes (carries db) coins (- paid tx) (apply_block_tx cr ok now block h)"
  unfolding changes_effect
proof (intro allI impI)
  fix l assume l: "carries db l"
  obtain e p where p: "CheckTransactionInDBAndInMarkleTrie h (lg_Pools l) = (e, p)" by fastforce
  have l1: "carries db (l\<lparr>lg_Pools := p\<lparr>ps_DB := db'\<rparr>\<rparr>)" "coins (l\<lparr>lg_Pools := p\<lparr>ps_DB := db'\<rparr>\<rparr>) = coins l" if "shrinks (ps_DB p) db'" for db'
  proof -
    have "shrinks db db'"
      using shrinks_trans [OF shrinks_trans [OF conjunct2 [OF l [unfolded carries_def]] removal_shrinks(4)] ] that p by (metis snd_conv)
    then show "carries db (l\<lparr>lg_Pools := p\<lparr>ps_DB := db'\<rparr>\<rparr>)" "coins (l\<lparr>lg_Pools := p\<lparr>ps_DB := db'\<rparr>\<rparr>) = coins l"
      using l by (simp_all add: carries_def ledger_ok_def coins_totals)
  qed
  obtain r db' where r: "LoadFromDBPoolTx cr TransactionPoolHashesDBPrefix h (ps_DB p) = (r, db')" by fastforce
  have db': "shrinks (ps_DB p) db'"
    using shrinks_Load [of "ps_DB p" cr TransactionPoolHashesDBPrefix h] r by simp
  let ?l = "l\<lparr>lg_Pools := p\<lparr>ps_DB := db'\<rparr>\<rparr>"
  show "effect (carries db) coins (- paid tx) l (apply_block_tx cr ok now block h l)"
  proof (cases "e = None \<and> (\<exists>t. r = Inr t)")
    case False
    then show ?thesis
      using l1(1) [OF shrinks_refl] l1(1) [OF db'] by (cases e; cases r) (auto simp: apply_block_tx_def p r effect_def)
  next
    case True
    then obtain t where t: "e = None" "r = Inr t" by blast
    have "shrinks db (ps_DB p)"
      using l1(1) [OF shrinks_refl] by (simp add: carries_def)
    from pool_body_shrinks [OF this] r t assms have tx: "t = tx" by simp
    let ?c = "ProcessTransaction cr ok now tx (block_height block) (bb_BlockTimeStamp (bl_BaseBlock block))"
    let ?c' = "ProcessTransactionsMultiSign cr tx (block_height block)"
    have "effect ledger_ok coins (- paid tx) ?l (?c ?l)"
      by (rule ProcessTransaction_pays) (use l1(1) [OF db'] in \<open>simp add: carries_def\<close>)
    from effect_carries [OF ProcessTransaction_lshrinks this l1(1) [OF db']]
    have "effect (carries db) coins (- paid tx + 0) ?l (steps [?c, ?c'] ?l)"
      using changes_carries [OF ProcessTransactionsMultiSign_lshrinks ProcessTransactionsMultiSign_shifts, of db cr tx]
      by (intro effect_then) (auto simp: changes_effect)
    moreover obtain e' m where m: "steps [?c, ?c'] ?l = (e', m)" by fastforce
    ultimately have m': "carries db m" "e' = None \<Longrightarrow> coins m = coins l - paid tx"
      using l1(2) [OF db'] by (simp_all add: effect_def)
    have "carries db (m\<lparr>lg_Pools := RemoveBadTransactionByHash cr (tx_Hash tx) (lg_Pools m)\<rparr>)"
      using m'(1) shrinks_trans [OF _ bad_shrinks] by (simp add: carries_def ledger_ok_def)
    moreover have "apply_block_tx cr ok now block h l =
        (case e' of Some e \<Rightarrow> (Some e, m\<lparr>lg_Pools := RemoveBadTransactionByHash cr (tx_Hash tx) (lg_Pools m)\<rparr>) | None \<Rightarrow> (None, m))"
      unfolding apply_block_tx_def p t(1) prod.case option.case r t(2) sum.case tx m ..
    ultimately show ?thesis
      using m' by (cases e') (simp_all add: effect_def)
  qed
qed


subsection \<open>The reward\<close>

lemma pay_shifts: "shifts r (on_staking (Reward now a r h n))"
  using on_staking_shifts [of 0 r "Reward now a r h n"] Reward_moved by simp

lemma randao_shifts: "shifts 0 (on_staking (applyRandaoCommit block))"
proof -
  have "moved 0 0 s (applyRandaoCommit block s)" if wf: "wf_staking s" for s
  proof -
    define n where "n = mustDelegatedAccountID (bh_DelegatedAccount (GetHeader block))"
    define a where "a = addr_ByteValue (bh_OperatorAccount (GetHeader block))"
    define c where "c = bb_RandCommit (bl_BaseBlock block)"
    have "moved 0 0 s (SetRandCommit (nat n) a c h s)" if n: "1 \<le> n" "n \<le> 255" for h
    proof (cases "map_of (AllStakingAccounts (s (nat n))) a")
      case None
      then show ?thesis
        by (simp add: SetRandCommit_def moved_def)
    next
      case (Some sa)
      let ?sa = "sa\<lparr>RandCommit := c, RandCommitHeight := h\<rparr>"
      have e: "sa_Address sa = a" "length a = AddressLength"
        using wf [unfolded wf_staking_def, rule_format, of "nat n", THEN conjunct2, rule_format, OF _ Some] n
        by (simp_all add: wf_staking_entry_def)
      have g: "GetStakingAccountByAddressBytes s a n = sa"
        using n e(2) Some by (simp add: GetStakingAccountByAddressBytes_def mget_def)
      have st: "SetRandCommit (nat n) a c h s = (None, stored n None ?sa s)"
        by (simp add: SetRandCommit_def stored_def Some e)
      have "total_staked (stored n None ?sa s) = total_staked s" "total_rewards (stored n None ?sa s) = total_rewards s"
        using stored_totals [OF wf, of n ?sa None] n e g by simp_all
      then show ?thesis
        using SetRandCommit_wf [OF wf, of "nat n" a c h] by (simp add: moved_def st)
    qed
    then show ?thesis
      using wf by (simp add: applyRandaoCommit_def Let_def moved_def n_def [symmetric] a_def [symmetric] c_def [symmetric])
  qed
  from on_staking_shifts [OF this] show ?thesis by simp
qed

lemma pays_shift: "list_all2 (changes ledger_ok coins) (map snd shares) (map (\<lambda>(a, r). on_staking (Reward now a r h n)) shares)"
  by (induction shares) (auto simp: pay_shifts)

lemma pay_shares_shifts:
  assumes "rest = reward - oper - sum_list (map snd shares)"
  shows "shifts reward (pay_shares now h n addr oper shares rest)"
proof -
  define lst where "lst = (if sint rest > 0 then on_staking (Reward now addr rest h n)
    else if sint rest < 0 then (\<lambda>l. (Some (Errorf ''this should not happen anytime: ProcessBlockTransfers''), l)) else (\<lambda>l. (None, l)))"
  have "shifts rest lst"
  proof (cases "sint rest" "0 :: int" rule: linorder_cases)
    case equal
    then show ?thesis by (simp add: lst_def changes_skip signed_eq_0_iff)
  qed (simp_all add: lst_def pay_shifts changes_fail)
  then have "list_all2 (changes ledger_ok coins) (oper # map snd shares @ [rest])
      (on_staking (Reward now addr oper h n) # map (\<lambda>(a, r). on_staking (Reward now a r h n)) shares @ [lst])"
    by (simp add: pay_shifts list_all2_appendI pays_shift)
  then show ?thesis
    unfolding pay_shares_def Let_def prod.case lst_def [symmetric] by (rule changes_steps) (simp add: assms)
qed

lemma pay_shares_lshrinks: "lshrinks (pay_shares now h n addr oper shares rest)"
  unfolding pay_shares_def Let_def by (auto intro!: shrinks_intros simp del: steps.simps)

lemma distribute_reward_shifts: "shifts reward (distribute_reward now block reward)"
proof -
  have "effect ledger_ok coins reward l (pay_shares now h n addr oper shares (reward - oper - sum_list (map snd shares)) l)"
    if "ledger_ok l" for l h n addr oper shares
    by (rule effect_run [OF pay_shares_shifts [OF refl] that])
  note p = this [where oper = "go_div (reward * scast (bb_RewardPercentage (bl_BaseBlock block))) 1000"]
  show ?thesis
    unfolding changes_effect distribute_reward_def Let_def
    by (auto intro!: p effect_fail simp: split_beta simp del: map_map split: sum.split)
qed

lemma distribute_reward_lshrinks: "lshrinks (distribute_reward now block reward)"
  unfolding lshrinks_def distribute_reward_def Let_def
  by (simp add: lshrinksD [OF pay_shares_lshrinks] split_beta split: sum.split)


lemma undo_shrinks: "shrinks (ps_DB p) (ps_DB (undoJournalKey cr k p))"
proof -
  have u: "shrinks (ps_DB p) (ps_DB (undoPendingChange a b tx p))" for a b tx
    by (simp add: undoPendingChange_def pending_shrinks)
  show ?thesis
    by (auto simp: undoJournalKey_def Let_def intro!: shrinks_mdel u split: option.split sum.split)
qed

lemma BeginPendingPoolJournal_shrinks: "shrinks (ps_DB p) (ps_DB (BeginPendingPoolJournal cr h p))"
proof -
  have "shrinks (ps_DB q) (ps_DB (fold (undoJournalKey cr) ks q))" for ks q
    by (induction ks arbitrary: q) (auto intro: shrinks_trans undo_shrinks)
  from this [of "p\<lparr>journalPaused := True\<rparr>"] show ?thesis
    by (simp add: BeginPendingPoolJournal_def undoPendingPoolsAt_def undoJournalKeys_def Let_def)
qed

lemma block_transfers_effect:
  assumes "ledger_ok l" "list_all2 (\<lambda>h tx. pool_body cr h (ps_DB (lg_Pools l)) = Inr tx) (bl_TransactionsHashes block) txs"
  shows "effect ledger_ok coins (reward - sum_list (map paid txs)) l (block_transfers cr ok now block reward l)"
proof -
  define db where "db = ps_DB (lg_Pools l)"
  let ?l = "l\<lparr>lg_Pools := BeginPendingPoolJournal cr (block_height block) (lg_Pools l)\<rparr>"
  have l: "carries db ?l" "coins ?l = coins l"
    using assms(1) BeginPendingPoolJournal_shrinks [of "lg_Pools l" cr] by (simp_all add: carries_def db_def ledger_ok_def coins_totals)
  have "list_all2 (changes (carries db) coins) (map (\<lambda>tx. - paid tx) txs) (map (apply_block_tx cr ok now block) (bl_TransactionsHashes block))"
    using assms(2) apply_block_tx_changes [of cr _ db _ ok now block]
    by (auto simp: list_all2_conv_all_nth db_def [symmetric])
  then have all: "list_all2 (changes (carries db) coins) (map (\<lambda>tx. - paid tx) txs @ [reward, 0])
      (map (apply_block_tx cr ok now block) (bl_TransactionsHashes block) @ [distribute_reward now block reward, on_staking (applyRandaoCommit block)])"
    using changes_carries [OF distribute_reward_lshrinks distribute_reward_shifts] changes_carries [OF lshrinks_plain(3) randao_shifts]
    by (simp add: list_all2_appendI)
  have sum: "sum_list (map (\<lambda>tx. - paid tx) txs @ [reward, 0]) = reward - sum_list (map paid txs)"
    by (induction txs) simp_all
  from effect_run [OF changes_steps [OF all sum [symmetric]] l(1)] show ?thesis
    using l(2) unfolding block_transfers_def by (simp add: effect_def carries_def del: steps.simps)
qed

subsection \<open>Settlement of the escrow loses nothing\<close>

text \<open>The balances as integers, which do not wrap around.\<close>

definition int_total :: "AccountsType \<Rightarrow> int" where
  "int_total at = msum (\<lambda>a. sint (acc_Balance a)) (AllAccounts at)"

lemma int_total_put:
  "wf_map (AllAccounts at) \<Longrightarrow> int_total (put_account k acc at) = int_total at - sint (GetBalance at k) + sint (acc_Balance acc)"
  by (simp add: int_total_def put_account_def msum_mput [where z = zero_Account] GetBalance_def)

lemma balance_le_total:
  assumes "accounts_ok at"
  shows "sint (GetBalance at k) \<le> int_total at"
proof -
  have nonneg: "\<forall>x \<in> set (AllAccounts at). 0 \<le> sint (acc_Balance (snd x))"
    using assms by (auto simp: accounts_ok_def)
  have sum: "0 \<le> msum (\<lambda>a. sint (acc_Balance a)) m" if "\<forall>x \<in> set m. 0 \<le> sint (acc_Balance (snd x))" for m :: "(bytes, Account) gomap"
    using that unfolding msum_def by (auto intro!: sum_list_nonneg)
  have "sint (acc_Balance a) \<le> msum (\<lambda>a. sint (acc_Balance a)) m" if "(k, a) \<in> set m" "\<forall>x \<in> set m. 0 \<le> sint (acc_Balance (snd x))" for m and a :: Account
    using that
  proof (induction m)
    case (Cons x m)
    then show ?case
      using sum [of m] by (cases "(k, a) = x") fastforce+
  qed simp
  then show ?thesis
    using nonneg sum [OF nonneg] by (auto simp: int_total_def GetBalance_def mget_def dest: map_of_SomeD split: option.split)
qed

lemma AddBalance_total:
  assumes "accounts_ok at" "AddBalance k d at = (e, at')"
  shows "int_total at' = int_total at + (if e = None then sint (GetBalance at k + d) - sint (GetBalance at k) else 0)"
    "e = None \<longleftrightarrow> 0 \<le> sint (GetBalance at k + d)"
proof -
  define acc where "acc = (case map_of (AllAccounts at) k of Some acc \<Rightarrow> acc | None \<Rightarrow> zero_Account\<lparr>acc_Address := k\<rparr>)"
  define at1 where "at1 = (case map_of (AllAccounts at) k of Some acc \<Rightarrow> at | None \<Rightarrow> put_account k acc at)"
  note form = AddBalance_form [OF acc_def at1_def, of d]
  have acc: "acc_Balance acc = GetBalance at k"
    by (simp add: acc_def GetBalance_def mget_def split: option.split)
  have wf: "wf_map (AllAccounts at)"
    by (rule accounts_okD(1) [OF assms(1)])
  have at1: "wf_map (AllAccounts at1)" "int_total at1 = int_total at" "GetBalance at1 k = GetBalance at k"
    using wf acc by (auto simp: at1_def int_total_put split: option.split)
  show "int_total at' = int_total at + (if e = None then sint (GetBalance at k + d) - sint (GetBalance at k) else 0)"
    "e = None \<longleftrightarrow> 0 \<le> sint (GetBalance at k + d)"
    using assms(2) at1 acc unfolding form by (auto simp: int_total_put split: if_splits)
qed


definition conserves :: "Ledger \<Rightarrow> err option \<times> Ledger \<Rightarrow> bool" where
  "conserves l r \<longleftrightarrow> ledger_ok (snd r) \<and> coins (snd r) = coins l \<and> int_total (lg_Accounts (snd r)) = int_total (lg_Accounts l)"

lemma conserves_same: "ledger_ok l \<Longrightarrow> conserves l (e, l)"
  by (simp add: conserves_def)

lemma conserves_then:
  assumes "conserves l (c l)" "\<And>m. conserves l (None, m) \<Longrightarrow> conserves l (c' m)"
  shows "conserves l (steps [c, c'] l)"
proof -
  obtain e m where m: "c l = (e, m)" by fastforce
  obtain e' m' where m': "c' m = (e', m')" by fastforce
  show ?thesis
    using assms(1) assms(2) [of m] by (cases e; cases e') (simp_all add: m m' then_ok_def conserves_def)
qed

lemma on_pools_conserves: "conserves l (e, m) \<Longrightarrow> conserves l (on_pools f m)"
  by (simp add: conserves_def on_pools_def ledger_ok_def coins_totals)

text \<open>A transfer of an amount that is not negative, out of balances that add up to less than \<open>2^63\<close>, is either
  refused at the sender or arrives.\<close>

lemma move_settled_conserves:
  assumes "ledger_ok l" "int_total (lg_Accounts l) < 2 ^ 63" "0 \<le> sint (Amount (tx_TxData tx))"
  shows "conserves l (move_settled cr tx l)"
proof -
  define a b x where "a = addr_ByteValue (GetSenderAddress tx)" and "b = addr_ByteValue (Recipient (tx_TxData tx))" and "x = Amount (tx_TxData tx)"
  let ?at = "lg_Accounts l"
  have ok: "accounts_ok ?at" and st: "wf_staking (lg_Staking l)"
    using assms(1) by (simp_all add: ledger_ok_def)
  obtain e at1 where 1: "AddBalance a (- x) ?at = (e, at1)" by fastforce
  obtain e2 at2 where 2: "AddBalance b x at1 = (e2, at2)" by fastforce
  have move: "move_settled cr tx l = (case e of
      Some e \<Rightarrow> (Some e, (l\<lparr>lg_Accounts := at1\<rparr>)\<lparr>lg_Pools := RemoveBadTransactionByHash cr (tx_Hash tx) (lg_Pools l)\<rparr>)
    | None \<Rightarrow> (e2, l\<lparr>lg_Accounts := at2\<rparr>))"
    unfolding move_settled_def a_def [symmetric] b_def [symmetric] x_def [symmetric]
    by (simp add: on_accounts_def 1 2 split: option.split)
  show ?thesis
  proof (cases e)
    case (Some e')
    then show ?thesis
      using accounts.add_refused [OF ok, of a "- x" e' at1] AddBalance_total(1) [OF ok 1] 1 st
      by (simp add: move conserves_def ledger_ok_def coins_totals)
  next
    case None
    note done1 = accounts.add_done [OF ok, of a "- x" at1, OF 1 [unfolded None]]
    have x: "0 \<le> sint x" using assms(3) by (simp add: x_def)
    have bal: "sint (GetBalance ?at a + - x) = sint (GetBalance ?at a) - sint x"
      using x accounts_okD(4) [OF ok, of a] sint_range64 [of "GetBalance ?at a"] sint_range64 [of x] by (simp add: sint_diff64)
    then have t1: "int_total at1 = int_total ?at - sint x"
      using AddBalance_total(1) [OF ok 1] None by simp
    have "sint (GetBalance at1 b) + sint x < 2 ^ 63" "0 \<le> sint (GetBalance at1 b)"
      using balance_le_total [of at1 b] accounts_okD(4) [of at1 b] done1 t1 assms(2) by auto
    then have plus: "sint (GetBalance at1 b + x) = sint (GetBalance at1 b) + sint x"
      using x by (simp add: sint_add64)
    then have e2: "e2 = None"
      using AddBalance_total(2) [OF _ 2] done1 x \<open>0 \<le> sint (GetBalance at1 b)\<close> by simp
    have t2: "int_total at2 = int_total ?at"
      using AddBalance_total(1) [OF _ 2] done1 t1 plus e2 by simp
    have "accounts_ok at2 \<and> total_balance at2 = total_balance at1 + x"
      using accounts.add_done [of at1 b x at2] done1 2 e2 by simp
    then show ?thesis
      using done1 t2 st by (simp add: move None conserves_def ledger_ok_def coins_totals)
  qed
qed

lemma settleCommitment_conserves:
  assumes "ledger_ok l"
  shows "conserves l (settleCommitment tx h l)"
proof -
  obtain s r where v: "CommitmentValues tx = (s, r)" by fastforce
  let ?a = "addr_ByteValue (GetSenderAddress tx)"
  have ok: "accounts_ok (lg_Accounts l)" "wf_staking (lg_Staking l)"
    using assms by (simp_all add: ledger_ok_def)
  show ?thesis
  proof (cases "map_of (AllAccounts (lg_Accounts l)) ?a")
    case None
    then show ?thesis
      using assms by (simp add: settleCommitment_def v on_accounts_def SetAccountCommitments_def conserves_def ledger_ok_def)
  next
    case (Some acc)
    have "acc_Balance acc = GetBalance (lg_Accounts l) ?a" "acc_Address acc = ?a"
      using Some accounts_okD(2) [OF ok(1) Some] by (simp_all add: GetBalance_def mget_def)
    then show ?thesis
      using put_same_balance [OF ok(1), of "SetCommitments acc s r h" ?a] ok int_total_put [OF accounts_okD(1) [OF ok(1)]]
      by (simp add: settleCommitment_def v on_accounts_def SetAccountCommitments_def Some conserves_def ledger_ok_def coins_totals commitments_fields)
  qed
qed


lemma settle_escrow_conserves:
  assumes "ledger_ok l" "int_total (lg_Accounts l) < 2 ^ 63" "0 \<le> sint (Amount (tx_TxData tx))"
  shows "conserves l (settle_escrow cr h tx l)"
proof -
  have m: "conserves l (move_settled cr tx k)" if "conserves l (None, k)" for k
    using that move_settled_conserves [of k tx cr] assms(2,3) by (simp add: conserves_def)
  have 3: "conserves l (steps [c, move_settled cr tx, on_pools f] l)" if "c = on_pools g \<or> c = (\<lambda>l. (None, l))" for c f g
  proof -
    have "steps [c, move_settled cr tx, on_pools f] l = steps [steps [c, move_settled cr tx], on_pools f] l"
      by (simp add: then_ok_def split: prod.split option.split)
    moreover have "conserves l (c l)"
      using that on_pools_conserves [OF conserves_same [OF assms(1)]] conserves_same [OF assms(1)] by auto
    ultimately show ?thesis
      using conserves_then [of l "steps [c, move_settled cr tx]" "on_pools f"] conserves_then [of l c "move_settled cr tx"] m on_pools_conserves
      by (simp del: steps.simps)
  qed
  have 2: "conserves l (steps [settleCommitment tx h, on_pools f] l)" for f
    by (rule conserves_then) (rule settleCommitment_conserves [OF assms(1)], erule on_pools_conserves)
  note same = conserves_same [OF assms(1)] on_pools_conserves [OF conserves_same [OF assms(1)]] 2 3 [OF disjI1 [OF refl]] 3 [OF disjI2 [OF refl]]
  show ?thesis
  proof (cases "delegated_account tx = Inr None \<and> GetAccountByAddressBytes (lg_Accounts l) (addr_ByteValue (GetSenderAddress tx)) \<noteq> None")
    case True
    then obtain acc where "delegated_account tx = Inr None" "GetAccountByAddressBytes (lg_Accounts l) (addr_ByteValue (GetSenderAddress tx)) = Some acc"
      by blast
    then show ?thesis
      using same unfolding settle_escrow_def Let_def by (simp del: steps.simps)
  qed (use same(1) in \<open>auto simp: settle_escrow_def simp del: steps.simps split: sum.split option.split\<close>)
qed

lemma ProcessTransactionsEscrow_conserves:
  assumes "ledger_ok l" "int_total (lg_Accounts l) < 2 ^ 63"
    "\<forall>tx \<in> set (PeekTransactions (PoolTxEscrow (lg_Pools l)) MaxTransactionInPool h). 0 \<le> sint (Amount (tx_TxData tx))"
  shows "conserves l (ProcessTransactionsEscrow cr h l)"
proof -
  have "conserves k (steps (map (settle_escrow cr h) txs) k)"
    if "ledger_ok k" "int_total (lg_Accounts k) < 2 ^ 63" "\<forall>tx \<in> set txs. 0 \<le> sint (Amount (tx_TxData tx))" for txs k
    using that
  proof (induction txs arbitrary: k)
    case Nil
    then show ?case by (simp add: conserves_same)
  next
    case (Cons tx txs)
    obtain e m where m: "settle_escrow cr h tx k = (e, m)" by fastforce
    have c: "conserves k (e, m)"
      using settle_escrow_conserves [OF Cons.prems(1,2), of tx cr h] Cons.prems(3) m by simp
    show ?case
      using c Cons.IH [of m] Cons.prems by (cases e) (simp_all add: m then_ok_def conserves_def)
  qed
  with assms show ?thesis
    by (simp add: ProcessTransactionsEscrow_def Let_def)
qed

text \<open>When the settlement that ends a block cannot lose anything: it succeeds, or the balances are small enough.\<close>

definition escrow_safe :: "Crypto \<Rightarrow> int64 \<Rightarrow> Ledger \<Rightarrow> bool" where
  "escrow_safe cr h l \<longleftrightarrow> fst (ProcessTransactionsEscrow cr h l) = None \<or>
     int_total (lg_Accounts l) < 2 ^ 63 \<and>
     (\<forall>tx \<in> set (PeekTransactions (PoolTxEscrow (lg_Pools l)) MaxTransactionInPool h). 0 \<le> sint (Amount (tx_TxData tx)))"

lemma escrow_safeD:
  assumes "ledger_ok l" "escrow_safe cr h l"
  shows "coins (snd (ProcessTransactionsEscrow cr h l)) = coins l"
proof (cases "fst (ProcessTransactionsEscrow cr h l)")
  case None
  then have "ProcessTransactionsEscrow cr h l = (None, snd (ProcessTransactionsEscrow cr h l))"
    by (simp add: prod_eq_iff)
  from changesD(2) [OF ProcessTransactionsEscrow_shifts assms(1) this] show ?thesis by simp
next
  case Some
  then show ?thesis
    using assms ProcessTransactionsEscrow_conserves [of l h cr] by (simp add: escrow_safe_def conserves_def)
qed

lemma ProcessBlockTransfers_books:
  assumes "ledger_ok l" "list_all2 (\<lambda>h tx. pool_body cr h (ps_DB (lg_Pools l)) = Inr tx) (bl_TransactionsHashes block) txs"
    "ProcessBlockTransfers cr ok now block reward l = (None, l')" "block_transfers cr ok now block reward l = (None, l1)"
    "escrow_safe cr (block_height block) l1"
  shows "ledger_ok l'" "coins l' = coins l + reward - sum_list (map paid txs)"
proof -
  have l1: "ledger_ok l1" "coins l1 = coins l + (reward - sum_list (map paid txs))"
    using block_transfers_effect [OF assms(1,2), of reward ok now] assms(4) by (simp_all add: effect_def)
  have l': "l' = (snd (ProcessTransactionsEscrow cr (block_height block) l1))\<lparr>lg_Pools :=
      EndPendingPoolJournal (lg_Pools (snd (ProcessTransactionsEscrow cr (block_height block) l1)))\<rparr>"
    using assms(3) by (simp add: ProcessBlockTransfers_def assms(4) Let_def)
  show "ledger_ok l'" "coins l' = coins l + reward - sum_list (map paid txs)"
    using changesD(1) [OF ProcessTransactionsEscrow_shifts l1(1), of cr "block_height block"] escrow_safeD [OF l1(1) assms(5)] l1(2)
    by (simp_all add: l' ledger_ok_def coins_totals)
qed


subsection \<open>Loading the bodies\<close>

text \<open>A body that belongs to its hash and that the codec carries faithfully.\<close>

definition sound_body :: "Crypto \<Rightarrow> bytes \<Rightarrow> Transaction \<Rightarrow> bool" where
  "sound_body cr h tx \<longleftrightarrow> tx_Hash tx = h \<and> wf_Transaction (cr_enc cr) (cr_H160 cr) tx \<and> HashMatchesBody (cr_H256 cr) tx"

text \<open>Loading keeps the records of included transactions and the other bodies of the pool database.\<close>

definition same_index :: "DB \<Rightarrow> DB \<Rightarrow> bool" where
  "same_index db db' \<longleftrightarrow> (\<forall>k. map_of db' (IncludedTxDBPrefix @ k) = map_of db (IncludedTxDBPrefix @ k))"

definition same_bodies :: "DB \<Rightarrow> DB \<Rightarrow> bool" where
  "same_bodies db db' \<longleftrightarrow> (\<forall>k. map_of db' (TransactionPoolHashesDBPrefix @ k) = map_of db (TransactionPoolHashesDBPrefix @ k))"

lemma prefixes_apart:
  "length TransactionDBPrefix = 2" "TransactionDBPrefix \<noteq> IncludedTxDBPrefix" "TransactionDBPrefix \<noteq> TransactionPoolHashesDBPrefix"
  "length BadTransactionDBPrefix = 2" "BadTransactionDBPrefix \<noteq> IncludedTxDBPrefix" "BadTransactionDBPrefix \<noteq> TransactionPoolHashesDBPrefix"
  "length TransactionPoolHashesDBPrefix = 2" "TransactionPoolHashesDBPrefix \<noteq> IncludedTxDBPrefix" "length IncludedTxDBPrefix = 2"
  by (simp_all add: string_bytes_def)

lemma prefix_key: "length p = 2 \<Longrightarrow> length q = 2 \<Longrightarrow> p @ h = q @ k \<longleftrightarrow> p = q \<and> h = k"
  by (simp add: append_eq_append_conv)

lemma Load_other:
  assumes "LoadFromDBPoolTx cr prefix h db = (r, db')" "length prefix = 2" "prefix \<noteq> IncludedTxDBPrefix"
  shows "same_index db db'" "prefix \<noteq> TransactionPoolHashesDBPrefix \<Longrightarrow> same_bodies db db'" "r = Inr tx \<Longrightarrow> db' = db"
    "k \<noteq> h \<Longrightarrow> map_of db' (TransactionPoolHashesDBPrefix @ k) = map_of db (TransactionPoolHashesDBPrefix @ k)"
proof -
  have "db' = db \<or> db' = mdel (prefix @ h) db" and *: "r = Inr tx \<Longrightarrow> db' = db"
    using assms(1) by (auto simp: LoadFromDBPoolTx_def Let_def split: option.splits sum.splits if_splits)
  moreover have "IncludedTxDBPrefix @ k \<noteq> prefix @ h" "prefix \<noteq> TransactionPoolHashesDBPrefix \<Longrightarrow> TransactionPoolHashesDBPrefix @ k \<noteq> prefix @ h"
      "k \<noteq> h \<Longrightarrow> TransactionPoolHashesDBPrefix @ k \<noteq> prefix @ h" for k
    using assms(2,3) prefix_key [OF _ assms(2)] prefixes_apart(7,9) by auto
  ultimately show "same_index db db'" "prefix \<noteq> TransactionPoolHashesDBPrefix \<Longrightarrow> same_bodies db db'" "r = Inr tx \<Longrightarrow> db' = db"
    "k \<noteq> h \<Longrightarrow> map_of db' (TransactionPoolHashesDBPrefix @ k) = map_of db (TransactionPoolHashesDBPrefix @ k)"
    by (auto simp: same_index_def same_bodies_def delete_conv')
qed

lemma Check_passes:
  assumes "CheckTransactionInDBAndInMarkleTrie h s = (None, s')"
  shows "s' = s" "IncludedTxHeight s h = None"
  using assms by (auto simp: CheckTransactionInDBAndInMarkleTrie_def split: option.splits)

lemma same_trans:
  "same_index a b \<Longrightarrow> same_index b c \<Longrightarrow> same_index a c" "same_bodies a b \<Longrightarrow> same_bodies b c \<Longrightarrow> same_bodies a c"
  by (simp_all add: same_index_def same_bodies_def)

lemma Store_other:
  assumes "StoreToDBPoolTx prefix tx db = (None, db')" "length prefix = 2" "prefix \<noteq> IncludedTxDBPrefix"
  shows "same_index db db'" "prefix \<noteq> TransactionPoolHashesDBPrefix \<Longrightarrow> same_bodies db db'"
    "db' = mput (prefix @ tx_Hash tx) (Transaction_GetBytes tx) db"
proof -
  have db': "db' = mput (prefix @ tx_Hash tx) (Transaction_GetBytes tx) db"
    using assms(1) by (auto simp: StoreToDBPoolTx_def Let_def split: if_splits)
  moreover have "IncludedTxDBPrefix @ k \<noteq> prefix @ h" "prefix \<noteq> TransactionPoolHashesDBPrefix \<Longrightarrow> TransactionPoolHashesDBPrefix @ k \<noteq> prefix @ h" for h k
    using assms(2,3) prefix_key [OF _ assms(2)] prefixes_apart(7,9) by auto
  ultimately show "same_index db db'" "prefix \<noteq> TransactionPoolHashesDBPrefix \<Longrightarrow> same_bodies db db'"
    "db' = mput (prefix @ tx_Hash tx) (Transaction_GetBytes tx) db"
    by (auto simp: same_index_def same_bodies_def)
qed

lemma recover_body_keeps:
  assumes "recover_body lib ch lastBlock h s = (Inr tx, s')"
  shows "same_index (ps_DB s) (ps_DB s') \<and> same_bodies (ps_DB s) (ps_DB s')"
proof -
  obtain r db where r: "LoadFromDBPoolTx (ch_Crypto ch) TransactionDBPrefix h (ps_DB s) = (r, db)" by fastforce
  obtain r2 db2 where r2: "LoadFromDBPoolTx (ch_Crypto ch) BadTransactionDBPrefix h db = (r2, db2)" by fastforce
  have l1: "same_index (ps_DB s) db" "same_bodies (ps_DB s) db"
    using Load_other(1,2) [OF r prefixes_apart(1,2)] prefixes_apart(3) by simp_all
  have l2: "same_index db db2" "same_bodies db db2"
    using Load_other(1,2) [OF r2 prefixes_apart(4,5)] prefixes_apart(6) by simp_all
  show ?thesis
  proof (cases r)
    case (Inr t)
    obtain e s1 where c: "CheckTransactionInDBAndInMarkleTrie h (s\<lparr>ps_DB := db\<rparr>) = (e, s1)" by fastforce
    have "e = None \<and> s' = s1"
      using assms by (cases e) (simp_all add: recover_body_def Let_def r Inr c)
    then show ?thesis
      using l1 Check_passes(1) [of h "s\<lparr>ps_DB := db\<rparr>" s1] c by simp
  next
    case (Inl e)
    define q where "q = (case r2 of Inr tx \<Rightarrow> Inr tx
      | Inl e \<Rightarrow> (case findTxInMemoryPools h (s\<lparr>ps_DB := db2\<rparr>) of Some tx \<Rightarrow> Inr tx | None \<Rightarrow> Inl e))"
    note form = assms [unfolded recover_body_def Let_def r Inl prod.case sum.case r2, folded q_def]
    then obtain t where t: "q = Inr t"
      by (cases q) simp_all
    obtain e' db3 where st: "StoreToDBPoolTx TransactionDBPrefix t db2 = (e', db3)" by fastforce
    have "e' = None" "s' = s\<lparr>ps_DB := db3\<rparr>"
      using form unfolding t sum.case by (auto simp: st split: sum.splits if_splits option.splits)
    then show ?thesis
      using same_trans(1) [OF same_trans(1) [OF l1(1) l2(1)]] same_trans(2) [OF same_trans(2) [OF l1(2) l2(2)]]
        Store_other(1,2) [OF st [unfolded \<open>e' = None\<close>] prefixes_apart(1,2)] prefixes_apart(3) by simp
  qed
qed

end
