(* ===== verification/Block_Books.thy ===== *)
theory Block_Books
  imports Block_Supply
begin

text \<open>
  The two halves of a block put together: what the check of the transfers accepts is what is applied
  afterwards, every sender can pay for all of its transactions in the block, and after the block the
  coins of the ledger and the fee carried by the block add up to the supply in its header.
\<close>

subsection \<open>Loading the bodies of a block\<close>

lemma reload_stored:
  assumes "sound_body cr h tx" "Transaction_GetBytes tx \<noteq> []"
  shows "pool_body cr h (mput (TransactionPoolHashesDBPrefix @ h) (Transaction_GetBytes tx) db) = Inr tx"
proof -
  have "Transaction_GetFromBytes (cr_enc cr) (cr_H160 cr) (Transaction_GetBytes tx) = Inr (tx, [])"
    using Transaction_round_trip [of "cr_enc cr" "cr_H160 cr" tx "[]"] assms(1) by (simp add: sound_body_def)
  then show ?thesis
    using assms by (simp add: LoadFromDBPoolTx_def sound_body_def)
qed

lemma pool_body_cong:
  assumes "map_of db' (TransactionPoolHashesDBPrefix @ h) = map_of db (TransactionPoolHashesDBPrefix @ h)"
  shows "pool_body cr h db' = pool_body cr h db"
  using assms by (simp add: LoadFromDBPoolTx_def Let_def split: option.split sum.split)

text \<open>A body is in the pool database, or it is recovered from elsewhere and stored there.\<close>

lemma load_block_tx_cases:
  assumes "load_block_tx lib ch lastBlock h s = (Inr tx, s')"
  obtains (found) "LoadFromDBPoolTx (ch_Crypto ch) TransactionPoolHashesDBPrefix h (ps_DB s) = (Inr tx, ps_DB s)" "s' = s" "IncludedTxHeight s' h = None"
  | (recovered) e db s1 where "LoadFromDBPoolTx (ch_Crypto ch) TransactionPoolHashesDBPrefix h (ps_DB s) = (Inl e, db)"
      "recover_body lib ch lastBlock h (s\<lparr>ps_DB := RemoveTransactionFromDBbyHash TransactionPoolHashesDBPrefix h db\<rparr>) = (Inr tx, s1)"
      "StoreToDBPoolTx TransactionPoolHashesDBPrefix tx (ps_DB s1) = (None, ps_DB s')" "IncludedTxHeight s' h = None"
proof -
  let ?cr = "ch_Crypto ch" and ?P = TransactionPoolHashesDBPrefix
  obtain r db where r: "LoadFromDBPoolTx ?cr ?P h (ps_DB s) = (r, db)" by fastforce
  show thesis
  proof (cases r)
    case (Inr t')
    have db: "db = ps_DB s" by (rule Load_other(3) [OF r prefixes_apart(7,8) Inr])
    obtain e s1 where c: "CheckTransactionInDBAndInMarkleTrie h s = (e, s1)" by fastforce
    have "t' = tx" "e = None" "s' = s1"
      using assms(1) by (cases e; simp add: load_block_tx_def r Inr db c)+
    then show thesis
      using found Check_passes [of h s s1] c r Inr db by simp
  next
    case (Inl e)
    let ?s = "s\<lparr>ps_DB := RemoveTransactionFromDBbyHash ?P h db\<rparr>"
    obtain q s1 where q: "recover_body lib ch lastBlock h ?s = (q, s1)" by fastforce
    obtain t' where t': "q = Inr t'"
      using assms(1) by (cases q) (simp_all add: load_block_tx_def r Inl q)
    obtain e3 db3 where st: "StoreToDBPoolTx ?P t' (ps_DB s1) = (e3, db3)" by fastforce
    obtain e4 s4 where c: "CheckTransactionInDBAndInMarkleTrie h (s1\<lparr>ps_DB := db3\<rparr>) = (e4, s4)" by fastforce
    have e3: "e3 = None"
      using assms(1) by (cases e3) (simp_all add: load_block_tx_def r Inl q t' st)
    have "e4 = None" "s' = s4" "t' = tx"
      using assms(1) by (cases e4; simp add: load_block_tx_def r Inl q t' st e3 c)+
    then show thesis
      using Check_passes [of h "s1\<lparr>ps_DB := db3\<rparr>" s4] c r Inl q t' st e3 by (intro recovered) simp_all
  qed
qed

lemma load_block_tx_index:
  assumes "load_block_tx lib ch lastBlock h s = (Inr tx, s')"
  shows "same_index (ps_DB s) (ps_DB s')" "IncludedTxHeight s' h = None"
proof -
  have "same_index (ps_DB s) (ps_DB s') \<and> IncludedTxHeight s' h = None"
    using assms
  proof (cases rule: load_block_tx_cases)
    case found
    then show ?thesis by (simp add: same_index_def)
  next
    case (recovered e db s1)
    let ?s = "s\<lparr>ps_DB := RemoveTransactionFromDBbyHash TransactionPoolHashesDBPrefix h db\<rparr>"
    have "same_index (ps_DB s) (ps_DB ?s)"
      using Load_other(1) [OF recovered(1) prefixes_apart(7,8)] prefix_key [OF prefixes_apart(9,7)] prefixes_apart(8)
      by (simp add: same_index_def RemoveTransactionFromDBbyHash_def delete_conv')
    from same_trans(1) [OF same_trans(1) [OF this conjunct1 [OF recover_body_keeps [OF recovered(2)]]] Store_other(1) [OF recovered(3) prefixes_apart(7,8)]]
    show ?thesis using recovered(4) by simp
  qed
  then show "same_index (ps_DB s) (ps_DB s')" "IncludedTxHeight s' h = None" by simp_all
qed

lemma load_block_tx_body:
  assumes "load_block_tx lib ch lastBlock h s = (Inr tx, s')" "sound_body (ch_Crypto ch) h tx"
  shows "pool_body (ch_Crypto ch) h (ps_DB s') = Inr tx"
    "pool_body (ch_Crypto ch) k (ps_DB s) = Inr t \<Longrightarrow> pool_body (ch_Crypto ch) k (ps_DB s') = Inr t"
proof -
  let ?cr = "ch_Crypto ch" and ?P = TransactionPoolHashesDBPrefix
  have "pool_body ?cr h (ps_DB s') = Inr tx \<and> (pool_body ?cr k (ps_DB s) = Inr t \<longrightarrow> pool_body ?cr k (ps_DB s') = Inr t)"
    using assms(1)
  proof (cases rule: load_block_tx_cases)
    case found
    then show ?thesis by simp
  next
    case (recovered e db s1)
    have h: "tx_Hash tx = h" "Transaction_GetBytes tx \<noteq> []"
      using assms(2) recovered(3) by (auto simp: sound_body_def StoreToDBPoolTx_def Let_def split: if_splits)
    have db: "ps_DB s' = mput (?P @ h) (Transaction_GetBytes tx) (ps_DB s1)"
      using Store_other(3) [OF recovered(3) prefixes_apart(7,8)] h(1) by simp
    have "map_of (ps_DB s') (?P @ k) = map_of (ps_DB s) (?P @ k)" if "k \<noteq> h"
      using that recover_body_keeps [OF recovered(2)] Load_other(4) [OF recovered(1) prefixes_apart(7,8) that]
      by (simp add: db same_bodies_def RemoveTransactionFromDBbyHash_def delete_conv')
    then show ?thesis
      using pool_body_cong [of "ps_DB s'" k "ps_DB s" ?cr] reload_stored [OF assms(2) h(2), of "ps_DB s1"] recovered(1)
      by (cases "k = h") (simp_all add: db)
  qed
  then show "pool_body ?cr h (ps_DB s') = Inr tx" "pool_body ?cr k (ps_DB s) = Inr t \<Longrightarrow> pool_body ?cr k (ps_DB s') = Inr t"
    by simp_all
qed

lemma load_block_txs_Cons:
  assumes "load_block_txs lib ch lastBlock (h # hs) s = (Inr txs, s')"
  obtains tx ts s1 where "txs = tx # ts" "load_block_tx lib ch lastBlock h s = (Inr tx, s1)" "load_block_txs lib ch lastBlock hs s1 = (Inr ts, s')"
  using assms by (auto split: prod.splits sum.splits)

lemma load_block_txs_index:
  assumes "load_block_txs lib ch lastBlock hs s = (Inr txs, s')"
  shows "same_index (ps_DB s) (ps_DB s') \<and> (\<forall>h \<in> set hs. IncludedTxHeight s h = None) \<and> length txs = length hs"
  using assms
proof (induction hs arbitrary: s txs)
  case Nil
  then show ?case by (simp add: same_index_def)
next
  case (Cons h hs)
  from Cons.prems obtain tx ts s1 where 1: "txs = tx # ts" "load_block_tx lib ch lastBlock h s = (Inr tx, s1)"
      "load_block_txs lib ch lastBlock hs s1 = (Inr ts, s')"
    by (rule load_block_txs_Cons)
  note f = load_block_tx_index [OF 1(2)]
  have "IncludedTxHeight s1 k = IncludedTxHeight s k" for k
    using f(1) by (simp add: IncludedTxHeight_def same_index_def)
  then show ?case
    using Cons.IH [OF 1(3)] f same_trans(1) [OF f(1)] 1(1) by simp
qed

lemma load_block_txs_bodies:
  assumes "load_block_txs lib ch lastBlock hs s = (Inr txs, s')" "list_all2 (sound_body (ch_Crypto ch)) hs txs"
  shows "list_all2 (\<lambda>h tx. pool_body (ch_Crypto ch) h (ps_DB s') = Inr tx) hs txs"
proof -
  have "list_all2 (\<lambda>h tx. pool_body (ch_Crypto ch) h (ps_DB s') = Inr tx) hs txs \<and>
    (\<forall>k t. pool_body (ch_Crypto ch) k (ps_DB s) = Inr t \<longrightarrow> pool_body (ch_Crypto ch) k (ps_DB s') = Inr t)"
    using assms
  proof (induction hs arbitrary: s txs)
    case Nil
    then show ?case by simp
  next
    case (Cons h hs)
    from Cons.prems(1) obtain tx ts s1 where 1: "txs = tx # ts" "load_block_tx lib ch lastBlock h s = (Inr tx, s1)"
        "load_block_txs lib ch lastBlock hs s1 = (Inr ts, s')"
      by (rule load_block_txs_Cons)
    have sb: "sound_body (ch_Crypto ch) h tx" "list_all2 (sound_body (ch_Crypto ch)) hs ts"
      using Cons.prems(2) by (simp_all add: 1(1))
    show ?case
      using load_block_tx_body [OF 1(2) sb(1)] Cons.IH [OF 1(3) sb(2)] 1(1) by simp
  qed
  then show ?thesis by blast
qed

subsection \<open>The checks of the transactions\<close>

text \<open>The balance a sender has left in the course of the check.\<close>

definition left_of :: "Tally \<Rightarrow> bytes \<Rightarrow> int64" where
  "left_of t a = (case map_of (ta_accounts t) a of Some acc \<Rightarrow> acc_Balance acc | None \<Rightarrow> GetBalance (lg_Accounts (ta_ledger t)) a)"

definition cost_of :: "Transaction \<Rightarrow> int64" where
  "cost_of tx = fee_of tx + Amount (tx_TxData tx)"

abbreviation sender_of :: "Transaction \<Rightarrow> bytes" where
  "sender_of tx \<equiv> addr_ByteValue (GetSenderAddress tx)"

lemma bad_tx_marks: "bad_tx cr tx m t = (e, t') \<Longrightarrow> ta_badTxErr t' \<noteq> None"
  by (auto simp: bad_tx_def split: option.splits)

lemma check_funds_passes:
  assumes "check_funds cr tx fee t = (None, t')" "ta_badTxErr t' = None" "accounts_ok (lg_Accounts (ta_ledger t))" "CalcFee tx = Inr fee"
  shows "ta_badTxErr t = None \<and> ta_ledger t' = ta_ledger t \<and> ta_totalFee t' = ta_totalFee t \<and> ta_totalGas t' = ta_totalGas t \<and>
    left_of t' = (left_of t)(sender_of tx := left_of t (sender_of tx) - cost_of tx) \<and> 0 \<le> sint (left_of t' (sender_of tx))"
proof -
  let ?a = "sender_of tx"
  have nb: "bad_tx cr tx m u \<noteq> (None, t')" for m u
    using assms(2) bad_tx_marks by blast
  obtain acc where acc: "GetAccountByAddressBytes (lg_Accounts (ta_ledger t)) ?a = Some acc"
    using assms(1) nb by (cases "GetAccountByAddressBytes (lg_Accounts (ta_ledger t)) ?a") (simp_all add: check_funds_def)
  have ad: "acc_Address acc = ?a"
    using assms(1) nb acc by (simp add: check_funds_def Let_def split: if_splits)
  define cur where "cur = (case map_of (ta_accounts t) ?a of Some a \<Rightarrow> a | None \<Rightarrow> acc)"
  have form: "0 \<le> sint (acc_Balance cur - (fee + Amount (tx_TxData tx)))"
      "t' = t\<lparr>ta_accounts := mput ?a (cur\<lparr>acc_Balance := acc_Balance cur - (fee + Amount (tx_TxData tx))\<rparr>) (ta_accounts t)\<rparr>"
    using assms(1) unfolding check_funds_def Let_def acc option.case ad cur_def [symmetric]
    by (simp_all add: nb split: if_splits)
  have "take AddressLength ?a = ?a"
    using accounts_okD(2) [OF assms(3), of "take AddressLength ?a" acc] acc ad by (simp add: GetAccountByAddressBytes_def)
  then have "map_of (AllAccounts (lg_Accounts (ta_ledger t))) ?a = Some acc"
    using acc by (simp add: GetAccountByAddressBytes_def)
  then have "acc_Balance cur = left_of t ?a"
    by (simp add: cur_def left_of_def GetBalance_def mget_def split: option.split)
  moreover have "cost_of tx = fee + Amount (tx_TxData tx)"
    using assms(4) by (simp add: cost_of_def fee_of_def)
  moreover have "left_of t' x = (if x = ?a then acc_Balance cur - (fee + Amount (tx_TxData tx)) else left_of t x)" for x
    by (simp add: form(2) left_of_def cong: option.case_cong)
  ultimately show ?thesis
    using form(1) assms(2) by (simp add: fun_eq_iff) (simp add: form(2))
qed

text \<open>A transaction that passes, seen from the whole step.\<close>

definition gas_of :: "Transaction \<Rightarrow> int64" where
  "gas_of tx = (if sint (GasUsage tx) > 0 then GasUsage tx else 0)"

lemma count_fee_passes:
  assumes "count_fee tx fee t = (None, t')"
  shows "t' = t\<lparr>ta_totalFee := ta_totalFee t + fee, ta_totalGas := ta_totalGas t + gas_of tx\<rparr>" "sint (gas_of tx) \<le> sint MaxGasUsage" "0 \<le> sint (gas_of tx)"
    "sint (gas_of tx) > 0 \<Longrightarrow> sint (ta_totalGas t') \<le> sint MaxGasUsagePerBlock"
  using assms by (auto simp: count_fee_def gas_of_def Let_def split: if_splits)

definition passed :: "int64 \<Rightarrow> bool \<times> Transaction \<Rightarrow> Tally \<Rightarrow> Tally \<Rightarrow> bool" where
  "passed height = (\<lambda>(verified, tx) t t'. verified \<and> TransactionHeightInWindow (tx_Height tx) height \<and> (\<exists>fee. CalcFee tx = Inr fee) \<and>
     ta_badTxErr t = None \<and> ta_ledger t' = ta_ledger t \<and> ta_totalFee t' = ta_totalFee t + fee_of tx \<and>
     ta_totalGas t' = ta_totalGas t + gas_of tx \<and> 0 \<le> sint (gas_of tx) \<and> sint (gas_of tx) \<le> sint MaxGasUsage \<and>
     (sint (gas_of tx) > 0 \<longrightarrow> sint (ta_totalGas t') \<le> sint MaxGasUsagePerBlock) \<and>
     left_of t' = (left_of t)(sender_of tx := left_of t (sender_of tx) - cost_of tx) \<and> 0 \<le> sint (left_of t' (sender_of tx)))"

lemma steps_done: "steps [] s = (None, s') \<longleftrightarrow> s' = s" "steps (c # cs) s = (None, s') \<longleftrightarrow> (\<exists>s1. c s = (None, s1) \<and> steps cs s1 = (None, s'))"
  by (auto simp: then_ok_def split: prod.splits option.splits)

lemma check_block_tx_passes:
  assumes "check_block_tx cr reg height vt t = (None, t')" "ta_badTxErr t' = None" "accounts_ok (lg_Accounts (ta_ledger t))"
  shows "passed height vt t t'"
proof -
  obtain v tx where vt: "vt = (v, tx)" by fastforce
  have nb: "bad_tx cr tx m u \<noteq> (None, t')" for m u
    using assms(2) bad_tx_marks by blast
  have v: v "TransactionHeightInWindow (tx_Height tx) height"
    using assms(1) nb unfolding check_block_tx_def vt prod.case by (meson, meson)
  obtain fee where fee: "CalcFee tx = Inr fee"
    using assms(1) v unfolding check_block_tx_def vt prod.case by (cases "CalcFee tx") simp_all
  obtain t1 where t1: "count_fee tx fee t = (None, t1)" "check_stake_and_funds cr reg height tx fee t1 = (None, t')"
    using assms(1) v unfolding check_block_tx_def vt prod.case fee sum.case by (auto simp: steps_done simp del: steps.simps)
  obtain u where u: "check_funds cr tx fee u = (None, t')" "u = t1 \<or> (\<exists>m. u = t1\<lparr>ta_stakingAccounts := m\<rparr>)"
    using t1(2) nb unfolding check_stake_and_funds_def check_running_stake_def Let_def
    by (auto split: sum.splits option.splits if_splits)
  have same: "ta_badTxErr u = ta_badTxErr t1" "ta_ledger u = ta_ledger t1" "ta_totalFee u = ta_totalFee t1" "ta_totalGas u = ta_totalGas t1"
      "left_of u = left_of t1"
    using u(2) by (auto simp: left_of_def fun_eq_iff cong: option.case_cong)
  note c = count_fee_passes [OF t1(1)]
  have t: "ta_badTxErr t1 = ta_badTxErr t" "ta_ledger t1 = ta_ledger t" "ta_totalFee t1 = ta_totalFee t + fee" "ta_totalGas t1 = ta_totalGas t + gas_of tx"
      "left_of t1 = left_of t"
    by (simp_all add: c(1) left_of_def fun_eq_iff cong: option.case_cong)
  have "accounts_ok (lg_Accounts (ta_ledger u))"
    using assms(3) same(2) t(2) by simp
  note p = check_funds_passes [OF u(1) assms(2) this fee]
  show ?thesis
    unfolding passed_def vt prod.case
    using v fee p same t c(2-4) by (auto simp: fee_of_def)
qed


text \<open>All transactions of a block that passes: what is left of a balance is exactly the balance minus the costs
  of the sender's transactions, as integers.\<close>

lemma sint_diff_exact:
  assumes "0 \<le> sint (a :: int64)" "0 \<le> sint (a - b)"
  shows "sint (a - b) = sint a - sint b"
proof (cases "sint a - sint b < 2 ^ 63")
  case True
  then show ?thesis
    using assms(1) sint_range64 [of b] by (intro sint_diff64) simp_all
next
  case False
  have "sint (a - b) = signed_take_bit 63 (sint a - sint b)"
    by (simp add: sint_word_ariths)
  also have "\<dots> = sint a - sint b - 2 ^ 64"
  proof -
    have "signed_take_bit 63 (sint a - sint b) = signed_take_bit 63 (sint a - sint b - 2 ^ 64)"
      by (rule signed_take_bit_eq_iff_take_bit_eq [THEN iffD2]) (simp add: take_bit_eq_mod)
    then show ?thesis
      using False sint_range64 [of a] sint_range64 [of b] by (simp add: signed_take_bit_int_eq_self)
  qed
  finally show ?thesis
    using assms(2) sint_range64 [of a] sint_range64 [of b] by simp
qed

definition spent :: "bytes \<Rightarrow> Transaction list \<Rightarrow> int" where
  "spent a txs = sum_list (map (\<lambda>tx. sint (cost_of tx)) (filter (\<lambda>tx. sender_of tx = a) txs))"

definition keeps_bad :: "Tally cmd \<Rightarrow> bool" where
  "keeps_bad c \<longleftrightarrow> (\<forall>t. ta_badTxErr t \<noteq> None \<longrightarrow> ta_badTxErr (snd (c t)) \<noteq> None)"

lemma keeps_badD: "keeps_bad c \<Longrightarrow> c t = (e, u) \<Longrightarrow> ta_badTxErr u = None \<Longrightarrow> ta_badTxErr t = None"
  by (metis keeps_bad_def snd_conv)

lemma keeps_bad_steps: "\<forall>c \<in> set cs. keeps_bad c \<Longrightarrow> keeps_bad (steps cs)"
proof (induction cs)
  case (Cons c cs)
  have "ta_badTxErr (snd (steps (c # cs) t)) \<noteq> None" if "ta_badTxErr t \<noteq> None" for t
  proof -
    obtain e u where u: "c t = (e, u)" by fastforce
    then have "ta_badTxErr u \<noteq> None"
      using that keeps_badD [of c t e u] u Cons.prems by (metis list.set_intros(1))
    then show ?thesis
      using u Cons.IH Cons.prems by (cases e) (simp_all add: then_ok_def keeps_bad_def)
  qed
  then show ?case by (simp add: keeps_bad_def del: steps.simps)
qed (simp add: keeps_bad_def)

lemma keeps_bad_bad_tx: "keeps_bad (bad_tx cr tx m)"
  by (simp add: keeps_bad_def bad_tx_def split: option.split)

lemma keeps_bad_check_funds: "keeps_bad (check_funds cr tx fee)"
  using keeps_bad_bad_tx unfolding keeps_bad_def check_funds_def Let_def by (simp split: option.split)

lemma keeps_bad_stake: "keeps_bad (check_stake_and_funds cr reg height tx fee)"
proof -
  have "ta_badTxErr (snd (check_stake_and_funds cr reg height tx fee t)) \<noteq> None" if t: "ta_badTxErr t \<noteq> None" for t
  proof -
    have u: "ta_badTxErr (snd (check_running_stake reg tx fee height n t)) = ta_badTxErr t" for n
      unfolding check_running_stake_def Let_def by simp
    have b: "ta_badTxErr u \<noteq> None \<Longrightarrow> ta_badTxErr (snd (bad_tx cr tx m u)) \<noteq> None"
        "ta_badTxErr u \<noteq> None \<Longrightarrow> ta_badTxErr (snd (check_funds cr tx fee u)) \<noteq> None" for m u
      using keeps_bad_bad_tx keeps_bad_check_funds unfolding keeps_bad_def by blast+
    show ?thesis
    proof (cases "delegated_account tx")
      case (Inr d)
      show ?thesis
      proof (cases d)
        case (Some n)
        show ?thesis
          using u [of n] t b unfolding check_stake_and_funds_def Inr Some sum.case option.case
          by (cases "check_running_stake reg tx fee height n t") simp
      qed (use t b in \<open>simp add: check_stake_and_funds_def Inr\<close>)
    qed (use t in \<open>simp add: check_stake_and_funds_def\<close>)
  qed
  then show ?thesis by (simp add: keeps_bad_def)
qed

lemma keeps_bad_check_block_tx: "keeps_bad (check_block_tx cr reg height vt)"
proof -
  obtain v x where vt: "vt = (v, x)" by fastforce
  have c: "keeps_bad (count_fee x fee)" for fee
    by (simp add: keeps_bad_def count_fee_def Let_def)
  have k: "keeps_bad (\<lambda>t. (g t, t))" for g
    by (simp add: keeps_bad_def)
  show ?thesis
  proof (cases "CalcFee x")
    case (Inl e)
    then show ?thesis
      using keeps_bad_bad_tx by (simp add: check_block_tx_def vt keeps_bad_def)
  next
    case (Inr fee)
    have "keeps_bad (steps [count_fee x fee, \<lambda>t. (g t, t), \<lambda>t. (h t, t), check_stake_and_funds cr reg height x fee])" for g h
      by (rule keeps_bad_steps) (simp add: c k keeps_bad_stake)
    then show ?thesis
      using keeps_bad_bad_tx unfolding check_block_tx_def vt prod.case Inr sum.case keeps_bad_def by (simp del: steps.simps)
  qed
qed

lemma check_all_passes:
  assumes "steps (map (check_block_tx cr reg height) (zip vs txs)) t = (None, t')" "ta_badTxErr t' = None" "length vs = length txs"
    "accounts_ok (lg_Accounts (ta_ledger t))" "\<forall>a. 0 \<le> sint (left_of t a)" "0 \<le> sint (ta_totalGas t)" "sint (ta_totalGas t) \<le> sint MaxGasUsagePerBlock"
  shows "ta_ledger t' = ta_ledger t \<and> ta_badTxErr t = None \<and> vs = replicate (length txs) True \<and>
    (\<forall>tx \<in> set txs. TransactionHeightInWindow (tx_Height tx) height \<and> (\<exists>fee. CalcFee tx = Inr fee)) \<and>
    ta_totalFee t' = ta_totalFee t + sum_list (map fee_of txs) \<and>
    sint (ta_totalGas t) + sum_list (map (sint \<circ> gas_of) txs) \<le> sint MaxGasUsagePerBlock \<and>
    (\<forall>a. 0 \<le> sint (left_of t' a) \<and> sint (left_of t' a) = sint (left_of t a) - spent a txs)"
  using assms(3) assms(1,2,4-)
proof (induction vs txs arbitrary: t rule: list_induct2)
  case Nil
  then show ?case by (simp add: spent_def)
next
  case (Cons v vs tx txs)
  from Cons.prems(1) obtain t1 where t1: "check_block_tx cr reg height (v, tx) t = (None, t1)"
      and rest: "steps (map (check_block_tx cr reg height) (zip vs txs)) t1 = (None, t')"
    unfolding zip_Cons_Cons list.map steps_done by blast
  have "ta_badTxErr t1 = None"
    using keeps_badD [OF keeps_bad_steps rest Cons.prems(2)] keeps_bad_check_block_tx by simp
  note p = check_block_tx_passes [OF t1 this Cons.prems(3), unfolded passed_def prod.case]
  have gas: "sint (ta_totalGas t1) = sint (ta_totalGas t) + sint (gas_of tx)" "0 \<le> sint (gas_of tx)"
    using p Cons.prems(5,6) by (simp_all add: sint_add64)
  have g1: "0 \<le> sint (ta_totalGas t1)" "sint (ta_totalGas t1) \<le> sint MaxGasUsagePerBlock"
    using gas p Cons.prems(5,6) by (cases "sint (gas_of tx) = 0"; simp)+
  have left: "sint (left_of t1 a) = sint (left_of t a) - spent a [tx]" "0 \<le> sint (left_of t1 a)" for a
    using p Cons.prems(4) sint_diff_exact [of "left_of t (sender_of tx)" "cost_of tx"] by (auto simp: spent_def)
  have ok1: "accounts_ok (lg_Accounts (ta_ledger t1))"
    using p Cons.prems(3) by simp
  have sp: "spent a (tx # txs) = spent a [tx] + spent a txs" for a
    by (simp add: spent_def)
  have IH: "ta_ledger t' = ta_ledger t1 \<and> ta_badTxErr t1 = None \<and> vs = replicate (length txs) True \<and>
    (\<forall>tx \<in> set txs. TransactionHeightInWindow (tx_Height tx) height \<and> (\<exists>fee. CalcFee tx = Inr fee)) \<and>
    ta_totalFee t' = ta_totalFee t1 + sum_list (map fee_of txs) \<and>
    sint (ta_totalGas t1) + sum_list (map (sint \<circ> gas_of) txs) \<le> sint MaxGasUsagePerBlock \<and>
    (\<forall>a. 0 \<le> sint (left_of t' a) \<and> sint (left_of t' a) = sint (left_of t1 a) - spent a txs)"
    by (rule Cons.IH [OF rest Cons.prems(2) ok1 _ g1]) (simp add: left(2))
  have pd: v "TransactionHeightInWindow (tx_Height tx) height" "\<exists>fee. CalcFee tx = Inr fee" "ta_badTxErr t = None" "ta_ledger t1 = ta_ledger t"
      "ta_totalFee t1 = ta_totalFee t + fee_of tx"
    using p by blast+
  have "sint (ta_totalGas t) + sum_list (map (sint \<circ> gas_of) (tx # txs)) \<le> sint MaxGasUsagePerBlock"
    using IH unfolding gas(1) by (simp only: list.map sum_list.Cons o_apply add.assoc)
  moreover have "sint (left_of t' a) = sint (left_of t a) - spent a (tx # txs)" for a
    using IH left(1) [of a] sp [of a] by simp
  moreover have "ta_totalFee t' = ta_totalFee t + sum_list (map fee_of (tx # txs))"
    using IH pd(6) by (simp only: list.map sum_list.Cons add.assoc)
  moreover have "v # vs = replicate (length (tx # txs)) True" "ta_ledger t' = ta_ledger t"
    using IH pd(1,5) by simp_all
  moreover have "\<forall>tx \<in> set (tx # txs). TransactionHeightInWindow (tx_Height tx) height \<and> (\<exists>fee. CalcFee tx = Inr fee)"
    using IH pd(2,3) by (simp only: list.set ball_simps) blast
  ultimately show ?case
    using IH pd(4) by blast
qed


subsection \<open>A checked block\<close>

lemma verify_each_length: "verify_each f xs = Inr bs \<Longrightarrow> length bs = length xs"
  by (induction xs arbitrary: bs) (auto simp: bindR_def split: sum.splits)

lemma verifyBlockTransactions_length: "verifyBlockTransactions lib ch lastBlock txs = Inr bs \<Longrightarrow> length bs = length txs"
  by (auto simp: verifyBlockTransactions_def verify_each_length split: sum.splits)

text \<open>What a block whose transfers are accepted has been checked for, of the bodies \<open>txs\<close> it loads.\<close>

definition funded_block :: "SigLibrary \<Rightarrow> Chain \<Rightarrow> Block \<Rightarrow> Block \<Rightarrow> Ledger \<Rightarrow> Transaction list \<Rightarrow> bool" where
  "funded_block lib ch block lastBlock l txs \<longleftrightarrow>
     verifyBlockTransactions lib ch lastBlock txs = Inr (replicate (length txs) True) \<and>
     (\<forall>tx \<in> set txs. TransactionHeightInWindow (tx_Height tx) (block_height block) \<and> (\<exists>fee. CalcFee tx = Inr fee)) \<and>
     (\<forall>h \<in> set (bl_TransactionsHashes block). IncludedTxHeight (lg_Pools l) h = None) \<and>
     sum_list (map (\<lambda>tx. sint (gas_of tx)) txs) \<le> sint MaxGasUsagePerBlock \<and>
     (\<forall>a. spent a txs \<le> sint (GetBalance (lg_Accounts l) a))"

lemma CheckBlockTransfers_accepts:
  assumes "accounts_ok (lg_Accounts l)" "CheckBlockTransfers lib ch ratio block lastBlock l = (Inr (reward, fee), l')"
  obtains txs p where "load_block_txs lib ch lastBlock (bl_TransactionsHashes block) (lg_Pools l) = (Inr txs, p)" "l' = l\<lparr>lg_Pools := p\<rparr>"
    "funded_block lib ch block lastBlock l txs" "fee = sum_list (map fee_of txs)"
    "GetReward ratio (GetBlockSupply lastBlock) = Inr reward" "GetBlockSupply lastBlock + reward = GetBlockSupply block"
proof -
  obtain r p where r: "load_block_txs lib ch lastBlock (bl_TransactionsHashes block) (lg_Pools l) = (r, p)" by fastforce
  note form = assms(2) [unfolded CheckBlockTransfers_def Let_def r prod.case]
  obtain txs where txs: "r = Inr txs"
    using form by (cases r) simp_all
  obtain vs where vs: "verifyBlockTransactions lib ch lastBlock txs = Inr vs"
    using form by (cases "verifyBlockTransactions lib ch lastBlock txs") (simp_all add: txs)
  let ?l = "l\<lparr>lg_Pools := p\<rparr>"
  obtain e t where t: "steps (map (check_block_tx (ch_Crypto ch) (ch_Keys ch) (block_height block)) (zip vs txs)) (new_tally ?l) = (e, t)" by fastforce
  have "e = None" "ta_badTxErr t = None"
    using form by (cases e; cases "ta_badTxErr t"; simp add: txs vs t del: steps.simps)+
  note t = t [unfolded this(1)] this(2)
  have left: "left_of (new_tally ?l) a = GetBalance (lg_Accounts l) a" for a
    by (simp add: left_of_def new_tally_def)
  have fields: "ta_ledger (new_tally ?l) = ?l" "ta_totalGas (new_tally ?l) = 0" "ta_totalFee (new_tally ?l) = 0"
    by (simp_all add: new_tally_def)
  have 0: "\<forall>a. 0 \<le> sint (left_of (new_tally ?l) a)" "0 \<le> sint (ta_totalGas (new_tally ?l))"
      "sint (ta_totalGas (new_tally ?l)) \<le> sint MaxGasUsagePerBlock" "accounts_ok (lg_Accounts (ta_ledger (new_tally ?l)))"
    using assms(1) accounts_okD(4) [OF assms(1)] by (simp_all add: left fields)
  note c = check_all_passes [OF t verifyBlockTransactions_length [OF vs] 0(4,1,2,3), unfolded fields left]
  have led: "ta_ledger t = ?l" "ta_totalFee t = sum_list (map fee_of txs)" and all: "vs = replicate (length txs) True"
    and win: "\<forall>tx \<in> set txs. TransactionHeightInWindow (tx_Height tx) (block_height block) \<and> (\<exists>fee. CalcFee tx = Inr fee)"
    using c by (blast, simp, blast, blast)
  have gas: "sum_list (map (\<lambda>tx. sint (gas_of tx)) txs) \<le> sint MaxGasUsagePerBlock"
    using c unfolding comp_def sint_0 add_0 by blast
  have sp: "spent a txs \<le> sint (GetBalance (lg_Accounts l) a)" for a
  proof -
    have "0 \<le> sint (left_of t a)" "sint (left_of t a) = sint (GetBalance (lg_Accounts l) a) - spent a txs"
      using c by (blast, simp)
    then show ?thesis by linarith
  qed
  have "funded_block lib ch block lastBlock l txs"
    unfolding funded_block_def using vs win gas sp load_block_txs_index [OF r [unfolded txs]] unfolding all by blast
  moreover have "GetReward ratio (GetBlockSupply lastBlock) = Inr reward \<and> GetBlockSupply lastBlock + reward = GetBlockSupply block \<and> fee = ta_totalFee t \<and> l' = ta_ledger t"
  proof (cases "GetReward ratio (GetBlockSupply lastBlock)")
    case (Inr x)
    then show ?thesis
      using form by (cases "GetBlockSupply lastBlock + x = GetBlockSupply block") (simp_all add: txs vs t del: steps.simps)
  qed (use form in \<open>simp add: txs vs t del: steps.simps\<close>)
  ultimately show thesis
    using that [OF r [unfolded txs]] led by metis
qed



subsection \<open>The books after a block\<close>

lemma recovery_maintenance_neutral:
  assumes "accounts_ok at"
  shows "accounts_ok (applyRecoveryMaintenance lib b par at) \<and> total_balance (applyRecoveryMaintenance lib b par at) = total_balance at"
proof -
  have prune: "accounts_ok (snd (PruneRecoveryBinds h at)) \<and> total_balance (snd (PruneRecoveryBinds h at)) = total_balance at" for h
    using assms by (simp add: PruneRecoveryBinds_def accounts_ok_def total_balance_def)
  have v: "acc_Balance (fst (voidPending h acc)) = acc_Balance acc" "acc_Address (fst (voidPending h acc)) = acc_Address acc" for h acc
    by (simp_all add: voidPending_def promoteMatured_def Let_def)
  have void: "accounts_ok (snd (VoidPendingRecoveryCommits h at'))" "total_balance (snd (VoidPendingRecoveryCommits h at')) = total_balance at'"
    if "accounts_ok at'" for h at'
  proof -
    have "map fst (AllAccounts (snd (VoidPendingRecoveryCommits h at'))) = map fst (AllAccounts at')"
      by (simp add: VoidPendingRecoveryCommits_def comp_def case_prod_unfold)
    then show "accounts_ok (snd (VoidPendingRecoveryCommits h at'))"
      using that VoidPendingRecoveryCommits_get [of h at'] by (auto simp: accounts_ok_def v)
    show "total_balance (snd (VoidPendingRecoveryCommits h at')) = total_balance at'"
      by (simp add: VoidPendingRecoveryCommits_def total_balance_def msum_def comp_def case_prod_unfold v)
  qed
  show ?thesis
    using prune void by (simp add: applyRecoveryMaintenance_def Let_def)
qed

lemma ProcessBlockPubKey_db: "ProcessBlockPubKey cr hs h (db, reg) = (None, db', reg') \<Longrightarrow> db' = db"
proof (induction hs arbitrary: reg)
  case (Cons k hs)
  obtain r db1 where r: "LoadFromDBPoolTx cr TransactionPoolHashesDBPrefix k db = (r, db1)" by fastforce
  obtain t where t: "r = Inr t"
    using Cons.prems by (cases r) (simp_all add: r)
  have "db1 = db" by (rule Load_other(3) [OF r prefixes_apart(7,8) t])
  then show ?case
    using Cons.prems Cons.IH by (auto simp: r t split: option.splits prod.splits)
qed simp

lemma StoreTree_bodies: "same_bodies db (StoreTree json h t db)"
  by (simp add: same_bodies_def StoreTree_def Let_def string_bytes_def)


text \<open>What contract evaluation is relied on for: it keeps the ledger in order and leaves the bodies of the pool
  database alone.\<close>

definition evaluation_in_order :: "Env \<Rightarrow> bool" where
  "evaluation_in_order env \<longleftrightarrow> (\<forall>b l. ledger_ok l \<longrightarrow> ledger_ok (snd (env_evaluate env b l)) \<and>
     same_bodies (ps_DB (lg_Pools l)) (ps_DB (lg_Pools (snd (env_evaluate env b l)))))"

text \<open>The settlement of the escrow at the end of the block cannot lose anything.\<close>

definition settles_safely :: "Env \<Rightarrow> Block \<Rightarrow> MerkleTree \<Rightarrow> Block \<times> Node \<Rightarrow> bool" where
  "settles_safely env lastBlock tree s =
    (case prepare_transfers env lastBlock tree s of
       (Inl e, _) \<Rightarrow> True
     | (Inr reward, newBlock, nd) \<Rightarrow>
         let cr = ch_Crypto (node_chain env nd) in
         escrow_safe cr (block_height newBlock) (snd (block_transfers cr (env_history env) (env_now env) newBlock reward (nd_Ledger nd))))"

lemma checked_block_accepts:
  assumes "ledger_ok (nd_Ledger nd)" "checked_block env lastBlock (b, nd) = (Inr reward, b1, nd1)"
  obtains txs p where "load_block_txs (env_lib env) (node_chain env nd) lastBlock (bl_TransactionsHashes b) (lg_Pools (nd_Ledger nd)) = (Inr txs, p)"
    "b1 = b\<lparr>bl_BlockFee := sum_list (map fee_of txs) + bl_BlockFee lastBlock\<rparr>"
    "nd1 = nd\<lparr>nd_Ledger := snd (env_evaluate env b1 ((nd_Ledger nd)\<lparr>lg_Pools := p\<rparr>))\<rparr>"
proof -
  let ?ch = "node_chain env nd" and ?l = "nd_Ledger nd"
  obtain r l where c: "CheckBlockTransfers (env_lib env) ?ch (env_ratio env) b lastBlock ?l = (r, l)" by fastforce
  note form = assms(2) [unfolded checked_block_def prod.case c]
  have ok: "producer_checks env nd b lastBlock = None"
    using form by (cases "producer_checks env nd b lastBlock") simp_all
  obtain w fee where r: "r = Inr (w, fee)"
    using form ok by (cases r) auto
  have acc: "accounts_ok (lg_Accounts ?l)"
    using assms(1) by (simp add: ledger_ok_def)
  obtain txs p where 1: "load_block_txs (env_lib env) ?ch lastBlock (bl_TransactionsHashes b) (lg_Pools ?l) = (Inr txs, p)" "l = ?l\<lparr>lg_Pools := p\<rparr>"
      "fee = sum_list (map fee_of txs)"
    using CheckBlockTransfers_accepts [OF acc c [unfolded r]] by metis
  let ?b = "b\<lparr>bl_BlockFee := fee + bl_BlockFee lastBlock\<rparr>"
  obtain q m where m: "env_evaluate env ?b l = (q, m)" by fastforce
  have "b1 = ?b" "nd1 = nd\<lparr>nd_Ledger := m\<rparr>"
    using form by (simp_all add: ok r Let_def m)
  then show thesis
    using that [OF 1(1)] m 1(2,3) by simp
qed

lemma prepare_transfers_accepts:
  assumes "prepare_transfers env lastBlock tree (b, nd) = (Inr reward, b1, nd2)"
  obtains nd1 where "checked_block env lastBlock (b, nd) = (Inr reward, b1, nd1)"
    "coins (nd_Ledger nd1) + reward + bl_BlockFee lastBlock = GetBlockSupply b1" "coins (nd_Ledger nd2) = coins (nd_Ledger nd1)"
    "ledger_ok (nd_Ledger nd2) = ledger_ok (nd_Ledger nd1)" "nd_Enc nd2 = nd_Enc nd1"
    "same_bodies (ps_DB (lg_Pools (nd_Ledger nd1))) (ps_DB (lg_Pools (nd_Ledger nd2)))"
proof -
  obtain r b' nd1 where c: "checked_block env lastBlock (b, nd) = (r, b', nd1)" by (metis prod_cases3)
  note form = assms [unfolded prepare_transfers_def c prod.case]
  obtain w where r: "r = Inr w" using form by (cases r) simp_all
  let ?l = "nd_Ledger nd1"
  obtain st rw where sr: "GetSupplyInStakedAccounts (lg_Staking ?l) = (st, rw)" by fastforce
  have sum: "GetSupplyInAccounts (lg_Accounts ?l) + st + rw + w + bl_BlockFee lastBlock = GetBlockSupply b'"
    using form by (simp add: r sr Let_def split: if_splits)
  obtain e db reg where k: "ProcessBlockPubKey (ch_Crypto (node_chain env nd1)) (bl_TransactionsHashes b') (block_height b') (ps_DB (lg_Pools ?l), nd_Keys nd1) = (e, db, reg)"
    by (metis prod_cases3)
  have e: "e = None" using form sum by (cases e) (simp_all add: r sr k Let_def)
  have 2: "reward = w" "b1 = b'" "nd2 = nd1\<lparr>nd_Ledger := ?l\<lparr>lg_Pools := (lg_Pools ?l)\<lparr>ps_DB := StoreTree (env_json env) (block_height b') tree db\<rparr>\<rparr>, nd_Keys := reg\<rparr>"
    using form sum by (auto simp: r sr k e Let_def)
  have "db = ps_DB (lg_Pools ?l)"
    using ProcessBlockPubKey_db [OF k [unfolded e]] .
  then show thesis
    using that [of nd1] c r 2 sum StoreTree_bodies [of db] sr by (simp add: coins_def ledger_ok_def)
qed


lemma CheckBlockAndTransferFunds_accepts:
  assumes "CheckBlockAndTransferFunds env lastBlock tree (b, nd) = (None, b', nd')"
  obtains reward nd2 l1 l3 where "prepare_transfers env lastBlock tree (b, nd) = (Inr reward, b', nd2)"
    "block_transfers (ch_Crypto (node_chain env nd2)) (env_history env) (env_now env) b' reward (nd_Ledger nd2) = (None, l1)"
    "ProcessBlockTransfers (ch_Crypto (node_chain env nd2)) (env_history env) (env_now env) b' reward (nd_Ledger nd2) = (None, l3)"
    "ledger_ok l3 \<longrightarrow> ledger_ok (nd_Ledger nd') \<and> coins (nd_Ledger nd') = coins l3"
proof -
  obtain r b1 nd2 where pr: "prepare_transfers env lastBlock tree (b, nd) = (r, b1, nd2)" by (metis prod_cases3)
  obtain w where r: "r = Inr w"
    using assms pr by (cases r) (simp_all add: CheckBlockAndTransferFunds_def)
  define cr where "cr = ch_Crypto (node_chain env nd2)"
  note form = assms [unfolded CheckBlockAndTransferFunds_def pr r prod.case sum.case, folded cr_def]
  obtain e l3 where l3: "ProcessBlockTransfers cr (env_history env) (env_now env) b1 w (nd_Ledger nd2) = (e, l3)" by fastforce
  have e: "e = None"
    using form by (cases e) (simp_all add: l3)
  obtain e1 l1 where T: "block_transfers cr (env_history env) (env_now env) b1 w (nd_Ledger nd2) = (e1, l1)" by fastforce
  have e1: "e1 = None"
    using l3 by (cases e1) (simp_all add: ProcessBlockTransfers_def T e Let_def)
  have fields: "b' = b1" "lg_Staking (nd_Ledger nd') = lg_Staking l3"
      "lg_Accounts (nd_Ledger nd') = applyRecoveryMaintenance (env_lib env) b1 lastBlock (lg_Accounts l3)"
    using form by (auto simp: l3 e adopt_encryption_def Let_def)
  then show thesis
    using that [of w nd2 l1 l3] pr r T e1 l3 e recovery_maintenance_neutral [of "lg_Accounts l3" "env_lib env" b1 lastBlock]
    by (simp add: cr_def ledger_ok_def coins_totals)
qed

lemma fees_split:
  "sum_list (map fee_of txs) = sum_list (map paid txs) + sum_list (map fee_of (filter reward_deposit txs))"
  by (induction txs) (simp_all add: paid_def)


subsection \<open>A block with one transfer\<close>

text \<open>An account with a spare key pays one transfer in a block of the node that has all the stake.\<close>

definition sample_parent_block :: Block where
  "sample_parent_block = sample_genesis\<lparr>bl_BaseBlock := (bl_BaseBlock sample_genesis)\<lparr>
     bb_BaseHeader := (GetHeader sample_genesis)\<lparr>bh_Height := 79\<rparr>, bb_Supply := 200000001000000\<rparr>\<rparr>"

definition sample_paid_header :: BaseHeader where
  "sample_paid_header = (GetHeader sample_genesis)\<lparr>bh_Height := 80, bh_DelegatedAccount := sample_delegate, bh_StateRoot := replicate 32 9\<rparr>"

definition sample_paid_block :: Block where
  "sample_paid_block = sample_genesis\<lparr>bl_BaseBlock := (bl_BaseBlock sample_genesis)\<lparr>
       bb_BaseHeader := sample_paid_header\<lparr>bh_SignatureMessage := BaseHeader_GetBytesWithoutSignature sample_paid_header\<rparr>,
       bb_Supply := 200018385000000, bb_RandCommit := replicate 32 1\<rparr>, bl_TransactionsHashes := [replicate 32 9]\<rparr>"

definition sample_paid_ledger :: Ledger where
  "sample_paid_ledger = \<lparr>lg_Accounts = \<lparr>AllAccounts = [(replicate 20 7, zero_Account\<lparr>acc_Address := replicate 20 7, acc_Balance := 1000000,
       acc_SpareCommit := replicate 20 3\<rparr>)], RecoveryBinds = [], at_Height = 0\<rparr>, lg_Staking = sample_stake,
     lg_Pools = sample_pools\<lparr>ps_DB := [(TransactionPoolHashesDBPrefix @ replicate 32 9, Transaction_GetBytes sample_tx)]\<rparr>\<rparr>"

definition sample_books :: Node where
  "sample_books = \<lparr>nd_Ledger = sample_paid_ledger, nd_Keys = sample_registry, nd_Enc = sample_enc,
     nd_Votes = \<lparr>VotesEncryption1 = [], VotesEncryption2 = [], AfterReset = False\<rparr>\<rparr>"

definition sample_env :: Env where
  "sample_env = \<lparr>env_lib = sample_library, env_ch = sample_chain sample_registry, env_ratio = 800, env_json = (\<lambda>_. []), env_vm = [],
     env_evaluate = (\<lambda>_ l. (True, l)), env_wallet = (\<lambda>_ _ _. None), env_history = True, env_now = 0\<rparr>"

definition sample_books_chain :: Chain where
  "sample_books_chain = (sample_chain sample_registry)\<lparr>ch_Accounts := lg_Accounts sample_paid_ledger\<rparr>"

lemma sample_books_chain: "node_chain sample_env sample_books = sample_books_chain"
  by (simp add: node_chain_def sample_env_def sample_books_def sample_books_chain_def sample_chain_def sample_crypto_def)

lemma sample_books_fields:
  "ch_Crypto sample_books_chain = sample_crypto" "ch_Keys sample_books_chain = sample_registry" "ch_Oqs sample_books_chain = sample_oqs"
  "cr_enc sample_crypto = sample_enc" "block_height sample_parent_block = 79" "block_height sample_paid_block = 80"
  "bl_TransactionsHashes sample_paid_block = [replicate 32 9]" "GetBlockSupply sample_parent_block = 200000001000000" "GetBlockSupply sample_paid_block = 200018385000000"
  by (simp_all add: sample_books_chain_def sample_chain_def sample_crypto_def sample_parent_block_def sample_paid_block_def sample_paid_header_def
      sample_genesis_defs GetBlockSupply_def)

lemma sample_paid_ledger_ok: "ledger_ok sample_paid_ledger"
  by (simp add: ledger_ok_def sample_paid_ledger_def accounts_ok_def) (simp add: wf_staking_def sample_stake_def sample_shards_def zero_StakingAccountsType_def
      wf_staking_entry_def details_ok_def detail_total_def wf_locks_def zero_StakingAccount_def)

lemma sample_body: "sound_body sample_crypto (replicate 32 9) sample_tx"
  by (simp add: sound_body_def sample_books_fields sample_tx_wf) (simp add: sample_tx_def HashMatchesBody_def GetHashFromBytes_def Hash_Set_def EmptyHash_def sample_crypto_def)

lemma sample_loaded:
  "LoadFromDBPoolTx sample_crypto TransactionPoolHashesDBPrefix (replicate 32 9) (ps_DB (lg_Pools sample_paid_ledger)) = (Inr sample_tx, ps_DB (lg_Pools sample_paid_ledger))"
  "load_block_txs lib sample_books_chain par [replicate 32 9] (lg_Pools sample_paid_ledger) = (Inr [sample_tx], lg_Pools sample_paid_ledger)"
proof -
  have 1: "Transaction_GetFromBytes (cr_enc sample_crypto) (cr_H160 sample_crypto) (Transaction_GetBytes sample_tx) = Inr (sample_tx, [])"
    using Transaction_round_trip [OF sample_tx_wf, where rest = "[]"] by (simp add: sample_books_fields)
  show 2: "LoadFromDBPoolTx sample_crypto TransactionPoolHashesDBPrefix (replicate 32 9) (ps_DB (lg_Pools sample_paid_ledger)) = (Inr sample_tx, ps_DB (lg_Pools sample_paid_ledger))"
    using sample_body 1 Transaction_bytes_ne [of sample_tx] by (simp add: LoadFromDBPoolTx_def sample_paid_ledger_def sound_body_def)
  have "CheckTransactionInDBAndInMarkleTrie (replicate 32 9) (lg_Pools sample_paid_ledger) = (None, lg_Pools sample_paid_ledger)"
    by (simp add: CheckTransactionInDBAndInMarkleTrie_def IncludedTxHeight_def sample_paid_ledger_def string_bytes_def)
  then show "load_block_txs lib sample_books_chain par [replicate 32 9] (lg_Pools sample_paid_ledger) = (Inr [sample_tx], lg_Pools sample_paid_ledger)"
    using 2 by (simp add: load_block_tx_def sample_books_fields)
qed


definition sample_paid_names :: SigNames where
  "sample_paid_names = \<lparr>sn_Name = ''Falcon-512'', sn_Name2 = ''Falcon-512'', sn_Paused = False, sn_Paused2 = True\<rparr>"

lemma sample_paid_sig_names: "GetSigNames sample_library enc sample_parent_block = Inr sample_paid_names"
proof -
  have "bh_Encryption1 (GetHeader sample_parent_block) = sample_live" "bh_Encryption2 (GetHeader sample_parent_block) = sample_live"
    by (simp_all add: sample_parent_block_def sample_genesis_defs)
  then show ?thesis
    by (simp add: GetSigNames_def FromBytesToEncryptionConfig_def sample_live_parsed sample_paid_names_def) (simp add: sample_falcon_def)
qed

lemma sample_paid_verified: "verifyBlockTransactions sample_library sample_books_chain sample_parent_block [sample_tx] = Inr [True]"
proof -
  let ?ch = sample_books_chain
  have tx: "Recipient (tx_TxData sample_tx) = sample_addr 5" "OptData (tx_TxData sample_tx) = []" "Pubkey (tx_TxData sample_tx) = zero_PubKey"
    "td_LockedAmount (tx_TxData sample_tx) = 0" "GetSenderAddress sample_tx = sample_addr 7" "EscrowTransactionsDelay (tx_TxData sample_tx) = 0"
    "td_MultiSignNumber (tx_TxData sample_tx) = 0" "sig_ByteValue (tx_Signature sample_tx) = [0, 1, 2]" "tx_Hash sample_tx = replicate 32 9"
    "GasPrice sample_tx = 10" "GasUsage sample_tx = 30000" "ChainID (tx_TxParam sample_tx) = 23" "Amount (tx_TxData sample_tx) = 42"
    by (simp_all add: sample_tx_def zero_TxData_def GetSenderAddress_def)
  have del: "IntDelegatedAccountFromAddress (sample_addr 5) = Inl (Errorf ''this is not correct delegated account'')" "delegated_id (sample_addr 5) = -1"
    by (simp_all add: delegated_id_def IntDelegatedAccountFromAddress_def sample_addr_def Let_def)
  have kinds: "\<not> IsRecoveryReveal sample_tx" "\<not> IsRecoveryBind sample_tx"
    using sample_not_recovery by (simp_all add: IsRecoveryReveal_def IsRecoveryBind_def tx sample_addr_def recoveryAddress_def)
  have "hasSpareCover ?ch (sample_addr 7) 79"
    by (simp add: hasSpareCover_def sample_books_chain_def sample_paid_ledger_def GetAccountByAddressBytes_def sample_addr_def)
  moreover have "gas_ok sample_tx"
    by (simp add: gas_ok_def MinGasUsage_def tx zero_PubKey_def Let_def isDexOperation_def del)
  ultimately have "rules_ok ?ch txKindRegular 79 sample_tx"
    by (simp add: rules_ok_def Let_def kind_ok_def tx del kinds lock_ok_def policy_ok_def dex_ok_def) (simp add: sample_books_chain_def sample_chain_def)
  moreover have "sender_key ?ch sample_paid_names 79 sample_tx True = Inr (sample_key (sample_addr 7))"
    by (simp add: sender_key_def sample_books_fields sample_oqs_def signingSchemeName_def sample_paid_names_def LoadPubKeyWithPrimaryOfLengthAsOf_def
        LoadAddressesAsOf_def LoadAddresses_def sample_registry_def empty_registry_def tx sample_addr_def RegisteredAsOf_def RegistrationHeight_def mget_def
        LoadPubKey_def sample_key_def)
  moreover have "wallet_Verify sample_oqs (replicate 32 9) [0, 1, 2] (pk_ByteValue (sample_key (sample_addr 7))) sample_paid_names"
    by (simp add: wallet_Verify_def sample_paid_names_def sample_oqs_def oqs_check_def sample_key_def)
  ultimately have "verify ?ch txKindRegular sample_paid_names 79 sample_tx = Inr True"
    using sample_body by (simp add: verify_def kinds tx zero_PubKey_def sample_books_fields sound_body_def)
  then show ?thesis
    by (simp add: verifyBlockTransactions_def sample_paid_sig_names VerifyAsOf_def sample_books_fields)
qed

lemma sample_reward: "GetReward 800 200000001000000 = Inr 18384000000"
proof -
  obtain r where r: "GetReward 800 200000001000000 = Inr r" "sint r = 18384000000"
    using GetReward_exact [of 200000001000000 800] by auto
  then show ?thesis
    by (simp add: signed_word_eqI)
qed

lemma sample_paid_checked:
  "CheckBlockTransfers sample_library sample_books_chain 800 sample_paid_block sample_parent_block sample_paid_ledger
     = (Inr (18384000000, 300000), sample_paid_ledger)"
proof -
  have tx: "addr_ByteValue (GetSenderAddress sample_tx) = replicate 20 7" "Amount (tx_TxData sample_tx) = 42" "MultiSignTx (tx_TxParam sample_tx) = ZerosHash"
    "GasUsage sample_tx = 30000" "tx_Height sample_tx = 77"
    by (simp_all add: sample_tx_def zero_TxData_def sample_addr_def GetSenderAddress_def)
  have deploy: "ValidateContractDeployment at sample_tx = None" for at
    by (simp add: ValidateContractDeployment_def isContractDeployment_def sample_tx_def zero_TxData_def)
  have "\<exists>t. steps (map (check_block_tx sample_crypto sample_registry 80) [(True, sample_tx)]) (new_tally sample_paid_ledger) = (None, t) \<and>
    ta_badTxErr t = None \<and> ta_totalFee t = 300000 \<and> ta_ledger t = sample_paid_ledger"
    by (simp add: check_block_tx_def TransactionHeightInWindow_def sample_tx_kind tx count_fee_def deploy check_stake_and_funds_def check_funds_def
        new_tally_def sample_paid_ledger_def GetAccountByAddressBytes_def then_ok_def Let_def)
  then obtain t where t: "steps (map (check_block_tx sample_crypto sample_registry 80) [(True, sample_tx)]) (new_tally sample_paid_ledger) = (None, t)"
    "ta_badTxErr t = None" "ta_totalFee t = 300000" "ta_ledger t = sample_paid_ledger"
    by blast
  show ?thesis
    unfolding CheckBlockTransfers_def sample_books_fields sample_loaded prod.case Let_def sum.case
    using t by (simp add: sample_paid_verified sample_reward del: steps.simps list.map)
qed



lemma sample_paid_header_fields:
  "bh_DelegatedAccount (GetHeader sample_paid_block) = sample_delegate" "bh_OperatorAccount (GetHeader sample_paid_block) = sample_addr 7"
  "bh_StateRoot (GetHeader sample_paid_block) = replicate 32 9" "sig_ByteValue (bh_Signature (GetHeader sample_paid_block)) = [0, 1, 2]"
  "bb_OracleProofs (bl_BaseBlock sample_paid_block) = []" "bb_PriceOracleData (bl_BaseBlock sample_paid_block) = []" "bb_PriceOracle (bl_BaseBlock sample_paid_block) = 0"
  "bb_PriceOracle (bl_BaseBlock sample_parent_block) = 0" "bb_RandReveal (bl_BaseBlock sample_paid_block) = []" "bb_RewardPercentage (bl_BaseBlock sample_paid_block) = 0"
  "header_slot sample_paid_block primary = sample_live" "header_slot sample_parent_block primary = sample_live" "bl_BlockFee sample_parent_block = 0"
  by (simp_all add: sample_paid_block_def sample_paid_header_def sample_parent_block_def sample_genesis_defs header_slot_def)

lemma sample_stake_shard: "GetStakedInDelegatedAccount sample_stake 3 = ([(200000000000000, replicate 20 7)], 200000000000000, (200000000000000, replicate 20 7))"
  by (simp add: GetStakedInDelegatedAccount_def sample_stake_def sample_shards_def keep_better_def better_def)

lemma sample_paid_signed: "verifyBlockHeaderSignature sample_library sample_books_chain sample_paid_block sample_parent_block = None"
proof -
  have msg: "BaseHeader_GetBytesWithoutSignature (GetHeader sample_paid_block) = bh_SignatureMessage (GetHeader sample_paid_block)"
    by (simp add: sample_paid_block_def GetHeader_def BaseHeader_GetBytesWithoutSignature_def header_fields_def)
  have key: "header_key sample_registry sample_oqs sample_paid_names (sample_addr 7) True = Inr (sample_key (sample_addr 7))"
    by (simp add: header_key_def sample_oqs_def signingSchemeName_def LoadPubKeyWithPrimaryOfLengthAsOf_def LoadAddressesAsOf_def sample_paid_names_def
        LoadAddresses_def sample_registry_def empty_registry_def sample_addr_def RegisteredAsOf_def RegistrationHeight_def mget_def LoadPubKey_def sample_key_def)
  show ?thesis
    by (simp add: verifyBlockHeaderSignature_def sample_paid_sig_names BaseHeader_Verify_def msg sample_paid_header_fields key sample_books_fields)
      (simp add: wallet_Verify_def oqs_check_def sample_oqs_def sample_key_def sample_crypto_def sample_paid_names_def)
qed

lemma sample_paid_producer: "producer_checks sample_env sample_books sample_paid_block sample_parent_block = None"
proof -
  have h: "cr_H256 sample_crypto = (\<lambda>_. replicate 32 9)" "GetHashFromBytes (replicate 32 (9 :: byte)) = replicate 32 9"
    by (simp_all add: sample_crypto_def GetHashFromBytes_def Hash_Set_def EmptyHash_def)
  have root: "VerifyStateRoot (cr_H256 sample_crypto) at s vm sample_paid_block = None" for at s vm
    by (simp add: VerifyStateRoot_def ComputeStateRoot_def sample_paid_header_fields h)
  have votes: "VerifyEncryptionVotes sample_library sample_books_chain sample_stake sample_paid_block sample_parent_block = None"
    by (simp add: VerifyEncryptionVotes_def verify_slot_votes_def checkEncryptionChangeShape_def sample_paid_header_fields)
  have "\<not> enough_stake 0 (GetStakedInEligibleDelegatedAccounts sample_stake)"
    using sint_eligible_total [OF sample_stake_bounded(1)] by (subst enough_stake_meaning) (simp_all add: sample_stake_bounded(2))
  then have price: "VerifyPriceOracle sample_stake (GetStakedInEligibleDelegatedAccounts sample_stake) 0 [] 0 = Inr True"
    by (simp add: VerifyPriceOracle_def ParsePriceData_def)
  have rand: "verifyRandaoReveal H sample_stake sample_paid_block = None" for H
    by (simp add: verifyRandaoReveal_def sample_books_fields sample_paid_header_fields mustDelegatedAccountID_def sample_delegate_id GetRandCommit_def RevealDue_def)
      (simp add: sample_stake_def sample_shards_def sample_addr_def zero_StakingAccount_def)
  have "VerifyStakeDependent sample_library sample_books_chain sample_stake sample_paid_block sample_parent_block = None"
    by (simp add: VerifyStakeDependent_def sample_books_fields sample_paid_header_fields mustDelegatedAccountID_def sample_delegate_id sample_operator
        AuthorizeOracleProofSigners_def votes price rand)
  then show ?thesis
    unfolding producer_checks_def sample_books_chain
    by (simp add: sample_env_def sample_books_def sample_books_fields sample_paid_signed root sample_paid_ledger_def sample_paid_header_fields
        sample_delegate_id sample_stake_shard sample_addr_def)
qed


lemma sample_paid_coins: "coins sample_paid_ledger = 200000001000000"
proof -
  have one: "sum_list (map (\<lambda>d. if d = 3 then x else 0) [0..<NumShards]) = (x :: int64)" for x
    unfolding interv_sum_list_conv_sum_set_nat by (simp add: sum.delta)
  have "msum StakedBalance (AllStakingAccounts (sample_stake d)) = (if d = 3 then 200000000000000 else 0)"
    "msum StakingRewards (AllStakingAccounts (sample_stake d)) = (if d = 3 then 0 else 0)" for d
    by (simp_all add: sample_stake_def sample_shards_def zero_StakingAccountsType_def zero_StakingAccount_def)
  then have "total_staked sample_stake = 200000000000000" "total_rewards sample_stake = 0"
    unfolding total_staked_def total_rewards_def by (simp_all only: one)
  then show ?thesis
    by (simp add: coins_totals total_balance_def sample_paid_ledger_def)
qed

definition sample_applied_block :: Block where
  "sample_applied_block = sample_paid_block\<lparr>bl_BlockFee := 300000\<rparr>"

lemma sample_applied_fields:
  "block_height sample_applied_block = 80" "bl_TransactionsHashes sample_applied_block = [replicate 32 9]" "GetHeader sample_applied_block = GetHeader sample_paid_block"
  "bl_BaseBlock sample_applied_block = bl_BaseBlock sample_paid_block" "GetBlockSupply sample_applied_block = 200018385000000"
  using sample_books_fields by (simp_all add: sample_applied_block_def block_height_def GetHeader_def GetBlockSupply_def)

definition sample_prepared :: Ledger where
  "sample_prepared = sample_paid_ledger\<lparr>lg_Pools := (lg_Pools sample_paid_ledger)\<lparr>ps_DB :=
     StoreTree (\<lambda>_. []) 80 \<lparr>Root = [], TxHashes = []\<rparr> (ps_DB (lg_Pools sample_paid_ledger))\<rparr>\<rparr>"

lemma sample_paid_prepared:
  "prepare_transfers sample_env sample_parent_block \<lparr>Root = [], TxHashes = []\<rparr> (sample_paid_block, sample_books)
     = (Inr 18384000000, sample_applied_block, sample_books\<lparr>nd_Ledger := sample_prepared\<rparr>)"
proof -
  have env: "env_lib sample_env = sample_library" "env_ratio sample_env = 800" "env_evaluate sample_env b l = (True, l)" "env_json sample_env = (\<lambda>_. [])"
    and nd: "nd_Ledger sample_books = sample_paid_ledger" "nd_Keys sample_books = sample_registry" "sample_books\<lparr>nd_Ledger := sample_paid_ledger\<rparr> = sample_books"
    for b l by (simp_all add: sample_env_def sample_books_def)
  have checked: "checked_block sample_env sample_parent_block (sample_paid_block, sample_books) = (Inr 18384000000, sample_applied_block, sample_books)"
    by (simp add: checked_block_def sample_paid_producer env sample_books_chain nd sample_paid_checked sample_paid_header_fields sample_applied_block_def)
  have key: "completed_key sample_crypto sample_tx = None"
    by (simp add: completed_key_def sample_tx_def zero_TxData_def zero_PubKey_def)
  have keys: "ProcessBlockPubKey sample_crypto [replicate 32 9] 80 (ps_DB (lg_Pools sample_paid_ledger), sample_registry) = (None, ps_DB (lg_Pools sample_paid_ledger), sample_registry)"
    by (simp add: sample_loaded key)
  obtain st rw where sr: "GetSupplyInStakedAccounts (lg_Staking sample_paid_ledger) = (st, rw)" by fastforce
  have sum: "GetSupplyInAccounts (lg_Accounts sample_paid_ledger) + st + rw = 200000001000000"
    using sample_paid_coins by (simp add: coins_def sr)
  show ?thesis
    unfolding prepare_transfers_def checked prod.case sum.case Let_def nd sr sum sample_books_chain sample_books_fields sample_applied_fields keys env sample_paid_header_fields
    by (simp add: sample_prepared_def sample_books_def)
qed


lemma sample_paid_processed:
  assumes "lg_Accounts l = lg_Accounts sample_paid_ledger"
  shows "\<exists>l1. ProcessTransaction sample_crypto True 0 sample_tx 80 t l = (None, l1) \<and> lg_Staking l1 = lg_Staking l \<and>
    PoolTxEscrow (lg_Pools l1) = PoolTxEscrow (lg_Pools l)"
proof -
  have ne: "replicate 20 (5 :: byte) \<noteq> replicate 20 7" by simp
  have tx: "addr_ByteValue (GetSenderAddress sample_tx) = replicate 20 7" "addr_ByteValue (Sender (tx_TxParam sample_tx)) = replicate 20 7"
    "addr_ByteValue (Recipient (tx_TxData sample_tx)) = replicate 20 5" "Amount (tx_TxData sample_tx) = 42" "MultiSignTx (tx_TxParam sample_tx) = ZerosHash"
    "OptData (tx_TxData sample_tx) = []" "EscrowTransactionsDelay (tx_TxData sample_tx) = 0" "td_MultiSignNumber (tx_TxData sample_tx) = 0"
    by (simp_all add: sample_tx_def zero_TxData_def sample_addr_def GetSenderAddress_def)
  have call: "isContractCallTx sample_tx acc = False" for acc
    by (simp add: isContractCallTx_def tx sample_tx_kind)
  show ?thesis
    unfolding ProcessTransaction_def sample_tx_kind sum.case option.case Let_def
    by (simp add: process_transfer_def history_sender_def history_recipient_def AddTransactionsSender_def AddTransactionsRecipient_def
      appendTxHistory_def tx call assms sample_paid_ledger_def GetAccountByAddressBytes_def on_accounts_def AddBalance_def put_account_def
      ProcessMultiSignAndEscrow_def SetAccountByAddressBytes_def then_ok_def Let_def ne zero_Account_def)
qed

lemma sample_paid_applied:
  assumes "lg_Accounts l = lg_Accounts sample_paid_ledger" "pool_body sample_crypto (replicate 32 9) (ps_DB (lg_Pools l)) = Inr sample_tx"
    "IncludedTxHeight (lg_Pools l) (replicate 32 9) = None"
  shows "\<exists>l1. apply_block_tx sample_crypto True 0 sample_applied_block (replicate 32 9) l = (None, l1) \<and> lg_Staking l1 = lg_Staking l \<and>
    PoolTxEscrow (lg_Pools l1) = PoolTxEscrow (lg_Pools l)"
proof -
  obtain db where db: "LoadFromDBPoolTx sample_crypto TransactionPoolHashesDBPrefix (replicate 32 9) (ps_DB (lg_Pools l)) = (Inr sample_tx, db)"
    using assms(2) by (metis prod.collapse)
  let ?l = "l\<lparr>lg_Pools := (lg_Pools l)\<lparr>ps_DB := db\<rparr>\<rparr>" and ?t = "bb_BlockTimeStamp (bl_BaseBlock sample_applied_block)"
  obtain l1 where l1: "ProcessTransaction sample_crypto True 0 sample_tx 80 ?t ?l = (None, l1)" "lg_Staking l1 = lg_Staking l"
      "PoolTxEscrow (lg_Pools l1) = PoolTxEscrow (lg_Pools l)"
    using sample_paid_processed [of ?l ?t] assms(1) by auto
  have multi: "ProcessTransactionsMultiSign sample_crypto sample_tx 80 l1 = (None, l1)"
    by (simp add: ProcessTransactionsMultiSign_def sample_tx_def)
  have "CheckTransactionInDBAndInMarkleTrie (replicate 32 9) (lg_Pools l) = (None, lg_Pools l)"
    using assms(3) by (simp add: CheckTransactionInDBAndInMarkleTrie_def)
  then show ?thesis
    using l1 multi by (simp add: apply_block_tx_def db sample_applied_fields then_ok_def)
qed

lemma sample_paid_reward:
  assumes "lg_Staking l = sample_stake"
  shows "\<exists>s. steps [distribute_reward 0 sample_applied_block 18384000000, on_staking (applyRandaoCommit sample_applied_block)] l = (None, l\<lparr>lg_Staking := s\<rparr>)"
proof -
  have share: "user_reward 18384000000 200000000000000 200000000000000 = 18384000000"
    by (simp add: user_reward_def)
  have oper: "go_div (0 :: int64) 1000 = 0"
    by (simp add: go_div_def)
  define has where "has s \<longleftrightarrow> (\<exists>acc. map_of (AllStakingAccounts (s 3)) (replicate 20 7) = Some acc \<and> sa_Address acc = replicate 20 7)" for s :: StakingState
  have pay: "\<exists>s'. Reward 0 (replicate 20 7) r 80 3 s = (None, s') \<and> has s'" if "has s" "0 \<le> sint r" for s r
    using that by (auto simp: has_def Reward_def GetStakingAccountByAddressBytes_def mget_def put_staking_def append_detail_def pruneStakingDetails_def Let_def)
  have "has sample_stake"
    by (simp add: has_def sample_stake_def sample_shards_def)
  then obtain s1 where s1: "Reward 0 (replicate 20 7) 0 80 3 sample_stake = (None, s1)" "has s1"
    using pay [of sample_stake 0] by auto
  then obtain s2 where s2: "Reward 0 (replicate 20 7) 18384000000 80 3 s1 = (None, s2)" "has s2"
    using pay [of s1 18384000000] by auto
  have "distribute_reward 0 sample_applied_block 18384000000 l = (None, l\<lparr>lg_Staking := s2\<rparr>)"
    using s1(1) s2(1) by (simp add: distribute_reward_def sample_applied_fields sample_paid_header_fields sample_delegate_id assms sample_stake_shard oper share
        pay_shares_def on_staking_def sample_addr_def then_ok_def Let_def)
  then show ?thesis
    using s2(2) by (auto simp: has_def then_ok_def on_staking_def applyRandaoCommit_def sample_applied_fields sample_paid_header_fields mustDelegatedAccountID_def
        sample_delegate_id SetRandCommit_def sample_addr_def Let_def)
qed


lemma sample_paid_transfers:
  "\<exists>l1. block_transfers sample_crypto True 0 sample_applied_block 18384000000 sample_prepared = (None, l1) \<and>
     ProcessTransactionsEscrow sample_crypto 80 l1 = (None, l1)"
proof -
  define db where "db = ps_DB (lg_Pools sample_prepared)"
  have keys: "map fst db = [TransactionPoolHashesDBPrefix @ replicate 32 9, MerkleNodeDBPrefix @ GetByteInt64 80,
      RootHashMerkleTreeDBPrefix @ GetByteInt64 80, TransactionsHashesByHeightDBPrefix @ GetByteInt64 80]"
    by (simp add: db_def sample_prepared_def sample_paid_ledger_def StoreTree_def Let_def string_bytes_def)
  have "LoadAllKeys (pendingJournalPrefix 80) db = []"
    using keys by (simp add: LoadAllKeys_def pendingJournalPrefix_def string_bytes_def)
  then have journal: "BeginPendingPoolJournal sample_crypto 80 (lg_Pools sample_prepared) = (lg_Pools sample_prepared)\<lparr>journalHeight := 80, journalSeq := 0\<rparr>"
    by (simp add: BeginPendingPoolJournal_def undoPendingPoolsAt_def undoJournalKeys_def db_def)
  define l0 where "l0 = sample_prepared\<lparr>lg_Pools := (lg_Pools sample_prepared)\<lparr>journalHeight := 80, journalSeq := 0\<rparr>\<rparr>"
  have l0: "lg_Accounts l0 = lg_Accounts sample_paid_ledger" "lg_Staking l0 = sample_stake" "PoolTxEscrow (lg_Pools l0) = NewTransactionPool 5 1" "ps_DB (lg_Pools l0) = db"
    by (simp_all add: l0_def db_def sample_prepared_def sample_paid_ledger_def sample_pools_def)
  have "same_bodies (ps_DB (lg_Pools sample_paid_ledger)) db"
    by (simp add: db_def sample_prepared_def StoreTree_bodies)
  then have body: "pool_body sample_crypto (replicate 32 9) (ps_DB (lg_Pools l0)) = Inr sample_tx"
    using pool_body_cong [of db "replicate 32 9" "ps_DB (lg_Pools sample_paid_ledger)" sample_crypto] sample_loaded(1) by (simp add: l0 same_bodies_def)
  have "map_of db (IncludedTxDBPrefix @ replicate 32 9) = None"
    using keys by (simp add: map_of_eq_None_iff flip: set_map)
  then have inc: "IncludedTxHeight (lg_Pools l0) (replicate 32 9) = None"
    by (simp add: IncludedTxHeight_def l0)
  obtain l1 where l1: "apply_block_tx sample_crypto True 0 sample_applied_block (replicate 32 9) l0 = (None, l1)" "lg_Staking l1 = sample_stake"
      "PoolTxEscrow (lg_Pools l1) = NewTransactionPool 5 1"
    using sample_paid_applied [OF l0(1) body inc] l0(2,3) by auto
  obtain s where s: "steps [distribute_reward 0 sample_applied_block 18384000000, on_staking (applyRandaoCommit sample_applied_block)] l1 = (None, l1\<lparr>lg_Staking := s\<rparr>)"
    using sample_paid_reward [OF l1(2)] by blast
  have "block_transfers sample_crypto True 0 sample_applied_block 18384000000 sample_prepared = (None, l1\<lparr>lg_Staking := s\<rparr>)"
    unfolding block_transfers_def sample_applied_fields journal l0_def [symmetric]
    using s by (simp add: l1(1) then_ok_def del: steps.simps(2)) (simp add: l1(1) then_ok_def)
  moreover have "ProcessTransactionsEscrow sample_crypto 80 (l1\<lparr>lg_Staking := s\<rparr>) = (None, l1\<lparr>lg_Staking := s\<rparr>)"
    by (simp add: ProcessTransactionsEscrow_def l1(3) PeekTransactions_def NewTransactionPool_def)
  ultimately show ?thesis by blast
qed


end
