(* ===== verification/Spec2Isabelle.thy ===== *)
theory Spec2Isabelle
  imports Pool_Journal Key_Cache Settlement Block_Books
begin

text \<open>
  A verification development for the qwid node, a post-quantum blockchain node written in Go.

  \<^bold>\<open>The program.\<close> A node keeps accounts and 256 delegated staking accounts (package \<open>account\<close>). Transactions
  (\<open>transactionsDefinition\<close>) arrive from the network or the local wallet, are verified against the registry of
  public keys (\<open>pubkeys\<close>, \<open>wallet\<close>, \<open>crypto/oqs\<close>) and wait in three pools (\<open>transactionsPool\<close>). A block
  (\<open>blocks\<close>) names transactions by hash; it is checked against its parent and against the state, its
  transactions are applied, its producer and the stakers behind it are rewarded, and held transactions
  (escrow, multi-signature) settle. The stake decides who may produce a block, and votes of the stake
  (\<open>voting\<close>) and price data (\<open>oracles\<close>) travel in the block as signed proofs. Snapshots and journals let
  the node rewind to an earlier height (\<open>database\<close>, \<open>blocks\<close>).

  \<^bold>\<open>How Go is modelled.\<close> \<open>Prelude\<close> fixes the vocabulary. Integers are words of their width, so arithmetic wraps as in
  Go and signed comparisons go through \<open>sint\<close>. A byte slice is a list of bytes, and indexing or slicing
  outside it is the error \<open>Panic\<close>, apart from the ordinary errors \<open>Errorf\<close>. A Go map is an association
  list with distinct keys; where the source iterates over a map the order of the list is the order of
  the iteration, and a result that must not depend on it is proved not to. Structs are records, a
  method that changes its receiver takes and returns the state, and a sequence of fallible calls is a
  list of commands run by \<open>steps\<close>. Hash functions, the signature library, the JSON encoding of tree nodes,
  the virtual machine with the exchange, the wallet and the clock are arguments; what a theorem needs
  of them (no collision on the inputs at hand, a digest of 32 bytes, evaluation that keeps the ledger in
  order) is a hypothesis of that theorem.

  \<^bold>\<open>Values and codecs.\<close>
  \<^item> \<open>Common\<close> (\<open>common/\<close>): addresses, hashes, keys, signatures, length-prefixed fields, the two
    signature-scheme slots, parameters, recovery preimages.
  \<^item> \<open>Transaction\<close>, \<open>Recovery_Tx\<close> (\<open>transactionsDefinition/\<close>): codec, fee, hash preimage, kinds of
    transactions and their payloads. The codec round-trips and the preimage commits to what is executed.
  \<^item> \<open>Block_Codec\<close> (\<open>blocks/baseBlock.go\<close>, \<open>Block.go\<close>): header, body, hashes, the signed message and
    the store of blocks.
  \<^item> \<open>Schemes\<close> (\<open>crypto/oqs/encryptSchemes.go\<close>): the configuration of a scheme, its parsing and its cache.
  \<^item> \<open>Merkle\<close> (\<open>transactionsPool/merkleTree.go\<close>, \<open>pubkeys/\<close>): both Merkle trees; the loop that builds them
    level by level refines a recursive tree.

  \<^bold>\<open>State.\<close>
  \<^item> \<open>Account\<close> (\<open>account/baseAccount.go\<close>, \<open>recovery.go\<close>, \<open>accountsStates.go\<close>): balances, history, spare and
    recovery commitments with their maturity, recovery binds, the snapshot.
  \<^item> \<open>Staking\<close>, \<open>Staking_Shards\<close> (\<open>account/stakeAccount.go\<close>, \<open>accountsStakingStates.go\<close>): stakes, locks, rewards,
    pruning of details, the delegated accounts and the 128 eligible ones. Balances stay the sums of the
    recorded details, and eligibility does not depend on the iteration order; its contract is the locale
    \<open>ranking\<close>.
  \<^item> \<open>Reward_Curve\<close> (\<open>account/reward.go\<close>): the reward, computed with 128-bit primitives, is exact.
  \<^item> \<open>Keys\<close>, \<open>Key_Cache\<close> (\<open>pubkeys/\<close>, \<open>blocks/processPubKey.go\<close>): registration, reads as of a height, rewind, and
    the decode cache under every interleaving of readers and writers.
  \<^item> \<open>Heights\<close> (\<open>database/helperDB.go\<close>, \<open>blocks/\<close>, \<open>account/\<close>): which heights and snapshots are stored.

  \<^bold>\<open>Pools.\<close>
  \<^item> \<open>Heap\<close> (\<open>container/heap\<close> of Go over \<open>transactionsPool/basePool.go\<close>): sifting and the heap contract, as the
    locale \<open>heap_order\<close>, interpreted for the two orders of the pool.
  \<^item> \<open>TxPool\<close> (\<open>transactionsPool/poolTx.go\<close>): the pool with its two heaps, indexes, limit, bans and the
    per-sender counter of committed coins.
  \<^item> \<open>Pool_Store\<close> (\<open>transactionsPool/\<close>, \<open>services/transactionServices\<close>): the pools with the database, admission,
    the index of included transactions.
  \<^item> \<open>Pool_Journal\<close> (\<open>transactionsPool/pendingJournal.go\<close>): the journal of the held pools refines an undo log
    (locale \<open>undo_log\<close>), so a rewind restores them.

  \<^bold>\<open>Transactions.\<close>
  \<^item> \<open>Verify\<close> (\<open>transactionsDefinition/transaction.go\<close>, \<open>wallet/\<close>): the whole of \<open>verify\<close>: who may act for an
    account, and what a recovery needs.
  \<^item> \<open>Ledger\<close>, \<open>Ledger_Supply\<close> (\<open>blocks/processTransaction.go\<close>, \<open>blockAccountState.go\<close>): applying a transaction.
    Every command states how it moves the sum of all coins; the account book is the locale
    \<open>account_book\<close>.
  \<^item> \<open>Settlement\<close>: escrow settles when its delay has passed, a multi-signature transfer needs its approvals.

  \<^bold>\<open>Blocks.\<close>
  \<^item> \<open>Oracles\<close>, \<open>Oracle_Data\<close> (\<open>oracles/\<close>, \<open>blocks/oracleProofs.go\<close>): price submissions, proofs, the robust median.
  \<^item> \<open>Governance\<close> (\<open>voting/\<close>, \<open>blocks/encryptionVote.go\<close>, \<open>processEncryption.go\<close>): votes on the schemes and their adoption.
  \<^item> \<open>Randao\<close> (\<open>blocks/randao.go\<close>): commitments and reveals behind the random value of a block.
  \<^item> \<open>Block_Rules\<close> (\<open>blocks/processBlock.go\<close>): \<open>CheckBaseBlock\<close> and the checks that depend on the stake. The
    relation \<open>valid_chain\<close> says which chains pass, and its tip hash fixes the history.
  \<^item> \<open>State_Root\<close> (\<open>blocks/stateRoot.go\<close>): the root of the state and what it commits to, over the locale
    \<open>self_delimiting\<close> for the fields that can be read back from the stream.
  \<^item> \<open>Block_Apply\<close> (\<open>blocks/processBlock.go\<close>): loading bodies, \<open>CheckBlockTransfers\<close>, \<open>ProcessBlockTransfers\<close>,
    \<open>CheckBlockAndTransactions\<close> and \<open>CheckBlockAndTransferFunds\<close> on the state of a node.
  \<^item> \<open>Block_Supply\<close>, \<open>Block_Books\<close>: an accepted block is funded sender by sender, and after it the coins of
    the ledger and the fee carried on are the supply in its header.

  \<^bold>\<open>Bounds and termination.\<close> There is no fuel: loops are structural recursions or functions with a measure, and the
  search for the last stored height is shown to end. Statements about sums name the bound that keeps
  them within 64 bits, where the code does not check it.

  \<^bold>\<open>Not modelled.\<close> The virtual machine and its ABI and state database (\<open>core/\<close>, \<open>rlp\<close>), evaluation of contracts and
  the exchange (\<open>blocks/evaluate.go\<close>, \<open>account/dexAccount.go\<close>), which enter as the argument
  \<open>env_evaluate\<close>; network, message loops and synchronisation (\<open>tcpip\<close>, \<open>message\<close>, \<open>services\<close>); construction of the
  genesis block; RPC handlers apart from the cancellation of a pooled transaction; wallets, key files
  and mnemonics; logging, statistics, command line and graphical tools. The proof of synergy is
  computed in floating point and is the argument \<open>validProof\<close>. Locks and goroutines are modelled only
  for the key cache, where readers and writers interleave.
\<close>

text \<open>C23: No input makes a decoder of stored or received bytes panic: reading the accounts snapshot, a
  staking shard, a transaction, a block or its header from any byte string returns a value or an
  ordinary error.\<close>

theorem decoders_never_panic:
  "no_panic (AccountsType_Unmarshal at d) \<and> no_panic (StakingAccountsType_Unmarshal st d) \<and>
   no_panic (Transaction_GetFromBytes enc H160 d) \<and> no_panic (Block_GetFromBytes tb d) \<and> no_panic (BaseHeader_GetFromBytes d)"
  using no_panic_AccountsType_Unmarshal no_panic_StakingAccountsType_Unmarshal no_panic_Transaction no_panic_Block no_panic_BaseHeader by blast

end
